(* ===== verification/Prelude.thy ===== *)
theory Prelude
  imports
    Complex_Main
    "HOL-Library.Multiset"
    "HOL-Library.Char_ord"
    "HOL-Library.List_Lexorder"
    "HOL-Library.Sublist"
    "HOL-Library.Finite_Map"
begin

text \<open>
  Shared ground of the development: the collections of simplification facts, the Go
  run-time notions every component uses (int64 wrap-around, instants and durations,
  byte strings, decimal rendering, stable sorting) and the generic lemmas on lists and
  finite maps that the component proofs rest on.

  Instants are integers, the nanoseconds since the zero \<^verbatim>\<open>time.Time\<close>
  (0001-01-01 00:00:00 UTC), so the zero instant is 0; all instants are UTC, as every
  instant the program stores is. Durations are integers in nanoseconds. Strings are byte
  lists, as in Go. A Go map is a finite map: its iteration order is not observable
  in the model, as it must not be in the program.
\<close>

named_theorems go_time "unfolding of the instant and duration operations"
named_theorems runner_frame "fields an operation of the loop runner leaves unchanged"
named_theorems classify_simps "error classification"

section \<open>Integers at their width\<close>

definition wrap64 :: "int \<Rightarrow> int" where
  "wrap64 x = (x + 2 ^ 63) mod 2 ^ 64 - 2 ^ 63"

definition in_int64 :: "int \<Rightarrow> bool" where
  "in_int64 x \<longleftrightarrow> - (2 ^ 63) \<le> x \<and> x < 2 ^ 63"

definition quot :: "int \<Rightarrow> int \<Rightarrow> int" where
  "quot a b = sgn a * sgn b * (\<bar>a\<bar> div \<bar>b\<bar>)"

definition rem :: "int \<Rightarrow> int \<Rightarrow> int" where
  "rem a b = a - b * quot a b"

section \<open>Instants and durations\<close>

type_synonym instant = int
type_synonym duration = int

definition Millisecond :: duration where "Millisecond = 1000000"
definition Second :: duration where "Second = 1000000000"
definition Minute :: duration where "Minute = 60000000000"
definition Hour :: duration where "Hour = 3600000000000"

definition unix_epoch :: instant where
  "unix_epoch = 62135596800 * 1000000000"

definition zero_time :: instant where "zero_time = 0"

definition IsZero :: "instant \<Rightarrow> bool" where "IsZero t \<longleftrightarrow> t = 0"

definition sat64 :: "int \<Rightarrow> int" where
  "sat64 x = (if x < - (2 ^ 63) then - (2 ^ 63) else if 2 ^ 63 - 1 < x then 2 ^ 63 - 1 else x)"

definition time_Add :: "instant \<Rightarrow> duration \<Rightarrow> instant" where
  "time_Add t d = t + d"

definition time_Sub :: "instant \<Rightarrow> instant \<Rightarrow> duration" where
  "time_Sub t u = sat64 (t - u)"

definition time_Truncate :: "instant \<Rightarrow> duration \<Rightarrow> instant" where
  "time_Truncate t d = (if d \<le> 0 then t else t - t mod d)"

definition UnixNano :: "instant \<Rightarrow> int" where
  "UnixNano t = wrap64 (t - unix_epoch)"

definition UnixMilli :: "instant \<Rightarrow> int" where
  "UnixMilli t = wrap64 ((t - unix_epoch) div 1000000)"

definition ns_per_day :: int where "ns_per_day = 86400000000000"

text \<open>The proleptic Gregorian year of an instant, by 400/100/4/1-year cycles.\<close>

definition year_of_cycle :: "int \<Rightarrow> int" where
  "year_of_cycle d1 =
     (let n100 = min 3 (d1 div 36524); d2 = d1 - 36524 * n100;
          n4 = d2 div 1461; d3 = d2 mod 1461; n1 = min 3 (d3 div 365)
      in 100 * n100 + 4 * n4 + n1 + 1)"

definition year_of_days :: "int \<Rightarrow> int" where
  "year_of_days d = 400 * (d div 146097) + year_of_cycle (d mod 146097)"

definition time_Year :: "instant \<Rightarrow> int" where
  "time_Year t = year_of_days (t div ns_per_day)"

section \<open>Strings\<close>

definition HasPrefix :: "string \<Rightarrow> string \<Rightarrow> bool" where
  "HasPrefix s p \<longleftrightarrow> prefix p s"

fun Contains :: "string \<Rightarrow> string \<Rightarrow> bool" where
  "Contains [] p = (p = [])"
| "Contains (c # cs) p = (prefix p (c # cs) \<or> Contains cs p)"

text \<open>Lower-casing and white space on ASCII bytes; other bytes are left as they are.\<close>

definition ascii_lower :: "char \<Rightarrow> char" where
  "ascii_lower c = (let n = of_char c :: nat in if 65 \<le> n \<and> n \<le> 90 then char_of (n + 32) else c)"

definition ToLower :: "string \<Rightarrow> string" where
  "ToLower s = map ascii_lower s"

definition is_space :: "char \<Rightarrow> bool" where
  "is_space c \<longleftrightarrow> (let n = of_char c :: nat in n = 32 \<or> (9 \<le> n \<and> n \<le> 13))"

definition TrimSpace :: "string \<Rightarrow> string" where
  "TrimSpace s = rev (dropWhile is_space (rev (dropWhile is_space s)))"

definition trunc_to :: "nat \<Rightarrow> string \<Rightarrow> string" where
  "trunc_to n s = (if n < length s then take n s else s)"

fun split_on :: "char \<Rightarrow> string \<Rightarrow> string list" where
  "split_on c [] = [[]]"
| "split_on c (x # xs) =
     (if x = c then [] # split_on c xs
      else (case split_on c xs of [] \<Rightarrow> [[x]] | w # ws \<Rightarrow> (x # w) # ws))"

fun join_with :: "string \<Rightarrow> string list \<Rightarrow> string" where
  "join_with sep [] = []"
| "join_with sep [w] = w"
| "join_with sep (w # v # ws) = w @ sep @ join_with sep (v # ws)"

definition digit_char :: "nat \<Rightarrow> char" where
  "digit_char d = char_of (48 + d)"

fun itoa :: "nat \<Rightarrow> string" where
  "itoa n = (if n < 10 then [digit_char n] else itoa (n div 10) @ [digit_char (n mod 10)])"

declare itoa.simps [simp del]

definition colon :: char where "colon = CHR '':''"

text \<open>\<^verbatim>\<open>fmt.Fprintf("%d:%s", len(s), s)\<close>: a length-prefixed component.\<close>

definition len_prefixed :: "string \<Rightarrow> string" where
  "len_prefixed s = itoa (length s) @ colon # s"

section \<open>Stable sorting by a strict comparison\<close>

fun insert_by :: "('a \<Rightarrow> 'a \<Rightarrow> bool) \<Rightarrow> 'a \<Rightarrow> 'a list \<Rightarrow> 'a list" where
  "insert_by lt x [] = [x]"
| "insert_by lt x (y # ys) = (if lt x y then x # y # ys else y # insert_by lt x ys)"

text \<open>
  \<^verbatim>\<open>sort.SliceStable\<close>: elements are inserted from the left, each after the elements it
  is not smaller than, which keeps equal elements in input order.
\<close>

definition stable_sort :: "('a \<Rightarrow> 'a \<Rightarrow> bool) \<Rightarrow> 'a list \<Rightarrow> 'a list" where
  "stable_sort lt xs = fold (insert_by lt) xs []"

definition strict_weak :: "('a \<Rightarrow> 'a \<Rightarrow> bool) \<Rightarrow> bool" where
  "strict_weak lt \<longleftrightarrow>
     (\<forall>x. \<not> lt x x) \<and> (\<forall>x y z. lt x y \<longrightarrow> lt y z \<longrightarrow> lt x z) \<and>
     (\<forall>x y z. lt x y \<longrightarrow> lt x z \<or> lt z y)"

section \<open>Finite maps\<close>

type_synonym labels = "(string, string) fmap"

definition sorted_keys :: "('k::linorder, 'v) fmap \<Rightarrow> 'k list" where
  "sorted_keys m = sorted_list_of_fset (fmdom m)"

definition map_get :: "(string, string) fmap \<Rightarrow> string \<Rightarrow> string" where
  "map_get m k = (case fmlookup m k of None \<Rightarrow> '''' | Some v \<Rightarrow> v)"

text \<open>A label set as the list of its keys and values, keys in ascending order.\<close>

definition label_components :: "labels \<Rightarrow> string list" where
  "label_components m = concat (map (\<lambda>k. [k, map_get m k]) (sorted_keys m))"

definition len_prefixed_all :: "string list \<Rightarrow> string" where
  "len_prefixed_all ws = concat (map len_prefixed ws)"

section \<open>Lemmas\<close>

subsection \<open>Integers and instants\<close>

lemma wrap64_id: "in_int64 x \<Longrightarrow> wrap64 x = x"
  by (simp add: wrap64_def in_int64_def)

lemma in_int64_wrap64: "in_int64 (wrap64 x)"
  by (simp add: wrap64_def in_int64_def)

lemma in_int64_sat64: "in_int64 (sat64 x)"
  by (simp add: sat64_def in_int64_def)

lemma sat64_id: "in_int64 x \<Longrightarrow> sat64 x = x"
  by (simp add: sat64_def in_int64_def)

lemma sat64_pos_iff [simp]: "0 < sat64 x \<longleftrightarrow> 0 < x"
  by (simp add: sat64_def)

lemma sat64_nonpos_iff [simp]: "sat64 x \<le> 0 \<longleftrightarrow> x \<le> 0"
  by (simp add: sat64_def)

lemma sat64_gt_iff: "in_int64 d \<Longrightarrow> d < 2 ^ 63 - 1 \<Longrightarrow> d < sat64 x \<longleftrightarrow> d < x"
  by (auto simp: sat64_def in_int64_def)

lemma unix_range_iff:
  "in_int64 (t - unix_epoch) \<longleftrightarrow> unix_epoch - 2 ^ 63 \<le> t \<and> t < unix_epoch + 2 ^ 63"
  by (auto simp: in_int64_def)

lemma UnixNano_less_iff:
  "in_int64 (t - unix_epoch) \<Longrightarrow> in_int64 (u - unix_epoch) \<Longrightarrow> UnixNano t < UnixNano u \<longleftrightarrow> t < u"
  by (simp add: UnixNano_def wrap64_id)

lemma UnixNano_eq_iff:
  "in_int64 (t - unix_epoch) \<Longrightarrow> in_int64 (u - unix_epoch) \<Longrightarrow> UnixNano t = UnixNano u \<longleftrightarrow> t = u"
  by (simp add: UnixNano_def wrap64_id)

lemma time_Truncate_le: "time_Truncate t d \<le> t"
  by (simp add: time_Truncate_def)

lemma time_Truncate_eq_iff:
  assumes "0 < d"
  shows "time_Truncate t d = time_Truncate u d \<longleftrightarrow> t div d = u div d"
proof -
  have "time_Truncate t d = d * (t div d)" "time_Truncate u d = d * (u div d)"
    using assms by (simp_all add: time_Truncate_def minus_mod_eq_mult_div)
  then show ?thesis using assms by simp
qed

lemma year_of_cycle_range:
  assumes "0 \<le> d" "d < 146097"
  shows "1 \<le> year_of_cycle d \<and> year_of_cycle d \<le> 400 \<and> (year_of_cycle d \<le> 399 \<longleftrightarrow> d < 145731)"
proof -
  define n100 where "n100 = min 3 (d div 36524)"
  define d2 where "d2 = d - 36524 * n100"
  define n4 where "n4 = d2 div 1461"
  define d3 where "d3 = d2 mod 1461"
  define n1 where "n1 = min 3 (d3 div 365)"
  have n100: "0 \<le> n100" "n100 \<le> 3" "36524 * n100 \<le> d" "n100 < 3 \<longrightarrow> d < 36524 * n100 + 36524"
    using assms by (simp_all add: n100_def min_def) linarith+
  have d2: "0 \<le> d2" "n100 < 3 \<longrightarrow> d2 < 36524" "d2 \<le> 36524"
    using n100 assms by (simp_all add: d2_def) linarith+
  have n4: "0 \<le> n4" "n4 \<le> 24" "d2 = 1461 * n4 + d3" "0 \<le> d3" "d3 < 1461"
    using d2 by (simp_all add: n4_def d3_def)
  have n1: "0 \<le> n1" "n1 \<le> 3" "365 * n1 \<le> d3" "n1 < 3 \<longrightarrow> d3 < 365 * n1 + 365"
    using n4 by (simp_all add: n1_def min_def) linarith+
  have y: "year_of_cycle d = 100 * n100 + 4 * n4 + n1 + 1"
    by (simp add: year_of_cycle_def n100_def d2_def n4_def d3_def n1_def Let_def)
  have "d = 36524 * n100 + 1461 * n4 + d3" using n4 by (simp add: d2_def)
  then show ?thesis using n100 n4 n1 unfolding y by linarith
qed

lemma cycle_bounds_arith:
  fixes q r y :: int
  assumes "0 \<le> r" "r < 146097" "1 \<le> y" "y \<le> 400" "y \<le> 399 \<longleftrightarrow> r < 145731"
  shows "1 \<le> 400 * q + y \<longleftrightarrow> 0 \<le> 146097 * q + r"
    and "400 * q + y \<le> 9999 \<longleftrightarrow> 146097 * q + r < 3652059"
proof -
  show "1 \<le> 400 * q + y \<longleftrightarrow> 0 \<le> 146097 * q + r"
    using assms(1-4) by (cases "0 \<le> q") auto
  consider "q \<le> 23" | "q = 24" | "25 \<le> q" by linarith
  then show "400 * q + y \<le> 9999 \<longleftrightarrow> 146097 * q + r < 3652059"
    using assms by cases auto
qed

lemma year_of_days_bounds:
  "1 \<le> year_of_days d \<longleftrightarrow> 0 \<le> d"
  "year_of_days d \<le> 9999 \<longleftrightarrow> d < 3652059"
proof -
  have r: "0 \<le> d mod 146097" "d mod 146097 < 146097" by simp_all
  from year_of_cycle_range [OF r] r cycle_bounds_arith
      [of "d mod 146097" "year_of_cycle (d mod 146097)" "d div 146097"]
  show "1 \<le> year_of_days d \<longleftrightarrow> 0 \<le> d" "year_of_days d \<le> 9999 \<longleftrightarrow> d < 3652059"
    by (simp_all add: year_of_days_def)
qed

lemma time_Year_bounds:
  "1 \<le> time_Year t \<longleftrightarrow> 0 \<le> t"
  "time_Year t \<le> 9999 \<longleftrightarrow> t < 3652059 * ns_per_day"
proof -
  have "0 \<le> t div ns_per_day \<longleftrightarrow> 0 \<le> t" "t div ns_per_day < 3652059 \<longleftrightarrow> t < 3652059 * ns_per_day"
    unfolding ns_per_day_def by linarith+
  then show "1 \<le> time_Year t \<longleftrightarrow> 0 \<le> t" "time_Year t \<le> 9999 \<longleftrightarrow> t < 3652059 * ns_per_day"
    by (simp_all add: time_Year_def year_of_days_bounds)
qed

subsection \<open>Decimal rendering and length prefixes\<close>

lemma digit_char_range: "d < 10 \<Longrightarrow> of_char (digit_char d) = 48 + d"
  by (simp add: digit_char_def)

lemma digit_char_inj: "d < 10 \<Longrightarrow> e < 10 \<Longrightarrow> digit_char d = digit_char e \<longleftrightarrow> d = e"
  by (metis add_left_cancel digit_char_range)

lemma digit_char_not_colon: "d < 10 \<Longrightarrow> digit_char d \<noteq> colon"
  using digit_char_range [of d] by (auto simp: colon_def)

lemma colon_notin_itoa: "colon \<notin> set (itoa n)"
proof (induction n rule: itoa.induct)
  case (1 n)
  then show ?case
    using digit_char_not_colon [of n] digit_char_not_colon [of "n mod 10"]
    by (cases "n < 10") (auto simp: itoa.simps [of n])
qed

lemma itoa_not_Nil [simp]: "itoa n \<noteq> []"
  by (subst itoa.simps) simp

lemma itoa_inj: "itoa m = itoa n \<Longrightarrow> m = n"
proof (induction m arbitrary: n rule: itoa.induct)
  case (1 m)
  note eq = "1.prems"
  show ?case
  proof (cases "m < 10")
    case True
    then have "itoa n = [digit_char m]" using eq by (simp add: itoa.simps [of m])
    moreover have n: "n < 10"
      using calculation by (cases "n < 10") (auto simp: itoa.simps [of n])
    ultimately have "digit_char n = digit_char m" by (simp add: itoa.simps [of n])
    then show ?thesis using True n digit_char_inj by simp
  next
    case False
    then have m: "itoa m = itoa (m div 10) @ [digit_char (m mod 10)]"
      by (simp add: itoa.simps [of m])
    have n: "\<not> n < 10"
      using eq m by (auto simp: itoa.simps [of n])
    then have "itoa n = itoa (n div 10) @ [digit_char (n mod 10)]"
      by (simp add: itoa.simps [of n])
    with eq m have "itoa (m div 10) = itoa (n div 10)" "digit_char (m mod 10) = digit_char (n mod 10)"
      by simp_all
    then have "m div 10 = n div 10" "m mod 10 = n mod 10"
      using "1.IH" [OF False] digit_char_inj [of "m mod 10" "n mod 10"] by simp_all
    then show ?thesis by (metis div_mult_mod_eq)
  qed
qed

lemma split_at_first_unique:
  "c \<notin> set xs \<Longrightarrow> c \<notin> set ys \<Longrightarrow> xs @ c # us = ys @ c # vs \<Longrightarrow> xs = ys \<and> us = vs"
proof (induction xs arbitrary: ys)
  case Nil
  then show ?case by (cases ys) auto
next
  case (Cons x xs)
  then show ?case by (cases ys) auto
qed

lemma len_prefixed_append_inj:
  assumes "len_prefixed a @ x = len_prefixed b @ y"
  shows "a = b \<and> x = y"
proof -
  have "itoa (length a) @ colon # (a @ x) = itoa (length b) @ colon # (b @ y)"
    using assms by (simp add: len_prefixed_def)
  from split_at_first_unique [OF colon_notin_itoa colon_notin_itoa this]
  have "itoa (length a) = itoa (length b)" "a @ x = b @ y" by simp_all
  then show ?thesis by (auto dest: itoa_inj)
qed

lemma len_prefixed_not_Nil [simp]: "len_prefixed s \<noteq> []"
  by (simp add: len_prefixed_def)

lemma len_prefixed_all_inj: "len_prefixed_all xs = len_prefixed_all ys \<Longrightarrow> xs = ys"
proof (induction xs arbitrary: ys)
  case Nil
  then show ?case by (cases ys) (auto simp: len_prefixed_all_def)
next
  case (Cons x xs)
  then obtain y ys' where "ys = y # ys'" by (cases ys) (auto simp: len_prefixed_all_def)
  with Cons show ?case by (auto simp: len_prefixed_all_def dest: len_prefixed_append_inj)
qed

subsection \<open>Sorted keys of finite maps\<close>

lemma set_sorted_keys [simp]: "set (sorted_keys m) = fset (fmdom m)"
  by (simp add: sorted_keys_def)

lemma distinct_sorted_keys [simp]: "distinct (sorted_keys m)"
  by (simp add: sorted_keys_def sorted_list_of_fset.rep_eq)

lemma sorted_sorted_keys [simp]: "sorted (sorted_keys m)"
  by (simp add: sorted_keys_def sorted_list_of_fset.rep_eq)

lemma sorted_keys_of_list [code]: "sorted_keys (fmap_of_list xs) = sort (remdups (map fst xs))"
  by (intro sorted_distinct_set_unique) (simp_all add: fset_of_list.rep_eq)

lemma sorted_keys_fmempty [simp]: "sorted_keys fmempty = []"
  by (simp add: sorted_keys_def sorted_list_of_fset.rep_eq)

lemma sorted_keys_single [simp]: "sorted_keys (fmupd k v fmempty) = [k]"
  by (simp add: sorted_keys_def sorted_list_of_fset.rep_eq)

lemma sorted_keys_Nil_iff [simp]: "sorted_keys m = [] \<longleftrightarrow> m = fmempty"
proof
  assume "sorted_keys m = []"
  then have "set (sorted_keys m) = {}" by simp
  then have "fmdom m = {||}" by (simp add: bot_fset.rep_eq flip: fset_inject)
  then show "m = fmempty" by (metis fmap_ext fmdom_empty fmdom_notD fempty_iff fmempty_lookup)
qed simp

lemma pair_list_inj:
  "concat (map (\<lambda>k. [k, f k]) ks) = concat (map (\<lambda>k. [k, g k]) ls) \<Longrightarrow>
   ks = ls \<and> (\<forall>k\<in>set ks. f k = g k)"
proof (induction ks arbitrary: ls)
  case Nil
  then show ?case by (cases ls) auto
next
  case (Cons k ks)
  then show ?case by (cases ls) auto
qed

lemma label_components_inj: "label_components m = label_components n \<longleftrightarrow> m = n"
proof
  assume "label_components m = label_components n"
  from pair_list_inj [OF this [unfolded label_components_def]]
  have keys: "sorted_keys m = sorted_keys n"
    and vals: "\<forall>k\<in>set (sorted_keys m). map_get m k = map_get n k" by blast+
  have dom: "fmdom m = fmdom n"
    using arg_cong [OF keys, of set] by (simp add: fset_inject)
  show "m = n"
  proof (rule fmap_ext)
    fix k
    show "fmlookup m k = fmlookup n k"
    proof (cases "k |\<in>| fmdom m")
      case True
      moreover obtain u v where "fmlookup m k = Some u" "fmlookup n k = Some v"
        using True dom by (metis fmlookup_dom_iff)
      ultimately show ?thesis using vals by (auto simp: map_get_def)
    next
      case False
      then show ?thesis using dom by (metis fmdom_notD)
    qed
  qed
qed simp

subsection \<open>Stable sorting\<close>

lemma mset_insert_by [simp]: "mset (insert_by lt x xs) = add_mset x (mset xs)"
  by (induction xs) auto

lemma mset_fold_insert_by: "mset (fold (insert_by lt) xs ys) = mset xs + mset ys"
  by (induction xs arbitrary: ys) auto

lemma mset_stable_sort [simp]: "mset (stable_sort lt xs) = mset xs"
  by (simp add: stable_sort_def mset_fold_insert_by)

lemma set_stable_sort [simp]: "set (stable_sort lt xs) = set xs"
  by (metis mset_stable_sort set_mset_mset)

lemma length_stable_sort [simp]: "length (stable_sort lt xs) = length xs"
  by (metis mset_stable_sort size_mset)

lemma set_insert_by [simp]: "set (insert_by lt x xs) = insert x (set xs)"
  by (induction xs) auto

lemma strict_weakD:
  assumes "strict_weak lt"
  shows "\<not> lt x x" and "lt x y \<Longrightarrow> lt y z \<Longrightarrow> lt x z" and "lt x y \<Longrightarrow> \<not> lt y x"
    and "lt x y \<Longrightarrow> \<not> lt z y \<Longrightarrow> lt x z" and "\<not> lt y x \<Longrightarrow> \<not> lt z y \<Longrightarrow> \<not> lt z x"
  using assms unfolding strict_weak_def by blast+

lemma sorted_insert_by:
  assumes "strict_weak lt" "sorted_wrt (\<lambda>x y. \<not> lt y x) ys"
  shows "sorted_wrt (\<lambda>x y. \<not> lt y x) (insert_by lt x ys)"
  using assms(2)
proof (induction ys)
  case Nil
  then show ?case by simp
next
  case (Cons y ys)
  show ?case
  proof (cases "lt x y")
    case True
    have "\<not> lt z x" if "z \<in> set ys" for z
      using that Cons.prems True strict_weakD(2) [OF assms(1)] by auto
    then show ?thesis using True Cons.prems strict_weakD(3) [OF assms(1) True] by auto
  next
    case False
    then show ?thesis using Cons by auto
  qed
qed

lemma sorted_stable_sort:
  assumes "strict_weak lt"
  shows "sorted_wrt (\<lambda>x y. \<not> lt y x) (stable_sort lt xs)"
proof -
  have "sorted_wrt (\<lambda>x y. \<not> lt y x) ys \<Longrightarrow>
        sorted_wrt (\<lambda>x y. \<not> lt y x) (fold (insert_by lt) xs ys)" for ys
    by (induction xs arbitrary: ys) (auto intro: sorted_insert_by [OF assms])
  then show ?thesis by (simp add: stable_sort_def)
qed

text \<open>
  A list sorted by a comparison that tells its elements apart is the only sorted
  arrangement of its multiset: sorting does not depend on the input order.
\<close>

lemma sorted_wrt_mset_unique:
  assumes "\<forall>x\<in>set xs. \<forall>y\<in>set xs. R x y \<longrightarrow> R y x \<longrightarrow> x = y"
    and "sorted_wrt R xs" "sorted_wrt R ys" "mset xs = mset ys"
  shows "xs = ys"
  using assms
proof (induction xs arbitrary: ys)
  case Nil
  then show ?case by simp
next
  case (Cons x xs)
  then obtain y ys' where ys: "ys = y # ys'" by (cases ys) auto
  have "x = y"
  proof (rule ccontr)
    assume ne: "x \<noteq> y"
    have "set ys = set (x # xs)" using Cons.prems(4) by (metis set_mset_mset)
    then have "y \<in> set xs" "x \<in> set ys'" using ne ys by auto
    then have "R x y" "R y x" using Cons.prems(2,3) ys by auto
    then show False using ne \<open>y \<in> set xs\<close> Cons.prems(1) by auto
  qed
  moreover have "xs = ys'"
    using Cons ys \<open>x = y\<close> by (intro Cons.IH) auto
  ultimately show ?case using ys by simp
qed

lemma stable_sort_perm:
  assumes "strict_weak lt" "mset xs = mset ys"
    and "\<forall>x\<in>set xs. \<forall>y\<in>set xs. x \<noteq> y \<longrightarrow> lt x y \<or> lt y x"
  shows "stable_sort lt xs = stable_sort lt ys"
proof (rule sorted_wrt_mset_unique [where R = "\<lambda>x y. \<not> lt y x"])
  show "\<forall>x\<in>set (stable_sort lt xs). \<forall>y\<in>set (stable_sort lt xs). \<not> lt y x \<longrightarrow> \<not> lt x y \<longrightarrow> x = y"
    using assms(3) by auto
qed (use assms(2) sorted_stable_sort [OF assms(1)] in auto)

section \<open>The end of a log\<close>

definition last_opt :: "'a list \<Rightarrow> 'a option" where
  "last_opt l = (if l = [] then None else Some (last l))"

lemma last_opt_simps [simp]: "last_opt [] = None" "last_opt (l @ [c]) = Some c"
  by (simp_all add: last_opt_def)

lemma last_opt_Some_in: "last_opt l = Some a \<Longrightarrow> a \<in> set l"
  by (auto simp: last_opt_def split: if_splits)

lemma last_opt_None [simp]: "last_opt l = None \<longleftrightarrow> l = []"
  by (simp add: last_opt_def)

lemma subseq_set: "subseq xs ys \<Longrightarrow> x \<in> set xs \<Longrightarrow> x \<in> set ys"
  by (metis notin_set_nthsI subseq_conv_nths)

lemma distinct_map_concat:
  assumes "distinct xs" "\<And>x. x \<in> set xs \<Longrightarrow> distinct (map f (F x))"
    and "\<And>x y a b. x \<in> set xs \<Longrightarrow> y \<in> set xs \<Longrightarrow> a \<in> set (F x) \<Longrightarrow> b \<in> set (F y) \<Longrightarrow> f a = f b \<Longrightarrow> x = y"
  shows "distinct (map f (concat (map F xs)))"
  using assms
proof (induction xs)
  case (Cons x xs)
  then have "f a \<noteq> f b" if "a \<in> set (F x)" "y \<in> set xs" "b \<in> set (F y)" for a y b
    using that Cons.prems(1) Cons.prems(3) [of x y a b] by (metis distinct.simps(2) list.set_intros)
  moreover have "distinct (map f (concat (map F xs)))" using Cons by simp
  moreover have "distinct (map f (F x))" using Cons.prems(2) by simp
  ultimately show ?case by fastforce
qed simp

end
