(* ===== verification/Go_Float.thy ===== *)
theory Go_Float
  imports Prelude
begin

text \<open>
  IEEE 754 binary64 values as the program uses them: comparison, division by a constant,
  multiplication and conversion from and to int64. A finite value is its rational value;
  the two zeros are one value, since no operation of the program tells them apart.
  Results are rounded to nearest, ties to even, with gradual underflow and overflow to
  infinity.
\<close>

datatype float64 = FNaN | FInf bool | Fin rat

definition pow2 :: "int \<Rightarrow> rat" where
  "pow2 e = (if 0 \<le> e then 2 ^ nat e else 1 / 2 ^ nat (- e))"

fun ilog2 :: "nat \<Rightarrow> nat" where
  "ilog2 n = (if n < 2 then 0 else Suc (ilog2 (n div 2)))"

declare ilog2.simps [simp del]

text \<open>The binary exponent of a positive rational: the largest e with 2 to the e at most q.\<close>

definition exponent_of :: "rat \<Rightarrow> int" where
  "exponent_of q =
     (case quotient_of q of (n, d) \<Rightarrow>
        let e = int (ilog2 (nat n)) - int (ilog2 (nat d))
        in if pow2 e \<le> q then e else e - 1)"

definition round_half_even :: "rat \<Rightarrow> int" where
  "round_half_even q =
     (let f = \<lfloor>q\<rfloor>; r = q - of_int f
      in if r < 1 / 2 then f else if 1 / 2 < r then f + 1 else if even f then f else f + 1)"

definition round64 :: "rat \<Rightarrow> float64" where
  "round64 q =
     (if q = 0 then Fin 0
      else let u = max (exponent_of \<bar>q\<bar> - 52) (- 1074);
               v = of_int (round_half_even (q / pow2 u)) * pow2 u
           in if pow2 1024 \<le> \<bar>v\<bar> then FInf (v < 0) else Fin v)"

fun f_lt :: "float64 \<Rightarrow> float64 \<Rightarrow> bool" where
  "f_lt (Fin a) (Fin b) = (a < b)"
| "f_lt (Fin a) (FInf neg) = (\<not> neg)"
| "f_lt (FInf neg) (Fin b) = neg"
| "f_lt (FInf m) (FInf n) = (m \<and> \<not> n)"
| "f_lt _ _ = False"

definition f_gt :: "float64 \<Rightarrow> float64 \<Rightarrow> bool" where
  "f_gt a b = f_lt b a"

definition f_eq :: "float64 \<Rightarrow> float64 \<Rightarrow> bool" where
  "f_eq a b \<longleftrightarrow> a \<noteq> FNaN \<and> a = b"

definition f_ne :: "float64 \<Rightarrow> float64 \<Rightarrow> bool" where
  "f_ne a b \<longleftrightarrow> \<not> f_eq a b"

text \<open>Division by a positive constant and multiplication.\<close>

fun f_div_const :: "float64 \<Rightarrow> rat \<Rightarrow> float64" where
  "f_div_const (Fin a) c = round64 (a / c)"
| "f_div_const v c = v"

fun f_mul :: "float64 \<Rightarrow> float64 \<Rightarrow> float64" where
  "f_mul (Fin a) (Fin b) = round64 (a * b)"
| "f_mul (FInf m) (FInf n) = FInf (m \<noteq> n)"
| "f_mul (FInf m) (Fin b) = (if b = 0 then FNaN else FInf (m \<noteq> (b < 0)))"
| "f_mul (Fin a) (FInf n) = (if a = 0 then FNaN else FInf ((a < 0) \<noteq> n))"
| "f_mul _ _ = FNaN"

fun f_sub :: "float64 \<Rightarrow> float64 \<Rightarrow> float64" where
  "f_sub (Fin a) (Fin b) = round64 (a - b)"
| "f_sub (FInf m) (FInf n) = (if m = n then FNaN else FInf m)"
| "f_sub (FInf m) (Fin b) = FInf m"
| "f_sub (Fin a) (FInf n) = FInf (\<not> n)"
| "f_sub _ _ = FNaN"

definition f_le :: "float64 \<Rightarrow> float64 \<Rightarrow> bool" where
  "f_le a b \<longleftrightarrow> f_lt a b \<or> f_eq a b"

definition f_of_int :: "int \<Rightarrow> float64" where
  "f_of_int i = round64 (of_int i)"

text \<open>Conversion to int64 discards the fraction; it is meant for values in range.\<close>

fun f_to_int :: "float64 \<Rightarrow> int" where
  "f_to_int (Fin a) = (if a < 0 then - \<lfloor>- a\<rfloor> else \<lfloor>a\<rfloor>)"
| "f_to_int _ = - (2 ^ 63)"

section \<open>Order facts\<close>

lemma f_lt_irrefl [simp]: "\<not> f_lt a a"
  by (cases a) auto

lemma f_lt_trans: "f_lt a b \<Longrightarrow> f_lt b c \<Longrightarrow> f_lt a c"
  by (cases a; cases b; cases c) auto

lemma f_lt_negtrans: "f_lt a b \<Longrightarrow> c \<noteq> FNaN \<Longrightarrow> f_lt a c \<or> f_lt c b"
  by (cases a; cases b; cases c) auto

lemma f_lt_total: "a \<noteq> FNaN \<Longrightarrow> b \<noteq> FNaN \<Longrightarrow> a \<noteq> b \<Longrightarrow> f_lt a b \<or> f_lt b a"
  by (cases a; cases b) auto

lemma round64_zero [simp]: "round64 0 = Fin 0"
  by (simp add: round64_def)

lemma round64_not_NaN [simp]: "round64 q \<noteq> FNaN"
  by (simp add: round64_def Let_def)

lemma f_div_const_NaN_iff [simp]: "f_div_const a c = FNaN \<longleftrightarrow> a = FNaN"
  by (cases a) auto

lemma f_ne_refl_iff: "f_ne a a \<longleftrightarrow> a = FNaN"
  by (auto simp: f_ne_def f_eq_def)

lemma f_gt_irrefl [simp]: "\<not> f_gt a a"
  by (simp add: f_gt_def)

end
