(* ===== verification/Model.thy ===== *)
theory Model
  imports Go_Float
begin

text \<open>
  The vendor-neutral data model (\<^verbatim>\<open>internal/model/model.go\<close>): samples, log records,
  checkpoint keys, watermarks and batches, the checkpoint key's string form and the
  output fingerprint. The SHA-256 digest (lower-case hex) is an argument of
  \<open>Fingerprint\<close>.
\<close>

datatype MetricKind = Gauge | SumKind

datatype Temporality = TempUnset | Delta | Cumulative

record sample =
  smp_Name :: string
  smp_Kind :: MetricKind
  smp_Temporality :: Temporality
  smp_Monotonic :: bool
  smp_Unit :: string
  smp_Labels :: labels
  smp_Value :: float64
  smp_Timestamp :: instant

record log_record =
  lr_Timestamp :: instant
  lr_Body :: string
  lr_Severity :: string
  lr_IndexedAttributes :: labels
  lr_RecordAttributes :: labels
  lr_TraceID :: string

record checkpoint_key =
  ck_SourceInstance :: string
  ck_Loop :: string
  ck_OutputFingerprint :: string

record watermark =
  wm_Time :: instant
  wm_Cursor :: string
  wm_Epoch :: int

record batch =
  bt_Key :: checkpoint_key
  bt_Samples :: "sample list"
  bt_Logs :: "log_record list"
  bt_Watermark :: watermark

definition slash :: string where "slash = ''/''"

definition key_String :: "checkpoint_key \<Rightarrow> string" where
  "key_String k = ck_SourceInstance k @ slash @ ck_Loop k @ slash @ ck_OutputFingerprint k"

definition zero_watermark :: watermark where
  "zero_watermark = \<lparr>wm_Time = zero_time, wm_Cursor = '''', wm_Epoch = 0\<rparr>"

definition zero_key :: checkpoint_key where
  "zero_key = \<lparr>ck_SourceInstance = '''', ck_Loop = '''', ck_OutputFingerprint = ''''\<rparr>"

definition zero_batch :: batch where
  "zero_batch = \<lparr>bt_Key = zero_key, bt_Samples = [], bt_Logs = [], bt_Watermark = zero_watermark\<rparr>"

definition gauge :: "string \<Rightarrow> labels \<Rightarrow> float64 \<Rightarrow> instant \<Rightarrow> sample" where
  "gauge n ls v t = \<lparr>smp_Name = n, smp_Kind = Gauge, smp_Temporality = TempUnset, smp_Monotonic = False,
     smp_Unit = '''', smp_Labels = ls, smp_Value = v, smp_Timestamp = t\<rparr>"

text \<open>The bytes written to the digest: each name in ascending order with a NUL, then the trimmed naming.\<close>

definition fingerprint_input :: "string list \<Rightarrow> string \<Rightarrow> string" where
  "fingerprint_input names cfg = concat (map (\<lambda>n. n @ [CHR 0x00]) (sort names)) @ TrimSpace cfg"

definition Fingerprint :: "(string \<Rightarrow> string) \<Rightarrow> string list \<Rightarrow> string \<Rightarrow> string" where
  "Fingerprint sha256_hex names cfg = take 16 (sha256_hex (fingerprint_input names cfg))"

section \<open>Keys\<close>

definition slash_free :: "string \<Rightarrow> bool" where
  "slash_free s \<longleftrightarrow> CHR ''/'' \<notin> set s"

text \<open>
  A key whose loop name and fingerprint hold no slash (loop names are fixed words and
  fingerprints are hex digits) is determined by its string form, whatever the source
  instance is called.
\<close>

lemma split_at_last_unique:
  assumes "c \<notin> set us" "c \<notin> set vs" "xs @ c # us = ys @ c # vs"
  shows "xs = ys \<and> us = vs"
proof -
  have "rev us @ c # rev xs = rev vs @ c # rev ys"
    using arg_cong [OF assms(3), of rev] by simp
  from split_at_first_unique [OF _ _ this] assms(1,2) show ?thesis by simp
qed

lemma key_String_inj:
  assumes "slash_free (ck_Loop k)" "slash_free (ck_OutputFingerprint k)"
    and "slash_free (ck_Loop l)" "slash_free (ck_OutputFingerprint l)"
    and "key_String k = key_String l"
  shows "k = l"
proof -
  have eq: "(ck_SourceInstance k @ CHR ''/'' # ck_Loop k) @ CHR ''/'' # ck_OutputFingerprint k =
        (ck_SourceInstance l @ CHR ''/'' # ck_Loop l) @ CHR ''/'' # ck_OutputFingerprint l"
    using assms(5) by (simp add: key_String_def slash_def)
  note fps = split_at_last_unique [OF assms(2,4) [unfolded slash_free_def] eq]
  note loops = split_at_last_unique [OF assms(1,3) [unfolded slash_free_def] conjunct1 [OF fps]]
  show ?thesis using fps loops by (cases k; cases l) simp
qed

section \<open>Fingerprints\<close>

lemma Fingerprint_perm:
  "mset xs = mset ys \<Longrightarrow> Fingerprint sha xs cfg = Fingerprint sha ys cfg"
  unfolding Fingerprint_def fingerprint_input_def
  by (metis properties_for_sort mset_sort sorted_sort)

lemma nul_terminated_unique:
  assumes "\<forall>n\<in>set xs. c \<notin> set n" "\<forall>n\<in>set ys. c \<notin> set n" "c \<notin> set a" "c \<notin> set b"
    and "concat (map (\<lambda>n. n @ [c]) xs) @ a = concat (map (\<lambda>n. n @ [c]) ys) @ b"
  shows "xs = ys \<and> a = b"
  using assms
proof (induction xs arbitrary: ys)
  case Nil
  then show ?case by (cases ys) auto
next
  case (Cons x xs)
  note eq = Cons.prems(5)
  have "c \<in> set (concat (map (\<lambda>n. n @ [c]) ys) @ b)"
    unfolding eq [symmetric] by simp
  then obtain y ys' where ys: "ys = y # ys'" using Cons.prems(4) by (cases ys) auto
  have "x @ c # (concat (map (\<lambda>n. n @ [c]) xs) @ a) = y @ c # (concat (map (\<lambda>n. n @ [c]) ys') @ b)"
    using eq ys by simp
  from split_at_first_unique [OF _ _ this]
  have *: "x = y" "concat (map (\<lambda>n. n @ [c]) xs) @ a = concat (map (\<lambda>n. n @ [c]) ys') @ b"
    using Cons.prems(1,2) ys by simp_all
  have "xs = ys' \<and> a = b"
    by (rule Cons.IH [OF _ _ Cons.prems(3,4) *(2)]) (use Cons.prems(1,2) ys in simp_all)
  with * ys show ?case by simp
qed

lemma set_TrimSpace_subset: "set (TrimSpace s) \<subseteq> set s"
  unfolding TrimSpace_def by (auto dest!: set_dropWhileD)

lemma fingerprint_input_inj:
  assumes "\<forall>n\<in>set xs. CHR 0x00 \<notin> set n" "\<forall>n\<in>set ys. CHR 0x00 \<notin> set n"
    and "CHR 0x00 \<notin> set c" "CHR 0x00 \<notin> set d"
  shows "fingerprint_input xs c = fingerprint_input ys d \<longleftrightarrow>
         mset xs = mset ys \<and> TrimSpace c = TrimSpace d"
proof
  assume "fingerprint_input xs c = fingerprint_input ys d"
  then have "sort xs = sort ys \<and> TrimSpace c = TrimSpace d"
    using assms set_TrimSpace_subset [of c] set_TrimSpace_subset [of d]
    unfolding fingerprint_input_def by (intro nul_terminated_unique) auto
  then show "mset xs = mset ys \<and> TrimSpace c = TrimSpace d" by (metis mset_sort)
next
  assume "mset xs = mset ys \<and> TrimSpace c = TrimSpace d"
  then show "fingerprint_input xs c = fingerprint_input ys d"
    unfolding fingerprint_input_def by (metis properties_for_sort mset_sort sorted_sort)
qed

section \<open>Properties\<close>

text \<open>C40: the output identity of a loop. The fingerprint ignores the order of the series names and
  surrounding blanks of the naming configuration; the bytes it digests are the same only
  for the same multiset of names and the same trimmed naming, so with a digest that keeps
  its first sixteen digits apart on those bytes, changing what a loop emits changes its
  checkpoint key, and two keys with the same string form are the same key.\<close>

theorem output_identity:
  assumes "\<forall>n\<in>set xs \<union> set ys. CHR 0x00 \<notin> set n" "CHR 0x00 \<notin> set c" "CHR 0x00 \<notin> set d"
    and "\<And>a b. take 16 (sha a) = take 16 (sha b) \<Longrightarrow> a \<in> {fingerprint_input xs c, fingerprint_input ys d} \<Longrightarrow>
           b \<in> {fingerprint_input xs c, fingerprint_input ys d} \<Longrightarrow> a = b"
    and "slash_free (ck_Loop k)" "slash_free (ck_Loop l)" "slash_free (Fingerprint sha xs c)" "slash_free (Fingerprint sha ys d)"
  shows "(Fingerprint sha xs c = Fingerprint sha ys d \<longleftrightarrow> mset xs = mset ys \<and> TrimSpace c = TrimSpace d) \<and>
    (key_String (k\<lparr>ck_OutputFingerprint := Fingerprint sha xs c\<rparr>) = key_String (l\<lparr>ck_OutputFingerprint := Fingerprint sha ys d\<rparr>) \<longleftrightarrow>
       ck_SourceInstance k = ck_SourceInstance l \<and> ck_Loop k = ck_Loop l \<and> mset xs = mset ys \<and> TrimSpace c = TrimSpace d)"
proof -
  have inp: "fingerprint_input xs c = fingerprint_input ys d \<longleftrightarrow> mset xs = mset ys \<and> TrimSpace c = TrimSpace d"
    by (rule fingerprint_input_inj) (use assms(1-3) in auto)
  have fp: "Fingerprint sha xs c = Fingerprint sha ys d \<longleftrightarrow> mset xs = mset ys \<and> TrimSpace c = TrimSpace d"
    using assms(4) [of "fingerprint_input xs c" "fingerprint_input ys d"] inp by (auto simp: Fingerprint_def)
  have "key_String (k\<lparr>ck_OutputFingerprint := Fingerprint sha xs c\<rparr>) = key_String (l\<lparr>ck_OutputFingerprint := Fingerprint sha ys d\<rparr>) \<longleftrightarrow>
      k\<lparr>ck_OutputFingerprint := Fingerprint sha xs c\<rparr> = l\<lparr>ck_OutputFingerprint := Fingerprint sha ys d\<rparr>"
    using key_String_inj [of "k\<lparr>ck_OutputFingerprint := Fingerprint sha xs c\<rparr>" "l\<lparr>ck_OutputFingerprint := Fingerprint sha ys d\<rparr>"] assms(5-8)
    by auto
  with fp show ?thesis by (cases k; cases l) auto
qed

theorem output_identity_witness:
  "key_String (zero_key\<lparr>ck_OutputFingerprint := Fingerprint id [''a'', ''b''] '' x ''\<rparr>) =
     key_String (zero_key\<lparr>ck_OutputFingerprint := Fingerprint id [''b'', ''a''] ''x''\<rparr>) \<and>
   Fingerprint id [''a'', ''b''] '' x '' = [CHR ''a'', CHR 0x00, CHR ''b'', CHR 0x00, CHR ''x'']"
proof -
  have fp: "Fingerprint id [''a'', ''b''] '' x '' = [CHR ''a'', CHR 0x00, CHR ''b'', CHR 0x00, CHR ''x'']"
    "Fingerprint id [''b'', ''a''] ''x'' = [CHR ''a'', CHR 0x00, CHR ''b'', CHR 0x00, CHR ''x'']"
    "fingerprint_input [''a'', ''b''] '' x '' = fingerprint_input [''b'', ''a''] ''x''"
    "TrimSpace '' x '' = TrimSpace ''x''"
    by (simp_all add: Fingerprint_def fingerprint_input_def TrimSpace_def is_space_def less_char_def)
  have "key_String (zero_key\<lparr>ck_OutputFingerprint := Fingerprint id [''a'', ''b''] '' x ''\<rparr>) =
      key_String (zero_key\<lparr>ck_OutputFingerprint := Fingerprint id [''b'', ''a''] ''x''\<rparr>)"
    by (subst conjunct2 [OF output_identity])
      (use fp in \<open>auto simp: slash_free_def zero_key_def\<close>)
  with fp show ?thesis by simp
qed

end
