(* ===== verification/Checkpoint.thy ===== *)
theory Checkpoint
  imports Model
begin

text \<open>
  The checkpointer seam and its write fence (\<^verbatim>\<open>internal/checkpoint/checkpoint.go\<close>).
  \<open>CheckEncodable\<close> and \<open>CheckMonotonic\<close> are the two guards of every backend. The
  Go interface \<open>Checkpointer\<close> is a record of its two operations; what it promises is the
  locale \<open>shared_checkpointer\<close> (other replicas may write between two calls) and its
  exclusive form \<open>checkpointer\<close> (this process is the only writer). \<open>logged_checkpointer\<close>
  is the form the two cluster backends keep: it follows the log of everything ever stored
  under a key, so that lost updates show. \<open>key_String\<close> is the identity of a key in every
  backend.
\<close>

datatype cp_error = StaleWrite | Unencodable | BackendError string

definition CheckEncodable :: "watermark \<Rightarrow> cp_error option" where
  "CheckEncodable w =
     (let y = time_Year (wm_Time w) in if y < 1 \<or> y > 9999 then Some Unencodable else None)"

definition CheckMonotonic :: "watermark \<Rightarrow> watermark \<Rightarrow> cp_error option" where
  "CheckMonotonic stored incoming =
     (if wm_Epoch incoming < wm_Epoch stored then Some StaleWrite
      else if wm_Time incoming < wm_Time stored then Some StaleWrite
      else if wm_Time incoming = wm_Time stored \<and> wm_Cursor incoming = wm_Cursor stored
           then Some StaleWrite
      else None)"

record 's checkpointer_ops =
  cp_Load :: "'s \<Rightarrow> checkpoint_key \<Rightarrow> (cp_error + watermark) \<times> 's"
  cp_Save :: "'s \<Rightarrow> checkpoint_key \<Rightarrow> watermark \<Rightarrow> cp_error option \<times> 's"

text \<open>The order watermarks move in: neither the epoch nor the time goes back.\<close>

definition wm_le :: "watermark \<Rightarrow> watermark \<Rightarrow> bool" where
  "wm_le a b \<longleftrightarrow> wm_Epoch a \<le> wm_Epoch b \<and> wm_Time a \<le> wm_Time b"

text \<open>The epoch of a Go watermark is an int64.\<close>

definition typed_wm :: "watermark \<Rightarrow> bool" where
  "typed_wm w \<longleftrightarrow> in_int64 (wm_Epoch w)"

text \<open>Folding accepted writes: the stored watermark after a sequence of writes under the fence.\<close>

definition fence_write :: "watermark \<Rightarrow> watermark \<Rightarrow> watermark" where
  "fence_write stored w = (case CheckMonotonic stored w of None \<Rightarrow> w | Some _ \<Rightarrow> stored)"

text \<open>A log of watermarks, oldest first; what it leaves durable, and that it only moves forward.\<close>

definition last_wm :: "watermark list \<Rightarrow> watermark" where
  "last_wm ws = (if ws = [] then zero_watermark else last ws)"

definition wm_chain :: "watermark list \<Rightarrow> bool" where
  "wm_chain ws \<longleftrightarrow> sorted_wrt wm_le (zero_watermark # ws)"

section \<open>The fence\<close>

lemma wm_le_refl [simp]: "wm_le a a"
  by (simp add: wm_le_def)

lemma wm_le_trans [trans]: "wm_le a b \<Longrightarrow> wm_le b c \<Longrightarrow> wm_le a c"
  by (auto simp: wm_le_def)

lemma CheckMonotonic_None_iff:
  "CheckMonotonic stored w = None \<longleftrightarrow>
     wm_Epoch stored \<le> wm_Epoch w \<and>
     (wm_Time stored < wm_Time w \<or> wm_Time stored = wm_Time w \<and> wm_Cursor w \<noteq> wm_Cursor stored)"
  by (auto simp: CheckMonotonic_def)

lemma CheckMonotonic_cases: "CheckMonotonic stored w \<in> {None, Some StaleWrite}"
  by (simp add: CheckMonotonic_def)

lemma CheckMonotonic_Some: "CheckMonotonic stored w = Some e \<Longrightarrow> e = StaleWrite"
  using CheckMonotonic_cases [of stored w] by auto

lemma CheckMonotonic_wm_le: "CheckMonotonic stored w = None \<Longrightarrow> wm_le stored w"
  by (auto simp: CheckMonotonic_None_iff wm_le_def)

lemma CheckMonotonic_irrefl: "CheckMonotonic w w = Some StaleWrite"
  by (simp add: CheckMonotonic_def)

lemma CheckEncodable_None_iff:
  "CheckEncodable w = None \<longleftrightarrow> 0 \<le> wm_Time w \<and> wm_Time w < 3652059 * ns_per_day"
  using time_Year_bounds [of "wm_Time w"] unfolding CheckEncodable_def Let_def by auto

lemma fence_write_le: "wm_le stored (fence_write stored w)"
  unfolding fence_write_def by (auto split: option.splits dest: CheckMonotonic_wm_le)

lemma last_wm_simps [simp]: "last_wm [] = zero_watermark" "last_wm (ws @ [w]) = w"
  by (simp_all add: last_wm_def)

lemma wm_chain_Nil [simp]: "wm_chain []"
  by (simp add: wm_chain_def)

lemma wm_chain_snoc: "wm_chain (ws @ [w]) \<longleftrightarrow> wm_chain ws \<and> wm_le (last_wm ws) w"
proof (cases ws rule: rev_cases)
  case (snoc us u)
  then show ?thesis
    using wm_le_trans by (auto simp: wm_chain_def sorted_wrt_append)
qed (simp add: wm_chain_def)

lemma wm_chain_prefix: "wm_chain qs \<Longrightarrow> prefix ps qs \<Longrightarrow> wm_chain ps"
  by (auto simp: wm_chain_def sorted_wrt_append prefix_def)

lemma wm_chain_prefix_le:
  assumes "wm_chain qs" "prefix ps qs"
  shows "wm_le (last_wm ps) (last_wm qs)"
proof -
  from assms(2) obtain rs where qs: "qs = ps @ rs" by (auto simp: prefix_def)
  have "wm_chain (ps @ rs) \<Longrightarrow> wm_le (last_wm ps) (last_wm (ps @ rs))"
  proof (induction rs rule: rev_induct)
    case (snoc r rs)
    then have "wm_chain (ps @ rs)" "wm_le (last_wm (ps @ rs)) r"
      using wm_chain_snoc [of "ps @ rs" r] by simp_all
    moreover have "last_wm (ps @ rs @ [r]) = r" using last_wm_simps(2) [of "ps @ rs" r] by simp
    ultimately show ?case using snoc.IH wm_le_trans by simp
  qed simp
  with assms(1) qs show ?thesis by simp
qed

section \<open>The interface\<close>

locale shared_checkpointer =
  fixes ops :: "'s checkpointer_ops"
    and durable :: "'s \<Rightarrow> string \<Rightarrow> watermark"
    and inv :: "'s \<Rightarrow> bool"
  assumes load_step: "inv s \<Longrightarrow> cp_Load ops s k = (r, s') \<Longrightarrow>
      inv s' \<and> (\<forall>x. wm_le (durable s x) (durable s' x))"
    and load_ok: "inv s \<Longrightarrow> cp_Load ops s k = (Inr w, s') \<Longrightarrow> w = durable s' (key_String k)"
    and save_step: "inv s \<Longrightarrow> typed_wm w \<Longrightarrow> cp_Save ops s k w = (q, s') \<Longrightarrow>
      inv s' \<and> (\<forall>x. wm_le (durable s x) (durable s' x))"
    and save_ok: "inv s \<Longrightarrow> typed_wm w \<Longrightarrow> cp_Save ops s k w = (None, s') \<Longrightarrow> durable s' (key_String k) = w"
    and save_stale: "inv s \<Longrightarrow> typed_wm w \<Longrightarrow> cp_Save ops s k w = (Some StaleWrite, s') \<Longrightarrow>
      \<exists>m. wm_le (durable s (key_String k)) m \<and> wm_le m (durable s' (key_String k)) \<and>
          CheckMonotonic m w = Some StaleWrite"
begin

lemma save_ok_le:
  "inv s \<Longrightarrow> typed_wm w \<Longrightarrow> cp_Save ops s k w = (None, s') \<Longrightarrow> wm_le (durable s (key_String k)) w"
  using save_step save_ok by metis

text \<open>
  A rejected write that is not behind the durable time lost to a higher epoch or repeats
  what is stored: the fenced case the runner reports.
\<close>

lemma stale_forward_is_fenced:
  assumes "inv s" "typed_wm w" "cp_Save ops s k w = (Some StaleWrite, s')"
    and "wm_Time (durable s' (key_String k)) < wm_Time w"
  shows "wm_Epoch w < wm_Epoch (durable s' (key_String k))"
proof -
  from save_stale [OF assms(1-3)] obtain m where
    m: "wm_le m (durable s' (key_String k))" "CheckMonotonic m w = Some StaleWrite" by blast
  from m(1) assms(4) have "wm_Time m < wm_Time w" by (simp add: wm_le_def)
  with m(2) have "wm_Epoch w < wm_Epoch m"
    by (auto simp: CheckMonotonic_def split: if_splits)
  with m(1) show ?thesis by (simp add: wm_le_def)
qed

end

locale checkpointer =
  fixes ops :: "'s checkpointer_ops"
    and durable :: "'s \<Rightarrow> string \<Rightarrow> watermark"
    and inv :: "'s \<Rightarrow> bool"
  assumes x_load_same: "inv s \<Longrightarrow> cp_Load ops s k = (r, s') \<Longrightarrow> inv s' \<and> durable s' = durable s"
    and x_load_ok: "inv s \<Longrightarrow> cp_Load ops s k = (Inr w, s') \<Longrightarrow> w = durable s (key_String k)"
    and x_save_inv: "inv s \<Longrightarrow> cp_Save ops s k w = (q, s') \<Longrightarrow> inv s'"
    and x_save_ok: "inv s \<Longrightarrow> cp_Save ops s k w = (None, s') \<Longrightarrow>
      CheckMonotonic (durable s (key_String k)) w = None \<and>
      durable s' = (durable s)(key_String k := w)"
    and x_save_err: "inv s \<Longrightarrow> cp_Save ops s k w = (Some e, s') \<Longrightarrow> durable s' = durable s"
    and x_save_stale: "inv s \<Longrightarrow> cp_Save ops s k w = (Some StaleWrite, s') \<Longrightarrow>
      CheckMonotonic (durable s (key_String k)) w = Some StaleWrite"
begin

text \<open>A failed save saved nothing, so retrying it gets the same verdict of the fence.\<close>

lemma retry_after_error:
  assumes "inv s" "cp_Save ops s k w = (Some e, s')" "cp_Save ops s' k w = (None, s'')"
  shows "CheckMonotonic (durable s (key_String k)) w = None"
  using x_save_ok [OF x_save_inv [OF assms(1,2)] assms(3)] x_save_err [OF assms(1,2)] by simp

lemma load_after_save:
  assumes "inv s" "cp_Save ops s k w = (None, s')" "cp_Load ops s' k = (Inr v, s'')"
  shows "v = w"
  using x_load_ok [OF x_save_inv [OF assms(1,2)] assms(3)] x_save_ok [OF assms(1,2)] by simp

end

sublocale checkpointer \<subseteq> shared_checkpointer ops durable inv
proof
  fix s k r s'
  assume "inv s" "cp_Load ops s k = (r, s')"
  from x_load_same [OF this] show "inv s' \<and> (\<forall>x. wm_le (durable s x) (durable s' x))" by simp
next
  fix s k w s'
  assume "inv s" "cp_Load ops s k = (Inr w, s')"
  then show "w = durable s' (key_String k)" using x_load_same x_load_ok by metis
next
  fix s k w r s'
  assume *: "inv s" "cp_Save ops s k w = (r, s')"
  have "wm_le (durable s x) (durable s' x)" for x
  proof (cases r)
    case None
    from x_save_ok [OF *(1) *(2) [unfolded None]] show ?thesis
      by (auto dest: CheckMonotonic_wm_le)
  next
    case (Some e)
    from x_save_err [OF *(1) *(2) [unfolded Some]] show ?thesis by simp
  qed
  with x_save_inv [OF *] show "inv s' \<and> (\<forall>x. wm_le (durable s x) (durable s' x))" by simp
next
  fix s k w s'
  assume "inv s" "cp_Save ops s k w = (None, s')"
  from x_save_ok [OF this] show "durable s' (key_String k) = w" by simp
next
  fix s k w s'
  assume *: "inv s" "cp_Save ops s k w = (Some StaleWrite, s')"
  show "\<exists>m. wm_le (durable s (key_String k)) m \<and> wm_le m (durable s' (key_String k)) \<and>
            CheckMonotonic m w = Some StaleWrite"
    by (rule exI [of _ "durable s (key_String k)"]) (simp add: x_save_stale [OF *] x_save_err [OF *])
qed

locale logged_checkpointer =
  fixes ops :: "'s checkpointer_ops"
    and hist :: "'s \<Rightarrow> string \<Rightarrow> watermark list"
    and inv :: "'s \<Rightarrow> bool"
  assumes hist_chain: "inv s \<Longrightarrow> wm_chain (hist s x)"
    and l_load_step: "inv s \<Longrightarrow> cp_Load ops s k = (r, s') \<Longrightarrow> inv s' \<and> prefix (hist s x) (hist s' x)"
    and l_load_ok: "inv s \<Longrightarrow> cp_Load ops s k = (Inr w, s') \<Longrightarrow> w = last_wm (hist s' (key_String k))"
    and l_save_step: "inv s \<Longrightarrow> typed_wm w \<Longrightarrow> cp_Save ops s k w = (q, s') \<Longrightarrow>
      inv s' \<and> prefix (hist s x) (hist s' x)"
    and l_save_ok: "inv s \<Longrightarrow> typed_wm w \<Longrightarrow> cp_Save ops s k w = (None, s') \<Longrightarrow>
      last_wm (hist s' (key_String k)) = w"
    and l_save_stale: "inv s \<Longrightarrow> typed_wm w \<Longrightarrow> cp_Save ops s k w = (Some StaleWrite, s') \<Longrightarrow>
      \<exists>p. prefix (hist s (key_String k)) p \<and> prefix p (hist s' (key_String k)) \<and>
          CheckMonotonic (last_wm p) w = Some StaleWrite"
begin

text \<open>Whoever wrote them, the watermarks ever stored under a key never go back.\<close>

lemma no_lost_update:
  assumes "inv s" "i < j" "j < length (hist s x)"
  shows "wm_le (hist s x ! i) (hist s x ! j)"
  using hist_chain [OF assms(1), of x] assms(2,3) sorted_wrt_nth_less
  unfolding wm_chain_def by fastforce

end

sublocale logged_checkpointer \<subseteq> shared_checkpointer ops "\<lambda>s x. last_wm (hist s x)" inv
proof
  fix s k r s'
  assume "inv s" "cp_Load ops s k = (r, s')"
  from l_load_step [OF this] show "inv s' \<and> (\<forall>x. wm_le (last_wm (hist s x)) (last_wm (hist s' x)))"
    using wm_chain_prefix_le hist_chain by blast
next
  fix s k w q s'
  assume "inv s" "typed_wm w" "cp_Save ops s k w = (q, s')"
  from l_save_step [OF this] show "inv s' \<and> (\<forall>x. wm_le (last_wm (hist s x)) (last_wm (hist s' x)))"
    using wm_chain_prefix_le hist_chain by blast
next
  fix s k w s'
  assume *: "inv s" "typed_wm w" "cp_Save ops s k w = (Some StaleWrite, s')"
  let ?k = "key_String k"
  from l_save_stale [OF *] obtain p where p: "prefix (hist s ?k) p" "prefix p (hist s' ?k)"
    "CheckMonotonic (last_wm p) w = Some StaleWrite" by blast
  have ch: "wm_chain (hist s' ?k)" using l_save_step [OF *] hist_chain by blast
  show "\<exists>m. wm_le (last_wm (hist s ?k)) m \<and> wm_le m (last_wm (hist s' ?k)) \<and>
            CheckMonotonic m w = Some StaleWrite"
    using p wm_chain_prefix_le [OF ch p(2)] wm_chain_prefix_le [OF wm_chain_prefix [OF ch p(2)] p(1)] by blast
qed (use l_load_ok l_save_ok in auto)

section \<open>Properties\<close>

lemma fence_write_time:
  assumes "wm_Epoch stored \<le> e" "wm_Epoch w = e"
  shows "wm_Time (fence_write stored w) = max (wm_Time stored) (wm_Time w)" "wm_Epoch (fence_write stored w) \<le> e"
  using assms by (auto simp: fence_write_def CheckMonotonic_def max_def split: option.splits if_splits)

text \<open>C5: the fence makes writes commute in time and fences deposed leaders. Whatever order writes
  arrive in, the stored watermark never moves back and is one of those offered; writes
  under one epoch that is not behind leave the latest of their times; and after an
  accepted write every write of a lower epoch is refused, now and after any further writes.\<close>

theorem fence_contract:
  "wm_le stored (fold (\<lambda>w s. fence_write s w) ws stored) \<and>
   fold (\<lambda>w s. fence_write s w) ws stored \<in> insert stored (set ws) \<and>
   (wm_Epoch stored \<le> e \<and> (\<forall>w\<in>set ws. wm_Epoch w = e) \<longrightarrow>
      wm_Time (fold (\<lambda>w s. fence_write s w) ws stored) = fold (\<lambda>w t. max t (wm_Time w)) ws (wm_Time stored)) \<and>
   (CheckMonotonic stored v = None \<and> wm_Epoch u < wm_Epoch v \<longrightarrow>
      CheckMonotonic (fold (\<lambda>w s. fence_write s w) ws (fence_write stored v)) u = Some StaleWrite)"
proof -
  have grow: "wm_le s (fold (\<lambda>w s. fence_write s w) ws s)" for s
  proof (induction ws arbitrary: s)
    case (Cons w ws)
    then show ?case using wm_le_trans [OF fence_write_le [of s w]] by simp
  qed simp
  have mem: "fold (\<lambda>w s. fence_write s w) ws s \<in> insert s (set ws)" for s
  proof (induction ws arbitrary: s)
    case (Cons w ws)
    have "fence_write s w = s \<or> fence_write s w = w" by (simp add: fence_write_def split: option.splits)
    with Cons [of "fence_write s w"] show ?case by auto
  qed simp
  have latest: "wm_Epoch s \<le> e \<Longrightarrow> \<forall>w\<in>set ws. wm_Epoch w = e \<Longrightarrow>
      wm_Time (fold (\<lambda>w s. fence_write s w) ws s) = fold (\<lambda>w t. max t (wm_Time w)) ws (wm_Time s)" for s
  proof (induction ws arbitrary: s)
    case (Cons w ws)
    then show ?case using fence_write_time [of s e w] by simp
  qed simp
  have "CheckMonotonic (fold (\<lambda>w s. fence_write s w) ws (fence_write stored v)) u = Some StaleWrite"
    if "CheckMonotonic stored v = None" "wm_Epoch u < wm_Epoch v"
    using grow [of "fence_write stored v"] that by (auto simp: fence_write_def wm_le_def CheckMonotonic_def)
  with grow mem latest show ?thesis by blast
qed

theorem fence_contract_witness:
  "wm_Time (fold (\<lambda>w s. fence_write s w)
      [zero_watermark\<lparr>wm_Time := 9, wm_Epoch := 1\<rparr>, zero_watermark\<lparr>wm_Time := 4, wm_Epoch := 1\<rparr>] zero_watermark) = 9 \<and>
   CheckMonotonic (fold (\<lambda>w s. fence_write s w) [] (fence_write zero_watermark (zero_watermark\<lparr>wm_Time := 9, wm_Epoch := 2\<rparr>)))
     (zero_watermark\<lparr>wm_Time := 99, wm_Epoch := 1\<rparr>) = Some StaleWrite"
proof
  show "wm_Time (fold (\<lambda>w s. fence_write s w)
      [zero_watermark\<lparr>wm_Time := 9, wm_Epoch := 1\<rparr>, zero_watermark\<lparr>wm_Time := 4, wm_Epoch := 1\<rparr>] zero_watermark) = 9"
    using fence_contract [of zero_watermark
      "[zero_watermark\<lparr>wm_Time := 9, wm_Epoch := 1\<rparr>, zero_watermark\<lparr>wm_Time := 4, wm_Epoch := 1\<rparr>]" 1 zero_watermark zero_watermark]
    by (simp add: zero_watermark_def zero_time_def)
  show "CheckMonotonic (fold (\<lambda>w s. fence_write s w) [] (fence_write zero_watermark (zero_watermark\<lparr>wm_Time := 9, wm_Epoch := 2\<rparr>)))
     (zero_watermark\<lparr>wm_Time := 99, wm_Epoch := 1\<rparr>) = Some StaleWrite"
    using fence_contract [of zero_watermark "[]" 0 "zero_watermark\<lparr>wm_Time := 9, wm_Epoch := 2\<rparr>"
      "zero_watermark\<lparr>wm_Time := 99, wm_Epoch := 1\<rparr>"]
    by (simp add: zero_watermark_def zero_time_def CheckMonotonic_def)
qed

end
