(* ===== verification/Guard.thy ===== *)
theory Guard
  imports Model
begin

text \<open>
  The content floor (\<^verbatim>\<open>internal/source/content.go\<close>), the closed capability and
  incompleteness words (\<^verbatim>\<open>capability.go\<close>) and the governance guard
  (\<^verbatim>\<open>guard.go\<close>): the chokepoint between derivation and emission. The guard keeps, per
  series, the set of label signatures it has admitted; one mutex makes each admission
  atomic, so concurrent loops are sequences of admissions. The calls of the
  \<open>OnNewLabelValue\<close> hook are a list in the state, newest last.
\<close>

section \<open>Content floor\<close>

definition AbsoluteNeverDenyKeys :: "string list" where
  "AbsoluteNeverDenyKeys =
     [''gen_ai.prompt'', ''gen_ai.completion'', ''gen_ai.input.messages'', ''gen_ai.output.messages'',
      ''gen_ai.system_instructions'', ''input.value'', ''output.value'',
      ''request'', ''response'', ''inputs'', ''outputs'', ''messages'',
      ''inputs_preview'', ''outputs_preview'',
      ''metadata'', ''portkeyHeaders'']"

definition genAIContentPrefixes :: "string list" where
  "genAIContentPrefixes =
     [''gen_ai.prompt'', ''gen_ai.completion'',
      ''gen_ai.input.messages'', ''gen_ai.output.messages'', ''gen_ai.system_instructions'']"

definition IsContentFloorKey :: "string \<Rightarrow> bool" where
  "IsContentFloorKey k \<longleftrightarrow>
     k \<in> set AbsoluteNeverDenyKeys \<or> (\<exists>p\<in>set genAIContentPrefixes. HasPrefix k p)"

section \<open>Capability words\<close>

definition AllCapabilityStates :: "string list" where
  "AllCapabilityStates =
     [''endpoint-absent'', ''plan-unsupported'', ''permission-denied'', ''no-data'', ''transient-404'',
      ''schema-changed'']"

definition capability_Valid :: "string \<Rightarrow> bool" where
  "capability_Valid s \<longleftrightarrow>
     s = ''endpoint-absent'' \<or> s = ''plan-unsupported'' \<or> s = ''permission-denied'' \<or> s = ''no-data'' \<or>
     s = ''transient-404'' \<or> s = ''schema-changed''"

definition AllIncompleteReasons :: "string list" where
  "AllIncompleteReasons =
     [''window_truncated'', ''sessions_truncated'', ''backfill_skipped'', ''window_oversize'',
      ''span_stats_unavailable'', ''duplicate_dimension'', ''trace_id_unparsed'', ''line_oversize'',
      ''line_unparseable'', ''export_stuck'', ''export_failed'']"

definition incomplete_Valid :: "string \<Rightarrow> bool" where
  "incomplete_Valid r \<longleftrightarrow>
     r = ''window_truncated'' \<or> r = ''sessions_truncated'' \<or> r = ''backfill_skipped'' \<or>
     r = ''window_oversize'' \<or> r = ''span_stats_unavailable'' \<or> r = ''duplicate_dimension'' \<or>
     r = ''trace_id_unparsed'' \<or> r = ''line_oversize'' \<or> r = ''line_unparseable'' \<or>
     r = ''export_stuck'' \<or> r = ''export_failed''"

section \<open>Label signatures\<close>

definition esc_char :: "char \<Rightarrow> string" where
  "esc_char c = (if c = CHR 0x5C \<or> c = CHR ''='' \<or> c = CHR '';'' then [CHR 0x5C, c] else [c])"

definition labelSig_escape :: "string \<Rightarrow> string" where
  "labelSig_escape s = concat (map esc_char s)"

definition labelSig :: "labels \<Rightarrow> string" where
  "labelSig m =
     concat (map (\<lambda>k. labelSig_escape k @ CHR ''='' # labelSig_escape (map_get m k) @ [CHR '';'']) (sorted_keys m))"

section \<open>The guard\<close>

record guard_config =
  gc_AllowLabelKeys :: "string list"
  gc_DenyFieldKeys :: "string list"
  gc_DenyFieldKeysByLoop :: "(string, string list) fmap"
  gc_PerSeriesBudget :: int
  gc_OnNewLabelValue :: bool

record guard =
  g_allow :: "string set"
  g_deny :: "string set"
  g_budget :: int
  g_onNew :: bool
  g_denyByLoop :: "string \<rightharpoonup> string set"
  g_seen :: "string \<rightharpoonup> string fset"
  g_new_values :: "string list"

definition NewGuard :: "guard_config \<Rightarrow> guard" where
  "NewGuard cfg =
     \<lparr>g_allow = set (gc_AllowLabelKeys cfg), g_deny = set (gc_DenyFieldKeys cfg),
      g_budget = gc_PerSeriesBudget cfg, g_onNew = gc_OnNewLabelValue cfg,
      g_denyByLoop = (\<lambda>loop. map_option set (fmlookup (gc_DenyFieldKeysByLoop cfg) loop)),
      g_seen = Map.empty, g_new_values = []\<rparr>"

definition guard_onNew :: "guard \<Rightarrow> string \<Rightarrow> guard" where
  "guard_onNew g series = (if g_onNew g then g\<lparr>g_new_values := g_new_values g @ [series]\<rparr> else g)"

text \<open>The critical section shared by both paths: admit a signature under the budget of its series.\<close>

definition guard_admit :: "guard \<Rightarrow> string \<Rightarrow> string \<Rightarrow> bool \<times> guard" where
  "guard_admit g series sig =
     (let sigs = (case g_seen g series of None \<Rightarrow> {||} | Some x \<Rightarrow> x);
          g1 = g\<lparr>g_seen := (g_seen g)(series \<mapsto> sigs)\<rparr>
      in if sig |\<in>| sigs then (True, g1)
         else if int (fcard sigs) \<ge> g_budget g then (False, guard_onNew g1 series)
         else (True, guard_onNew (g1\<lparr>g_seen := (g_seen g1)(series \<mapsto> finsert sig sigs)\<rparr>) series))"

definition guard_ok :: "guard \<Rightarrow> sample \<Rightarrow> bool \<times> guard" where
  "guard_ok g s =
     (if \<exists>k\<in>set (sorted_keys (smp_Labels s)). k \<in> g_deny g \<or> IsContentFloorKey k \<or> k \<notin> g_allow g
      then (False, g)
      else if g_budget g \<le> 0 then (True, g)
      else guard_admit g (smp_Name s) (labelSig (smp_Labels s)))"

definition loop_deny :: "guard \<Rightarrow> string \<Rightarrow> string set" where
  "loop_deny g loop = (case g_denyByLoop g loop of None \<Rightarrow> g_deny g | Some d \<Rightarrow> d)"

definition guard_okLog :: "guard \<Rightarrow> string \<Rightarrow> log_record \<Rightarrow> bool \<times> guard" where
  "guard_okLog g loop lr =
     (if \<exists>m\<in>set [lr_IndexedAttributes lr, lr_RecordAttributes lr]. \<exists>k\<in>set (sorted_keys m).
           k \<in> loop_deny g loop \<or> IsContentFloorKey k
      then (False, g)
      else if \<exists>k\<in>set (sorted_keys (lr_IndexedAttributes lr)). k \<notin> g_allow g then (False, g)
      else if g_budget g \<le> 0 then (True, g)
      else guard_admit g (''logs:'' @ loop) (labelSig (lr_IndexedAttributes lr)))"

text \<open>The loop both entry points share: keep or count, threading the guard.\<close>

fun guard_filter :: "(guard \<Rightarrow> 'a \<Rightarrow> bool \<times> guard) \<Rightarrow> guard \<Rightarrow> 'a list \<Rightarrow> 'a list \<times> nat \<times> guard" where
  "guard_filter ok g [] = ([], 0, g)"
| "guard_filter ok g (x # xs) =
     (case ok g x of (b, g1) \<Rightarrow>
        (case guard_filter ok g1 xs of (kept, dropped, g2) \<Rightarrow>
           if b then (x # kept, dropped, g2) else (kept, Suc dropped, g2)))"

definition Sanitize :: "guard \<Rightarrow> batch \<Rightarrow> batch \<times> nat \<times> guard" where
  "Sanitize g b =
     (case guard_filter guard_ok g (bt_Samples b) of
        (kept, dropped, g') \<Rightarrow> (b\<lparr>bt_Samples := kept\<rparr>, dropped, g'))"

definition SanitizeLogs :: "guard \<Rightarrow> string \<Rightarrow> log_record list \<Rightarrow> log_record list \<times> nat \<times> guard" where
  "SanitizeLogs g loop logs =
     guard_filter (\<lambda>g. guard_okLog g loop) g (map (\<lambda>lr. lr\<lparr>lr_Body := ''''\<rparr>) logs)"

text \<open>A history of the shared guard: batches and log batches of any loops, in the order they got the lock.\<close>

datatype guard_call = SamplesCall batch | LogsCall string "log_record list"

fun guard_step :: "guard \<Rightarrow> guard_call \<Rightarrow> (sample list \<times> log_record list) \<times> guard" where
  "guard_step g (SamplesCall b) = (case Sanitize g b of (b', _, g') \<Rightarrow> ((bt_Samples b', []), g'))"
| "guard_step g (LogsCall loop ls) = (case SanitizeLogs g loop ls of (ls', _, g') \<Rightarrow> (([], ls'), g'))"

fun guard_run :: "guard \<Rightarrow> guard_call list \<Rightarrow> (sample list \<times> log_record list) list \<times> guard" where
  "guard_run g [] = ([], g)"
| "guard_run g (c # cs) =
     (case guard_step g c of (out, g1) \<Rightarrow> (case guard_run g1 cs of (outs, g2) \<Rightarrow> (out # outs, g2)))"

definition run_samples :: "(sample list \<times> log_record list) list \<Rightarrow> sample list" where
  "run_samples outs = concat (map fst outs)"

text \<open>Every series is within budget, and nothing but the tracked state ever changes.\<close>

definition guard_inv :: "guard \<Rightarrow> bool" where
  "guard_inv g \<longleftrightarrow> (0 < g_budget g \<longrightarrow> (\<forall>n s. g_seen g n = Some s \<longrightarrow> int (fcard s) \<le> g_budget g))"

definition guard_conf :: "guard \<Rightarrow> guard" where
  "guard_conf g = g\<lparr>g_seen := Map.empty, g_new_values := []\<rparr>"

definition seen_sigs :: "guard \<Rightarrow> string \<Rightarrow> string set" where
  "seen_sigs g n = (case g_seen g n of None \<Rightarrow> {} | Some s \<Rightarrow> fset s)"

definition guard_later :: "guard \<Rightarrow> guard \<Rightarrow> bool" where
  "guard_later g g' \<longleftrightarrow> guard_conf g' = guard_conf g \<and> (guard_inv g \<longrightarrow> guard_inv g') \<and>
     (\<forall>n. seen_sigs g n \<subseteq> seen_sigs g' n)"

section \<open>The signature is injective\<close>

lemma esc_char_hd: "\<exists>x xs. esc_char c = x # xs \<and> x \<noteq> CHR ''='' \<and> x \<noteq> CHR '';''"
  by (simp add: esc_char_def)

lemma esc_char_append_inj: "esc_char a @ x = esc_char b @ y \<Longrightarrow> a = b \<and> x = y"
  by (auto simp: esc_char_def split: if_splits)

lemma escape_terminated_inj:
  assumes "t = CHR ''='' \<or> t = CHR '';''"
  shows "labelSig_escape a @ t # x = labelSig_escape b @ t # y \<Longrightarrow> a = b \<and> x = y"
proof (induction a arbitrary: b)
  case Nil
  then show ?case
    using assms esc_char_hd [of "hd b"] by (cases b) (auto simp: labelSig_escape_def)
next
  case (Cons c a)
  show ?case
  proof (cases b)
    case Nil
    then show ?thesis using Cons.prems assms esc_char_hd [of c] by (auto simp: labelSig_escape_def)
  next
    case (Cons d b')
    then have "esc_char c @ (labelSig_escape a @ t # x) = esc_char d @ (labelSig_escape b' @ t # y)"
      using Cons.prems by (simp add: labelSig_escape_def)
    from esc_char_append_inj [OF this] Cons.IH [of b'] Cons show ?thesis by simp
  qed
qed

lemma sig_pairs_inj:
  "concat (map (\<lambda>k. labelSig_escape k @ CHR ''='' # labelSig_escape (f k) @ [CHR '';'']) ks) =
   concat (map (\<lambda>k. labelSig_escape k @ CHR ''='' # labelSig_escape (h k) @ [CHR '';'']) ls) \<Longrightarrow>
   concat (map (\<lambda>k. [k, f k]) ks) = concat (map (\<lambda>k. [k, h k]) ls)"
proof (induction ks arbitrary: ls)
  case Nil
  then show ?case by (cases ls) auto
next
  case (Cons k ks)
  then obtain l ls' where ls: "ls = l # ls'" by (cases ls) auto
  from Cons.prems ls have "k = l \<and> labelSig_escape (f k) @ CHR '';'' #
      concat (map (\<lambda>k. labelSig_escape k @ CHR ''='' # labelSig_escape (f k) @ [CHR '';'']) ks) =
      labelSig_escape (h l) @ CHR '';'' #
      concat (map (\<lambda>k. labelSig_escape k @ CHR ''='' # labelSig_escape (h k) @ [CHR '';'']) ls')"
    by (intro escape_terminated_inj) simp_all
  then have "k = l" "f k = h l" and
    "concat (map (\<lambda>k. labelSig_escape k @ CHR ''='' # labelSig_escape (f k) @ [CHR '';'']) ks) =
     concat (map (\<lambda>k. labelSig_escape k @ CHR ''='' # labelSig_escape (h k) @ [CHR '';'']) ls')"
    using escape_terminated_inj [of "CHR '';''" "f k" _ "h l"] by auto
  with Cons.IH [of ls'] ls show ?case by simp
qed

lemma labelSig_eq_iff: "labelSig m = labelSig n \<longleftrightarrow> m = n"
proof
  assume "labelSig m = labelSig n"
  then have "label_components m = label_components n"
    unfolding labelSig_def label_components_def by (rule sig_pairs_inj)
  then show "m = n" by (simp add: label_components_inj)
qed simp

section \<open>Admission\<close>

lemma guard_later_refl [simp]: "guard_later g g"
  by (simp add: guard_later_def)

lemma guard_later_trans [trans]: "guard_later g h \<Longrightarrow> guard_later h k \<Longrightarrow> guard_later g k"
  unfolding guard_later_def by simp (blast intro: order_trans)

lemma guard_conf_fields:
  assumes "guard_conf h = guard_conf g"
  shows "g_allow h = g_allow g" "g_deny h = g_deny g" "g_budget h = g_budget g"
    "loop_deny h l = loop_deny g l"
proof -
  have "g_allow (guard_conf h) = g_allow (guard_conf g)" "g_deny (guard_conf h) = g_deny (guard_conf g)"
    "g_budget (guard_conf h) = g_budget (guard_conf g)" "loop_deny (guard_conf h) l = loop_deny (guard_conf g) l"
    by (simp_all only: assms)
  then show "g_allow h = g_allow g" "g_deny h = g_deny g" "g_budget h = g_budget g"
    "loop_deny h l = loop_deny g l"
    by (simp_all add: guard_conf_def loop_deny_def split: option.splits)
qed

lemma guard_onNew_simps [simp]:
  "g_seen (guard_onNew g n) = g_seen g" "g_budget (guard_onNew g n) = g_budget g"
  "guard_conf (guard_onNew g n) = guard_conf g" "seen_sigs (guard_onNew g n) = seen_sigs g"
  by (simp_all add: guard_onNew_def guard_conf_def seen_sigs_def fun_eq_iff)

lemma guard_conf_seen [simp]: "guard_conf (g\<lparr>g_seen := x\<rparr>) = guard_conf g"
  by (simp add: guard_conf_def)

lemma guard_admit_later:
  assumes "guard_admit g n sig = (b, g')" "0 < g_budget g"
  shows "guard_later g g' \<and> (b \<longrightarrow> sig \<in> seen_sigs g' n)"
proof -
  have empty: "fcard ({||} :: string fset) = 0" by (simp add: fcard.rep_eq)
  show ?thesis
    using assms
    by (auto simp: guard_admit_def Let_def guard_later_def guard_inv_def seen_sigs_def fcard_finsert_if empty
        split: if_splits option.splits)
qed

lemma guard_ok_later: "guard_ok g s = (b, g') \<Longrightarrow> guard_later g g'"
  using guard_admit_later [of g "smp_Name s" "labelSig (smp_Labels s)" b g']
  by (auto simp: guard_ok_def split: if_splits)

lemma guard_okLog_later: "guard_okLog g loop lr = (b, g') \<Longrightarrow> guard_later g g'"
  using guard_admit_later [of g "''logs:'' @ loop" "labelSig (lr_IndexedAttributes lr)" b g']
  by (auto simp: guard_okLog_def split: if_splits)

lemma guard_ok_True:
  assumes "guard_ok g s = (True, g')"
  shows "\<forall>k\<in>fset (fmdom (smp_Labels s)). k \<in> g_allow g \<and> k \<notin> g_deny g \<and> \<not> IsContentFloorKey k"
    and "0 < g_budget g \<Longrightarrow> labelSig (smp_Labels s) \<in> seen_sigs g' (smp_Name s)"
  using assms guard_admit_later [of g "smp_Name s" "labelSig (smp_Labels s)" True g']
  by (auto simp: guard_ok_def split: if_splits)

lemma guard_okLog_True:
  assumes "guard_okLog g loop lr = (True, g')"
  shows "\<forall>k\<in>fset (fmdom (lr_IndexedAttributes lr)). k \<in> g_allow g"
    and "\<forall>k\<in>fset (fmdom (lr_IndexedAttributes lr)) \<union> fset (fmdom (lr_RecordAttributes lr)).
           k \<notin> loop_deny g loop \<and> \<not> IsContentFloorKey k"
    and "0 < g_budget g \<Longrightarrow> labelSig (lr_IndexedAttributes lr) \<in> seen_sigs g' (''logs:'' @ loop)"
  using assms guard_admit_later [of g "''logs:'' @ loop" "labelSig (lr_IndexedAttributes lr)" True g']
  by (auto simp: guard_okLog_def split: if_splits)

text \<open>What the shared loop does, for any check that only moves the guard forward.\<close>

lemma guard_filter_spec:
  assumes "\<And>g x b g'. ok g x = (b, g') \<Longrightarrow> guard_later g g'"
    and "guard_filter ok g xs = (kept, dropped, g')"
  shows "guard_later g g' \<and> subseq kept xs \<and> length kept + dropped = length xs \<and>
    (\<forall>x\<in>set kept. \<exists>h h'. guard_later g h \<and> ok h x = (True, h') \<and> guard_later h' g')"
  using assms(2)
proof (induction xs arbitrary: g kept dropped)
  case Nil
  then show ?case by simp
next
  case (Cons x xs)
  obtain b g1 where ok: "ok g x = (b, g1)" by fastforce
  obtain kept1 d1 where rest: "guard_filter ok g1 xs = (kept1, d1, g')"
    and kept: "kept = (if b then x # kept1 else kept1)" "dropped = (if b then d1 else Suc d1)"
    using Cons.prems ok by (auto split: prod.splits if_splits)
  note later = assms(1) [OF ok]
  have all: "\<exists>h h'. guard_later g h \<and> ok h y = (True, h') \<and> guard_later h' g'" if "y \<in> set kept1" for y
    using Cons.IH [OF rest] that guard_later_trans [OF later] by blast
  have first: "\<exists>h h'. guard_later g h \<and> ok h x = (True, h') \<and> guard_later h' g'" if b
    using that ok conjunct1 [OF Cons.IH [OF rest]] by (intro exI [of _ g] exI [of _ g1]) simp
  have "guard_later g g'" using Cons.IH [OF rest] guard_later_trans [OF later] by blast
  moreover have "subseq kept (x # xs) \<and> length kept + dropped = length (x # xs)"
    using Cons.IH [OF rest] kept by auto
  moreover have "\<forall>y\<in>set kept. \<exists>h h'. guard_later g h \<and> ok h y = (True, h') \<and> guard_later h' g'"
    using kept all first by (cases b) simp_all
  ultimately show ?case by blast
qed

lemma Sanitize_spec:
  "guard_filter guard_ok g xs = (kept, dropped, g') \<Longrightarrow>
   guard_later g g' \<and> subseq kept xs \<and> length kept + dropped = length xs \<and>
   (\<forall>x\<in>set kept. \<exists>h h'. guard_later g h \<and> guard_ok h x = (True, h') \<and> guard_later h' g')"
  using guard_filter_spec [of guard_ok g xs kept dropped g'] guard_ok_later by blast

lemma SanitizeLogs_spec:
  "guard_filter (\<lambda>g. guard_okLog g loop) g xs = (kept, dropped, g') \<Longrightarrow>
   guard_later g g' \<and> subseq kept xs \<and> length kept + dropped = length xs \<and>
   (\<forall>x\<in>set kept. \<exists>h h'. guard_later g h \<and> guard_okLog h loop x = (True, h') \<and> guard_later h' g')"
  using guard_filter_spec [of "\<lambda>g. guard_okLog g loop" g xs kept dropped g'] guard_okLog_later by blast

text \<open>What is missing from the result was turned down by the check.\<close>

lemma guard_filter_dropped:
  assumes "\<And>g x b g'. ok g x = (b, g') \<Longrightarrow> guard_later g g'"
    and "guard_filter ok g xs = (kept, dropped, g')" "x \<in> set xs" "x \<notin> set kept"
  shows "\<exists>h h'. guard_later g h \<and> ok h x = (False, h')"
  using assms(2-4)
proof (induction xs arbitrary: g kept dropped)
  case Nil
  then show ?case by simp
next
  case (Cons y ys)
  obtain b g1 where ok: "ok g y = (b, g1)" by fastforce
  obtain kept1 d1 where rest: "guard_filter ok g1 ys = (kept1, d1, g')"
    and kept: "kept = (if b then y # kept1 else kept1)"
    using Cons.prems(1) ok by (auto split: prod.splits if_splits)
  show ?case
  proof (cases "x = y \<and> \<not> b")
    case True
    then show ?thesis using ok by (intro exI [of _ g] exI [of _ g1]) simp
  next
    case False
    then have "x \<in> set ys" "x \<notin> set kept1" using Cons.prems(2,3) kept by (auto split: if_splits)
    from Cons.IH [OF rest this] obtain h h' where "guard_later g1 h" "ok h x = (False, h')" by blast
    then show ?thesis using guard_later_trans [OF assms(1) [OF ok]] by blast
  qed
qed

lemma Sanitize_dropped:
  assumes "Sanitize g b = (b', d, g')" "s \<in> set (bt_Samples b)" "s \<notin> set (bt_Samples b')"
  shows "\<exists>h h'. guard_later g h \<and> guard_ok h s = (False, h')"
proof -
  obtain kept where run: "guard_filter guard_ok g (bt_Samples b) = (kept, d, g')" and "b' = b\<lparr>bt_Samples := kept\<rparr>"
    using assms(1) by (auto simp: Sanitize_def split: prod.splits)
  with guard_filter_dropped [OF _ run assms(2)] guard_ok_later assms(3) show ?thesis by fastforce
qed

lemma Sanitize_frame:
  assumes "Sanitize g b = (b', d, g')"
  shows "guard_later g g'" "set (bt_Samples b') \<subseteq> set (bt_Samples b)" "bt_Logs b' = bt_Logs b" "bt_Key b' = bt_Key b"
proof -
  obtain kept where run: "guard_filter guard_ok g (bt_Samples b) = (kept, d, g')" and b': "b' = b\<lparr>bt_Samples := kept\<rparr>"
    using assms(1) by (auto simp: Sanitize_def split: prod.splits)
  note spec = Sanitize_spec [OF run]
  show "guard_later g g'" using spec by blast
  show "set (bt_Samples b') \<subseteq> set (bt_Samples b)" using spec b' subseq_set by fastforce
  show "bt_Logs b' = bt_Logs b" "bt_Key b' = bt_Key b" using b' by simp_all
qed

lemma guard_step_later: "guard_step g c = (out, g') \<Longrightarrow> guard_later g g'"
  by (cases c)
    (auto simp: Sanitize_def SanitizeLogs_def dest!: Sanitize_spec SanitizeLogs_spec split: prod.splits)

lemma guard_run_later: "guard_run g cs = (outs, g') \<Longrightarrow> guard_later g g'"
proof (induction g cs arbitrary: outs rule: guard_run.induct)
  case (2 g c cs)
  obtain out g1 where step: "guard_step g c = (out, g1)" by fastforce
  with 2 guard_step_later [OF step] guard_later_trans show ?case by (fastforce split: prod.splits)
qed simp

text \<open>With a budget, every sample that leaves the guard has its signature on record at the end.\<close>

lemma guard_step_seen:
  assumes "guard_step g c = (out, g')" "0 < g_budget g" "s \<in> set (fst out)"
  shows "labelSig (smp_Labels s) \<in> seen_sigs g' (smp_Name s)"
proof (cases c)
  case (SamplesCall b)
  obtain kept d where run: "guard_filter guard_ok g (bt_Samples b) = (kept, d, g')" and s: "s \<in> set kept"
    using assms(1,3) SamplesCall by (auto simp: Sanitize_def split: prod.splits)
  from Sanitize_spec [OF run] s obtain h h' where
    h: "guard_later g h" "guard_ok h s = (True, h')" "guard_later h' g'" by blast
  have "g_budget h = g_budget g" using h(1) guard_conf_fields(3) [of h g] by (simp add: guard_later_def)
  with guard_ok_True(2) [OF h(2)] assms(2) h(3) show ?thesis by (auto simp: guard_later_def)
next
  case (LogsCall loop ls)
  with assms show ?thesis by (auto split: prod.splits)
qed

lemma guard_run_seen:
  assumes "guard_run g cs = (outs, g')" "0 < g_budget g" "s \<in> set (run_samples outs)"
  shows "labelSig (smp_Labels s) \<in> seen_sigs g' (smp_Name s)"
  using assms
proof (induction g cs arbitrary: outs rule: guard_run.induct)
  case (2 g c cs)
  obtain out g1 where step: "guard_step g c = (out, g1)" by fastforce
  obtain outs1 where run: "guard_run g1 cs = (outs1, g')" and outs: "outs = out # outs1"
    using 2(2) step by (auto split: prod.splits)
  have bud: "0 < g_budget g1"
    using guard_step_later [OF step] guard_conf_fields [of g1 g] 2(3) by (simp add: guard_later_def)
  show ?case
  proof (cases "s \<in> set (fst out)")
    case True
    with guard_step_seen [OF step 2(3)] guard_run_later [OF run] show ?thesis
      by (auto simp: guard_later_def)
  next
    case False
    with 2(4) outs have "s \<in> set (run_samples outs1)" by (simp add: run_samples_def)
    with "2.IH" [OF step [symmetric] run bud] show ?thesis by simp
  qed
qed (simp add: run_samples_def)

lemma NewGuard_inv [simp]: "guard_inv (NewGuard cfg)"
  by (simp add: NewGuard_def guard_inv_def)

section \<open>Properties\<close>

text \<open>C21: no content leaves through the metrics path. Whatever the configuration and the state
  of the guard, every sample that Sanitize keeps carries only allow-listed label keys, none
  deny-listed and none on the content floor; the kept samples are the input's, in order, and
  the others are all counted.\<close>

theorem Sanitize_safe:
  assumes "Sanitize g b = (b', dropped, g')"
  shows "(\<forall>s\<in>set (bt_Samples b'). \<forall>k\<in>fset (fmdom (smp_Labels s)).
            k \<in> g_allow g \<and> k \<notin> g_deny g \<and> \<not> IsContentFloorKey k) \<and>
         subseq (bt_Samples b') (bt_Samples b) \<and>
         length (bt_Samples b') + dropped = length (bt_Samples b) \<and>
         bt_Key b' = bt_Key b \<and> bt_Logs b' = bt_Logs b \<and> bt_Watermark b' = bt_Watermark b"
proof -
  obtain kept where run: "guard_filter guard_ok g (bt_Samples b) = (kept, dropped, g')"
    and b': "b' = b\<lparr>bt_Samples := kept\<rparr>"
    using assms by (auto simp: Sanitize_def split: prod.splits)
  note spec = Sanitize_spec [OF run]
  have "k \<in> g_allow g \<and> k \<notin> g_deny g \<and> \<not> IsContentFloorKey k"
    if s: "s \<in> set kept" and k: "k \<in> fset (fmdom (smp_Labels s))" for s k
  proof -
    obtain h h' where h: "guard_later g h" "guard_ok h s = (True, h')" using spec s by blast
    then show ?thesis using guard_ok_True(1) [OF h(2)] k guard_conf_fields [of h g]
      by (auto simp: guard_later_def)
  qed
  with spec b' show ?thesis by simp
qed

theorem Sanitize_safe_witness:
  "\<not> IsContentFloorKey ''model'' \<and>
   Sanitize (NewGuard \<lparr>gc_AllowLabelKeys = [''model'', ''inputs''], gc_DenyFieldKeys = [],
      gc_DenyFieldKeysByLoop = fmempty, gc_PerSeriesBudget = 0, gc_OnNewLabelValue = False\<rparr>)
     (zero_batch\<lparr>bt_Samples := [gauge ''a'' (fmap_of_list [(''model'', ''x'')]) FNaN 0,
                               gauge ''a'' (fmap_of_list [(''inputs'', ''x'')]) FNaN 0]\<rparr>) =
   (zero_batch\<lparr>bt_Samples := [gauge ''a'' (fmap_of_list [(''model'', ''x'')]) FNaN 0]\<rparr>, 1,
    NewGuard \<lparr>gc_AllowLabelKeys = [''model'', ''inputs''], gc_DenyFieldKeys = [],
      gc_DenyFieldKeysByLoop = fmempty, gc_PerSeriesBudget = 0, gc_OnNewLabelValue = False\<rparr>)"
proof -
  let ?g = "NewGuard \<lparr>gc_AllowLabelKeys = [''model'', ''inputs''], gc_DenyFieldKeys = [],
      gc_DenyFieldKeysByLoop = fmempty, gc_PerSeriesBudget = 0, gc_OnNewLabelValue = False\<rparr>"
  let ?a = "gauge ''a'' (fmap_of_list [(''model'', ''x'')]) FNaN 0"
  let ?b = "gauge ''a'' (fmap_of_list [(''inputs'', ''x'')]) FNaN 0"
  have run: "Sanitize ?g (zero_batch\<lparr>bt_Samples := [?a, ?b]\<rparr>) = (zero_batch\<lparr>bt_Samples := [?a]\<rparr>, 1, ?g)"
    by (simp add: Sanitize_def guard_ok_def gauge_def sorted_keys_of_list NewGuard_def IsContentFloorKey_def
        AbsoluteNeverDenyKeys_def genAIContentPrefixes_def HasPrefix_def)
  from Sanitize_safe [OF this] show ?thesis using run by (simp add: gauge_def)
qed

text \<open>C22: no content leaves through the logs path. Every record that SanitizeLogs keeps has an
  empty body, no content-floor key and no key on the deny-list of its loop in either
  attribute map, and only allow-listed keys in the indexed map.\<close>

theorem SanitizeLogs_safe:
  assumes "SanitizeLogs g loop logs = (kept, dropped, g')"
  shows "(\<forall>lr\<in>set kept. lr_Body lr = '''' \<and>
            (\<forall>k\<in>fset (fmdom (lr_IndexedAttributes lr)). k \<in> g_allow g) \<and>
            (\<forall>k\<in>fset (fmdom (lr_IndexedAttributes lr)) \<union> fset (fmdom (lr_RecordAttributes lr)).
               k \<notin> loop_deny g loop \<and> \<not> IsContentFloorKey k)) \<and>
         subseq kept (map (\<lambda>lr. lr\<lparr>lr_Body := ''''\<rparr>) logs) \<and> length kept + dropped = length logs"
proof -
  note spec = SanitizeLogs_spec [OF assms [unfolded SanitizeLogs_def]]
  have "lr_Body lr = ''''" if "lr \<in> set kept" for lr
    using subseq_set [OF conjunct1 [OF conjunct2 [OF spec]] that] by auto
  moreover have "(\<forall>k\<in>fset (fmdom (lr_IndexedAttributes lr)). k \<in> g_allow g) \<and>
      (\<forall>k\<in>fset (fmdom (lr_IndexedAttributes lr)) \<union> fset (fmdom (lr_RecordAttributes lr)).
         k \<notin> loop_deny g loop \<and> \<not> IsContentFloorKey k)" if lr: "lr \<in> set kept" for lr
  proof -
    obtain h h' where h: "guard_later g h" "guard_okLog h loop lr = (True, h')" using spec lr by blast
    then show ?thesis using guard_okLog_True(1,2) [OF h(2)] guard_conf_fields [of h g]
      by (simp add: guard_later_def)
  qed
  ultimately show ?thesis using spec by simp
qed

definition floor_guard :: guard where
  "floor_guard = NewGuard \<lparr>gc_AllowLabelKeys = [''model''], gc_DenyFieldKeys = [''prompt_name''],
     gc_DenyFieldKeysByLoop = fmap_of_list [(''l'', [])], gc_PerSeriesBudget = 1, gc_OnNewLabelValue = True\<rparr>"

definition log_of :: "labels \<Rightarrow> labels \<Rightarrow> string \<Rightarrow> log_record" where
  "log_of ix rc body = \<lparr>lr_Timestamp = 0, lr_Body = body, lr_Severity = '''', lr_IndexedAttributes = ix,
     lr_RecordAttributes = rc, lr_TraceID = ''''\<rparr>"

theorem SanitizeLogs_safe_witness:
  "\<exists>g'. SanitizeLogs floor_guard ''l''
       [log_of (fmap_of_list [(''model'', ''m'')]) (fmap_of_list [(''prompt_name'', ''p'')]) ''secret'',
        log_of fmempty (fmap_of_list [(''gen_ai.prompt.0.content'', ''p'')]) '''',
        log_of (fmap_of_list [(''model'', ''n'')]) fmempty ''''] =
     ([log_of (fmap_of_list [(''model'', ''m'')]) (fmap_of_list [(''prompt_name'', ''p'')]) ''''], 2, g') \<and>
     g_new_values g' = [''logs:l'', ''logs:l'']"
proof -
  let ?in = "[log_of (fmap_of_list [(''model'', ''m'')]) (fmap_of_list [(''prompt_name'', ''p'')]) ''secret'',
        log_of fmempty (fmap_of_list [(''gen_ai.prompt.0.content'', ''p'')]) '''',
        log_of (fmap_of_list [(''model'', ''n'')]) fmempty '''']"
  have ne: "labelSig (fmap_of_list [(''model'', ''n'')]) \<noteq> labelSig (fmap_of_list [(''model'', ''m'')])"
    unfolding labelSig_eq_iff by (auto dest: arg_cong [where f = "\<lambda>f. fmlookup f ''model''"])
  have card: "fcard {|x|} = 1" "fcard {||} = 0" for x :: string by (simp_all add: fcard.rep_eq)
  obtain g' where run: "SanitizeLogs floor_guard ''l'' ?in =
      ([log_of (fmap_of_list [(''model'', ''m'')]) (fmap_of_list [(''prompt_name'', ''p'')]) ''''], 2, g')"
    and new: "g_new_values g' = [''logs:l'', ''logs:l'']"
    using ne by (simp add: SanitizeLogs_def guard_okLog_def log_of_def sorted_keys_of_list floor_guard_def
        NewGuard_def IsContentFloorKey_def AbsoluteNeverDenyKeys_def genAIContentPrefixes_def HasPrefix_def
        guard_admit_def guard_onNew_def loop_deny_def fmlookup_of_list card Let_def numeral_2_eq_2)
  from SanitizeLogs_safe [OF run] run new show ?thesis by blast
qed

text \<open>C28: the cardinality budget. Over any sequence of calls of a guard with a positive budget,
  in whatever order the loops get its lock, the samples that leave it carry at most budget
  many distinct label sets per series name; label sets, not only their signatures, because
  the signature is injective.\<close>

theorem guard_budget:
  assumes "guard_run (NewGuard cfg) calls = (outs, g')" "0 < gc_PerSeriesBudget cfg"
  shows "int (card (smp_Labels ` {s \<in> set (run_samples outs). smp_Name s = n})) \<le> gc_PerSeriesBudget cfg"
proof -
  let ?L = "smp_Labels ` {s \<in> set (run_samples outs). smp_Name s = n}"
  have later: "guard_later (NewGuard cfg) g'" by (rule guard_run_later [OF assms(1)])
  then have bud: "g_budget g' = gc_PerSeriesBudget cfg"
    using guard_conf_fields(3) [of g' "NewGuard cfg"] by (simp add: guard_later_def NewGuard_def)
  have "labelSig ` ?L \<subseteq> seen_sigs g' n"
    using guard_run_seen [OF assms(1)] assms(2) by (auto simp: NewGuard_def)
  moreover have "finite (seen_sigs g' n)" by (simp add: seen_sigs_def split: option.split)
  ultimately have "card (labelSig ` ?L) \<le> card (seen_sigs g' n)" by (rule card_mono [rotated])
  moreover have "card (labelSig ` ?L) = card ?L"
    by (intro card_image inj_onI) (simp add: labelSig_eq_iff)
  moreover have "guard_inv g'" using later by (simp add: guard_later_def)
  then have "int (card (seen_sigs g' n)) \<le> g_budget g'"
    using assms(2) bud by (auto simp: guard_inv_def seen_sigs_def fcard.rep_eq split: option.splits)
  ultimately show ?thesis using bud by linarith
qed

theorem guard_budget_witness:
  "\<exists>outs g'. guard_run (NewGuard \<lparr>gc_AllowLabelKeys = [''model''], gc_DenyFieldKeys = [],
       gc_DenyFieldKeysByLoop = fmempty, gc_PerSeriesBudget = 1, gc_OnNewLabelValue = False\<rparr>)
     [SamplesCall (zero_batch\<lparr>bt_Samples := [gauge ''a'' fmempty FNaN 0]\<rparr>), LogsCall ''l'' [],
      SamplesCall (zero_batch\<lparr>bt_Samples := [gauge ''a'' (fmap_of_list [(''model'', ''x'')]) FNaN 0]\<rparr>)] = (outs, g') \<and>
     run_samples outs = [gauge ''a'' fmempty FNaN 0] \<and>
     int (card (smp_Labels ` {s \<in> set (run_samples outs). smp_Name s = ''a''})) \<le> 1"
proof -
  let ?cfg = "\<lparr>gc_AllowLabelKeys = [''model''], gc_DenyFieldKeys = [],
       gc_DenyFieldKeysByLoop = fmempty, gc_PerSeriesBudget = 1, gc_OnNewLabelValue = False\<rparr>"
  let ?calls = "[SamplesCall (zero_batch\<lparr>bt_Samples := [gauge ''a'' fmempty FNaN 0]\<rparr>), LogsCall ''l'' [],
      SamplesCall (zero_batch\<lparr>bt_Samples := [gauge ''a'' (fmap_of_list [(''model'', ''x'')]) FNaN 0]\<rparr>)]"
  have card: "fcard {|x|} = 1" "fcard {||} = 0" for x :: string by (simp_all add: fcard.rep_eq)
  have ne: "labelSig (fmap_of_list [(''model'', ''x'')]) \<noteq> labelSig fmempty"
    unfolding labelSig_eq_iff by (auto dest: arg_cong [where f = "\<lambda>f. fmlookup f ''model''"])
  obtain outs g' where run: "guard_run (NewGuard ?cfg) ?calls = (outs, g')"
    and outs: "run_samples outs = [gauge ''a'' fmempty FNaN 0]"
    using ne by (simp add: Sanitize_def SanitizeLogs_def guard_ok_def gauge_def sorted_keys_of_list NewGuard_def
        guard_admit_def guard_onNew_def IsContentFloorKey_def AbsoluteNeverDenyKeys_def genAIContentPrefixes_def
        HasPrefix_def card Let_def run_samples_def)
  from guard_budget [OF run, of "''a''"] run outs show ?thesis by fastforce
qed

end
