(* ===== verification/Coalesce.thy ===== *)
theory Coalesce
  imports Model
begin

text \<open>
  The emission errors (\<^verbatim>\<open>internal/emit/emit.go\<close>) and the data-points-per-minute cap
  (\<^verbatim>\<open>coalesce.go\<close>). The groups of the Go map are visited here in the order of their first
  sample; the result does not depend on that order, since the groups are disjoint. With a
  NaN among the values the comparison is not an order and the choice within one timestamp
  is the sorting routine's; the counting properties hold all the same.
\<close>

section \<open>Errors\<close>

datatype RejectReason = ReasonNone | ReasonDuplicateTimestamp | ReasonTooOld | ReasonPayloadTooLarge
  | ReasonBadEncoding | ReasonUnknown

record reject_error =
  re_Reason :: RejectReason
  re_Status :: int
  re_Msg :: string

definition AdvancesPast :: "reject_error \<Rightarrow> bool" where
  "AdvancesPast e =
     (case re_Reason e of
        ReasonDuplicateTimestamp \<Rightarrow> True | ReasonTooOld \<Rightarrow> True | ReasonPayloadTooLarge \<Rightarrow> True
      | _ \<Rightarrow> False)"

text \<open>What an emitter returns: nothing, a rejection, a retryable error with its status, another error.\<close>

datatype emit_result = EmitOk | EmitReject reject_error | EmitRetryable int | EmitOther string

section \<open>The cap\<close>

definition seriesKey :: "sample \<Rightarrow> string" where
  "seriesKey s =
     len_prefixed (smp_Name s) @ len_prefixed (smp_Unit s) @
     concat (map (\<lambda>k. len_prefixed k @ len_prefixed (map_get (smp_Labels s) k)) (sorted_keys (smp_Labels s)))"

definition dpm_key :: "sample \<Rightarrow> string \<times> int" where
  "dpm_key s = (seriesKey s, UnixNano (time_Truncate (smp_Timestamp s) Minute))"

text \<open>The comparison of the sort: newest first, then the larger value.\<close>

definition dpm_less :: "sample \<Rightarrow> sample \<Rightarrow> bool" where
  "dpm_less a b =
     (if smp_Timestamp a \<noteq> smp_Timestamp b then smp_Timestamp a > smp_Timestamp b
      else f_gt (smp_Value a) (smp_Value b))"

definition dpm_group :: "sample list \<Rightarrow> string \<times> int \<Rightarrow> nat list" where
  "dpm_group samples k = filter (\<lambda>i. dpm_key (samples ! i) = k) [0..<length samples]"

definition dpm_survivors :: "sample list \<Rightarrow> nat \<Rightarrow> nat list \<Rightarrow> nat list" where
  "dpm_survivors samples m idxs =
     (if length idxs \<le> m then idxs
      else take m (stable_sort (\<lambda>a b. dpm_less (samples ! a) (samples ! b)) idxs))"

definition cap_group :: "sample list \<Rightarrow> nat \<Rightarrow> nat list \<Rightarrow> bool list \<times> nat \<Rightarrow> bool list \<times> nat" where
  "cap_group samples m idxs st =
     (fold (\<lambda>i keep. keep[i := True]) (dpm_survivors samples m idxs) (fst st), snd st + (length idxs - m))"

definition CoalesceDPM :: "sample list \<Rightarrow> int \<Rightarrow> sample list \<times> nat" where
  "CoalesceDPM samples maxDPM =
     (let m = nat (if maxDPM < 1 then 1 else maxDPM)
      in if samples = [] then (samples, 0)
         else let (keep, capped) =
                    fold (cap_group samples m) (map (dpm_group samples) (remdups (map dpm_key samples)))
                         (replicate (length samples) False, 0)
              in if capped = 0 then (samples, 0)
                 else (map (\<lambda>i. samples ! i) (filter (\<lambda>i. keep ! i) [0..<length samples]), capped))"

section \<open>Series identity\<close>

lemma concat_pairs: "concat (map (\<lambda>k. g k @ g (f k)) ks) = concat (map g (concat (map (\<lambda>k. [k, f k]) ks)))"
  by (induction ks) simp_all

lemma seriesKey_components:
  "seriesKey s = len_prefixed_all (smp_Name s # smp_Unit s # label_components (smp_Labels s))"
  by (simp add: seriesKey_def len_prefixed_all_def label_components_def concat_pairs)

lemma seriesKey_eq_iff:
  "seriesKey s = seriesKey t \<longleftrightarrow>
     smp_Name s = smp_Name t \<and> smp_Unit s = smp_Unit t \<and> smp_Labels s = smp_Labels t"
  unfolding seriesKey_components using len_prefixed_all_inj label_components_inj by fastforce

section \<open>The groups\<close>

lemma fold_mark:
  "length (fold (\<lambda>i keep. keep[i := True]) is ks) = length ks"
  "j < length ks \<Longrightarrow> fold (\<lambda>i keep. keep[i := True]) is ks ! j \<longleftrightarrow> j \<in> set is \<or> ks ! j"
proof (induction "is" arbitrary: ks)
  case (Cons a "is")
  {
    case 1
    then show ?case using Cons by simp
  next
    case 2
    then show ?case using Cons by (cases "a = j") simp_all
  }
qed simp_all

lemma fold_cap:
  "length (fst (fold (cap_group samples m) gs st)) = length (fst st)"
  "j < length (fst st) \<Longrightarrow> fst (fold (cap_group samples m) gs st) ! j \<longleftrightarrow>
     fst st ! j \<or> (\<exists>idxs\<in>set gs. j \<in> set (dpm_survivors samples m idxs))"
  "snd (fold (cap_group samples m) gs st) = snd st + sum_list (map (\<lambda>idxs. length idxs - m) gs)"
  by (induction gs arbitrary: st) (auto simp: cap_group_def fold_mark)

lemma set_dpm_survivors: "set (dpm_survivors samples m idxs) \<subseteq> set idxs"
  by (auto simp: dpm_survivors_def dest: in_set_takeD)

lemma length_dpm_survivors: "length (dpm_survivors samples m idxs) = min m (length idxs)"
  by (simp add: dpm_survivors_def)

lemma distinct_stable_sort: "distinct xs \<Longrightarrow> distinct (stable_sort lt xs)"
  by (metis mset_stable_sort mset_eq_imp_distinct_iff)

lemma distinct_dpm_survivors: "distinct idxs \<Longrightarrow> distinct (dpm_survivors samples m idxs)"
  by (simp add: dpm_survivors_def distinct_stable_sort)

text \<open>The indices kept, all groups together.\<close>

definition dpm_kept :: "sample list \<Rightarrow> nat \<Rightarrow> nat list" where
  "dpm_kept samples m =
     filter (\<lambda>i. i \<in> set (dpm_survivors samples m (dpm_group samples (dpm_key (samples ! i))))) [0..<length samples]"

definition dpm_max :: "int \<Rightarrow> nat" where
  "dpm_max maxDPM = nat (max 1 maxDPM)"

lemma in_dpm_group: "i \<in> set (dpm_group samples k) \<longleftrightarrow> i < length samples \<and> dpm_key (samples ! i) = k"
  by (auto simp: dpm_group_def)

lemma keep_iff:
  assumes "i < length samples"
  shows "(\<exists>idxs\<in>set (map (dpm_group samples) (remdups (map dpm_key samples))). i \<in> set (dpm_survivors samples m idxs)) \<longleftrightarrow>
         i \<in> set (dpm_survivors samples m (dpm_group samples (dpm_key (samples ! i))))"
proof
  assume "\<exists>idxs\<in>set (map (dpm_group samples) (remdups (map dpm_key samples))). i \<in> set (dpm_survivors samples m idxs)"
  then obtain s where k: "i \<in> set (dpm_survivors samples m (dpm_group samples (dpm_key s)))" by auto
  then have "i \<in> set (dpm_group samples (dpm_key s))" using set_dpm_survivors by blast
  with k show "i \<in> set (dpm_survivors samples m (dpm_group samples (dpm_key (samples ! i))))"
    by (simp add: in_dpm_group)
qed (use assms in auto)

lemma count_partition:
  assumes "finite K" "\<forall>x\<in>set xs. f x \<in> K"
  shows "(\<Sum>k\<in>K. length (filter (\<lambda>x. P x \<and> f x = k) xs)) = length (filter P xs)"
  using assms(2)
proof (induction xs)
  case (Cons x xs)
  have "(\<Sum>k\<in>K. length (filter (\<lambda>x. P x \<and> f x = k) (x # xs))) =
      (\<Sum>k\<in>K. (if k = f x then (if P x then 1 else 0) else 0) + length (filter (\<lambda>x. P x \<and> f x = k) xs))"
    by (rule sum.cong) auto
  also have "\<dots> = (if P x then 1 else 0) + length (filter P xs)"
    using Cons assms(1) by (simp add: sum.distrib sum.delta)
  finally show ?case by simp
qed simp

lemma dpm_group_kept:
  "length (filter (\<lambda>i. i \<in> set (dpm_kept samples m) \<and> dpm_key (samples ! i) = k) [0..<length samples]) =
   min m (length (dpm_group samples k))"
proof -
  let ?xs = "filter (\<lambda>i. i \<in> set (dpm_kept samples m) \<and> dpm_key (samples ! i) = k) [0..<length samples]"
  let ?ys = "dpm_survivors samples m (dpm_group samples k)"
  have "set ?xs = set ?ys"
    using set_dpm_survivors [of samples m "dpm_group samples k"] by (auto simp: dpm_kept_def in_dpm_group)
  moreover have "distinct ?xs" "distinct ?ys"
    by (simp_all add: distinct_dpm_survivors dpm_group_def)
  ultimately have "length ?xs = length ?ys" by (metis distinct_card)
  then show ?thesis by (simp add: length_dpm_survivors)
qed

lemma filter_upt_mem:
  assumes "set xs \<subseteq> {..<n}"
  shows "filter (\<lambda>i. i \<in> set (filter P [0..<n])) [0..<n] = filter P [0..<n]"
  by (rule filter_cong) auto

lemma dpm_kept_count:
  "sum_list (map (\<lambda>k. length (dpm_group samples k) - m) (remdups (map dpm_key samples))) + length (dpm_kept samples m) =
   length samples"
proof -
  let ?K = "set (map dpm_key samples)"
  let ?n = "length samples"
  have K: "finite ?K" "\<forall>i\<in>set [0..<?n]. dpm_key (samples ! i) \<in> ?K" by auto
  have "(\<Sum>k\<in>?K. length (filter (\<lambda>i. True \<and> dpm_key (samples ! i) = k) [0..<?n])) = ?n"
    using count_partition [OF K, of "\<lambda>_. True"] by simp
  then have all: "(\<Sum>k\<in>?K. length (dpm_group samples k)) = ?n" by (simp add: dpm_group_def)
  have "filter (\<lambda>i. i \<in> set (dpm_kept samples m)) [0..<?n] = dpm_kept samples m"
    unfolding dpm_kept_def by (rule filter_upt_mem [where xs = "[]"]) simp
  then have kept: "(\<Sum>k\<in>?K. min m (length (dpm_group samples k))) = length (dpm_kept samples m)"
    using count_partition [OF K, of "\<lambda>i. i \<in> set (dpm_kept samples m)"] by (simp add: dpm_group_kept)
  have "sum_list (map (\<lambda>k. length (dpm_group samples k) - m) (remdups (map dpm_key samples))) =
      (\<Sum>k\<in>?K. length (dpm_group samples k) - m)"
    by (subst sum_list_distinct_conv_sum_set) simp_all
  moreover have "(\<Sum>k\<in>?K. length (dpm_group samples k) - m) + (\<Sum>k\<in>?K. min m (length (dpm_group samples k))) =
      (\<Sum>k\<in>?K. length (dpm_group samples k))"
    unfolding sum.distrib [symmetric] by (rule sum.cong) auto
  ultimately show ?thesis using all kept by simp
qed

text \<open>The result in closed form: the survivors of every group, in input order, and the rest counted.\<close>

lemma CoalesceDPM_eq:
  "CoalesceDPM samples maxDPM =
     (map (\<lambda>i. samples ! i) (dpm_kept samples (dpm_max maxDPM)),
      length samples - length (dpm_kept samples (dpm_max maxDPM)))"
proof -
  let ?m = "dpm_max maxDPM" and ?n = "length samples"
  define st where "st = fold (cap_group samples ?m) (map (dpm_group samples) (remdups (map dpm_key samples)))
      (replicate ?n False, 0)"
  have m: "nat (if maxDPM < 1 then 1 else maxDPM) = ?m" by (simp add: dpm_max_def max_def)
  have kept: "filter (\<lambda>i. fst st ! i) [0..<?n] = dpm_kept samples ?m"
    unfolding dpm_kept_def st_def
    by (rule filter_cong) (use fold_cap(2) [of _ "(replicate ?n False, 0)"] keep_iff in auto)
  have capped: "snd st = ?n - length (dpm_kept samples ?m)"
    using dpm_kept_count [of samples ?m] by (simp add: st_def fold_cap(3) comp_def)
  have none: "dpm_kept samples ?m = [0..<?n]" if "snd st = 0"
  proof -
    have "length (dpm_kept samples ?m) = length [0..<?n]"
      using that capped dpm_kept_count [of samples ?m] by simp
    then show ?thesis unfolding dpm_kept_def by (metis length_filter_less filter_True less_irrefl)
  qed
  show ?thesis
  proof (cases "samples = []")
    case True
    then show ?thesis by (simp add: CoalesceDPM_def dpm_kept_def)
  next
    case False
    then have "CoalesceDPM samples maxDPM =
        (if snd st = 0 then (samples, 0) else (map (\<lambda>i. samples ! i) (filter (\<lambda>i. fst st ! i) [0..<?n]), snd st))"
      by (simp add: CoalesceDPM_def m st_def Let_def split_def)
    then show ?thesis
    proof (cases "snd st = 0")
      case True
      with \<open>CoalesceDPM samples maxDPM = _\<close> none [OF True] show ?thesis by (simp add: map_nth)
    next
      case False
      with \<open>CoalesceDPM samples maxDPM = _\<close>
      have "CoalesceDPM samples maxDPM = (map (\<lambda>i. samples ! i) (filter (\<lambda>i. fst st ! i) [0..<?n]), snd st)"
        by simp
      then show ?thesis by (simp only: kept capped)
    qed
  qed
qed

lemma filter_map_length: "length (filter P (map f xs)) = length (filter (\<lambda>x. P (f x)) xs)"
  by (simp add: filter_map comp_def)

lemma length_filter_imp: "(\<And>x. P (f x) \<Longrightarrow> Q (f x)) \<Longrightarrow>
    length (filter (\<lambda>x. P (f x)) xs) \<le> length (filter (\<lambda>x. Q (f x)) xs)"
  by (induction xs) auto

lemma length_filter_mem: "(\<And>x. x \<in> set xs \<Longrightarrow> P x \<Longrightarrow> Q x) \<Longrightarrow> length (filter P xs) \<le> length (filter Q xs)"
  by (induction xs) auto

lemma dpm_kept_mem:
  "i \<in> set (dpm_kept samples m) \<longleftrightarrow> i < length samples \<and>
     i \<in> set (dpm_survivors samples m (dpm_group samples (dpm_key (samples ! i))))"
  by (auto simp: dpm_kept_def)

lemma strict_weak_dpm_less:
  assumes "\<forall>i\<in>I. smp_Value (samples ! i) \<noteq> FNaN"
  shows "\<exists>lt. strict_weak lt \<and> (\<forall>a\<in>I. \<forall>b\<in>I. dpm_less (samples ! a) (samples ! b) = lt a b)"
proof -
  define v where "v a = (if a \<in> I then smp_Value (samples ! a) else Fin 0)" for a
  let ?t = "\<lambda>a. smp_Timestamp (samples ! a)"
  define lt where "lt a b = (if ?t a \<noteq> ?t b then ?t a > ?t b else f_gt (v a) (v b))" for a b
  have nn: "v a \<noteq> FNaN" for a using assms by (simp add: v_def)
  have "strict_weak lt" unfolding strict_weak_def lt_def f_gt_def
    using f_lt_trans f_lt_negtrans [OF _ nn] by (auto split: if_splits) (metis+)?
  moreover have "dpm_less (samples ! a) (samples ! b) = lt a b" if "a \<in> I" "b \<in> I" for a b
    using that by (simp add: dpm_less_def lt_def v_def)
  ultimately show ?thesis by blast
qed

lemma insert_by_cong:
  "(\<And>y. y \<in> set ys \<Longrightarrow> lt x y = lt' x y) \<Longrightarrow> insert_by lt x ys = insert_by lt' x ys"
  by (induction ys) auto

lemma stable_sort_cong:
  assumes "\<forall>a\<in>set xs. \<forall>b\<in>set xs. lt a b = lt' a b"
  shows "stable_sort lt xs = stable_sort lt' xs"
proof -
  have "set ys \<subseteq> I \<Longrightarrow> set zs \<subseteq> I \<Longrightarrow> \<forall>a\<in>I. \<forall>b\<in>I. lt a b = lt' a b \<Longrightarrow>
      fold (insert_by lt) zs ys = fold (insert_by lt') zs ys" for ys zs I
  proof (induction zs arbitrary: ys)
    case (Cons z zs)
    have "insert_by lt z ys = insert_by lt' z ys"
      by (rule insert_by_cong) (use Cons.prems in auto)
    with Cons.IH [of "insert_by lt' z ys"] Cons.prems show ?case by simp
  qed simp
  from this [of "[]" "set xs" xs] assms show ?thesis by (simp add: stable_sort_def)
qed

text \<open>A dropped index is outlived by a full allowance of its own group, none of it older.\<close>

lemma dropped_outlived:
  assumes "i < length samples" "i \<notin> set (dpm_kept samples m)" "\<forall>s\<in>set samples. smp_Value s \<noteq> FNaN"
  shows "m \<le> length (filter (\<lambda>j. j \<in> set (dpm_kept samples m) \<and>
           dpm_key (samples ! j) = dpm_key (samples ! i) \<and>
           smp_Timestamp (samples ! i) \<le> smp_Timestamp (samples ! j)) [0..<length samples])"
proof -
  let ?k = "dpm_key (samples ! i)"
  let ?g = "dpm_group samples ?k"
  let ?less = "\<lambda>a b. dpm_less (samples ! a) (samples ! b)"
  let ?s = "stable_sort ?less ?g"
  let ?F = "filter (\<lambda>j. j \<in> set (dpm_kept samples m) \<and> dpm_key (samples ! j) = ?k \<and>
           smp_Timestamp (samples ! i) \<le> smp_Timestamp (samples ! j)) [0..<length samples]"
  have ig: "i \<in> set ?g" using assms(1) by (simp add: in_dpm_group)
  have out: "i \<notin> set (dpm_survivors samples m ?g)" using assms(1,2) by (simp add: dpm_kept_mem)
  then have surv: "dpm_survivors samples m ?g = take m ?s" and m: "m < length ?g"
    using ig by (auto simp: dpm_survivors_def split: if_splits)
  have "\<forall>j\<in>set ?g. smp_Value (samples ! j) \<noteq> FNaN" using assms(3) by (auto simp: in_dpm_group)
  from strict_weak_dpm_less [OF this] obtain lt where lt: "strict_weak lt"
    "\<forall>a\<in>set ?g. \<forall>b\<in>set ?g. ?less a b = lt a b" by blast
  have "sorted_wrt (\<lambda>x y. \<not> lt y x) ?s"
    unfolding stable_sort_cong [OF lt(2)] by (rule sorted_stable_sort [OF lt(1)])
  then have sorted: "sorted_wrt (\<lambda>x y. \<not> lt y x) (take m ?s @ drop m ?s)" by simp
  have id: "i \<in> set (drop m ?s)"
    using ig out surv set_append [of "take m ?s" "drop m ?s"] by auto
  have newer: "smp_Timestamp (samples ! i) \<le> smp_Timestamp (samples ! j)" if j: "j \<in> set (take m ?s)" for j
  proof -
    have "\<not> lt i j" using sorted j id unfolding sorted_wrt_append by blast
    moreover have "j \<in> set ?g" using j in_set_takeD by fastforce
    ultimately have "\<not> ?less i j" using lt(2) ig by blast
    then show ?thesis by (auto simp: dpm_less_def split: if_splits)
  qed
  have kept: "j \<in> set (dpm_kept samples m) \<and> dpm_key (samples ! j) = ?k \<and> j < length samples"
    if j: "j \<in> set (take m ?s)" for j
  proof -
    have "j \<in> set ?g" using j in_set_takeD by fastforce
    then show ?thesis using j surv by (simp add: dpm_kept_mem in_dpm_group)
  qed
  have "j \<in> set ?F" if "j \<in> set (take m ?s)" for j
    using newer [OF that] kept [OF that] by simp
  then have "set (take m ?s) \<subseteq> set ?F" by blast
  then have "card (set (take m ?s)) \<le> card (set ?F)" by (intro card_mono) simp_all
  moreover have "card (set (take m ?s)) = m"
    using m by (subst distinct_card) (simp_all add: distinct_stable_sort dpm_group_def)
  moreover have "card (set ?F) \<le> length ?F" by (rule card_length)
  ultimately show ?thesis by linarith
qed

lemma CoalesceDPM_subset: "set (fst (CoalesceDPM samples d)) \<subseteq> set samples"
  by (auto simp: CoalesceDPM_eq dpm_kept_mem)

section \<open>Properties\<close>

text \<open>C27: the cap holds and nothing is lost silently. Of one series (name, unit and labels) and
  one minute, at most the configured number of points leave, one when the configuration is
  lower; the survivors are in input order and the suppressed ones are exactly counted.\<close>

theorem CoalesceDPM_cap:
  "length (filter (\<lambda>s. smp_Name s = nm \<and> smp_Unit s = un \<and> smp_Labels s = ls \<and>
        time_Truncate (smp_Timestamp s) Minute = t) (fst (CoalesceDPM samples d))) \<le> nat (max 1 d) \<and>
   subseq (fst (CoalesceDPM samples d)) samples \<and>
   length (fst (CoalesceDPM samples d)) + snd (CoalesceDPM samples d) = length samples"
proof -
  let ?m = "dpm_max d" and ?n = "length samples"
  let ?Q = "\<lambda>s. smp_Name s = nm \<and> smp_Unit s = un \<and> smp_Labels s = ls \<and>
        time_Truncate (smp_Timestamp s) Minute = t"
  have one_key: "\<exists>k. \<forall>s. ?Q s \<longrightarrow> dpm_key s = k"
    by (rule exI [of _ "(seriesKey \<lparr>smp_Name = nm, smp_Kind = Gauge, smp_Temporality = TempUnset, smp_Monotonic = False,
        smp_Unit = un, smp_Labels = ls, smp_Value = FNaN, smp_Timestamp = 0\<rparr>, UnixNano t)"])
      (simp add: dpm_key_def seriesKey_eq_iff)
  then obtain k where k: "\<And>s. ?Q s \<Longrightarrow> dpm_key s = k" by blast
  have kept_id: "filter (\<lambda>i. i \<in> set (dpm_kept samples ?m)) [0..<?n] = dpm_kept samples ?m"
    unfolding dpm_kept_def by (rule filter_upt_mem [where xs = "[]"]) simp
  have "length (filter (\<lambda>i. ?Q (samples ! i)) (dpm_kept samples ?m)) \<le>
      length (filter (\<lambda>i. dpm_key (samples ! i) = k) (dpm_kept samples ?m))"
    by (rule length_filter_imp) (rule k)
  also have "\<dots> = min ?m (length (dpm_group samples k))"
    unfolding dpm_group_kept [symmetric] by (subst kept_id [symmetric]) (simp add: conj_commute)
  finally have cap: "length (filter (\<lambda>i. ?Q (samples ! i)) (dpm_kept samples ?m)) \<le> nat (max 1 d)"
    by (simp add: dpm_max_def)
  have "subseq (map (\<lambda>i. samples ! i) (dpm_kept samples ?m)) (map (\<lambda>i. samples ! i) [0..<?n])"
    unfolding dpm_kept_def by (intro subseq_map subseq_filter_left)
  with cap dpm_kept_count [of samples ?m] show ?thesis
    by (simp add: CoalesceDPM_eq filter_map comp_def map_nth)
qed

text \<open>A point is suppressed for one reason only. With instants in the int64 range and no NaN,
  a sample that does not leave is outlived by a full allowance of points of the very same
  series and minute, none of them older than it (the newest win).\<close>

theorem CoalesceDPM_drop:
  assumes "s \<in> set samples" "s \<notin> set (fst (CoalesceDPM samples d))"
    and "\<forall>x\<in>set samples. smp_Value x \<noteq> FNaN"
    and "\<forall>x\<in>set samples. in_int64 (time_Truncate (smp_Timestamp x) Minute - unix_epoch)"
  shows "nat (max 1 d) \<le> length (filter (\<lambda>x. smp_Name x = smp_Name s \<and> smp_Unit x = smp_Unit s \<and>
      smp_Labels x = smp_Labels s \<and> time_Truncate (smp_Timestamp x) Minute = time_Truncate (smp_Timestamp s) Minute \<and>
      smp_Timestamp s \<le> smp_Timestamp x) (fst (CoalesceDPM samples d)))"
proof -
  let ?m = "dpm_max d" and ?n = "length samples"
  from assms(1) obtain i where i: "i < ?n" "samples ! i = s" by (auto simp: in_set_conv_nth)
  then have out: "i \<notin> set (dpm_kept samples ?m)" using assms(2) by (auto simp: CoalesceDPM_eq)
  let ?R = "\<lambda>x. smp_Name x = smp_Name s \<and> smp_Unit x = smp_Unit s \<and> smp_Labels x = smp_Labels s \<and>
      time_Truncate (smp_Timestamp x) Minute = time_Truncate (smp_Timestamp s) Minute \<and>
      smp_Timestamp s \<le> smp_Timestamp x"
  have same: "?R x" if "x \<in> set samples" "dpm_key x = dpm_key s" "smp_Timestamp s \<le> smp_Timestamp x" for x
    using that assms(1,4) UnixNano_eq_iff by (simp add: dpm_key_def seriesKey_eq_iff)
  have "?m \<le> length (filter (\<lambda>j. j \<in> set (dpm_kept samples ?m) \<and> dpm_key (samples ! j) = dpm_key s \<and>
      smp_Timestamp s \<le> smp_Timestamp (samples ! j)) [0..<?n])"
    using dropped_outlived [OF i(1) out assms(3)] i(2) by simp
  also have "\<dots> = length (filter (\<lambda>j. dpm_key (samples ! j) = dpm_key s \<and>
      smp_Timestamp s \<le> smp_Timestamp (samples ! j)) (dpm_kept samples ?m))"
    unfolding dpm_kept_def by (auto simp: conj_commute conj_left_commute intro!: arg_cong [of _ _ length] filter_cong)
  also have "\<dots> \<le> length (filter (\<lambda>j. ?R (samples ! j)) (dpm_kept samples ?m))"
    by (rule length_filter_mem) (use same in \<open>auto simp: dpm_kept_mem\<close>)
  finally show ?thesis by (simp add: CoalesceDPM_eq filter_map comp_def dpm_max_def)
qed

definition pt :: "rat \<Rightarrow> instant \<Rightarrow> sample" where
  "pt v t = gauge ''m'' fmempty (Fin v) (unix_epoch + t)"

theorem CoalesceDPM_drop_witness:
  "pt 1 0 \<in> set [pt 1 0, pt 2 5] \<and> pt 1 0 \<notin> set (fst (CoalesceDPM [pt 1 0, pt 2 5] 0)) \<and>
   1 \<le> length (filter (\<lambda>x. smp_Timestamp (pt 1 0) \<le> smp_Timestamp x) (fst (CoalesceDPM [pt 1 0, pt 2 5] 0)))"
proof -
  have key: "dpm_key (pt 1 0) = dpm_key (pt 2 5)"
    by (simp add: dpm_key_def seriesKey_eq_iff pt_def gauge_def time_Truncate_def Minute_def unix_epoch_def)
  have grp: "dpm_group [pt 1 0, pt 2 5] (dpm_key (pt 2 5)) = [0, 1]" using key by (simp add: dpm_group_def)
  have out: "fst (CoalesceDPM [pt 1 0, pt 2 5] 0) = [pt 2 5]"
    using key by (simp add: CoalesceDPM_eq dpm_kept_def grp dpm_max_def dpm_survivors_def stable_sort_def)
      (simp add: dpm_less_def pt_def gauge_def)
  have "pt 1 0 \<noteq> pt 2 5" by (simp add: pt_def gauge_def)
  with CoalesceDPM_drop [of "pt 1 0" "[pt 1 0, pt 2 5]" 0] out show ?thesis
    by (simp add: pt_def gauge_def time_Truncate_def Minute_def unix_epoch_def in_int64_def)
qed

end
