(* ===== verification/Runner.thy ===== *)
theory Runner
  imports Checkpoint Guard Coalesce
begin

text \<open>
  The loop runner (\<^verbatim>\<open>internal/schedule/runner.go\<close>) with the events of the metrics
  interface (\<^verbatim>\<open>metrics.go\<close>). The emitter, the checkpointer and the leadership context act on
  a world of any type: an emission or a save may change it, and leadership may be lost in
  between. The runner's own state is a record; \<open>rn_metrics\<close> is what the metrics seam was
  told, and \<open>rn_emits\<close> and \<open>rn_saves\<close> are the history of the emissions and saves attempted,
  with their answers. Log lines, their limiter and trace spans leave the state alone and are
  left out. Every section under the mutex is one function, the deferred \<open>busy = false\<close>
  included.
\<close>

section \<open>State\<close>

datatype metric_event =
    EmittedSamples string nat
  | EmittedLogs string nat
  | SamplesSkipped string string nat
  | EmitError string string
  | GuardDropped string nat
  | BucketRevisedAfterSettle string duration
  | QueueDepth string nat
  | LastSuccess string instant
  | WindowLag string duration
  | NewLabelValue string
  | SamplesCapped string nat
  | SourceCapability string string string
  | SourceDataIncomplete string string
  | AuthError string string
  | LoopDegraded string string bool

definition checkpointFailThreshold :: int where "checkpointFailThreshold = 5"

record 's runner_cfg =
  rc_key :: checkpoint_key
  rc_Emit :: "'s \<Rightarrow> batch \<Rightarrow> emit_result \<times> 's"
  rc_cp :: "'s checkpointer_ops"
  rc_ctxErr :: "'s \<Rightarrow> bool"
  rc_depth :: nat
  rc_maxDPM :: int

record 's runner =
  rn_world :: 's
  rn_guard :: guard
  rn_q :: "batch list"
  rn_busy :: bool
  rn_frontier :: watermark
  rn_hasFront :: bool
  rn_saveFails :: int
  rn_degraded :: bool
  rn_degradeReason :: string
  rn_firstOK :: bool
  rn_backfillCountedWm :: instant
  rn_backfillCountedFloor :: instant
  rn_metrics :: "metric_event list"
  rn_emits :: "(batch \<times> emit_result) list"
  rn_saves :: "(watermark \<times> cp_error option) list"

abbreviation rc_name :: "'s runner_cfg \<Rightarrow> string" where
  "rc_name cfg \<equiv> ck_Loop (rc_key cfg)"

definition tell :: "metric_event \<Rightarrow> 's runner \<Rightarrow> 's runner" where
  "tell m st = st\<lparr>rn_metrics := rn_metrics st @ [m]\<rparr>"

definition NewLoopRunner ::
  "checkpoint_key \<Rightarrow> ('s \<Rightarrow> batch \<Rightarrow> emit_result \<times> 's) \<Rightarrow> 's checkpointer_ops \<Rightarrow> ('s \<Rightarrow> bool) \<Rightarrow> int \<Rightarrow> int \<Rightarrow> guard \<Rightarrow> 's
   \<Rightarrow> 's runner_cfg \<times> 's runner" where
  "NewLoopRunner key em cp ctxErr queueDepth maxDPM guard w =
     (\<lparr>rc_key = key, rc_Emit = em, rc_cp = cp, rc_ctxErr = ctxErr,
       rc_depth = nat (if queueDepth < 1 then 1 else queueDepth), rc_maxDPM = (if maxDPM < 1 then 1 else maxDPM)\<rparr>,
      \<lparr>rn_world = w, rn_guard = guard, rn_q = [], rn_busy = False, rn_frontier = zero_watermark, rn_hasFront = False,
       rn_saveFails = 0, rn_degraded = False, rn_degradeReason = '''', rn_firstOK = False,
       rn_backfillCountedWm = zero_time, rn_backfillCountedFloor = zero_time,
       rn_metrics = [], rn_emits = [], rn_saves = []\<rparr>)"

section \<open>Reads and counters\<close>

definition Since :: "'s runner_cfg \<Rightarrow> 's runner \<Rightarrow> (cp_error + watermark) \<times> 's runner" where
  "Since cfg st =
     (if rn_hasFront st then (Inr (rn_frontier st), st)
      else case cp_Load (rc_cp cfg) (rn_world st) (rc_key cfg) of (r, w) \<Rightarrow> (r, st\<lparr>rn_world := w\<rparr>))"

definition BackfillUnstorableMinutes :: "instant \<Rightarrow> instant \<Rightarrow> 's runner \<Rightarrow> int \<times> 's runner" where
  "BackfillUnstorableMinutes wm flr st =
     (let from = (if rn_backfillCountedWm st = wm \<and> rn_backfillCountedFloor st > wm then rn_backfillCountedFloor st else wm);
          mins = quot (time_Sub flr from) Minute
      in if mins \<le> 0 then (0, st)
         else (mins, st\<lparr>rn_backfillCountedWm := wm, rn_backfillCountedFloor := time_Add from (mins * Minute)\<rparr>))"

section \<open>Leadership and queue\<close>

definition Reset :: "'s runner_cfg \<Rightarrow> 's runner \<Rightarrow> 's runner" where
  "Reset cfg st =
     (let st1 = st\<lparr>rn_q := []\<rparr>;
          st2 = (if rn_degraded st1 then (tell (LoopDegraded (rc_name cfg) (rn_degradeReason st1) False) st1)\<lparr>rn_degradeReason := ''''\<rparr>
                 else st1)
      in st2\<lparr>rn_busy := False, rn_hasFront := False, rn_frontier := zero_watermark, rn_saveFails := 0, rn_degraded := False,
             rn_firstOK := False, rn_backfillCountedWm := zero_time, rn_backfillCountedFloor := zero_time\<rparr>)"

text \<open>
  The select of \<open>Enqueue\<close>: \<open>sent\<close> says which ready case it takes. The send needs room in the
  queue, the other case a cancelled context.
\<close>

definition Enqueue :: "'s runner_cfg \<Rightarrow> bool \<Rightarrow> batch \<Rightarrow> 's runner \<Rightarrow> bool \<times> 's runner" where
  "Enqueue cfg sent b st =
     (let st1 = st\<lparr>rn_busy := True\<rparr> in
      if sent then (True, tell (QueueDepth (rc_name cfg) (Suc (length (rn_q st1)))) (st1\<lparr>rn_q := rn_q st1 @ [b]\<rparr>))
      else (False, st1\<lparr>rn_busy := False\<rparr>))"

definition enterDegraded :: "'s runner_cfg \<Rightarrow> string \<Rightarrow> 's runner \<Rightarrow> 's runner" where
  "enterDegraded cfg reason st =
     (if \<not> rn_degraded st
      then tell (LoopDegraded (rc_name cfg) reason True) (st\<lparr>rn_degraded := True, rn_degradeReason := reason\<rparr>)
      else st)"

definition Degrade :: "'s runner_cfg \<Rightarrow> string \<Rightarrow> 's runner \<Rightarrow> 's runner" where
  "Degrade cfg reason st = enterDegraded cfg reason st"

section \<open>Classification\<close>

fun isAdvancePast :: "emit_result \<Rightarrow> bool" where
  "isAdvancePast (EmitReject re) = AdvancesPast re"
| "isAdvancePast _ = False"

fun isTerminalHalt :: "emit_result \<Rightarrow> bool" where
  "isTerminalHalt (EmitReject re) = (re_Reason re = ReasonBadEncoding \<or> re_Reason re = ReasonUnknown)"
| "isTerminalHalt _ = False"

fun rejectReason :: "emit_result \<Rightarrow> string" where
  "rejectReason (EmitReject re) =
     (case re_Reason re of
        ReasonDuplicateTimestamp \<Rightarrow> ''duplicate_timestamp''
      | ReasonTooOld \<Rightarrow> ''too_old''
      | ReasonPayloadTooLarge \<Rightarrow> ''payload_too_large''
      | ReasonBadEncoding \<Rightarrow> ''bad_encoding''
      | ReasonUnknown \<Rightarrow> ''unknown_4xx''
      | ReasonNone \<Rightarrow> ''unknown'')"
| "rejectReason _ = ''unknown''"

definition splitByBucket :: "batch \<Rightarrow> batch list" where
  "splitByBucket b =
     map (\<lambda>k. zero_batch\<lparr>bt_Key := bt_Key b,
                bt_Samples := filter (\<lambda>s. UnixNano (smp_Timestamp s) = k) (bt_Samples b)\<rparr>)
       (sort (remdups (map (\<lambda>s. UnixNano (smp_Timestamp s)) (bt_Samples b))))"

section \<open>Commit\<close>

definition save_failed :: "'s runner_cfg \<Rightarrow> 's runner \<Rightarrow> 's runner" where
  "save_failed cfg st =
     (let st1 = tell (EmitError (rc_name cfg) ''checkpoint_save'') (st\<lparr>rn_saveFails := rn_saveFails st + 1\<rparr>)
      in if rn_saveFails st1 \<ge> checkpointFailThreshold \<and> \<not> rn_degraded st1
         then tell (LoopDegraded (rc_name cfg) ''checkpoint-save failures'' True)
                (st1\<lparr>rn_degraded := True, rn_degradeReason := ''checkpoint-save failures''\<rparr>)
         else st1)"

definition save_stale :: "'s runner_cfg \<Rightarrow> checkpoint_key \<Rightarrow> watermark \<Rightarrow> 's runner \<Rightarrow> 's runner" where
  "save_stale cfg key w st =
     (case cp_Load (rc_cp cfg) (rn_world st) key of
        (Inl _, w2) \<Rightarrow> st\<lparr>rn_world := w2\<rparr>
      | (Inr stored, w2) \<Rightarrow>
          (let st1 = st\<lparr>rn_world := w2\<rparr>;
               st2 = (if wm_Time stored < wm_Time w then tell (EmitError (rc_name cfg) ''checkpoint_fenced'') st1 else st1)
           in st2\<lparr>rn_frontier := stored, rn_hasFront := True\<rparr>))"

definition save_committed :: "'s runner_cfg \<Rightarrow> watermark \<Rightarrow> 's runner \<Rightarrow> 's runner" where
  "save_committed cfg w st =
     (let st1 = st\<lparr>rn_saveFails := 0\<rparr>;
          st2 = (if rn_degraded st1 then (tell (LoopDegraded (rc_name cfg) (rn_degradeReason st1) False) st1)\<lparr>rn_degradeReason := ''''\<rparr>
                 else st1);
          st3 = st2\<lparr>rn_degraded := False, rn_firstOK := True\<rparr>
      in if \<not> rn_hasFront st3 \<or> wm_Time w > wm_Time (rn_frontier st3) \<or>
            wm_Time w = wm_Time (rn_frontier st3) \<and> wm_Cursor w \<noteq> '''' \<and> wm_Cursor w \<noteq> wm_Cursor (rn_frontier st3)
         then st3\<lparr>rn_frontier := w, rn_hasFront := True\<rparr>
         else st3)"

definition commit :: "'s runner_cfg \<Rightarrow> checkpoint_key \<Rightarrow> instant \<Rightarrow> string \<Rightarrow> int \<Rightarrow> 's runner \<Rightarrow> 's runner" where
  "commit cfg key t cursor epoch st =
     (if rc_ctxErr cfg (rn_world st) then st
      else
        (let w = \<lparr>wm_Time = t, wm_Cursor = cursor, wm_Epoch = epoch\<rparr> in
         case cp_Save (rc_cp cfg) (rn_world st) key w of (err, w1) \<Rightarrow>
           (let st1 = st\<lparr>rn_world := w1, rn_saves := rn_saves st @ [(w, err)]\<rparr> in
            case err of
              None \<Rightarrow> save_committed cfg w st1
            | Some StaleWrite \<Rightarrow> save_stale cfg key w st1
            | Some _ \<Rightarrow> save_failed cfg st1)))"

section \<open>Processing a batch\<close>

definition emit_batch :: "'s runner_cfg \<Rightarrow> batch \<Rightarrow> 's runner \<Rightarrow> emit_result \<times> 's runner" where
  "emit_batch cfg b st =
     (case rc_Emit cfg (rn_world st) b of (r, w) \<Rightarrow> (r, st\<lparr>rn_world := w, rn_emits := rn_emits st @ [(b, r)]\<rparr>))"

definition processLogs :: "'s runner_cfg \<Rightarrow> batch \<Rightarrow> 's runner \<Rightarrow> bool \<times> 's runner" where
  "processLogs cfg b st =
     (case SanitizeLogs (rn_guard st) (key_String (rc_key cfg)) (bt_Logs b) of (kept, dropped, g) \<Rightarrow>
        (let st1 = st\<lparr>rn_guard := g\<rparr>;
             st2 = (if dropped > 0 then tell (GuardDropped (rc_name cfg) dropped) st1 else st1)
         in if kept = [] then (True, st2)
            else case emit_batch cfg (zero_batch\<lparr>bt_Key := bt_Key b, bt_Logs := kept\<rparr>) st2 of (err, st3) \<Rightarrow>
              if err = EmitOk then
                (let st4 = tell (EmittedLogs (rc_name cfg) (length kept)) st3
                 in (True, if \<not> IsZero (wm_Time (bt_Watermark b))
                           then tell (LastSuccess (rc_name cfg) (wm_Time (bt_Watermark b))) st4 else st4))
              else if isAdvancePast err then
                (True, tell (SamplesSkipped (rc_name cfg) (rejectReason err) (length kept)) st3)
              else if isTerminalHalt err then
                (False, enterDegraded cfg ''terminal emit reject (logs)'' (tell (EmitError (rc_name cfg) (rejectReason err)) st3))
              else (False, tell (EmitError (rc_name cfg) ''retryable_exhausted'') st3)))"

text \<open>
  The loop over the buckets. \<open>last_ok\<close> is the frontier reached so far, \<open>None\<close> while
  \<open>advanced\<close> is false; the result is None when the loop returned from inside.
\<close>

fun process_buckets ::
  "'s runner_cfg \<Rightarrow> int \<Rightarrow> checkpoint_key \<Rightarrow> instant option \<Rightarrow> batch list \<Rightarrow> 's runner \<Rightarrow> instant option option \<times> 's runner" where
  "process_buckets cfg epoch key last_ok [] st = (Some last_ok, st)"
| "process_buckets cfg epoch key last_ok (bucket # rest) st =
     (let bucketTime = smp_Timestamp (hd (bt_Samples bucket)) in
      case Sanitize (rn_guard st) bucket of (sub, dropped, g) \<Rightarrow>
        (let st1 = st\<lparr>rn_guard := g\<rparr>;
             st2 = (if dropped > 0 then tell (GuardDropped (rc_name cfg) dropped) st1 else st1)
         in if bt_Samples sub = [] then process_buckets cfg epoch key (Some bucketTime) rest st2
            else case emit_batch cfg sub st2 of (err, st3) \<Rightarrow>
              if err = EmitOk then
                process_buckets cfg epoch key (Some bucketTime) rest
                  (tell (LastSuccess (rc_name cfg) bucketTime)
                    (tell (EmittedSamples (rc_name cfg) (length (bt_Samples sub))) st3))
              else if isAdvancePast err then
                process_buckets cfg epoch key (Some bucketTime) rest
                  (tell (SamplesSkipped (rc_name cfg) (rejectReason err) (length (bt_Samples sub))) st3)
              else if isTerminalHalt err then
                (let st4 = tell (EmitError (rc_name cfg) (rejectReason err)) st3;
                     st5 = (case last_ok of None \<Rightarrow> st4 | Some t \<Rightarrow> commit cfg key t '''' epoch st4)
                 in (None, enterDegraded cfg ''terminal emit reject'' st5))
              else
                (let st4 = tell (EmitError (rc_name cfg) ''retryable_exhausted'') st3
                 in (None, case last_ok of None \<Rightarrow> st4 | Some t \<Rightarrow> commit cfg key t '''' epoch st4))))"

definition process_body :: "'s runner_cfg \<Rightarrow> int \<Rightarrow> batch \<Rightarrow> 's runner \<Rightarrow> 's runner" where
  "process_body cfg epoch b st =
     (if rc_ctxErr cfg (rn_world st) then st
      else case (if bt_Logs b \<noteq> [] then processLogs cfg b st else (True, st)) of (proceed, st1) \<Rightarrow>
        if \<not> proceed then st1
        else case CoalesceDPM (bt_Samples b) (rc_maxDPM cfg) of (samples, capped) \<Rightarrow>
          (let st2 = (if capped > 0 then tell (SamplesCapped (rc_name cfg) capped) st1 else st1) in
           case process_buckets cfg epoch (bt_Key b) None (splitByBucket (b\<lparr>bt_Samples := samples\<rparr>)) st2 of
             (None, st3) \<Rightarrow> st3
           | (Some last_ok, st3) \<Rightarrow>
               (let target = wm_Time (bt_Watermark b) in
                if last_ok \<noteq> None \<or> \<not> IsZero target \<or> wm_Cursor (bt_Watermark b) \<noteq> ''''
                then commit cfg (bt_Key b) target (wm_Cursor (bt_Watermark b)) epoch st3
                else st3)))"

definition ProcessBatch :: "'s runner_cfg \<Rightarrow> int \<Rightarrow> batch \<Rightarrow> 's runner \<Rightarrow> 's runner" where
  "ProcessBatch cfg epoch b st = (process_body cfg epoch b st)\<lparr>rn_busy := False\<rparr>"

text \<open>One round of the worker: take the head of the queue, and drop it if leadership is gone.\<close>

definition worker_step :: "'s runner_cfg \<Rightarrow> int \<Rightarrow> 's runner \<Rightarrow> bool \<times> 's runner" where
  "worker_step cfg epoch st =
     (case rn_q st of
        [] \<Rightarrow> (True, st)
      | b # bs \<Rightarrow>
          (let st1 = st\<lparr>rn_q := bs\<rparr> in
           if rc_ctxErr cfg (rn_world st1) then (False, st1)
           else (True, ProcessBatch cfg epoch b (tell (QueueDepth (rc_name cfg) (length bs)) st1))))"

section \<open>Frames\<close>

lemma tell_simps [simp]:
  "rn_world (tell m st) = rn_world st" "rn_guard (tell m st) = rn_guard st" "rn_q (tell m st) = rn_q st"
  "rn_busy (tell m st) = rn_busy st" "rn_frontier (tell m st) = rn_frontier st" "rn_hasFront (tell m st) = rn_hasFront st"
  "rn_saveFails (tell m st) = rn_saveFails st" "rn_degraded (tell m st) = rn_degraded st"
  "rn_emits (tell m st) = rn_emits st" "rn_saves (tell m st) = rn_saves st"
  by (simp_all add: tell_def)

lemma enterDegraded_frame [runner_frame]:
  "rn_world (enterDegraded cfg r st) = rn_world st" "rn_guard (enterDegraded cfg r st) = rn_guard st"
  "rn_q (enterDegraded cfg r st) = rn_q st" "rn_busy (enterDegraded cfg r st) = rn_busy st"
  "rn_frontier (enterDegraded cfg r st) = rn_frontier st" "rn_hasFront (enterDegraded cfg r st) = rn_hasFront st"
  "rn_emits (enterDegraded cfg r st) = rn_emits st" "rn_saves (enterDegraded cfg r st) = rn_saves st"
  "rn_degraded (enterDegraded cfg r st)"
  by (simp_all add: enterDegraded_def)

lemma save_branches_frame [runner_frame]:
  "rn_guard (save_failed cfg st) = rn_guard st" "rn_q (save_failed cfg st) = rn_q st" "rn_busy (save_failed cfg st) = rn_busy st"
  "rn_emits (save_failed cfg st) = rn_emits st" "rn_saves (save_failed cfg st) = rn_saves st"
  "rn_world (save_failed cfg st) = rn_world st"
  "rn_frontier (save_failed cfg st) = rn_frontier st" "rn_hasFront (save_failed cfg st) = rn_hasFront st"
  "rn_guard (save_stale cfg key w st) = rn_guard st" "rn_q (save_stale cfg key w st) = rn_q st" "rn_busy (save_stale cfg key w st) = rn_busy st"
  "rn_emits (save_stale cfg key w st) = rn_emits st" "rn_saves (save_stale cfg key w st) = rn_saves st"
  "rn_guard (save_committed cfg w st) = rn_guard st" "rn_q (save_committed cfg w st) = rn_q st" "rn_busy (save_committed cfg w st) = rn_busy st"
  "rn_emits (save_committed cfg w st) = rn_emits st" "rn_saves (save_committed cfg w st) = rn_saves st"
  "rn_world (save_committed cfg w st) = rn_world st"
  by (simp_all add: save_failed_def save_stale_def save_committed_def Let_def split: prod.split sum.split)

lemma commit_frame [runner_frame]:
  "rn_guard (commit cfg key t c e st) = rn_guard st" "rn_q (commit cfg key t c e st) = rn_q st"
  "rn_busy (commit cfg key t c e st) = rn_busy st" "rn_emits (commit cfg key t c e st) = rn_emits st"
  by (simp_all add: commit_def Let_def runner_frame split: prod.split option.split cp_error.split)

lemma commit_saves:
  "\<exists>S. rn_saves (commit cfg key t c e st) = rn_saves st @ S \<and>
     (\<forall>x\<in>set S. fst x = \<lparr>wm_Time = t, wm_Cursor = c, wm_Epoch = e\<rparr>)"
  by (auto simp: commit_def Let_def runner_frame split: prod.split option.split cp_error.split)

section \<open>Buckets\<close>

definition bucket_time :: "batch \<Rightarrow> instant" where
  "bucket_time b = smp_Timestamp (hd (bt_Samples b))"

definition in_range :: "sample list \<Rightarrow> bool" where
  "in_range ss \<longleftrightarrow> (\<forall>s\<in>set ss. in_int64 (smp_Timestamp s - unix_epoch))"

text \<open>Buckets as the loop meets them: non-empty, of one instant each, in strictly ascending order.\<close>

definition buckets_ok :: "batch list \<Rightarrow> bool" where
  "buckets_ok bs \<longleftrightarrow> sorted_wrt (<) (map bucket_time bs) \<and>
     (\<forall>b\<in>set bs. bt_Samples b \<noteq> [] \<and> bt_Logs b = [] \<and> (\<forall>s\<in>set (bt_Samples b). smp_Timestamp s = bucket_time b))"

lemma splitByBucket_ok:
  assumes "in_range (bt_Samples b)"
  shows "buckets_ok (splitByBucket b)"
proof -
  let ?u = "\<lambda>s. UnixNano (smp_Timestamp s)"
  let ?ks = "sort (remdups (map ?u (bt_Samples b)))"
  let ?g = "\<lambda>k. zero_batch\<lparr>bt_Key := bt_Key b, bt_Samples := filter (\<lambda>s. ?u s = k) (bt_Samples b)\<rparr>"
  have k: "bt_Samples (?g k) \<noteq> []" if "k \<in> set ?ks" for k using that by (auto simp: filter_empty_conv)
  have hd: "hd (bt_Samples (?g k)) \<in> set (bt_Samples b) \<and> ?u (hd (bt_Samples (?g k))) = k" if "k \<in> set ?ks" for k
    using hd_in_set [OF k [OF that]] by simp
  have same: "smp_Timestamp s = bucket_time (?g k)" if "k \<in> set ?ks" "s \<in> set (bt_Samples (?g k))" for s k
  proof -
    have s: "s \<in> set (bt_Samples b)" "?u s = k" using that(2) by auto
    note h = hd [OF that(1)]
    have "in_int64 (smp_Timestamp s - unix_epoch)"
      "in_int64 (smp_Timestamp (hd (bt_Samples (?g k))) - unix_epoch)"
      using assms s(1) h unfolding in_range_def by blast+
    from UnixNano_eq_iff [OF this] s(2) h show ?thesis by (simp add: bucket_time_def)
  qed
  have asc: "bucket_time (?g k) < bucket_time (?g l)" if "k \<in> set ?ks" "l \<in> set ?ks" "k < l" for k l
  proof -
    note h = hd [OF that(1)] hd [OF that(2)]
    have "in_int64 (bucket_time (?g k) - unix_epoch)" "in_int64 (bucket_time (?g l) - unix_epoch)"
      using assms h unfolding in_range_def bucket_time_def by blast+
    from UnixNano_less_iff [OF this] h that(3) show ?thesis by (simp add: bucket_time_def)
  qed
  have "sorted_wrt (<) ?ks" by (simp add: strict_sorted_iff)
  then have "sorted_wrt (\<lambda>k l. bucket_time (?g k) < bucket_time (?g l)) ?ks"
    by (rule sorted_wrt_mono_rel [rotated]) (rule asc)
  then have "sorted_wrt (<) (map bucket_time (splitByBucket b))"
    by (simp add: splitByBucket_def sorted_wrt_map)
  moreover have "bt_Samples b' \<noteq> [] \<and> bt_Logs b' = [] \<and> (\<forall>s\<in>set (bt_Samples b'). smp_Timestamp s = bucket_time b')"
    if b': "b' \<in> set (splitByBucket b)" for b'
  proof -
    from b' obtain k' where k': "k' \<in> set ?ks" "b' = ?g k'" unfolding splitByBucket_def set_map by blast
    have "bt_Logs (?g k') = []" by (simp add: zero_batch_def)
    with k [OF k'(1)] same [OF k'(1)] show ?thesis unfolding k'(2) by blast
  qed
  ultimately show ?thesis unfolding buckets_ok_def by blast
qed

lemma splitByBucket_samples: "set (concat (map bt_Samples (splitByBucket b))) = set (bt_Samples b)"
  by (auto simp: splitByBucket_def)

section \<open>What a batch leaves behind\<close>

definition handled :: "emit_result \<Rightarrow> bool" where
  "handled r \<longleftrightarrow> r = EmitOk \<or> isAdvancePast r"

text \<open>A sample is accounted for when it was offered and handled, or turned down by the guard.\<close>

definition accounted :: "guard \<Rightarrow> (batch \<times> emit_result) set \<Rightarrow> sample \<Rightarrow> bool" where
  "accounted g E s \<longleftrightarrow>
     (\<exists>x\<in>E. s \<in> set (bt_Samples (fst x)) \<and> handled (snd x)) \<or>
     (\<exists>h h'. guard_later g h \<and> guard_ok h s = (False, h'))"

lemma accounted_mono: "accounted g E s \<Longrightarrow> E \<subseteq> F \<Longrightarrow> accounted g F s"
  unfolding accounted_def by blast

text \<open>
  The verdict on one save of watermark time t: it is before every sample of an emission that was not
  handled, and every sample up to it is accounted for.
\<close>

definition save_justified :: "guard \<Rightarrow> (batch \<times> emit_result) list \<Rightarrow> sample set \<Rightarrow> instant \<Rightarrow> bool" where
  "save_justified g E ss t \<longleftrightarrow>
     (\<forall>x\<in>set E. \<not> handled (snd x) \<longrightarrow> bt_Logs (fst x) = [] \<and> (\<forall>s\<in>set (bt_Samples (fst x)). t < smp_Timestamp s)) \<and>
     (\<forall>s\<in>ss. smp_Timestamp s \<le> t \<longrightarrow> accounted g (set E) s)"

definition buckets_post ::
  "guard \<Rightarrow> batch list \<Rightarrow> 's runner \<Rightarrow> instant option option \<Rightarrow> 's runner \<Rightarrow> bool" where
  "buckets_post g bs st res st' \<longleftrightarrow>
     (\<exists>E S. rn_emits st' = rn_emits st @ E \<and> rn_saves st' = rn_saves st @ S \<and>
        (\<forall>x\<in>set E. bt_Logs (fst x) = []) \<and>
        (\<forall>x\<in>set S. save_justified g E (\<Union>b\<in>set bs. set (bt_Samples b)) (wm_Time (fst x))) \<and>
        ((\<exists>x\<in>set E. isTerminalHalt (snd x)) \<longrightarrow> rn_degraded st') \<and>
        (res \<noteq> None \<longrightarrow> S = [] \<and> (\<forall>x\<in>set E. handled (snd x)) \<and>
           (\<forall>b\<in>set bs. \<forall>s\<in>set (bt_Samples b). accounted g (set E) s)))"

lemma handled_not_terminal: "handled r \<Longrightarrow> \<not> isTerminalHalt r"
  by (cases r) (auto simp: handled_def AdvancesPast_def split: RejectReason.splits)

lemma accounted_self:
  assumes "Sanitize h b = (sub, d, h')" "guard_later g h" "s \<in> set (bt_Samples b)"
    and "bt_Samples sub \<noteq> [] \<Longrightarrow> (sub, r) \<in> E \<and> handled r"
  shows "accounted g E s"
proof (cases "s \<in> set (bt_Samples sub)")
  case True
  then have "bt_Samples sub \<noteq> []" by auto
  with assms(4) True show ?thesis unfolding accounted_def by (intro disjI1 bexI [of _ "(sub, r)"]) simp_all
next
  case False
  from Sanitize_dropped [OF assms(1,3) False] guard_later_trans [OF assms(2)] show ?thesis
    unfolding accounted_def by blast
qed

text \<open>Prepending a bucket that was handled keeps the verdicts of the rest.\<close>

lemma buckets_post_Cons:
  assumes post: "buckets_post g bs st1 res st'"
    and ext: "rn_emits st1 = rn_emits st @ E0" "rn_saves st1 = rn_saves st"
    and E0: "\<forall>x\<in>set E0. bt_Logs (fst x) = [] \<and> handled (snd x)"
    and acc: "\<forall>s\<in>set (bt_Samples b). accounted g (set E0) s"
  shows "buckets_post g (b # bs) st res st'"
proof -
  from post obtain E S where
    ES: "rn_emits st' = rn_emits st1 @ E" "rn_saves st' = rn_saves st1 @ S" "\<forall>x\<in>set E. bt_Logs (fst x) = []"
    and just: "\<forall>x\<in>set S. save_justified g E (\<Union>b\<in>set bs. set (bt_Samples b)) (wm_Time (fst x))"
    and deg: "(\<exists>x\<in>set E. isTerminalHalt (snd x)) \<longrightarrow> rn_degraded st'"
    and fin: "res \<noteq> None \<longrightarrow> S = [] \<and> (\<forall>x\<in>set E. handled (snd x)) \<and>
       (\<forall>b\<in>set bs. \<forall>s\<in>set (bt_Samples b). accounted g (set E) s)"
    unfolding buckets_post_def by blast
  have up: "accounted g (set (E0 @ E)) s" if "accounted g (set E) s \<or> s \<in> set (bt_Samples b)" for s
    using that accounted_mono [of g "set E" s "set (E0 @ E)"] accounted_mono [of g "set E0" s "set (E0 @ E)"]
      bspec [OF acc, of s] by fastforce
  have "save_justified g (E0 @ E) (\<Union>c\<in>set (b # bs). set (bt_Samples c)) (wm_Time (fst x))" if "x \<in> set S" for x
  proof -
    have j: "save_justified g E (\<Union>b\<in>set bs. set (bt_Samples b)) (wm_Time (fst x))" using just that by blast
    show ?thesis unfolding save_justified_def
    proof (intro conjI ballI impI)
      fix y
      assume y: "y \<in> set (E0 @ E)" "\<not> handled (snd y)"
      then have "y \<in> set E" using E0 by auto
      with j y(2) show "bt_Logs (fst y) = []" "\<And>s. s \<in> set (bt_Samples (fst y)) \<Longrightarrow> wm_Time (fst x) < smp_Timestamp s"
        unfolding save_justified_def by blast+
    next
      fix s
      assume s: "s \<in> (\<Union>c\<in>set (b # bs). set (bt_Samples c))" "smp_Timestamp s \<le> wm_Time (fst x)"
      then have "accounted g (set E) s \<or> s \<in> set (bt_Samples b)"
        using j unfolding save_justified_def by auto
      then show "accounted g (set (E0 @ E)) s" by (rule up)
    qed
  qed
  moreover have "(\<exists>x\<in>set (E0 @ E). isTerminalHalt (snd x)) \<longrightarrow> rn_degraded st'"
    using deg E0 handled_not_terminal by auto
  moreover have "res \<noteq> None \<longrightarrow> S = [] \<and> (\<forall>x\<in>set (E0 @ E). handled (snd x)) \<and>
       (\<forall>c\<in>set (b # bs). \<forall>s\<in>set (bt_Samples c). accounted g (set (E0 @ E)) s)"
    using fin E0 up by auto
  ultimately show ?thesis unfolding buckets_post_def
    by (intro exI [of _ "E0 @ E"] exI [of _ S]) (use ES ext E0 in auto)
qed

lemma save_justified_stop:
  assumes "buckets_ok (b # bs)" "t < bucket_time b" "set (bt_Samples sub) \<subseteq> set (bt_Samples b)" "bt_Logs sub = []"
  shows "save_justified g [(sub, r)] (\<Union>c\<in>set (b # bs). set (bt_Samples c)) t"
proof -
  have "t < smp_Timestamp s" if "c \<in> set (b # bs)" "s \<in> set (bt_Samples c)" for c s
    using that assms(1,2) unfolding buckets_ok_def by fastforce
  then show ?thesis using assms(3,4) unfolding save_justified_def by fastforce
qed

lemma buckets_post_stop:
  assumes ok: "buckets_ok (b # bs)" and lo: "\<forall>t. lo = Some t \<longrightarrow> t < bucket_time b"
    and sub: "set (bt_Samples sub) \<subseteq> set (bt_Samples b)" "bt_Logs sub = []"
    and st4: "rn_emits st4 = rn_emits st @ [(sub, r)]" "rn_saves st4 = rn_saves st"
    and st5: "st5 = (case lo of None \<Rightarrow> st4 | Some t \<Rightarrow> commit cfg key t '''' epoch st4)"
    and st': "rn_emits st' = rn_emits st5" "rn_saves st' = rn_saves st5" "isTerminalHalt r \<Longrightarrow> rn_degraded st'"
  shows "buckets_post g (b # bs) st None st'"
proof -
  obtain S where S: "rn_saves st5 = rn_saves st @ S" "\<forall>x\<in>set S. \<exists>t. lo = Some t \<and> wm_Time (fst x) = t"
    using st5 st4(2) commit_saves [of cfg key _ "''''" epoch st4] by (cases lo) fastforce+
  have "rn_emits st5 = rn_emits st @ [(sub, r)]"
    using st5 st4(1) by (simp add: runner_frame split: option.splits)
  moreover have "save_justified g [(sub, r)] (\<Union>c\<in>set (b # bs). set (bt_Samples c)) (wm_Time (fst x))" if "x \<in> set S" for x
    using save_justified_stop [OF ok _ sub] S(2) that lo by auto
  ultimately show ?thesis unfolding buckets_post_def
    by (intro exI [of _ "[(sub, r)]"] exI [of _ S]) (use S st' sub in auto)
qed

lemma emit_batch_frame:
  assumes "emit_batch cfg b st = (r, st')"
  shows "rn_emits st' = rn_emits st @ [(b, r)]" "rn_saves st' = rn_saves st" "rn_guard st' = rn_guard st"
    "rn_q st' = rn_q st" "rn_busy st' = rn_busy st" "rn_frontier st' = rn_frontier st" "rn_hasFront st' = rn_hasFront st"
  using assms by (auto simp: emit_batch_def split: prod.splits)

lemma buckets_ok_tail: "buckets_ok (b # bs) \<Longrightarrow> buckets_ok bs \<and> (\<forall>c\<in>set bs. bucket_time b < bucket_time c)"
  by (auto simp: buckets_ok_def)

lemma process_buckets_post:
  assumes "buckets_ok bs" "\<forall>t b. lo = Some t \<longrightarrow> b \<in> set bs \<longrightarrow> t < bucket_time b" "guard_later g (rn_guard st)"
    and "process_buckets cfg epoch key lo bs st = (res, st')"
  shows "buckets_post g bs st res st'"
  using assms
proof (induction bs arbitrary: lo st)
  case Nil
  then show ?case by (auto simp: buckets_post_def)
next
  case (Cons b bs)
  obtain sub d h where san: "Sanitize (rn_guard st) b = (sub, d, h)" by (metis prod_cases3)
  note fr = Sanitize_frame [OF san]
  have logs: "bt_Logs sub = []" using fr(3) Cons.prems(1) by (simp add: buckets_ok_def)
  define st2 where "st2 = (if d > 0 then tell (GuardDropped (rc_name cfg) d) (st\<lparr>rn_guard := h\<rparr>) else st\<lparr>rn_guard := h\<rparr>)"
  have st2: "rn_emits st2 = rn_emits st" "rn_saves st2 = rn_saves st" "rn_guard st2 = h"
    by (simp_all add: st2_def)
  have later: "guard_later g h" using guard_later_trans [OF Cons.prems(3) fr(1)] .
  note tail = buckets_ok_tail [OF Cons.prems(1)]
  have IH: "buckets_post g bs st1 res st'"
    if "rn_guard st1 = h" "process_buckets cfg epoch key (Some (bucket_time b)) bs st1 = (res, st')" for st1
    using Cons.IH [of "Some (bucket_time b)" st1] tail that later by auto
  have lo: "\<forall>t. lo = Some t \<longrightarrow> t < bucket_time b" using Cons.prems(2) by auto
  show ?case
  proof (cases "bt_Samples sub = []")
    case True
    have run: "process_buckets cfg epoch key (Some (bucket_time b)) bs st2 = (res, st')"
      using Cons.prems(4) san True by (simp add: st2_def bucket_time_def Let_def)
    show ?thesis
      by (rule buckets_post_Cons [OF IH [OF st2(3) run], of _ "[]"])
        (use st2 True accounted_self [OF san Cons.prems(3)] in auto)
  next
    case False
    obtain r st3 where em: "emit_batch cfg sub st2 = (r, st3)" by fastforce
    note ef = emit_batch_frame [OF em]
    have E: "rn_emits st3 = rn_emits st @ [(sub, r)]" "rn_saves st3 = rn_saves st" "rn_guard st3 = h"
      using ef st2 by simp_all
    have eq: "process_buckets cfg epoch key lo (b # bs) st =
        (if r = EmitOk then
           process_buckets cfg epoch key (Some (bucket_time b)) bs
             (tell (LastSuccess (rc_name cfg) (bucket_time b))
               (tell (EmittedSamples (rc_name cfg) (length (bt_Samples sub))) st3))
         else if isAdvancePast r then
           process_buckets cfg epoch key (Some (bucket_time b)) bs
             (tell (SamplesSkipped (rc_name cfg) (rejectReason r) (length (bt_Samples sub))) st3)
         else if isTerminalHalt r then
           (None, enterDegraded cfg ''terminal emit reject''
              (case lo of None \<Rightarrow> tell (EmitError (rc_name cfg) (rejectReason r)) st3
               | Some t \<Rightarrow> commit cfg key t '''' epoch (tell (EmitError (rc_name cfg) (rejectReason r)) st3)))
         else (None, case lo of None \<Rightarrow> tell (EmitError (rc_name cfg) ''retryable_exhausted'') st3
               | Some t \<Rightarrow> commit cfg key t '''' epoch (tell (EmitError (rc_name cfg) ''retryable_exhausted'') st3)))"
      using san False em by (simp add: st2_def bucket_time_def Let_def)
    show ?thesis
    proof (cases "handled r")
      case True
      then obtain ms where run: "process_buckets cfg epoch key (Some (bucket_time b)) bs (fold tell ms st3) = (res, st')"
        using Cons.prems(4) unfolding eq handled_def
        by (cases "r = EmitOk")
          (auto intro: that [of "[EmittedSamples (rc_name cfg) (length (bt_Samples sub)), LastSuccess (rc_name cfg) (bucket_time b)]"]
            that [of "[SamplesSkipped (rc_name cfg) (rejectReason r) (length (bt_Samples sub))]"])
      have fold: "rn_guard (fold tell ms x) = rn_guard x" "rn_emits (fold tell ms x) = rn_emits x"
        "rn_saves (fold tell ms x) = rn_saves x" for x :: "'a runner"
        by (induction ms arbitrary: x) simp_all
      show ?thesis
        by (rule buckets_post_Cons [OF IH [OF _ run], of _ "[(sub, r)]"])
          (use fold E True logs accounted_self [OF san Cons.prems(3)] in auto)
    next
      case nh: False
      show ?thesis
      proof (cases "isTerminalHalt r")
        case True
        show ?thesis
          using Cons.prems(4) nh True unfolding eq handled_def
          by (auto intro!: buckets_post_stop [OF Cons.prems(1) lo fr(2) logs, of "tell (EmitError (rc_name cfg) (rejectReason r)) st3" st r, OF _ _ refl] simp: E runner_frame)
      next
        case False
        show ?thesis
          using Cons.prems(4) nh False unfolding eq handled_def
          by (auto intro!: buckets_post_stop [OF Cons.prems(1) lo fr(2) logs, of "tell (EmitError (rc_name cfg) ''retryable_exhausted'') st3" st r, OF _ _ refl] simp: E)
      qed
    qed
  qed
qed

lemma SanitizeLogs_later: "SanitizeLogs g loop logs = (kept, d, g') \<Longrightarrow> guard_later g g'"
  using SanitizeLogs_spec by (fastforce simp: SanitizeLogs_def)

lemma processLogs_post:
  assumes "processLogs cfg b st = (proceed, st')"
  shows "\<exists>E. rn_emits st' = rn_emits st @ E \<and> rn_saves st' = rn_saves st \<and> guard_later (rn_guard st) (rn_guard st') \<and>
    (\<forall>x\<in>set E. bt_Samples (fst x) = []) \<and> (proceed \<longrightarrow> (\<forall>x\<in>set E. handled (snd x))) \<and>
    ((\<exists>x\<in>set E. isTerminalHalt (snd x)) \<longrightarrow> rn_degraded st')"
proof -
  obtain kept d g where san: "SanitizeLogs (rn_guard st) (key_String (rc_key cfg)) (bt_Logs b) = (kept, d, g)"
    by (metis prod_cases3)
  note later = SanitizeLogs_later [OF san]
  define st2 where "st2 = (if d > 0 then tell (GuardDropped (rc_name cfg) d) (st\<lparr>rn_guard := g\<rparr>) else st\<lparr>rn_guard := g\<rparr>)"
  have st2: "rn_emits st2 = rn_emits st" "rn_saves st2 = rn_saves st" "rn_guard st2 = g" by (simp_all add: st2_def)
  let ?b = "zero_batch\<lparr>bt_Key := bt_Key b, bt_Logs := kept\<rparr>"
  obtain r st3 where em: "emit_batch cfg ?b st2 = (r, st3)" by fastforce
  note ef = emit_batch_frame [OF em]
  have empty: "bt_Samples zero_batch = []" by (simp add: zero_batch_def)
  show ?thesis
  proof (cases "kept = []")
    case True
    then show ?thesis using assms san st2 later by (auto simp: processLogs_def st2_def Let_def split: if_splits)
  next
    case False
    then have eq: "processLogs cfg b st =
        (if r = EmitOk then (True, if \<not> IsZero (wm_Time (bt_Watermark b))
             then tell (LastSuccess (rc_name cfg) (wm_Time (bt_Watermark b))) (tell (EmittedLogs (rc_name cfg) (length kept)) st3)
             else tell (EmittedLogs (rc_name cfg) (length kept)) st3)
         else if isAdvancePast r then (True, tell (SamplesSkipped (rc_name cfg) (rejectReason r) (length kept)) st3)
         else if isTerminalHalt r then (False, enterDegraded cfg ''terminal emit reject (logs)'' (tell (EmitError (rc_name cfg) (rejectReason r)) st3))
         else (False, tell (EmitError (rc_name cfg) ''retryable_exhausted'') st3))"
      using san em by (simp add: processLogs_def st2_def Let_def)
    show ?thesis
      by (rule exI [of _ "[(?b, r)]"])
        (use assms ef(1-3) st2 later empty handled_not_terminal [of r] in
          \<open>auto simp: eq runner_frame handled_def split: if_splits\<close>)
  qed
qed

text \<open>The whole batch, by cases of where it stops.\<close>

definition batch_post :: "'s runner_cfg \<Rightarrow> batch \<Rightarrow> 's runner \<Rightarrow> 's runner \<Rightarrow> bool" where
  "batch_post cfg b st st' \<longleftrightarrow>
     (\<exists>E S. rn_emits st' = rn_emits st @ E \<and> rn_saves st' = rn_saves st @ S \<and>
        (\<forall>x\<in>set S. save_justified (rn_guard st) E (set (fst (CoalesceDPM (bt_Samples b) (rc_maxDPM cfg)))) (wm_Time (fst x))) \<and>
        ((\<exists>x\<in>set E. isTerminalHalt (snd x)) \<longrightarrow> rn_degraded st'))"

lemma save_justified_prepend:
  assumes "save_justified g E ss t" "\<forall>x\<in>set E0. handled (snd x)"
  shows "save_justified g (E0 @ E) ss t"
proof -
  have "accounted g (set (E0 @ E)) s" if "accounted g (set E) s" for s
    using accounted_mono [OF that, of "set (E0 @ E)"] by auto
  with assms show ?thesis unfolding save_justified_def by auto
qed

lemma save_justified_all:
  "\<forall>x\<in>set E. handled (snd x) \<Longrightarrow> \<forall>s\<in>ss. accounted g (set E) s \<Longrightarrow> save_justified g E ss t"
  unfolding save_justified_def by blast

lemma batch_post_buckets:
  fixes st st1 :: "'s runner"
  assumes logs: "rn_emits st1 = rn_emits st @ E0" "rn_saves st1 = rn_saves st" "guard_later (rn_guard st) (rn_guard st1)"
      "\<forall>x\<in>set E0. handled (snd x)"
    and rng: "in_range (bt_Samples b)"
    and co: "CoalesceDPM (bt_Samples b) (rc_maxDPM cfg) = (samples, capped)"
    and run: "process_buckets cfg epoch (bt_Key b) None (splitByBucket (b\<lparr>bt_Samples := samples\<rparr>)) st1 = (res, st3)"
    and st': "st' = st3 \<or> res \<noteq> None \<and> st' = commit cfg (bt_Key b) t c epoch st3"
  shows "batch_post cfg b st st'"
proof -
  have ss: "set samples = set (fst (CoalesceDPM (bt_Samples b) (rc_maxDPM cfg)))" using co by simp
  have "in_range samples" using rng CoalesceDPM_subset [of "bt_Samples b" "rc_maxDPM cfg"] unfolding in_range_def ss by blast
  then have ok: "buckets_ok (splitByBucket (b\<lparr>bt_Samples := samples\<rparr>))" by (intro splitByBucket_ok) simp
  have all: "(\<Union>c\<in>set (splitByBucket (b\<lparr>bt_Samples := samples\<rparr>)). set (bt_Samples c)) = set samples"
    using splitByBucket_samples [of "b\<lparr>bt_Samples := samples\<rparr>"] by simp
  have "buckets_post (rn_guard st) (splitByBucket (b\<lparr>bt_Samples := samples\<rparr>)) st1 res st3"
    by (rule process_buckets_post [OF ok _ logs(3) run]) simp
  then obtain E S where ES: "rn_emits st3 = rn_emits st1 @ E" "rn_saves st3 = rn_saves st1 @ S"
    and just: "\<forall>x\<in>set S. save_justified (rn_guard st) E (set samples) (wm_Time (fst x))"
    and deg: "(\<exists>x\<in>set E. isTerminalHalt (snd x)) \<longrightarrow> rn_degraded st3"
    and fin: "res \<noteq> None \<longrightarrow> S = [] \<and> (\<forall>x\<in>set E. handled (snd x)) \<and> (\<forall>s\<in>set samples. accounted (rn_guard st) (set E) s)"
    unfolding buckets_post_def all by (auto simp flip: all)
  note pre = save_justified_prepend [OF _ logs(4)]
  from st' show ?thesis
  proof
    assume "st' = st3"
    then show ?thesis unfolding batch_post_def ss [symmetric]
      by (intro exI [of _ "E0 @ E"] exI [of _ S])
        (use ES logs just pre deg handled_not_terminal in auto)
  next
    assume c: "res \<noteq> None \<and> st' = commit cfg (bt_Key b) t c epoch st3"
    obtain S' where S': "rn_saves st' = rn_saves st3 @ S'" using c commit_saves by blast
    have "save_justified (rn_guard st) (E0 @ E) (set samples) t'" for t'
      by (rule pre, rule save_justified_all) (use fin c in auto)
    then show ?thesis unfolding batch_post_def ss [symmetric]
      by (intro exI [of _ "E0 @ E"] exI [of _ S'])
        (use ES logs S' c fin handled_not_terminal in \<open>auto simp: runner_frame\<close>)
  qed
qed

lemma process_body_post:
  assumes "in_range (bt_Samples b)"
  shows "batch_post cfg b st (process_body cfg epoch b st)"
proof (cases "rc_ctxErr cfg (rn_world st)")
  case True
  then show ?thesis by (auto simp: process_body_def batch_post_def)
next
  case False
  obtain proceed st1 where pl: "(if bt_Logs b \<noteq> [] then processLogs cfg b st else (True, st)) = (proceed, st1)" by fastforce
  obtain E0 where E0: "rn_emits st1 = rn_emits st @ E0" "rn_saves st1 = rn_saves st" "guard_later (rn_guard st) (rn_guard st1)"
      "proceed \<longrightarrow> (\<forall>x\<in>set E0. handled (snd x))" "(\<exists>x\<in>set E0. isTerminalHalt (snd x)) \<longrightarrow> rn_degraded st1"
    using pl processLogs_post [of cfg b st proceed st1] by (auto split: if_splits)
  show ?thesis
  proof (cases proceed)
    case np: False
    then have "process_body cfg epoch b st = st1" using pl False by (simp add: process_body_def)
    with E0 show ?thesis unfolding batch_post_def by (intro exI [of _ E0] exI [of _ "[]"]) simp
  next
    case True
    obtain samples capped where co: "CoalesceDPM (bt_Samples b) (rc_maxDPM cfg) = (samples, capped)" by fastforce
    define st2 where "st2 = (if capped > 0 then tell (SamplesCapped (rc_name cfg) capped) st1 else st1)"
    have st2: "rn_emits st2 = rn_emits st @ E0" "rn_saves st2 = rn_saves st" "guard_later (rn_guard st) (rn_guard st2)"
      using E0 by (simp_all add: st2_def)
    obtain res st3 where run: "process_buckets cfg epoch (bt_Key b) None (splitByBucket (b\<lparr>bt_Samples := samples\<rparr>)) st2 = (res, st3)"
      by fastforce
    have "\<forall>x\<in>set E0. handled (snd x)" using True E0(4) by blast
    note bb = batch_post_buckets [OF st2 this assms co run]
    show ?thesis
      by (rule bb [where t = "wm_Time (bt_Watermark b)" and c = "wm_Cursor (bt_Watermark b)"])
        (use True False pl co run in \<open>auto simp: process_body_def st2_def [symmetric] Let_def split: option.splits\<close>)
  qed
qed

lemma ProcessBatch_post:
  assumes "in_range (bt_Samples b)"
  shows "batch_post cfg b st (ProcessBatch cfg epoch b st)"
  using process_body_post [OF assms, of cfg st epoch] by (simp add: batch_post_def ProcessBatch_def)

section \<open>An induction principle for the runner\<close>

text \<open>
  What is kept by the elementary changes (a metric, the guard, the degraded mark, an
  emission, a commit under the batch's key, the busy mark) is kept by a whole batch.
\<close>

definition kept_by_steps :: "'s runner_cfg \<Rightarrow> int \<Rightarrow> checkpoint_key \<Rightarrow> ('s runner \<Rightarrow> bool) \<Rightarrow> bool" where
  "kept_by_steps cfg epoch key P \<longleftrightarrow>
     (\<forall>st. P st \<longrightarrow>
        (\<forall>m. P (tell m st)) \<and> (\<forall>g. P (st\<lparr>rn_guard := g\<rparr>)) \<and> (\<forall>r. P (enterDegraded cfg r st)) \<and>
        (\<forall>b r st'. emit_batch cfg b st = (r, st') \<longrightarrow> P st') \<and> (\<forall>t c. P (commit cfg key t c epoch st)) \<and>
        P (st\<lparr>rn_busy := False\<rparr>))"

lemma kept_by_stepsI:
  assumes "\<And>st m. P st \<Longrightarrow> P (tell m st)" "\<And>st g. P st \<Longrightarrow> P (st\<lparr>rn_guard := g\<rparr>)"
    "\<And>st r. P st \<Longrightarrow> P (enterDegraded cfg r st)" "\<And>st. P st \<Longrightarrow> P (st\<lparr>rn_busy := False\<rparr>)"
    "\<And>st b r st'. P st \<Longrightarrow> emit_batch cfg b st = (r, st') \<Longrightarrow> P st'"
    "\<And>st t c. P st \<Longrightarrow> P (commit cfg key t c epoch st)"
  shows "kept_by_steps cfg epoch key P"
  unfolding kept_by_steps_def
  by (intro allI impI conjI) (erule assms(1), erule assms(2), erule assms(3), erule (1) assms(5), erule assms(6), erule assms(4))

lemma kept_by_stepsD:
  assumes "kept_by_steps cfg epoch key P" "P st"
  shows "P (tell m st)" "P (st\<lparr>rn_guard := g\<rparr>)" "P (enterDegraded cfg r st)" "P (commit cfg key t c epoch st)"
    "P (st\<lparr>rn_busy := False\<rparr>)" "emit_batch cfg b st = (q, st') \<Longrightarrow> P st'"
  using assms unfolding kept_by_steps_def by blast+

lemma processLogs_kept:
  assumes "kept_by_steps cfg epoch key P" "P st" "processLogs cfg b st = (proceed, st')"
  shows "P st'"
proof -
  note kept = kept_by_stepsD [OF assms(1)]
  obtain ks d g where san: "SanitizeLogs (rn_guard st) (key_String (rc_key cfg)) (bt_Logs b) = (ks, d, g)"
    by (metis prod_cases3)
  define st2 where "st2 = (if d > 0 then tell (GuardDropped (rc_name cfg) d) (st\<lparr>rn_guard := g\<rparr>) else st\<lparr>rn_guard := g\<rparr>)"
  have P2: "P st2" using kept assms(2) by (simp add: st2_def)
  obtain r st3 where em: "emit_batch cfg (zero_batch\<lparr>bt_Key := bt_Key b, bt_Logs := ks\<rparr>) st2 = (r, st3)" by fastforce
  have P3: "P st3" by (rule kept(6) [OF P2 em])
  from assms(3) san em P2 P3 show ?thesis
    by (auto simp: processLogs_def st2_def [symmetric] Let_def split: if_splits intro: kept)
qed

lemma process_buckets_kept:
  assumes "kept_by_steps cfg epoch key P"
  shows "P st \<Longrightarrow> process_buckets cfg epoch key lo bs st = (res, st') \<Longrightarrow> P st'"
proof (induction bs arbitrary: lo st)
  case Nil
  then show ?case by simp
next
  case (Cons b bs)
  note kept = kept_by_stepsD [OF assms]
  obtain sub d g where san: "Sanitize (rn_guard st) b = (sub, d, g)" by (metis prod_cases3)
  define st2 where "st2 = (if d > 0 then tell (GuardDropped (rc_name cfg) d) (st\<lparr>rn_guard := g\<rparr>) else st\<lparr>rn_guard := g\<rparr>)"
  have P2: "P st2" using kept Cons.prems(1) by (simp add: st2_def)
  obtain r st3 where em: "emit_batch cfg sub st2 = (r, st3)" by fastforce
  have P3: "P st3" by (rule kept(6) [OF P2 em])
  have P4: "P (tell m st3)" "P (tell m (tell m' st3))" for m m' by (intro kept(1) P3)+
  from Cons.prems(2) san em P2 P4 show ?case
    by (auto simp: st2_def [symmetric] Let_def split: if_splits option.splits
        intro: Cons.IH kept(3,4) Cons.IH [OF P4(1)] Cons.IH [OF P4(2)])
qed

lemma ProcessBatch_kept:
  assumes kb: "kept_by_steps cfg epoch (bt_Key b) P" and P: "P st"
  shows "P (ProcessBatch cfg epoch b st)"
proof -
  note kept = kept_by_stepsD [OF kb]
  have "P (process_body cfg epoch b st)"
  proof (cases "rc_ctxErr cfg (rn_world st)")
    case True
    with P show ?thesis by (simp add: process_body_def)
  next
    case False
    obtain ok st1 where pl: "(if bt_Logs b \<noteq> [] then processLogs cfg b st else (True, st)) = (ok, st1)" by fastforce
    have P1: "P st1" using pl processLogs_kept [OF kb P] P by (auto split: if_splits)
    obtain samples capped where co: "CoalesceDPM (bt_Samples b) (rc_maxDPM cfg) = (samples, capped)" by fastforce
    define st2 where "st2 = (if capped > 0 then tell (SamplesCapped (rc_name cfg) capped) st1 else st1)"
    have P2: "P st2" using P1 kept(1) by (simp add: st2_def)
    obtain res st3 where run: "process_buckets cfg epoch (bt_Key b) None (splitByBucket (b\<lparr>bt_Samples := samples\<rparr>)) st2 = (res, st3)"
      by fastforce
    have P3: "P st3" by (rule process_buckets_kept [OF kb P2 run])
    show ?thesis
      using False pl co run P1 P3 kept(4) [OF P3]
      by (auto simp: process_body_def st2_def [symmetric] Let_def split: option.splits)
  qed
  then show ?thesis using kept(5) by (simp add: ProcessBatch_def)
qed

section \<open>Sequences of operations\<close>

text \<open>The life of a runner: batches under the epoch of their leadership, reads and re-elections.\<close>

datatype runner_op = OpBatch int batch | OpSince | OpReset

fun run_op :: "'s runner_cfg \<Rightarrow> runner_op \<Rightarrow> 's runner \<Rightarrow> 's runner" where
  "run_op cfg (OpBatch epoch b) st = ProcessBatch cfg epoch b st"
| "run_op cfg OpSince st = snd (Since cfg st)"
| "run_op cfg OpReset st = Reset cfg st"

fun op_ok :: "'s runner_cfg \<Rightarrow> runner_op \<Rightarrow> bool" where
  "op_ok cfg (OpBatch epoch b) = (in_int64 epoch \<and> bt_Key b = rc_key cfg)"
| "op_ok cfg _ = True"

section \<open>Counting the abandoned span\<close>

fun backfill_run :: "instant \<Rightarrow> instant list \<Rightarrow> 's runner \<Rightarrow> int list \<times> 's runner" where
  "backfill_run wm [] st = ([], st)"
| "backfill_run wm (f # fs) st =
     (case BackfillUnstorableMinutes wm f st of (n, st1) \<Rightarrow>
        (case backfill_run wm fs st1 of (ns, st2) \<Rightarrow> (n # ns, st2)))"

text \<open>Where counting resumes for a watermark.\<close>

definition counted_to :: "instant \<Rightarrow> 's runner \<Rightarrow> instant" where
  "counted_to wm st = (if rn_backfillCountedWm st = wm \<and> rn_backfillCountedFloor st > wm then rn_backfillCountedFloor st else wm)"

lemma Backfill_eq:
  "BackfillUnstorableMinutes wm f st =
     (let mins = quot (time_Sub f (counted_to wm st)) Minute in
      if mins \<le> 0 then (0, st)
      else (mins, st\<lparr>rn_backfillCountedWm := wm, rn_backfillCountedFloor := time_Add (counted_to wm st) (mins * Minute)\<rparr>))"
  by (simp add: BackfillUnstorableMinutes_def counted_to_def Let_def)

lemma Backfill_step:
  assumes "counted_to wm st = wm + c * Minute" "0 \<le> c" "wm + c * Minute \<le> f" "in_int64 (f - wm)"
    and "BackfillUnstorableMinutes wm f st = (n, st')"
  shows "n = (f - wm) div Minute - c \<and> counted_to wm st' = wm + ((f - wm) div Minute) * Minute"
proof -
  have M: "(0 :: int) < Minute" by (simp add: Minute_def)
  have "0 \<le> c * Minute" using assms(2) M by simp
  then have rng: "in_int64 (f - (wm + c * Minute))" using assms(3,4) by (auto simp: in_int64_def)
  have nn: "0 \<le> f - (wm + c * Minute)" using assms(3) by simp
  have q: "quot (time_Sub f (wm + c * Minute)) Minute = (f - (wm + c * Minute)) div Minute"
    unfolding time_Sub_def sat64_id [OF rng] quot_def using nn M by (simp add: sgn_if)
  also have "\<dots> = (f - wm + (- c) * Minute) div Minute" by (simp add: algebra_simps)
  also have "\<dots> = (f - wm) div Minute - c"
    using M by (subst div_mult_self1) simp_all
  finally have mins: "quot (time_Sub f (counted_to wm st)) Minute = (f - wm) div Minute - c"
    using assms(1) by simp
  have le: "c \<le> (f - wm) div Minute" using assms(3) M by (simp add: zdiv_mono1 [of "c * Minute" "f - wm" Minute, simplified])
  show ?thesis
  proof (cases "(f - wm) div Minute = c")
    case True
    with mins assms(1,5) show ?thesis by (simp add: Backfill_eq)
  next
    case False
    with le have pos: "0 < (f - wm) div Minute - c" by simp
    then have up: "0 < ((f - wm) div Minute) * Minute" using assms(2) M by simp
    have at: "time_Add (counted_to wm st) (((f - wm) div Minute - c) * Minute) = wm + ((f - wm) div Minute) * Minute"
      by (simp add: assms(1) time_Add_def algebra_simps)
    have n: "n = (f - wm) div Minute - c"
      and st': "st' = st\<lparr>rn_backfillCountedWm := wm, rn_backfillCountedFloor := wm + ((f - wm) div Minute) * Minute\<rparr>"
      using assms(5) pos by (simp_all add: Backfill_eq mins at Let_def)
    show ?thesis using n up by (simp add: st' counted_to_def)
  qed
qed

lemma backfill_run_total:
  assumes "counted_to wm st = wm + c * Minute" "0 \<le> c" "sorted ((wm + c * Minute) # fs)" "\<forall>f\<in>set fs. in_int64 (f - wm)" "fs \<noteq> []"
  shows "sum_list (fst (backfill_run wm fs st)) = (last fs - wm) div Minute - c"
  using assms
proof (induction fs arbitrary: st c)
  case (Cons f fs)
  have M: "(0 :: int) < Minute" by (simp add: Minute_def)
  obtain n st1 where step: "BackfillUnstorableMinutes wm f st = (n, st1)" by fastforce
  have b: "n = (f - wm) div Minute - c \<and> counted_to wm st1 = wm + ((f - wm) div Minute) * Minute"
    by (rule Backfill_step [OF Cons.prems(1,2) _ _ step]) (use Cons.prems in auto)
  have nn: "0 \<le> (f - wm) div Minute"
  proof -
    have "0 \<le> c * Minute" using Cons.prems(2) M by simp
    then have "0 \<le> f - wm" using Cons.prems(3) by simp
    then show ?thesis using M by (simp add: pos_imp_zdiv_nonneg_iff)
  qed
  have below: "wm + ((f - wm) div Minute) * Minute \<le> f"
    using M minus_mod_eq_div_mult [of "f - wm" Minute] pos_mod_sign [OF M, of "f - wm"] by linarith
  show ?case
  proof (cases "fs = []")
    case True
    with step b show ?thesis by simp
  next
    case False
    have "sum_list (fst (backfill_run wm fs st1)) = (last fs - wm) div Minute - (f - wm) div Minute"
      by (rule Cons.IH) (use b nn below Cons.prems False in auto)
    with step b False show ?thesis by (auto split: prod.splits)
  qed
qed simp

section \<open>Properties\<close>

text \<open>An abandoned span is counted once. While a loop is stuck at one watermark and the backfill
  floor advances from tick to tick, the minutes counted over all ticks add up to the whole
  minutes between the watermark and the last floor: nothing is counted twice and no
  remainder is dropped.\<close>

theorem backfill_counted_once:
  assumes "rn_backfillCountedWm st \<noteq> wm \<or> rn_backfillCountedFloor st \<le> wm"
    and "sorted (wm # floors)" "floors \<noteq> []" "\<forall>f\<in>set floors. in_int64 (f - wm)"
  shows "sum_list (fst (backfill_run wm floors st)) = (last floors - wm) div Minute"
proof -
  have "counted_to wm st = wm + 0 * Minute" using assms(1) by (auto simp: counted_to_def)
  from backfill_run_total [OF this _ _ assms(4,3)] assms(2) show ?thesis by simp
qed

definition idle_runner :: "unit runner" where
  "idle_runner = snd (NewLoopRunner zero_key (\<lambda>s b. (EmitOk, s)) \<lparr>cp_Load = (\<lambda>s k. (Inr zero_watermark, s)), cp_Save = (\<lambda>s k w. (None, s))\<rparr>
     (\<lambda>_. False) 1 1 (NewGuard \<lparr>gc_AllowLabelKeys = [], gc_DenyFieldKeys = [], gc_DenyFieldKeysByLoop = fmempty,
     gc_PerSeriesBudget = 0, gc_OnNewLabelValue = False\<rparr>) ())"

theorem backfill_counted_once_witness:
  "sum_list (fst (backfill_run unix_epoch [unix_epoch + 90 * Second, unix_epoch + 150 * Second] idle_runner)) = 2"
proof -
  have "sum_list (fst (backfill_run unix_epoch [unix_epoch + 90 * Second, unix_epoch + 150 * Second] idle_runner)) =
      (last [unix_epoch + 90 * Second, unix_epoch + 150 * Second] - unix_epoch) div Minute"
    by (rule backfill_counted_once)
      (simp_all add: idle_runner_def NewLoopRunner_def zero_time_def unix_epoch_def Second_def in_int64_def)
  also have "\<dots> = 2" by (simp add: Second_def Minute_def)
  finally show ?thesis .
qed

end
