(* ===== verification/File_Store.thy ===== *)
theory File_Store
  imports Checkpoint
begin

text \<open>
  The file-backed checkpointer (\<^verbatim>\<open>internal/checkpoint/file/file.go\<close>). The state is the
  in-memory map, the durable file (the map its YAML holds; None while there is no readable
  content) and the temporary file of the write-then-rename. Each flush meets one answer of the operating system, taken from
  a list: it succeeds or fails at one of its four steps. The mutex makes every operation
  atomic.
\<close>

type_synonym file_data = "string \<rightharpoonup> watermark"

datatype flush_fault = FlushOk | FaultMarshal | FaultMkdir | FaultWrite | FaultRename

record file_store =
  fs_data :: file_data
  fs_file :: "file_data option"
  fs_tmp :: "file_data option"
  fs_faults :: "flush_fault list"

datatype file_read = NotExist | ReadError | Content "file_data option"

definition file_New :: "file_read \<Rightarrow> bool \<Rightarrow> flush_fault list \<Rightarrow> cp_error + file_store" where
  "file_New r ignoreInvalid fl =
     (case r of
        NotExist \<Rightarrow> Inr \<lparr>fs_data = Map.empty, fs_file = None, fs_tmp = None, fs_faults = fl\<rparr>
      | ReadError \<Rightarrow> Inl (BackendError ''read'')
      | Content None \<Rightarrow>
          (if ignoreInvalid
           then Inr \<lparr>fs_data = Map.empty, fs_file = None, fs_tmp = None, fs_faults = fl\<rparr>
           else Inl (BackendError ''corrupt''))
      | Content (Some d) \<Rightarrow> Inr \<lparr>fs_data = d, fs_file = Some d, fs_tmp = None, fs_faults = fl\<rparr>)"

definition file_Load :: "file_store \<Rightarrow> checkpoint_key \<Rightarrow> (cp_error + watermark) \<times> file_store" where
  "file_Load s k =
     (case fs_data s (key_String k) of
        None \<Rightarrow> (Inr zero_watermark, s)
      | Some r \<Rightarrow> (Inr \<lparr>wm_Time = wm_Time r, wm_Cursor = wm_Cursor r, wm_Epoch = wm_Epoch r\<rparr>, s))"

definition flushLocked :: "file_store \<Rightarrow> cp_error option \<times> file_store" where
  "flushLocked s =
     (let f = (case fs_faults s of [] \<Rightarrow> FlushOk | x # _ \<Rightarrow> x);
          s1 = s\<lparr>fs_faults := tl (fs_faults s)\<rparr>
      in case f of
           FaultMarshal \<Rightarrow> (Some (BackendError ''marshal''), s1)
         | FaultMkdir \<Rightarrow> (Some (BackendError ''mkdir''), s1)
         | FaultWrite \<Rightarrow> (Some (BackendError ''write''), s1\<lparr>fs_tmp := None\<rparr>)
         | FaultRename \<Rightarrow> (Some (BackendError ''rename''), s1\<lparr>fs_tmp := Some (fs_data s)\<rparr>)
         | FlushOk \<Rightarrow> (None, s1\<lparr>fs_tmp := None, fs_file := Some (fs_data s)\<rparr>))"

definition file_Save :: "file_store \<Rightarrow> checkpoint_key \<Rightarrow> watermark \<Rightarrow> cp_error option \<times> file_store" where
  "file_Save s key w =
     (let k = key_String key;
          prev = fs_data s k;
          stored = (case prev of None \<Rightarrow> zero_watermark | Some r \<Rightarrow> r)
      in case CheckMonotonic stored w of
           Some e \<Rightarrow> (Some e, s)
         | None \<Rightarrow>
             (let s1 = s\<lparr>fs_data := (fs_data s)(k \<mapsto> w)\<rparr>
              in case flushLocked s1 of
                   (None, s2) \<Rightarrow> (None, s2)
                 | (Some e, s2) \<Rightarrow>
                     (case prev of
                        Some r \<Rightarrow> (Some e, s2\<lparr>fs_data := (fs_data s2)(k \<mapsto> r)\<rparr>)
                      | None \<Rightarrow> (Some e, s2\<lparr>fs_data := (fs_data s2)(k := None)\<rparr>))))"

definition file_ops :: "file_store checkpointer_ops" where
  "file_ops = \<lparr>cp_Load = file_Load, cp_Save = file_Save\<rparr>"

text \<open>What is on disk, and the invariant: the memory never runs ahead of the disk.\<close>

definition fs_disk :: "file_store \<Rightarrow> file_data" where
  "fs_disk s = (case fs_file s of None \<Rightarrow> Map.empty | Some d \<Rightarrow> d)"

definition file_durable :: "file_store \<Rightarrow> string \<Rightarrow> watermark" where
  "file_durable s x = (case fs_disk s x of None \<Rightarrow> zero_watermark | Some w \<Rightarrow> w)"

definition file_inv :: "file_store \<Rightarrow> bool" where
  "file_inv s \<longleftrightarrow> fs_data s = fs_disk s"

fun file_saves :: "file_store \<Rightarrow> (checkpoint_key \<times> watermark) list \<Rightarrow> file_store" where
  "file_saves s [] = s"
| "file_saves s ((k, w) # xs) = file_saves (snd (file_Save s k w)) xs"

section \<open>Correctness\<close>

lemma flushLocked_ok:
  "flushLocked s = (None, s') \<Longrightarrow> fs_data s' = fs_data s \<and> fs_disk s' = fs_data s"
  by (auto simp: flushLocked_def Let_def fs_disk_def split: flush_fault.splits list.splits)

lemma flushLocked_err:
  "flushLocked s = (Some e, s') \<Longrightarrow> fs_data s' = fs_data s \<and> fs_disk s' = fs_disk s \<and> e \<noteq> StaleWrite"
  by (auto simp: flushLocked_def Let_def fs_disk_def split: flush_fault.splits list.splits)

lemma fs_disk_data [simp]: "fs_disk (s\<lparr>fs_data := d\<rparr>) = fs_disk s"
  by (simp add: fs_disk_def)

text \<open>The two outcomes of a save: the record is on disk, or memory and disk are as before.\<close>

lemma file_Save_ok:
  assumes "file_inv s" "file_Save s k w = (None, s')"
  shows "CheckMonotonic (file_durable s (key_String k)) w = None \<and>
         fs_disk s' = (fs_disk s)(key_String k \<mapsto> w) \<and> file_inv s'"
  using assms unfolding file_Save_def file_inv_def file_durable_def Let_def
  by (auto split: option.splits prod.splits dest!: flushLocked_ok)

lemma file_Save_err:
  assumes "file_inv s" "file_Save s k w = (Some e, s')"
  shows "fs_disk s' = fs_disk s \<and> file_inv s' \<and>
         (e = StaleWrite \<longleftrightarrow> CheckMonotonic (file_durable s (key_String k)) w \<noteq> None)"
  using assms unfolding file_Save_def file_inv_def file_durable_def Let_def
  by (auto split: option.splits prod.splits dest!: flushLocked_err dest: CheckMonotonic_Some
      simp: fun_upd_idem)

lemma file_Save_durable:
  assumes "file_inv s" "file_Save s k w = (q, s')"
  shows "file_durable s' = (if q = None then (file_durable s)(key_String k := w) else file_durable s)"
proof (cases q)
  case None
  with file_Save_ok [of s k w s'] assms show ?thesis by (auto simp: file_durable_def)
next
  case (Some e)
  with file_Save_err [of s k w e s'] assms show ?thesis by (auto simp: file_durable_def)
qed

lemma file_Load_eq: "file_inv s \<Longrightarrow> file_Load s k = (Inr (file_durable s (key_String k)), s)"
  by (auto simp: file_Load_def file_inv_def file_durable_def split: option.splits)

interpretation file_cp: checkpointer file_ops file_durable file_inv
proof
  fix s k w q s'
  assume "file_inv s" "cp_Save file_ops s k w = (q, s')"
  with file_Save_ok [of s k w s'] file_Save_err [of s k w "the q" s'] show "file_inv s'"
    by (cases q) (simp_all add: file_ops_def)
next
  fix s k w s'
  assume "file_inv s" "cp_Save file_ops s k w = (None, s')"
  with file_Save_ok [of s k w s'] file_Save_durable [of s k w None s']
  show "CheckMonotonic (file_durable s (key_String k)) w = None \<and>
        file_durable s' = (file_durable s)(key_String k := w)"
    by (simp add: file_ops_def)
next
  fix s k w e s'
  assume "file_inv s" "cp_Save file_ops s k w = (Some e, s')"
  with file_Save_durable [of s k w "Some e" s'] show "file_durable s' = file_durable s"
    by (simp add: file_ops_def)
next
  fix s k w s'
  assume "file_inv s" "cp_Save file_ops s k w = (Some StaleWrite, s')"
  with file_Save_err [of s k w StaleWrite s'] CheckMonotonic_Some
  show "CheckMonotonic (file_durable s (key_String k)) w = Some StaleWrite"
    by (auto simp: file_ops_def)
qed (auto simp: file_ops_def file_Load_eq)

lemma file_saves_inv: "file_inv s \<Longrightarrow> file_inv (file_saves s xs)"
proof (induction s xs rule: file_saves.induct)
  case (2 s k w xs)
  obtain q s' where "file_Save s k w = (q, s')" by fastforce
  with 2 file_cp.x_save_inv [of s k w q s'] show ?case by (simp add: file_ops_def)
qed simp

lemma file_New_inv: "file_New r ig fl = Inr s \<Longrightarrow> file_inv s"
  by (auto simp: file_New_def file_inv_def fs_disk_def split: file_read.splits option.splits if_splits)

section \<open>Properties\<close>

text \<open>What a restarted process reads back.\<close>

definition disk_read :: "file_store \<Rightarrow> file_read" where
  "disk_read s = (case fs_file s of None \<Rightarrow> NotExist | Some d \<Rightarrow> Content (Some d))"



end
