(* ===== verification/Go_Strconv.thy ===== *)
theory Go_Strconv
  imports Prelude
begin

text \<open>
  Decimal integers as \<^verbatim>\<open>strconv\<close> prints and reads them: \<open>FormatInt\<close> and
  \<open>ParseInt\<close> with base 10 and 64 bits (\<open>None\<close> is the syntax or range error), with their
  round trip.
\<close>

definition FormatInt :: "int \<Rightarrow> string" where
  "FormatInt i = (if i < 0 then CHR ''-'' # itoa (nat (- i)) else itoa (nat i))"

definition digit_val :: "char \<Rightarrow> nat option" where
  "digit_val c = (let n = of_char c in if 48 \<le> n \<and> n \<le> 57 then Some (n - 48) else None)"

fun digits_val :: "nat \<Rightarrow> string \<Rightarrow> nat option" where
  "digits_val acc [] = Some acc"
| "digits_val acc (c # cs) =
     (case digit_val c of None \<Rightarrow> None | Some d \<Rightarrow> digits_val (10 * acc + d) cs)"

definition parse_nat :: "string \<Rightarrow> nat option" where
  "parse_nat s = (if s = [] then None else digits_val 0 s)"

definition ParseInt :: "string \<Rightarrow> int option" where
  "ParseInt s =
     (let neg = (s \<noteq> [] \<and> hd s = CHR ''-'');
          body = (if s \<noteq> [] \<and> (hd s = CHR ''-'' \<or> hd s = CHR ''+'') then tl s else s)
      in case parse_nat body of
           None \<Rightarrow> None
         | Some n \<Rightarrow>
             (let i = (if neg then - int n else int n) in if in_int64 i then Some i else None))"

section \<open>Round trip\<close>

lemma digit_val_digit_char [simp]: "d < 10 \<Longrightarrow> digit_val (digit_char d) = Some d"
  by (simp add: digit_val_def digit_char_range Let_def)

lemma digits_val_append:
  "digits_val acc (xs @ ys) = (case digits_val acc xs of None \<Rightarrow> None | Some a \<Rightarrow> digits_val a ys)"
  by (induction xs arbitrary: acc) (auto split: option.splits)

lemma digits_val_itoa: "digits_val 0 (itoa n) = Some n"
proof (induction n rule: itoa.induct)
  case (1 n)
  show ?case
  proof (cases "n < 10")
    case True
    then show ?thesis by (simp add: itoa.simps [of n])
  next
    case False
    with 1 show ?thesis by (simp add: itoa.simps [of n] digits_val_append)
  qed
qed

lemma parse_nat_itoa [simp]: "parse_nat (itoa n) = Some n"
  by (simp add: parse_nat_def digits_val_itoa)

lemma digit_char_not_sign: "d < 10 \<Longrightarrow> digit_char d \<noteq> CHR ''-'' \<and> digit_char d \<noteq> CHR ''+''"
  using digit_char_range [of d] by auto

lemma itoa_hd_digit: "\<exists>d<10. hd (itoa n) = digit_char d"
proof (induction n rule: itoa.induct)
  case (1 n)
  then show ?case by (cases "n < 10") (auto simp: itoa.simps [of n])
qed

lemma itoa_hd_not_sign: "hd (itoa n) \<noteq> CHR ''-'' \<and> hd (itoa n) \<noteq> CHR ''+''"
  using itoa_hd_digit [of n] digit_char_not_sign by metis

lemma ParseInt_FormatInt: "in_int64 i \<Longrightarrow> ParseInt (FormatInt i) = Some i"
  using itoa_hd_not_sign [of "nat i"] unfolding ParseInt_def FormatInt_def Let_def by auto

lemma ParseInt_range: "ParseInt s = Some i \<Longrightarrow> in_int64 i"
  by (auto simp: ParseInt_def Let_def split: option.splits if_splits)

lemma itoa_digits: "c \<in> set (itoa n) \<Longrightarrow> \<exists>d<10. c = digit_char d"
proof (induction n rule: itoa.induct)
  case (1 n)
  show ?case
  proof (cases "n < 10")
    case True
    with 1 show ?thesis by (auto simp: itoa.simps [of n])
  next
    case False
    with "1.prems" have "c \<in> set (itoa (n div 10)) \<or> c = digit_char (n mod 10)"
      by (auto simp: itoa.simps [of n])
    moreover have "n mod 10 < 10" by simp
    ultimately show ?thesis using "1.IH" [OF False] by blast
  qed
qed

lemma FormatInt_no_space: "CHR '' '' \<notin> set (FormatInt i)"
proof -
  have "CHR '' '' \<noteq> digit_char d" if "d < 10" for d
  proof
    assume "CHR '' '' = digit_char d"
    then have "of_char (CHR '' '') = (48 + d :: nat)" using digit_char_range [OF that] by simp
    then show False by simp
  qed
  then show ?thesis by (auto simp: FormatInt_def dest!: itoa_digits)
qed

end
