(* ===== verification/Configmap_Store.thy ===== *)
theory Configmap_Store
  imports Checkpoint Go_Strconv
begin

text \<open>
  The ConfigMap-backed checkpointer (\<^verbatim>\<open>internal/checkpoint/configmap/configmap.go\<close>): a
  read-modify-write loop over one Kubernetes object, bounded by the retry count. The API
  server client, the SHA-256 digest and the JSON codec of the stored record are arguments.
  The locale \<open>configmap_server\<close> states what the loop relies on: reads return the current
  object, a write succeeds only on the version it was read at, and the other writers are
  fenced too. Under these laws the store keeps the logged checkpointer contract: nothing any
  replica ever stored is overwritten by an older watermark.
\<close>

record configmap =
  cm_version :: nat
  cm_Data :: "(string, string) fmap"

datatype cm_get = CMFound configmap | CMNotFound | CMError

datatype api_error = ApiConflict | ApiAlreadyExists | ApiOther

record 'w cm_api =
  cm_Get :: "'w \<Rightarrow> cm_get \<times> 'w"
  cm_Create :: "'w \<Rightarrow> configmap \<Rightarrow> api_error option \<times> 'w"
  cm_Update :: "'w \<Rightarrow> configmap \<Rightarrow> api_error option \<times> 'w"

record codec =
  cd_Marshal :: "watermark \<Rightarrow> string option"
  cd_Unmarshal :: "string \<Rightarrow> watermark option"

definition maxConfigMapBytes :: nat where "maxConfigMapBytes = 900 * 1024"

definition cm_retries :: nat where "cm_retries = 5"

definition key_char_ok :: "char \<Rightarrow> bool" where
  "key_char_ok c \<longleftrightarrow>
     (let n = of_char c :: nat in
      97 \<le> n \<and> n \<le> 122 \<or> 65 \<le> n \<and> n \<le> 90 \<or> 48 \<le> n \<and> n \<le> 57 \<or>
      c = CHR ''-'' \<or> c = CHR ''_'' \<or> c = CHR ''.'')"

definition dataKey_of :: "(string \<Rightarrow> string) \<Rightarrow> string \<Rightarrow> string" where
  "dataKey_of sha256_hex s =
     (let pre = map (\<lambda>c. if key_char_ok c then c else CHR ''_'') s
      in (if length pre > 200 then take 200 pre else pre) @ ''.'' @ take 12 (sha256_hex s))"

definition dataKey :: "(string \<Rightarrow> string) \<Rightarrow> checkpoint_key \<Rightarrow> string" where
  "dataKey sha256_hex k = dataKey_of sha256_hex (key_String k)"

definition dataBytes :: "(string, string) fmap \<Rightarrow> nat" where
  "dataBytes d = sum_list (map (\<lambda>k. length k + length (map_get d k)) (sorted_keys d))"

definition cm_Load ::
  "'w cm_api \<Rightarrow> (string \<Rightarrow> string) \<Rightarrow> codec \<Rightarrow> 'w \<Rightarrow> checkpoint_key \<Rightarrow> (cp_error + watermark) \<times> 'w" where
  "cm_Load api sha cd s key =
     (case cm_Get api s of
        (CMNotFound, s1) \<Rightarrow> (Inr zero_watermark, s1)
      | (CMError, s1) \<Rightarrow> (Inl (BackendError ''get''), s1)
      | (CMFound cm, s1) \<Rightarrow>
          (case fmlookup (cm_Data cm) (dataKey sha key) of
             None \<Rightarrow> (Inr zero_watermark, s1)
           | Some raw \<Rightarrow>
               (case cd_Unmarshal cd raw of
                  None \<Rightarrow> (Inl (BackendError ''corrupt''), s1)
                | Some r \<Rightarrow> (Inr r, s1))))"

text \<open>One pass over the object read: the object to write back, or why there is none.\<close>

definition cm_prepare ::
  "(string \<Rightarrow> string) \<Rightarrow> codec \<Rightarrow> configmap \<Rightarrow> checkpoint_key \<Rightarrow> watermark \<Rightarrow> cp_error + configmap" where
  "cm_prepare sha cd cm key w =
     (case (case fmlookup (cm_Data cm) (dataKey sha key) of
              None \<Rightarrow> Some zero_watermark | Some raw \<Rightarrow> cd_Unmarshal cd raw) of
        None \<Rightarrow> Inl (BackendError ''corrupt'')
      | Some stored \<Rightarrow>
          (case CheckMonotonic stored w of
             Some e \<Rightarrow> Inl e
           | None \<Rightarrow>
               (case cd_Marshal cd w of
                  None \<Rightarrow> Inl (BackendError ''encode'')
                | Some enc \<Rightarrow>
                    (let d = fmupd (dataKey sha key) enc (cm_Data cm)
                     in if dataBytes d > maxConfigMapBytes then Inl (BackendError ''size'')
                        else Inr (cm\<lparr>cm_Data := d\<rparr>)))))"

fun cm_save_loop ::
  "'w cm_api \<Rightarrow> (string \<Rightarrow> string) \<Rightarrow> codec \<Rightarrow> checkpoint_key \<Rightarrow> watermark \<Rightarrow> nat \<Rightarrow> 'w
   \<Rightarrow> cp_error option \<times> 'w" where
  "cm_save_loop api sha cd key w 0 s = (Some (BackendError ''exhausted''), s)"
| "cm_save_loop api sha cd key w (Suc n) s =
     (case cm_Get api s of
        (CMError, s1) \<Rightarrow> (Some (BackendError ''get''), s1)
      | (r, s1) \<Rightarrow>
          (let create = (r = CMNotFound);
               cm = (case r of CMFound c \<Rightarrow> c | _ \<Rightarrow> \<lparr>cm_version = 0, cm_Data = fmempty\<rparr>)
           in case cm_prepare sha cd cm key w of
                Inl e \<Rightarrow> (Some e, s1)
              | Inr cm' \<Rightarrow>
                  (case (if create then cm_Create api s1 cm' else cm_Update api s1 cm') of
                     (None, s2) \<Rightarrow> (None, s2)
                   | (Some ApiOther, s2) \<Rightarrow> (Some (BackendError ''write''), s2)
                   | (Some ApiConflict, s2) \<Rightarrow> cm_save_loop api sha cd key w n s2
                   | (Some ApiAlreadyExists, s2) \<Rightarrow> cm_save_loop api sha cd key w n s2)))"

definition cm_Save ::
  "'w cm_api \<Rightarrow> (string \<Rightarrow> string) \<Rightarrow> codec \<Rightarrow> 'w \<Rightarrow> checkpoint_key \<Rightarrow> watermark
   \<Rightarrow> cp_error option \<times> 'w" where
  "cm_Save api sha cd s key w =
     (case CheckEncodable w of
        Some e \<Rightarrow> (Some e, s)
      | None \<Rightarrow> cm_save_loop api sha cd key w (Suc cm_retries) s)"

definition cm_ops :: "'w cm_api \<Rightarrow> (string \<Rightarrow> string) \<Rightarrow> codec \<Rightarrow> 'w checkpointer_ops" where
  "cm_ops api sha cd = \<lparr>cp_Load = cm_Load api sha cd, cp_Save = cm_Save api sha cd\<rparr>"

text \<open>The watermark an object holds under a data key; an absent or unreadable one is the zero watermark.\<close>

definition cm_watermark :: "codec \<Rightarrow> configmap option \<Rightarrow> string \<Rightarrow> watermark" where
  "cm_watermark cd v x =
     (case v of
        None \<Rightarrow> zero_watermark
      | Some cm \<Rightarrow>
          (case fmlookup (cm_Data cm) x of
             None \<Rightarrow> zero_watermark
           | Some raw \<Rightarrow> (case cd_Unmarshal cd raw of None \<Rightarrow> zero_watermark | Some w \<Rightarrow> w)))"

text \<open>Every slot at least as far in the second object as in the first.\<close>

definition cm_forward :: "codec \<Rightarrow> configmap option \<Rightarrow> configmap option \<Rightarrow> bool" where
  "cm_forward cd v v' \<longleftrightarrow> (\<forall>x. wm_le (cm_watermark cd v x) (cm_watermark cd v' x))"

text \<open>
  The log of an object: everything the server ever stored under its name, oldest first.
  Other writers extend it under the fence and with a version never used before.
\<close>

inductive grows :: "codec \<Rightarrow> configmap list \<Rightarrow> configmap list \<Rightarrow> bool" for cd l where
  grows_refl: "grows cd l l"
| grows_step: "grows cd l m \<Longrightarrow> cm_forward cd (last_opt m) (Some c) \<Longrightarrow>
    cm_version c \<notin> cm_version ` set m \<Longrightarrow> grows cd l (m @ [c])"

definition cm_hist ::
  "('w \<Rightarrow> configmap list) \<Rightarrow> (string \<Rightarrow> string) \<Rightarrow> codec \<Rightarrow> 'w \<Rightarrow> string \<Rightarrow> watermark list" where
  "cm_hist obj_log sha cd s x = map (\<lambda>c. cm_watermark cd (Some c) (dataKey_of sha x)) (obj_log s)"

definition cm_log_ok :: "codec \<Rightarrow> configmap list \<Rightarrow> bool" where
  "cm_log_ok cd l \<longleftrightarrow> distinct (map cm_version l) \<and>
     (\<forall>x. wm_chain (map (\<lambda>c. cm_watermark cd (Some c) x) l))"

text \<open>
  What a successful write means: at its commit point the last object still had the version
  that was read (for a create: there was none), and what was sent is now the last object.
\<close>

definition landed_update :: "codec \<Rightarrow> configmap list \<Rightarrow> configmap \<Rightarrow> configmap list \<Rightarrow> bool" where
  "landed_update cd l c l' \<longleftrightarrow>
     (\<exists>m old n. grows cd l m \<and> last_opt m = Some old \<and> cm_version old = cm_version c \<and>
        n \<notin> cm_version ` set m \<and> l' = m @ [c\<lparr>cm_version := n\<rparr>])"

definition landed_create :: "configmap list \<Rightarrow> configmap \<Rightarrow> configmap list \<Rightarrow> bool" where
  "landed_create l c l' \<longleftrightarrow> l = [] \<and> (\<exists>n. l' = [c\<lparr>cm_version := n\<rparr>])"

section \<open>Data keys\<close>

lemma dataKey_chars:
  assumes "\<forall>s. \<forall>c\<in>set (sha s). key_char_ok c"
  shows "\<forall>c\<in>set (dataKey sha k). key_char_ok c"
  using assms unfolding dataKey_def dataKey_of_def Let_def
  by (auto simp: key_char_ok_def dest!: in_set_takeD)

lemma dataKey_length: "length (dataKey sha k) \<le> 213"
  by (auto simp: dataKey_def dataKey_of_def Let_def min_def)

lemma dataKey_suffix: "\<exists>a. dataKey sha k = a @ take 12 (sha (key_String k))"
  unfolding dataKey_def dataKey_of_def Let_def append_assoc [symmetric] by (rule exI, rule refl)

lemma dataKey_differs:
  assumes "length (take 12 (sha (key_String k))) = 12" "length (take 12 (sha (key_String l))) = 12"
    and "take 12 (sha (key_String k)) \<noteq> take 12 (sha (key_String l))"
  shows "dataKey sha k \<noteq> dataKey sha l"
proof
  assume eq: "dataKey sha k = dataKey sha l"
  obtain a b where "dataKey sha k = a @ take 12 (sha (key_String k))"
    and "dataKey sha l = b @ take 12 (sha (key_String l))"
    using dataKey_suffix [of sha k] dataKey_suffix [of sha l] by blast
  with eq have "a @ take 12 (sha (key_String k)) = b @ take 12 (sha (key_String l))" by simp
  moreover have "length (take 12 (sha (key_String k))) = length (take 12 (sha (key_String l)))"
    using assms(1,2) by simp
  ultimately show False using assms(3) append_eq_append_conv by blast
qed

section \<open>One read-modify-write pass\<close>

lemma cm_watermark_version [simp]:
  "cm_watermark cd (Some (c\<lparr>cm_version := n\<rparr>)) x = cm_watermark cd (Some c) x"
  by (simp add: cm_watermark_def)

lemma cm_forward_refl [simp]: "cm_forward cd v v"
  by (simp add: cm_forward_def)

lemma cm_forward_trans [trans]: "cm_forward cd u v \<Longrightarrow> cm_forward cd v x \<Longrightarrow> cm_forward cd u x"
  unfolding cm_forward_def using wm_le_trans by blast

lemma cm_prepare_ok:
  assumes "cm_prepare sha cd cm key w = Inr cm'"
    and "\<And>raw. cd_Marshal cd w = Some raw \<Longrightarrow> cd_Unmarshal cd raw = Some w"
  shows "cm_version cm' = cm_version cm"
    and "cm_watermark cd (Some cm') (dataKey sha key) = w"
    and "CheckMonotonic (cm_watermark cd (Some cm) (dataKey sha key)) w = None"
    and "x \<noteq> dataKey sha key \<Longrightarrow> cm_watermark cd (Some cm') x = cm_watermark cd (Some cm) x"
  using assms unfolding cm_prepare_def Let_def
  by (auto simp: cm_watermark_def split: option.splits if_splits)

lemma cm_prepare_forward:
  assumes "cm_prepare sha cd cm key w = Inr cm'"
    and "\<And>raw. cd_Marshal cd w = Some raw \<Longrightarrow> cd_Unmarshal cd raw = Some w"
  shows "cm_forward cd (Some cm) (Some cm')"
  unfolding cm_forward_def
proof
  fix x
  show "wm_le (cm_watermark cd (Some cm) x) (cm_watermark cd (Some cm') x)"
    using cm_prepare_ok [OF assms] CheckMonotonic_wm_le by (cases "x = dataKey sha key") auto
qed

lemma cm_prepare_stale:
  "cm_prepare sha cd cm key w = Inl StaleWrite \<Longrightarrow>
   CheckMonotonic (cm_watermark cd (Some cm) (dataKey sha key)) w = Some StaleWrite"
  unfolding cm_prepare_def Let_def
  by (auto simp: cm_watermark_def split: option.splits if_splits)

lemma cm_watermark_empty [simp]:
  "cm_watermark cd None x = zero_watermark"
  "cm_watermark cd (Some \<lparr>cm_version = n, cm_Data = fmempty\<rparr>) x = zero_watermark"
  by (simp_all add: cm_watermark_def)

section \<open>Logs\<close>

lemma last_wm_log: "last_wm (map (\<lambda>c. cm_watermark cd (Some c) x) l) = cm_watermark cd (last_opt l) x"
  by (cases l rule: rev_cases) simp_all

lemma cm_log_ok_Nil [simp]: "cm_log_ok cd []"
  by (simp add: cm_log_ok_def)

lemma cm_log_ok_snoc:
  "cm_log_ok cd (l @ [c]) \<longleftrightarrow>
     cm_log_ok cd l \<and> cm_version c \<notin> cm_version ` set l \<and> cm_forward cd (last_opt l) (Some c)"
  by (auto simp: cm_log_ok_def wm_chain_snoc last_wm_log cm_forward_def)

lemma grows_prefix: "grows cd l m \<Longrightarrow> prefix l m"
  by (induction rule: grows.induct) (auto simp: prefix_def)

lemma grows_log_ok: "grows cd l m \<Longrightarrow> cm_log_ok cd l \<Longrightarrow> cm_log_ok cd m"
  by (induction rule: grows.induct) (auto simp: cm_log_ok_snoc)

text \<open>Versions are never used twice, so the version at the end of a log pins the whole log.\<close>

lemma version_pins:
  assumes "cm_log_ok cd m" "prefix l m" "last_opt l = Some a" "last_opt m = Some b"
    and "cm_version a = cm_version b"
  shows "m = l \<and> b = a"
proof -
  from assms(2) obtain r where m: "m = l @ r" by (auto simp: prefix_def)
  have "r = []"
  proof (rule ccontr)
    assume "r \<noteq> []"
    then have "b \<in> set r" using assms(4) m by (auto simp: last_opt_def)
    moreover have "a \<in> set l" using assms(3) by (auto simp: last_opt_def split: if_splits)
    ultimately show False using assms(1,5) m by (force simp: cm_log_ok_def)
  qed
  with m assms(3,4) show ?thesis by simp
qed

section \<open>The server's laws and the contract\<close>

locale configmap_server =
  fixes api :: "'w cm_api"
    and obj_log :: "'w \<Rightarrow> configmap list"
    and sha :: "string \<Rightarrow> string"
    and cd :: codec
  assumes codec_round: "CheckEncodable w = None \<Longrightarrow> typed_wm w \<Longrightarrow> cd_Marshal cd w = Some raw \<Longrightarrow>
      cd_Unmarshal cd raw = Some w"
    and get_law: "cm_Get api s = (g, s1) \<Longrightarrow> grows cd (obj_log s) (obj_log s1) \<and>
      (g = CMNotFound \<longrightarrow> obj_log s1 = []) \<and> (\<forall>c. g = CMFound c \<longrightarrow> last_opt (obj_log s1) = Some c)"
    and update_ok: "cm_Update api s c = (None, s1) \<Longrightarrow> landed_update cd (obj_log s) c (obj_log s1)"
    and create_ok: "cm_Create api s c = (None, s1) \<Longrightarrow> landed_create (obj_log s) c (obj_log s1)"
    and update_refused: "cm_Update api s c = (Some e, s1) \<Longrightarrow>
      grows cd (obj_log s) (obj_log s1) \<or> e = ApiOther \<and> landed_update cd (obj_log s) c (obj_log s1)"
    and create_refused: "cm_Create api s c = (Some e, s1) \<Longrightarrow>
      grows cd (obj_log s) (obj_log s1) \<or> e = ApiOther \<and> landed_create (obj_log s) c (obj_log s1)"
begin

definition log_step :: "'w \<Rightarrow> 'w \<Rightarrow> bool" where
  "log_step s s' \<longleftrightarrow> cm_log_ok cd (obj_log s') \<and> prefix (obj_log s) (obj_log s')"

lemma log_step_grows: "cm_log_ok cd (obj_log s) \<Longrightarrow> grows cd (obj_log s) (obj_log s') \<Longrightarrow> log_step s s'"
  unfolding log_step_def using grows_log_ok grows_prefix by blast

lemma log_step_trans: "log_step s s1 \<Longrightarrow> log_step s1 s2 \<Longrightarrow> log_step s s2"
  unfolding log_step_def by auto

lemma landed_update_effect:
  assumes "CheckEncodable w = None" "typed_wm w" "cm_log_ok cd l" "last_opt l = Some c"
    and prep: "cm_prepare sha cd c key w = Inr cm'" and landed: "landed_update cd l cm' l'"
  shows "cm_log_ok cd l' \<and> prefix l l' \<and> cm_watermark cd (last_opt l') (dataKey sha key) = w"
proof -
  have rt: "\<And>raw. cd_Marshal cd w = Some raw \<Longrightarrow> cd_Unmarshal cd raw = Some w"
    using codec_round [OF assms(1,2)] .
  note ok = cm_prepare_ok(1,2) [OF prep rt]
  from landed obtain m old n where m: "grows cd l m" "last_opt m = Some old"
      "cm_version old = cm_version cm'" "n \<notin> cm_version ` set m" "l' = m @ [cm'\<lparr>cm_version := n\<rparr>]"
    unfolding landed_update_def by blast
  have "m = l \<and> old = c"
    using version_pins [OF grows_log_ok [OF m(1) assms(3)] grows_prefix [OF m(1)] assms(4) m(2)] m(3) ok(1)
    by simp
  with m cm_prepare_forward [OF prep rt] assms(3,4) ok(2) show ?thesis
    by (simp add: cm_log_ok_snoc cm_forward_def)
qed

lemma landed_create_effect:
  assumes "CheckEncodable w = None" "typed_wm w"
    and prep: "cm_prepare sha cd \<lparr>cm_version = 0, cm_Data = fmempty\<rparr> key w = Inr cm'"
    and landed: "landed_create l cm' l'"
  shows "cm_log_ok cd l' \<and> prefix l l' \<and> cm_watermark cd (last_opt l') (dataKey sha key) = w"
proof -
  have rt: "\<And>raw. cd_Marshal cd w = Some raw \<Longrightarrow> cd_Unmarshal cd raw = Some w"
    using codec_round [OF assms(1,2)] .
  from landed obtain n where l: "l = []" "l' = [] @ [cm'\<lparr>cm_version := n\<rparr>]"
    by (auto simp: landed_create_def)
  with cm_prepare_forward [OF prep rt] cm_prepare_ok(2) [OF prep rt] show ?thesis
    by (simp only: l cm_log_ok_snoc last_opt_simps) (simp add: cm_forward_def)
qed

definition save_post :: "string \<Rightarrow> watermark \<Rightarrow> 'w \<Rightarrow> cp_error option \<Rightarrow> 'w \<Rightarrow> bool" where
  "save_post dk w s q s' \<longleftrightarrow> log_step s s' \<and>
     (q = None \<longrightarrow> cm_watermark cd (last_opt (obj_log s')) dk = w) \<and>
     (q = Some StaleWrite \<longrightarrow> CheckMonotonic (cm_watermark cd (last_opt (obj_log s')) dk) w = Some StaleWrite)"

lemma save_post_step: "log_step s s1 \<Longrightarrow> save_post dk w s1 q s' \<Longrightarrow> save_post dk w s q s'"
  unfolding save_post_def using log_step_trans by blast

lemma write_post:
  assumes enc: "CheckEncodable w = None" "typed_wm w" and ok: "cm_log_ok cd (obj_log s)"
    and get: "cm_Get api s = (g, s1)" "g \<noteq> CMError"
    and prep: "cm_prepare sha cd (case g of CMFound c \<Rightarrow> c | _ \<Rightarrow> \<lparr>cm_version = 0, cm_Data = fmempty\<rparr>) key w = Inr cm'"
    and wr: "(if g = CMNotFound then cm_Create api s1 cm' else cm_Update api s1 cm') = (e, s2)"
  shows "log_step s s2 \<and> (e = None \<longrightarrow> cm_watermark cd (last_opt (obj_log s2)) (dataKey sha key) = w)"
proof -
  have s1: "log_step s s1" using get_law [OF get(1)] log_step_grows [OF ok] by blast
  then have ok1: "cm_log_ok cd (obj_log s1)" by (simp add: log_step_def)
  have "log_step s1 s2 \<and> (e = None \<longrightarrow> cm_watermark cd (last_opt (obj_log s2)) (dataKey sha key) = w)"
  proof (cases g)
    case (CMFound c)
    then have "last_opt (obj_log s1) = Some c" using get_law [OF get(1)] by blast
    with landed_update_effect [OF enc ok1, of c key cm' "obj_log s2"] prep wr CMFound
      update_ok [of s1 cm' s2] update_refused [of s1 cm' "the e" s2] log_step_grows [OF ok1, of s2]
    show ?thesis by (cases e) (auto simp: log_step_def)
  next
    case CMNotFound
    with landed_create_effect [OF enc, of key cm' "obj_log s1" "obj_log s2"] prep wr
      create_ok [of s1 cm' s2] create_refused [of s1 cm' "the e" s2] log_step_grows [OF ok1, of s2]
    show ?thesis by (cases e) (auto simp: log_step_def)
  qed (use get in simp)
  with s1 log_step_trans show ?thesis by blast
qed

lemma prepare_error_post:
  assumes ok: "cm_log_ok cd (obj_log s)" and get: "cm_Get api s = (g, s1)" "g \<noteq> CMError"
    and prep: "cm_prepare sha cd (case g of CMFound c \<Rightarrow> c | _ \<Rightarrow> \<lparr>cm_version = 0, cm_Data = fmempty\<rparr>) key w = Inl e"
  shows "save_post (dataKey sha key) w s (Some e) s1"
proof -
  have s1: "log_step s s1" using get_law [OF get(1)] log_step_grows [OF ok] by blast
  have "CheckMonotonic (cm_watermark cd (last_opt (obj_log s1)) (dataKey sha key)) w = Some StaleWrite"
    if "e = StaleWrite"
    using cm_prepare_stale prep [unfolded that] get_law [OF get(1)] get(2) by (cases g) fastforce+
  with s1 show ?thesis unfolding save_post_def by blast
qed

lemma save_loop_post:
  assumes "CheckEncodable w = None" "typed_wm w"
  shows "cm_log_ok cd (obj_log s) \<Longrightarrow> cm_save_loop api sha cd key w n s = (q, s') \<Longrightarrow>
    save_post (dataKey sha key) w s q s'"
proof (induction n arbitrary: s)
  case 0
  then show ?case by (auto simp: save_post_def log_step_def)
next
  case (Suc n)
  obtain g s1 where get: "cm_Get api s = (g, s1)" by fastforce
  have s1: "log_step s s1" using get_law [OF get] log_step_grows [OF Suc.prems(1)] by blast
  let ?cm = "case g of CMFound c \<Rightarrow> c | _ \<Rightarrow> \<lparr>cm_version = 0, cm_Data = fmempty\<rparr>"
  show ?case
  proof (cases "g = CMError")
    case True
    with Suc.prems get s1 show ?thesis by (auto simp: save_post_def)
  next
    case False
    show ?thesis
    proof (cases "cm_prepare sha cd ?cm key w")
      case (Inl e)
      with Suc.prems get False have "q = Some e" "s' = s1" by (cases g; simp)+
      with prepare_error_post [OF Suc.prems(1) get False Inl] show ?thesis by simp
    next
      case (Inr cm')
      obtain e s2 where wr: "(if g = CMNotFound then cm_Create api s1 cm' else cm_Update api s1 cm') = (e, s2)"
        by fastforce
      note post = write_post [OF assms Suc.prems(1) get False Inr wr]
      have loop: "cm_save_loop api sha cd key w (Suc n) s =
          (case e of None \<Rightarrow> (None, s2) | Some ApiOther \<Rightarrow> (Some (BackendError ''write''), s2)
           | Some _ \<Rightarrow> cm_save_loop api sha cd key w n s2)"
        using get False Inr wr by (cases g) (auto split: option.splits api_error.splits)
      show ?thesis
      proof (cases "e = Some ApiConflict \<or> e = Some ApiAlreadyExists")
        case True
        with Suc.prems loop have "cm_save_loop api sha cd key w n s2 = (q, s')" by auto
        with Suc.IH [of s2] save_post_step [OF conjunct1 [OF post]] post show ?thesis
          by (simp add: log_step_def)
      next
        case retry: False
        with Suc.prems loop post show ?thesis
          by (cases e) (auto simp: save_post_def split: api_error.splits)
      qed
    qed
  qed
qed

lemma cm_Save_post:
  assumes "typed_wm w" "cm_log_ok cd (obj_log s)" "cm_Save api sha cd s key w = (q, s')"
  shows "save_post (dataKey sha key) w s q s'"
proof (cases "CheckEncodable w")
  case None
  with assms save_loop_post [OF None assms(1,2)] show ?thesis by (simp add: cm_Save_def del: cm_save_loop.simps)
next
  case (Some e)
  then have "e = Unencodable" by (auto simp: CheckEncodable_def Let_def split: if_splits)
  with Some assms show ?thesis by (auto simp: cm_Save_def save_post_def log_step_def)
qed

lemma last_wm_hist: "last_wm (cm_hist obj_log sha cd s (key_String k)) = cm_watermark cd (last_opt (obj_log s)) (dataKey sha k)"
  by (simp add: cm_hist_def last_wm_log dataKey_def)

lemma log_step_hist: "log_step s s' \<Longrightarrow> prefix (cm_hist obj_log sha cd s x) (cm_hist obj_log sha cd s' x)"
  by (simp add: log_step_def cm_hist_def map_mono_prefix)

end

sublocale configmap_server \<subseteq> logged_checkpointer "cm_ops api sha cd" "cm_hist obj_log sha cd" "\<lambda>s. cm_log_ok cd (obj_log s)"
proof
  fix s x
  assume "cm_log_ok cd (obj_log s)"
  then show "wm_chain (cm_hist obj_log sha cd s x)" by (simp add: cm_log_ok_def cm_hist_def)
next
  fix s k g s' x
  assume ok: "cm_log_ok cd (obj_log s)" and "cp_Load (cm_ops api sha cd) s k = (g, s')"
  then have "\<exists>r. cm_Get api s = (r, s')"
    by (auto simp: cm_ops_def cm_Load_def split: prod.splits cm_get.splits option.splits)
  then have "log_step s s'" using get_law log_step_grows [OF ok] by blast
  then show "cm_log_ok cd (obj_log s') \<and> prefix (cm_hist obj_log sha cd s x) (cm_hist obj_log sha cd s' x)"
    using log_step_hist by (simp add: log_step_def)
next
  fix s k w s'
  assume "cp_Load (cm_ops api sha cd) s k = (Inr w, s')"
  then show "w = last_wm (cm_hist obj_log sha cd s' (key_String k))"
    using get_law unfolding last_wm_hist
    by (fastforce simp: cm_ops_def cm_Load_def cm_watermark_def
        split: prod.splits cm_get.splits option.splits)
next
  fix s k w q s' x
  assume "cm_log_ok cd (obj_log s)" "typed_wm w" "cp_Save (cm_ops api sha cd) s k w = (q, s')"
  then have "log_step s s'" using cm_Save_post by (auto simp: cm_ops_def save_post_def)
  then show "cm_log_ok cd (obj_log s') \<and> prefix (cm_hist obj_log sha cd s x) (cm_hist obj_log sha cd s' x)"
    using log_step_hist by (simp add: log_step_def)
next
  fix s k w s'
  assume "cm_log_ok cd (obj_log s)" "typed_wm w" "cp_Save (cm_ops api sha cd) s k w = (None, s')"
  then show "last_wm (cm_hist obj_log sha cd s' (key_String k)) = w"
    using cm_Save_post unfolding last_wm_hist by (auto simp: cm_ops_def save_post_def)
next
  fix s k w s'
  assume "cm_log_ok cd (obj_log s)" "typed_wm w" "cp_Save (cm_ops api sha cd) s k w = (Some StaleWrite, s')"
  then have post: "save_post (dataKey sha k) w s (Some StaleWrite) s'"
    using cm_Save_post by (auto simp: cm_ops_def)
  then have "prefix (cm_hist obj_log sha cd s (key_String k)) (cm_hist obj_log sha cd s' (key_String k))"
    using log_step_hist by (simp add: save_post_def)
  with post show "\<exists>p. prefix (cm_hist obj_log sha cd s (key_String k)) p \<and>
      prefix p (cm_hist obj_log sha cd s' (key_String k)) \<and> CheckMonotonic (last_wm p) w = Some StaleWrite"
    by (auto simp: save_post_def last_wm_hist intro!: exI [of _ "cm_hist obj_log sha cd s' (key_String k)"])
qed

section \<open>An in-memory API server\<close>

text \<open>
  A server that keeps the laws: the log of one object and a script of the writes other
  replicas make, one taken before each read or update and made under the fence. Its codec
  writes time, epoch and cursor separated by spaces.
\<close>

record mem_server =
  ms_log :: "configmap list"
  ms_script :: "(string \<times> watermark) option list"

definition mem_Marshal :: "watermark \<Rightarrow> string option" where
  "mem_Marshal w =
     Some (itoa (nat (wm_Time w)) @ CHR '' '' # FormatInt (wm_Epoch w) @ CHR '' '' # wm_Cursor w)"

definition mem_Unmarshal :: "string \<Rightarrow> watermark option" where
  "mem_Unmarshal s =
     (let a = takeWhile (\<lambda>c. c \<noteq> CHR '' '') s; r = drop (Suc (length a)) s;
          b = takeWhile (\<lambda>c. c \<noteq> CHR '' '') r; c = drop (Suc (length b)) r
      in case (parse_nat a, ParseInt b) of
           (Some t, Some e) \<Rightarrow> Some \<lparr>wm_Time = int t, wm_Cursor = c, wm_Epoch = e\<rparr>
         | _ \<Rightarrow> None)"

definition mem_codec :: codec where
  "mem_codec = \<lparr>cd_Marshal = mem_Marshal, cd_Unmarshal = mem_Unmarshal\<rparr>"

definition fresh_version :: "configmap list \<Rightarrow> nat" where
  "fresh_version l = Suc (sum_list (map cm_version l))"

definition mem_commit :: "configmap list \<Rightarrow> configmap \<Rightarrow> configmap list" where
  "mem_commit l c = l @ [c\<lparr>cm_version := fresh_version l\<rparr>]"

definition mem_put :: "configmap list \<Rightarrow> string \<times> watermark \<Rightarrow> configmap list" where
  "mem_put l p =
     (if CheckEncodable (snd p) = None \<and> typed_wm (snd p) \<and>
         CheckMonotonic (cm_watermark mem_codec (last_opt l) (fst p)) (snd p) = None
      then mem_commit l \<lparr>cm_version = 0,
             cm_Data = fmupd (fst p) (the (mem_Marshal (snd p)))
               (case last_opt l of None \<Rightarrow> fmempty | Some c \<Rightarrow> cm_Data c)\<rparr>
      else l)"

definition mem_interfere :: "mem_server \<Rightarrow> mem_server" where
  "mem_interfere s =
     (case ms_script s of
        [] \<Rightarrow> s
      | None # xs \<Rightarrow> s\<lparr>ms_script := xs\<rparr>
      | Some p # xs \<Rightarrow> s\<lparr>ms_script := xs, ms_log := mem_put (ms_log s) p\<rparr>)"

definition mem_Get :: "mem_server \<Rightarrow> cm_get \<times> mem_server" where
  "mem_Get s = (let s1 = mem_interfere s in
     (case last_opt (ms_log s1) of None \<Rightarrow> CMNotFound | Some c \<Rightarrow> CMFound c, s1))"

definition mem_Create :: "mem_server \<Rightarrow> configmap \<Rightarrow> api_error option \<times> mem_server" where
  "mem_Create s c = (if ms_log s = [] then (None, s\<lparr>ms_log := mem_commit [] c\<rparr>) else (Some ApiAlreadyExists, s))"

definition mem_Update :: "mem_server \<Rightarrow> configmap \<Rightarrow> api_error option \<times> mem_server" where
  "mem_Update s c = (let s1 = mem_interfere s in
     case last_opt (ms_log s1) of
       None \<Rightarrow> (Some ApiOther, s1)
     | Some cur \<Rightarrow>
         (if cm_version cur = cm_version c
          then (None, s1\<lparr>ms_log := mem_commit (ms_log s1) c\<rparr>)
          else (Some ApiConflict, s1)))"

definition mem_api :: "mem_server cm_api" where
  "mem_api = \<lparr>cm_Get = mem_Get, cm_Create = mem_Create, cm_Update = mem_Update\<rparr>"

lemma takeWhile_to_space:
  "CHR '' '' \<notin> set a \<Longrightarrow> takeWhile (\<lambda>c. c \<noteq> CHR '' '') (a @ CHR '' '' # r) = a"
  by (induction a) auto

lemma itoa_no_space: "CHR '' '' \<notin> set (itoa n)"
  using FormatInt_no_space [of "int n"] by (simp add: FormatInt_def)

lemma mem_codec_round:
  assumes "CheckEncodable w = None" "typed_wm w" "mem_Marshal w = Some raw"
  shows "mem_Unmarshal raw = Some w"
proof -
  have raw: "raw = itoa (nat (wm_Time w)) @ CHR '' '' # FormatInt (wm_Epoch w) @ CHR '' '' # wm_Cursor w"
    using assms(3) by (auto simp: mem_Marshal_def)
  have ep: "in_int64 (wm_Epoch w)" using assms(2) by (simp add: typed_wm_def)
  have "0 \<le> wm_Time w" using assms(1) by (simp add: CheckEncodable_None_iff)
  then show ?thesis
    unfolding raw mem_Unmarshal_def
    by (simp add: takeWhile_to_space itoa_no_space FormatInt_no_space ParseInt_FormatInt [OF ep])
qed

lemma fresh_version_new: "fresh_version l \<notin> cm_version ` set l"
proof
  assume "fresh_version l \<in> cm_version ` set l"
  then have "fresh_version l \<in> set (map cm_version l)" by simp
  from member_le_sum_list [OF this] show False by (simp add: fresh_version_def)
qed

lemma mem_put_grows: "grows mem_codec l (mem_put l p)"
proof (cases "mem_put l p = l")
  case True
  then show ?thesis using grows_refl by simp
next
  case False
  define d where "d = fmupd (fst p) (the (mem_Marshal (snd p)))
               (case last_opt l of None \<Rightarrow> fmempty | Some c \<Rightarrow> cm_Data c)"
  from False have ok: "CheckEncodable (snd p) = None" "typed_wm (snd p)"
      "CheckMonotonic (cm_watermark mem_codec (last_opt l) (fst p)) (snd p) = None"
    and put: "mem_put l p = l @ [\<lparr>cm_version = fresh_version l, cm_Data = d\<rparr>]"
    by (auto simp: mem_put_def mem_commit_def d_def split: if_splits)
  have rt: "mem_Unmarshal (the (mem_Marshal (snd p))) = Some (snd p)"
    using mem_codec_round [OF ok(1,2)] by (simp add: mem_Marshal_def)
  have "cm_forward mem_codec (last_opt l) (Some \<lparr>cm_version = fresh_version l, cm_Data = d\<rparr>)"
    unfolding cm_forward_def d_def
    using CheckMonotonic_wm_le [OF ok(3)] rt
    by (cases "last_opt l") (auto simp: cm_watermark_def mem_codec_def)
  then show ?thesis
    unfolding put by (intro grows_step grows_refl) (simp_all add: fresh_version_new)
qed

lemma mem_interfere_grows: "grows mem_codec (ms_log s) (ms_log (mem_interfere s))"
  using mem_put_grows grows_refl by (auto simp: mem_interfere_def split: list.splits option.splits)

interpretation mem: configmap_server mem_api ms_log sha mem_codec
  for sha :: "string \<Rightarrow> string"
proof
  fix w raw
  assume "CheckEncodable w = None" "typed_wm w" "cd_Marshal mem_codec w = Some raw"
  then show "cd_Unmarshal mem_codec raw = Some w" using mem_codec_round by (simp add: mem_codec_def)
next
  fix s g s1
  assume "cm_Get mem_api s = (g, s1)"
  then show "grows mem_codec (ms_log s) (ms_log s1) \<and> (g = CMNotFound \<longrightarrow> ms_log s1 = []) \<and>
      (\<forall>c. g = CMFound c \<longrightarrow> last_opt (ms_log s1) = Some c)"
    using mem_interfere_grows [of s]
    by (auto simp: mem_api_def mem_Get_def Let_def last_opt_def split: option.splits if_splits)
next
  fix s c s1
  assume "cm_Update mem_api s c = (None, s1)"
  then show "landed_update mem_codec (ms_log s) c (ms_log s1)"
    using mem_interfere_grows [of s] fresh_version_new [of "ms_log (mem_interfere s)"]
    by (auto simp: mem_api_def mem_Update_def Let_def landed_update_def mem_commit_def
        split: option.splits if_splits intro!: exI [of _ "ms_log (mem_interfere s)"]
          exI [of _ "fresh_version (ms_log (mem_interfere s))"])
next
  fix s c s1
  assume "cm_Create mem_api s c = (None, s1)"
  then show "landed_create (ms_log s) c (ms_log s1)"
    by (auto simp: mem_api_def mem_Create_def landed_create_def mem_commit_def split: if_splits)
next
  fix s c e s1
  assume "cm_Update mem_api s c = (Some e, s1)"
  then show "grows mem_codec (ms_log s) (ms_log s1) \<or> e = ApiOther \<and> landed_update mem_codec (ms_log s) c (ms_log s1)"
    using mem_interfere_grows [of s]
    by (auto simp: mem_api_def mem_Update_def Let_def split: option.splits if_splits)
next
  fix s c e s1
  assume "cm_Create mem_api s c = (Some e, s1)"
  then show "grows mem_codec (ms_log s) (ms_log s1) \<or> e = ApiOther \<and> landed_create (ms_log s) c (ms_log s1)"
    using grows_refl by (auto simp: mem_api_def mem_Create_def split: if_splits)
qed

context configmap_server
begin

lemma is_logged: "logged_checkpointer (cm_ops api sha cd) (cm_hist obj_log sha cd) (\<lambda>s. cm_log_ok cd (obj_log s))"
  by (rule logged_checkpointer_axioms)

end

section \<open>Properties\<close>

text \<open>C6: no update of the shared ConfigMap is lost. Against any API server with optimistic
  concurrency, and with other replicas writing between any two calls, a save keeps the
  whole history of every key and the history only moves forward; a save that reports
  success has left its watermark as the last one of its key, and a save refused as stale
  met, at some moment during the call, a watermark the fence puts above it.\<close>

theorem cm_no_lost_update:
  assumes "configmap_server api obj_log cd" "cm_log_ok cd (obj_log s)" "typed_wm w"
    and "cm_Save api sha cd s k w = (q, s')"
  shows "cm_log_ok cd (obj_log s') \<and>
    (\<forall>x. prefix (cm_hist obj_log sha cd s x) (cm_hist obj_log sha cd s' x) \<and> wm_chain (cm_hist obj_log sha cd s' x)) \<and>
    (q = None \<longrightarrow> last_wm (cm_hist obj_log sha cd s' (key_String k)) = w) \<and>
    (q = Some StaleWrite \<longrightarrow> (\<exists>p. prefix (cm_hist obj_log sha cd s (key_String k)) p \<and>
       prefix p (cm_hist obj_log sha cd s' (key_String k)) \<and> CheckMonotonic (last_wm p) w = Some StaleWrite))"
proof -
  have lc: "logged_checkpointer (cm_ops api sha cd) (cm_hist obj_log sha cd) (\<lambda>s. cm_log_ok cd (obj_log s))"
    by (rule configmap_server.is_logged [OF assms(1)])
  have save: "cp_Save (cm_ops api sha cd) s k w = (q, s')" using assms(4) by (simp add: cm_ops_def)
  note step = logged_checkpointer.l_save_step [OF lc assms(2,3) save]
  note chain = logged_checkpointer.hist_chain [OF lc, of s']
  show ?thesis
    using step chain logged_checkpointer.l_save_ok [OF lc assms(2,3), of k s'] logged_checkpointer.l_save_stale [OF lc assms(2,3), of k s'] save
    by blast
qed

theorem cm_no_lost_update_witness:
  "\<exists>s'. cm_Save mem_api (\<lambda>_. ''0123456789abcdef'') mem_codec \<lparr>ms_log = [], ms_script = []\<rparr> zero_key (zero_watermark\<lparr>wm_Time := 7\<rparr>) = (None, s') \<and>
     last_wm (cm_hist ms_log (\<lambda>_. ''0123456789abcdef'') mem_codec s' (key_String zero_key)) = zero_watermark\<lparr>wm_Time := 7\<rparr>"
proof -
  let ?sha = "\<lambda>_ :: string. ''0123456789abcdef''"
  let ?w = "zero_watermark\<lparr>wm_Time := 7\<rparr>"
  have enc: "CheckEncodable ?w = None" by (simp add: CheckEncodable_None_iff ns_per_day_def zero_watermark_def)
  have mono: "CheckMonotonic zero_watermark ?w = None" by (simp add: CheckMonotonic_def zero_watermark_def zero_time_def)
  have raw: "mem_Marshal ?w = Some ''7 0 ''"
    by code_simp
  have "length (dataKey ?sha zero_key) \<le> 213" by (rule dataKey_length)
  then have small: "dataBytes (fmupd (dataKey ?sha zero_key) ''7 0 '' fmempty) \<le> maxConfigMapBytes"
    by (simp add: dataBytes_def maxConfigMapBytes_def map_get_def)
  then obtain s' where save: "cm_Save mem_api ?sha mem_codec \<lparr>ms_log = [], ms_script = []\<rparr> zero_key ?w = (None, s')"
    using enc mono raw
    by (simp add: cm_Save_def mem_api_def mem_Get_def mem_interfere_def mem_Create_def cm_prepare_def mem_codec_def Let_def not_less)
  have "typed_wm ?w" by (simp add: typed_wm_def in_int64_def zero_watermark_def)
  from cm_no_lost_update [OF mem.configmap_server_axioms _ this save] save show ?thesis by simp
qed

end
