(* ===== verification/Frontier.thy ===== *)
theory Frontier
  imports Runner File_Store Configmap_Store
begin

text \<open>
  The runner against the checkpointer's contract. \<open>runner_world\<close> is a runner whose world is
  a shared checkpointer that emissions only move forward; there the in-memory frontier never
  runs ahead of the durable watermark and the durable watermark never goes back, through
  every operation. \<open>exclusive_runner\<close> is the single-writer case; there the frontier also
  never trails. The file store and the ConfigMap store provide the two.
\<close>

locale runner_world = shared_checkpointer "rc_cp cfg" durable inv
  for cfg :: "'s runner_cfg" and durable :: "'s \<Rightarrow> string \<Rightarrow> watermark" and inv :: "'s \<Rightarrow> bool" +
  assumes emit_step: "inv s \<Longrightarrow> rc_Emit cfg s b = (r, s') \<Longrightarrow>
      inv s' \<and> (\<forall>x. wm_le (durable s x) (durable s' x))"
begin

definition synced :: "'s runner \<Rightarrow> bool" where
  "synced st \<longleftrightarrow> inv (rn_world st) \<and>
     (rn_hasFront st \<longrightarrow> wm_le (rn_frontier st) (durable (rn_world st) (key_String (rc_key cfg))))"

definition forward :: "'s runner \<Rightarrow> 's runner \<Rightarrow> bool" where
  "forward st st' \<longleftrightarrow> synced st' \<and> (\<forall>x. wm_le (durable (rn_world st) x) (durable (rn_world st') x))"

lemma forward_trans: "forward st st1 \<Longrightarrow> forward st1 st2 \<Longrightarrow> forward st st2"
  unfolding forward_def using wm_le_trans by blast

lemma forward_same:
  "synced st \<Longrightarrow> rn_world st' = rn_world st \<Longrightarrow> rn_hasFront st' = rn_hasFront st \<Longrightarrow> rn_frontier st' = rn_frontier st \<Longrightarrow>
   forward st st'"
  by (simp add: forward_def synced_def)

lemma forward_world:
  assumes "synced st" "inv w" "\<forall>x. wm_le (durable (rn_world st) x) (durable w x)"
    and "rn_world st' = w" "rn_hasFront st' = rn_hasFront st" "rn_frontier st' = rn_frontier st"
  shows "forward st st'"
  using assms wm_le_trans unfolding forward_def synced_def by fastforce

lemma forward_front:
  assumes "inv (rn_world st')" "\<forall>x. wm_le (durable (rn_world st) x) (durable (rn_world st') x)"
    and "rn_frontier st' = durable (rn_world st') (key_String (rc_key cfg))"
  shows "forward st st'"
  using assms by (simp add: forward_def synced_def)

lemma save_committed_frontier:
  "(rn_frontier (save_committed c w st) = w \<and> rn_hasFront (save_committed c w st)) \<or>
   (rn_frontier (save_committed c w st) = rn_frontier st \<and> rn_hasFront (save_committed c w st) = rn_hasFront st)"
  by (simp add: save_committed_def Let_def)

lemma save_stale_forward:
  assumes "synced st" "key_String key = key_String (rc_key cfg)"
  shows "forward st (save_stale cfg key w st)"
proof -
  obtain r w2 where load: "cp_Load (rc_cp cfg) (rn_world st) key = (r, w2)" by fastforce
  have step: "inv w2 \<and> (\<forall>x. wm_le (durable (rn_world st) x) (durable w2 x))"
    using load_step [OF _ load] assms(1) by (simp add: synced_def)
  show ?thesis
  proof (cases r)
    case (Inl e)
    with load step show ?thesis by (intro forward_world [OF assms(1)]) (auto simp: save_stale_def)
  next
    case (Inr stored)
    have "stored = durable w2 (key_String key)"
      using load_ok [OF _ load [unfolded Inr]] assms(1) by (simp add: synced_def)
    with load Inr step assms(2) show ?thesis
      by (intro forward_front) (auto simp: save_stale_def Let_def)
  qed
qed

lemma commit_forward:
  assumes "synced st" "in_int64 epoch" "key_String key = key_String (rc_key cfg)"
  shows "forward st (commit cfg key t cursor epoch st)"
proof (cases "rc_ctxErr cfg (rn_world st)")
  case True
  with assms(1) show ?thesis by (simp add: commit_def forward_same)
next
  case False
  define w where "w = \<lparr>wm_Time = t, wm_Cursor = cursor, wm_Epoch = epoch\<rparr>"
  have tw: "typed_wm w" using assms(2) by (simp add: typed_wm_def w_def)
  have inv: "inv (rn_world st)" using assms(1) by (simp add: synced_def)
  obtain q w1 where save: "cp_Save (rc_cp cfg) (rn_world st) key w = (q, w1)" by fastforce
  note step = save_step [OF inv tw save]
  define st1 where "st1 = st\<lparr>rn_world := w1, rn_saves := rn_saves st @ [(w, q)]\<rparr>"
  have eq: "commit cfg key t cursor epoch st =
      (case q of None \<Rightarrow> save_committed cfg w st1 | Some StaleWrite \<Rightarrow> save_stale cfg key w st1
       | Some _ \<Rightarrow> save_failed cfg st1)"
    using False save by (simp add: commit_def Let_def w_def [symmetric] st1_def split: option.split cp_error.split)
  have st1: "forward st st1" using step by (intro forward_world [OF assms(1)]) (auto simp: st1_def)
  then have sy: "synced st1" by (simp add: forward_def)
  have "forward st1 (commit cfg key t cursor epoch st)"
  proof (cases q)
    case None
    have dur: "durable w1 (key_String (rc_key cfg)) = w"
      using save_ok [OF inv tw save [unfolded None]] assms(3) by simp
    have wo: "rn_world (save_committed cfg w st1) = w1" by (simp add: runner_frame st1_def)
    from save_committed_frontier [of cfg w st1] show ?thesis
    proof
      assume "rn_frontier (save_committed cfg w st1) = w \<and> rn_hasFront (save_committed cfg w st1)"
      with dur wo sy None eq show ?thesis by (simp add: forward_def synced_def st1_def)
    next
      assume "rn_frontier (save_committed cfg w st1) = rn_frontier st1 \<and> rn_hasFront (save_committed cfg w st1) = rn_hasFront st1"
      with None eq show ?thesis by (simp add: forward_same [OF sy] runner_frame)
    qed
  next
    case (Some e)
    then show ?thesis unfolding eq
      using save_stale_forward [OF sy assms(3)] forward_same [OF sy]
      by (cases e) (simp_all add: runner_frame)
  qed
  with st1 forward_trans show ?thesis by blast
qed

lemma emit_batch_forward:
  assumes "synced st" "emit_batch cfg b st = (r, st')"
  shows "forward st st'"
proof -
  obtain w where em: "rc_Emit cfg (rn_world st) b = (r, w)" and st': "rn_world st' = w"
    using assms(2) by (auto simp: emit_batch_def split: prod.splits)
  show ?thesis
    using emit_step [OF _ em] emit_batch_frame(6,7) [OF assms(2)] assms(1) st'
    by (intro forward_world [OF assms(1)]) (auto simp: synced_def)
qed

lemma steps_forward:
  assumes "in_int64 epoch" "synced st0"
  shows "kept_by_steps cfg epoch (rc_key cfg) (forward st0)"
proof -
  have com: "forward st0 (commit cfg (rc_key cfg) t c epoch st)" if "forward st0 st" for st t c
    using forward_trans [OF that commit_forward [OF _ assms(1) refl, of st t c]] that by (simp add: forward_def)
  have em: "forward st0 st'" if "forward st0 st" "emit_batch cfg b st = (r, st')" for st b r st'
    using forward_trans [OF that(1) emit_batch_forward [OF _ that(2)]] that(1) by (simp add: forward_def)
  show ?thesis
    by (rule kept_by_stepsI; (erule (1) em | erule com | simp add: forward_def synced_def runner_frame))
qed

lemma ProcessBatch_forward:
  assumes "synced st" "in_int64 epoch" "bt_Key b = rc_key cfg"
  shows "forward st (ProcessBatch cfg epoch b st)"
  using ProcessBatch_kept [of cfg epoch b "forward st" st] steps_forward [OF assms(2,1)] forward_same [OF assms(1)]
  by (simp add: assms(3))

lemma Since_forward:
  assumes "synced st" "Since cfg st = (r, st')"
  shows "forward st st' \<and> (\<forall>w. r = Inr w \<longrightarrow> wm_le w (durable (rn_world st') (key_String (rc_key cfg))))"
proof (cases "rn_hasFront st")
  case True
  with assms show ?thesis by (auto simp: Since_def forward_same synced_def)
next
  case False
  obtain w2 where load: "cp_Load (rc_cp cfg) (rn_world st) (rc_key cfg) = (r, w2)" and st': "st' = st\<lparr>rn_world := w2\<rparr>"
    using assms(2) False by (auto simp: Since_def split: prod.splits)
  have inv: "inv (rn_world st)" using assms(1) by (simp add: synced_def)
  have "forward st st'" using load_step [OF inv load] st' by (intro forward_world [OF assms(1)]) auto
  moreover have "wm_le w (durable w2 (key_String (rc_key cfg)))" if "r = Inr w" for w
    using load_ok [OF inv load [unfolded that]] by simp
  ultimately show ?thesis using st' by simp
qed

lemma Reset_forward: "synced st \<Longrightarrow> forward st (Reset cfg st)"
  by (simp add: forward_def synced_def Reset_def Let_def)

lemma ops_forward: "synced st \<Longrightarrow> \<forall>x\<in>set ops. op_ok cfg x \<Longrightarrow> forward st (fold (run_op cfg) ops st)"
proof (induction ops arbitrary: st)
  case Nil
  then show ?case by (simp add: forward_same)
next
  case (Cons x ops)
  obtain q st1 where since: "Since cfg st = (q, st1)" by fastforce
  have "forward st (run_op cfg x st)"
    using Cons.prems ProcessBatch_forward Since_forward [OF _ since] Reset_forward since by (cases x) auto
  then show ?case using Cons.IH [of "run_op cfg x st"] Cons.prems(2) forward_trans by (auto simp: forward_def)
qed

end

section \<open>One writer\<close>

locale exclusive_runner = checkpointer "rc_cp cfg" durable inv
  for cfg :: "'s runner_cfg" and durable :: "'s \<Rightarrow> string \<Rightarrow> watermark" and inv :: "'s \<Rightarrow> bool" +
  assumes emit_same: "inv s \<Longrightarrow> rc_Emit cfg s b = (r, s') \<Longrightarrow> inv s' \<and> durable s' = durable s"

sublocale exclusive_runner \<subseteq> runner_world cfg durable inv
proof
  fix s b r s'
  assume "inv s" "rc_Emit cfg s b = (r, s')"
  from emit_same [OF this] show "inv s' \<and> (\<forall>x. wm_le (durable s x) (durable s' x))" by simp
qed

context exclusive_runner
begin

text \<open>
  The frontier and the durable watermark are at the same instant; their cursors agree unless
  the durable one is empty (a save with an empty cursor at an equal instant is not mirrored).
\<close>

definition agrees :: "'s runner \<Rightarrow> bool" where
  "agrees st \<longleftrightarrow> inv (rn_world st) \<and>
     (rn_hasFront st \<longrightarrow>
        wm_Time (rn_frontier st) = wm_Time (durable (rn_world st) (key_String (rc_key cfg))) \<and>
        (wm_Cursor (rn_frontier st) = wm_Cursor (durable (rn_world st) (key_String (rc_key cfg))) \<or>
         wm_Cursor (durable (rn_world st) (key_String (rc_key cfg))) = ''''))"

lemma save_committed_agrees:
  assumes "agrees st" "CheckMonotonic (durable (rn_world st) (key_String (rc_key cfg))) w = None"
    and "durable (rn_world st1) = (durable (rn_world st))(key_String (rc_key cfg) := w)" "inv (rn_world st1)"
    and "rn_hasFront st1 = rn_hasFront st" "rn_frontier st1 = rn_frontier st"
  shows "agrees (save_committed cfg w st1)"
proof -
  have "wm_Time (durable (rn_world st) (key_String (rc_key cfg))) \<le> wm_Time w"
    using assms(2) by (auto simp: CheckMonotonic_None_iff)
  then show ?thesis using assms(1,3-6)
    by (auto simp: agrees_def save_committed_def Let_def)
qed

lemma commit_agrees:
  assumes "agrees st"
  shows "agrees (commit cfg (rc_key cfg) t cursor epoch st)"
proof (cases "rc_ctxErr cfg (rn_world st)")
  case True
  with assms show ?thesis by (simp add: commit_def)
next
  case False
  let ?k = "rc_key cfg"
  define w where "w = \<lparr>wm_Time = t, wm_Cursor = cursor, wm_Epoch = epoch\<rparr>"
  have inv: "inv (rn_world st)" using assms by (simp add: agrees_def)
  obtain q w1 where save: "cp_Save (rc_cp cfg) (rn_world st) ?k w = (q, w1)" by fastforce
  define st1 where "st1 = st\<lparr>rn_world := w1, rn_saves := rn_saves st @ [(w, q)]\<rparr>"
  have eq: "commit cfg ?k t cursor epoch st =
      (case q of None \<Rightarrow> save_committed cfg w st1 | Some StaleWrite \<Rightarrow> save_stale cfg ?k w st1
       | Some _ \<Rightarrow> save_failed cfg st1)"
    using False save by (simp add: commit_def Let_def w_def [symmetric] st1_def split: option.split cp_error.split)
  have inv1: "inv w1" by (rule x_save_inv [OF inv save])
  show ?thesis
  proof (cases q)
    case None
    from x_save_ok [OF inv save [unfolded None]] inv1 show ?thesis unfolding eq None
      by (simp add: save_committed_agrees [OF assms] st1_def)
  next
    case (Some e)
    have dur: "durable w1 = durable (rn_world st)" by (rule x_save_err [OF inv save [unfolded Some]])
    then have ag1: "agrees st1" using assms inv1 by (simp add: agrees_def st1_def)
    show ?thesis
    proof (cases "e = StaleWrite")
      case True
      obtain r w2 where load: "cp_Load (rc_cp cfg) w1 ?k = (r, w2)" by fastforce
      note same = x_load_same [OF inv1 load]
      show ?thesis
      proof (cases r)
        case (Inl x)
        with ag1 same load Some True show ?thesis unfolding eq by (simp add: save_stale_def st1_def agrees_def)
      next
        case (Inr stored)
        from x_load_ok [OF inv1 load [unfolded Inr]] same load Inr Some True show ?thesis
          unfolding eq by (auto simp: save_stale_def st1_def agrees_def Let_def)
      qed
    next
      case False
      with ag1 Some show ?thesis unfolding eq by (cases e) (simp_all add: agrees_def runner_frame)
    qed
  qed
qed

lemma steps_agree: "kept_by_steps cfg epoch (rc_key cfg) agrees"
proof -
  have em: "agrees st'" if "agrees st" "emit_batch cfg b st = (r, st')" for st b r st'
    using that emit_same [of "rn_world st" b r] by (auto simp: emit_batch_def agrees_def split: prod.splits)
  show ?thesis
    by (rule kept_by_stepsI; (erule (1) em | erule commit_agrees | simp add: agrees_def runner_frame))
qed

lemma ProcessBatch_agrees: "agrees st \<Longrightarrow> bt_Key b = rc_key cfg \<Longrightarrow> agrees (ProcessBatch cfg epoch b st)"
  using ProcessBatch_kept [of cfg epoch b agrees st] steps_agree by simp

lemma Reset_agrees: "agrees st \<Longrightarrow> agrees (Reset cfg st)"
  by (simp add: agrees_def Reset_def Let_def)

lemma ops_agree: "agrees st \<Longrightarrow> \<forall>x\<in>set ops. op_ok cfg x \<Longrightarrow> agrees (fold (run_op cfg) ops st)"
proof (induction ops arbitrary: st)
  case (Cons x ops)
  obtain r w where load: "cp_Load (rc_cp cfg) (rn_world st) (rc_key cfg) = (r, w)" by fastforce
  have "agrees (run_op cfg x st)"
  proof (cases x)
    case OpSince
    then show ?thesis using Cons.prems(1) x_load_same [OF _ load] load by (auto simp: Since_def agrees_def)
  qed (use Cons.prems ProcessBatch_agrees Reset_agrees in auto)
  then show ?case using Cons.IH Cons.prems(2) by simp
qed simp

lemma Since_agrees:
  assumes "agrees st" "Since cfg st = (Inr w, st')"
  shows "wm_Time w = wm_Time (durable (rn_world st) (key_String (rc_key cfg)))"
proof (cases "rn_hasFront st")
  case False
  then obtain w2 where "cp_Load (rc_cp cfg) (rn_world st) (rc_key cfg) = (Inr w, w2)"
    using assms(2) by (auto simp: Since_def split: prod.splits)
  from x_load_ok [OF _ this] assms(1) show ?thesis by (simp add: agrees_def)
qed (use assms in \<open>auto simp: Since_def agrees_def\<close>)

end

section \<open>The runner on the two stores\<close>

definition file_runner ::
  "checkpoint_key \<Rightarrow> (file_store \<Rightarrow> batch \<Rightarrow> emit_result) \<Rightarrow> (file_store \<Rightarrow> bool) \<Rightarrow> nat \<Rightarrow> int \<Rightarrow> file_store runner_cfg" where
  "file_runner key em err depth dpm =
     \<lparr>rc_key = key, rc_Emit = (\<lambda>s b. (em s b, s)), rc_cp = file_ops, rc_ctxErr = err, rc_depth = depth, rc_maxDPM = dpm\<rparr>"

interpretation frun: exclusive_runner "file_runner key em err depth dpm" file_durable file_inv
  for key em err depth dpm
proof (intro exclusive_runner.intro exclusive_runner_axioms.intro)
  show "checkpointer (rc_cp (file_runner key em err depth dpm)) file_durable file_inv"
    using file_cp.checkpointer_axioms by (simp add: file_runner_def)
qed (auto simp: file_runner_def)

definition cm_runner ::
  "(string \<Rightarrow> string) \<Rightarrow> checkpoint_key \<Rightarrow> (mem_server \<Rightarrow> batch \<Rightarrow> emit_result) \<Rightarrow> (mem_server \<Rightarrow> bool) \<Rightarrow> nat \<Rightarrow> int \<Rightarrow> mem_server runner_cfg" where
  "cm_runner sha key em err depth dpm =
     \<lparr>rc_key = key, rc_Emit = (\<lambda>s b. (em s b, mem_interfere s)), rc_cp = cm_ops mem_api sha mem_codec, rc_ctxErr = err,
      rc_depth = depth, rc_maxDPM = dpm\<rparr>"

text \<open>Here other replicas write while a batch is emitted.\<close>

interpretation crun: runner_world "cm_runner sha key em err depth dpm"
    "\<lambda>s x. last_wm (cm_hist ms_log sha mem_codec s x)" "\<lambda>s. cm_log_ok mem_codec (ms_log s)"
  for sha key em err depth dpm
proof (intro runner_world.intro runner_world_axioms.intro)
  show "shared_checkpointer (rc_cp (cm_runner sha key em err depth dpm))
      (\<lambda>s x. last_wm (cm_hist ms_log sha mem_codec s x)) (\<lambda>s. cm_log_ok mem_codec (ms_log s))"
    using mem.shared_checkpointer_axioms [of sha] by (simp add: cm_runner_def)
next
  fix s b r s'
  assume ok: "cm_log_ok mem_codec (ms_log s)" and "rc_Emit (cm_runner sha key em err depth dpm) s b = (r, s')"
  then have "mem.log_step s s'"
    using mem.log_step_grows [OF ok mem_interfere_grows] by (simp add: cm_runner_def)
  then show "cm_log_ok mem_codec (ms_log s') \<and>
      (\<forall>x. wm_le (last_wm (cm_hist ms_log sha mem_codec s x)) (last_wm (cm_hist ms_log sha mem_codec s' x)))"
    using wm_chain_prefix_le mem.log_step_hist mem.hist_chain by (auto simp: mem.log_step_def)
qed

section \<open>Properties\<close>


definition sample_at :: "string \<Rightarrow> instant \<Rightarrow> sample" where
  "sample_at n t = gauge n fmempty (Fin 1) (unix_epoch + t)"

definition demo_key :: checkpoint_key where
  "demo_key = \<lparr>ck_SourceInstance = ''s'', ck_Loop = ''l'', ck_OutputFingerprint = ''f''\<rparr>"

definition demo_guard :: guard where
  "demo_guard = NewGuard \<lparr>gc_AllowLabelKeys = [], gc_DenyFieldKeys = [], gc_DenyFieldKeysByLoop = fmempty,
     gc_PerSeriesBudget = 0, gc_OnNewLabelValue = False\<rparr>"

definition demo_batch :: batch where
  "demo_batch = zero_batch\<lparr>bt_Key := demo_key, bt_Samples := [sample_at ''a'' Minute, sample_at ''b'' 0],
     bt_Watermark := \<lparr>wm_Time = unix_epoch + 2 * Minute, wm_Cursor = '''', wm_Epoch = 0\<rparr>\<rparr>"

text \<open>An emitter that accepts the series b and rejects anything else in a way it does not know.\<close>

definition demo_emit :: "file_store \<Rightarrow> batch \<Rightarrow> emit_result" where
  "demo_emit s b = (if map smp_Name (bt_Samples b) = [''b''] then EmitOk
     else EmitReject \<lparr>re_Reason = ReasonUnknown, re_Status = 401, re_Msg = ''''\<rparr>)"

definition demo_cfg :: "file_store runner_cfg" where
  "demo_cfg = file_runner demo_key demo_emit (\<lambda>_. False) 1 1"

definition demo_store :: file_store where
  "demo_store = \<lparr>fs_data = Map.empty, fs_file = None, fs_tmp = None, fs_faults = []\<rparr>"

definition demo_runner :: "file_store runner" where
  "demo_runner = snd (NewLoopRunner demo_key (\<lambda>s b. (demo_emit s b, s)) file_ops (\<lambda>_. False) 1 1 demo_guard demo_store)"

lemma demo_buckets:
  "CoalesceDPM (bt_Samples demo_batch) 1 = (bt_Samples demo_batch, 0)"
  "splitByBucket demo_batch =
     [zero_batch\<lparr>bt_Key := demo_key, bt_Samples := [sample_at ''b'' 0]\<rparr>,
      zero_batch\<lparr>bt_Key := demo_key, bt_Samples := [sample_at ''a'' Minute]\<rparr>]"
proof -
  have ne: "dpm_key (sample_at ''a'' Minute) \<noteq> dpm_key (sample_at ''b'' 0)"
    by (simp add: dpm_key_def seriesKey_eq_iff sample_at_def gauge_def)
  have "dpm_group (bt_Samples demo_batch) (dpm_key (sample_at ''a'' Minute)) = [0]"
    "dpm_group (bt_Samples demo_batch) (dpm_key (sample_at ''b'' 0)) = [1]"
    using ne ne [symmetric] by (simp_all add: demo_batch_def dpm_group_def)
  then show "CoalesceDPM (bt_Samples demo_batch) 1 = (bt_Samples demo_batch, 0)"
    using ne by (simp add: CoalesceDPM_eq dpm_kept_def dpm_max_def dpm_survivors_def demo_batch_def)
  have u: "UnixNano (smp_Timestamp (sample_at n t)) = wrap64 t" for n t
    by (simp add: sample_at_def gauge_def UnixNano_def)
  show "splitByBucket demo_batch =
     [zero_batch\<lparr>bt_Key := demo_key, bt_Samples := [sample_at ''b'' 0]\<rparr>,
      zero_batch\<lparr>bt_Key := demo_key, bt_Samples := [sample_at ''a'' Minute]\<rparr>]"
    by (simp add: splitByBucket_def demo_batch_def u wrap64_def Minute_def)
qed

lemma demo_run:
  "rn_saves (ProcessBatch demo_cfg 3 demo_batch demo_runner) =
     [(\<lparr>wm_Time = unix_epoch, wm_Cursor = '''', wm_Epoch = 3\<rparr>, None)] \<and>
   rn_degraded (ProcessBatch demo_cfg 3 demo_batch demo_runner) \<and>
   file_durable (rn_world (ProcessBatch demo_cfg 3 demo_batch demo_runner)) (key_String demo_key) =
     \<lparr>wm_Time = unix_epoch, wm_Cursor = '''', wm_Epoch = 3\<rparr>"
proof -
  have ok: "Sanitize demo_guard (zero_batch\<lparr>bt_Key := demo_key, bt_Samples := [sample_at n t]\<rparr>) =
      (zero_batch\<lparr>bt_Key := demo_key, bt_Samples := [sample_at n t]\<rparr>, 0, demo_guard)" for n t
    by (simp add: Sanitize_def guard_ok_def demo_guard_def NewGuard_def sample_at_def gauge_def)
  have same: "demo_batch\<lparr>bt_Samples := bt_Samples demo_batch\<rparr> = demo_batch" by simp
  have logs: "bt_Logs demo_batch = []" "bt_Key demo_batch = demo_key" by (simp_all add: demo_batch_def zero_batch_def)
  have smp: "smp_Name (sample_at n t) = n" "smp_Timestamp (sample_at n t) = unix_epoch + t" for n t
    by (simp_all add: sample_at_def gauge_def)
  have r0: "rn_guard demo_runner = demo_guard" "rn_world demo_runner = demo_store" "rn_emits demo_runner = []"
    "rn_saves demo_runner = []" "rn_degraded demo_runner = False" "rn_hasFront demo_runner = False"
    by (simp_all add: demo_runner_def NewLoopRunner_def)
  have cfg: "rc_Emit demo_cfg = (\<lambda>s b. (demo_emit s b, s))" "rc_cp demo_cfg = file_ops" "rc_ctxErr demo_cfg = (\<lambda>_. False)"
    "rc_maxDPM demo_cfg = 1" by (simp_all add: demo_cfg_def file_runner_def)
  have save: "file_Save demo_store demo_key \<lparr>wm_Time = unix_epoch, wm_Cursor = '''', wm_Epoch = 3\<rparr> =
      (None, demo_store\<lparr>fs_data := [key_String demo_key \<mapsto> \<lparr>wm_Time = unix_epoch, wm_Cursor = '''', wm_Epoch = 3\<rparr>],
         fs_file := Some [key_String demo_key \<mapsto> \<lparr>wm_Time = unix_epoch, wm_Cursor = '''', wm_Epoch = 3\<rparr>]\<rparr>)"
    by (simp add: file_Save_def demo_store_def CheckMonotonic_def zero_watermark_def zero_time_def unix_epoch_def
        flushLocked_def Let_def)
  have com: "commit demo_cfg demo_key unix_epoch '''' 3 st = save_committed demo_cfg \<lparr>wm_Time = unix_epoch, wm_Cursor = '''', wm_Epoch = 3\<rparr>
      (st\<lparr>rn_world := snd (file_Save demo_store demo_key \<lparr>wm_Time = unix_epoch, wm_Cursor = '''', wm_Epoch = 3\<rparr>),
          rn_saves := rn_saves st @ [(\<lparr>wm_Time = unix_epoch, wm_Cursor = '''', wm_Epoch = 3\<rparr>, None)]\<rparr>)"
    if "rn_world st = demo_store" for st
    using that save by (simp add: commit_def cfg file_ops_def Let_def)
  have em: "emit_batch demo_cfg b st = (demo_emit (rn_world st) b, st\<lparr>rn_emits := rn_emits st @ [(b, demo_emit (rn_world st) b)]\<rparr>)" for b st
    by (simp add: emit_batch_def cfg)
  show ?thesis
    by (simp add: ProcessBatch_def process_body_def cfg logs demo_buckets same ok r0 em demo_emit_def smp Let_def com
        save AdvancesPast_def runner_frame file_durable_def fs_disk_def)
qed


text \<open>C3: the watermark only moves forward and the runner never runs ahead of it. For any world that
  keeps the shared checkpointer's laws, with other replicas writing at any moment: through
  any sequence of batches of the loop, reads and re-elections, the durable watermark of
  every key only grows, and what Since hands to the next collection is never ahead of the
  durable one.\<close>

theorem since_never_ahead:
  assumes "runner_world cfg durable ok" "ok (rn_world st)" "\<not> rn_hasFront st" "\<forall>x\<in>set ops. op_ok cfg x"
    and "Since cfg (fold (run_op cfg) ops st) = (r, st')"
  shows "(\<forall>x. wm_le (durable (rn_world st) x) (durable (rn_world st') x)) \<and>
    (\<forall>w. r = Inr w \<longrightarrow> wm_le w (durable (rn_world st') (key_String (rc_key cfg))))"
proof -
  have sy: "runner_world.synced cfg durable ok st"
    using assms(2,3) by (simp add: runner_world.synced_def [OF assms(1)])
  note fw = runner_world.ops_forward [OF assms(1) sy assms(4)]
  then have sy': "runner_world.synced cfg durable ok (fold (run_op cfg) ops st)"
    by (simp add: runner_world.forward_def [OF assms(1)])
  note since = runner_world.Since_forward [OF assms(1) sy' assms(5)]
  from runner_world.forward_trans [OF assms(1) fw conjunct1 [OF since]] since show ?thesis
    by (simp add: runner_world.forward_def [OF assms(1)])
qed

theorem since_never_ahead_witness:
  "\<exists>r st'. Since demo_cfg (fold (run_op demo_cfg) [OpBatch 3 demo_batch, OpReset] demo_runner) = (r, st') \<and>
     (\<forall>w. r = Inr w \<longrightarrow> wm_le w (file_durable (rn_world st') (key_String demo_key)))"
proof -
  obtain r st' where run: "Since demo_cfg (fold (run_op demo_cfg) [OpBatch 3 demo_batch, OpReset] demo_runner) = (r, st')"
    by fastforce
  have "runner_world demo_cfg file_durable file_inv" unfolding demo_cfg_def by (rule frun.runner_world_axioms)
  moreover have "file_inv (rn_world demo_runner)" "\<not> rn_hasFront demo_runner" "rc_key demo_cfg = demo_key"
    by (simp_all add: demo_runner_def NewLoopRunner_def file_inv_def fs_disk_def demo_store_def demo_cfg_def file_runner_def)
  moreover have "\<forall>x\<in>set [OpBatch 3 demo_batch, OpReset]. op_ok demo_cfg x"
    by (simp add: in_int64_def demo_batch_def demo_cfg_def file_runner_def)
  ultimately show ?thesis using since_never_ahead [OF _ _ _ _ run] run by fastforce
qed



end
