(* ===== verification/Registry.thy ===== *)
theory Registry
  imports Model
begin

text \<open>
  The source registry and the ownership check (\<^verbatim>\<open>internal/source/source.go\<close>). A loop is
  its checkpoint key and, when it implements \<open>SeriesDeclarer\<close>, the series names it
  declares; a source is its id and its loops. \<open>ValidateOwnership\<close> runs once at start-up:
  it decides which loop owns which post-gateway series name.
\<close>

text \<open>The two outcomes of \<open>Collect\<close> that the scheduler tells apart, and every other error.\<close>

datatype collect_error = ErrQuotaExceeded | ErrGranularityUnexpected | CollectFailed string

text \<open>
  The hooks of \<open>Deps\<close>: each is set or nil, and a call of a set hook is an event.
\<close>

record deps =
  dp_OnBucketRevised :: bool
  dp_OnCapability :: bool
  dp_OnDataIncomplete :: bool
  dp_OnAuthError :: bool

datatype source_event =
    BucketRevised string duration
  | Capability string string string
  | DataIncomplete string string
  | AuthError string string

fun hook_set :: "deps \<Rightarrow> source_event \<Rightarrow> bool" where
  "hook_set d (BucketRevised loop age) = dp_OnBucketRevised d"
| "hook_set d (Capability loop graph state) = dp_OnCapability d"
| "hook_set d (DataIncomplete loop reason) = dp_OnDataIncomplete d"
| "hook_set d (AuthError loop src) = dp_OnAuthError d"

definition fire :: "deps \<Rightarrow> source_event \<Rightarrow> source_event list" where
  "fire d e = (if hook_set d e then [e] else [])"

definition no_hooks :: deps where
  "no_hooks = \<lparr>dp_OnBucketRevised = False, dp_OnCapability = False, dp_OnDataIncomplete = False, dp_OnAuthError = False\<rparr>"

record loop_decl =
  ld_Key :: checkpoint_key
  ld_SeriesNames :: "string list option"

record source_decl =
  sd_ID :: string
  sd_Loops :: "loop_decl list"

datatype registry_error = UnknownType string | ConstructorError string

type_synonym ('c, 's) registry = "string \<rightharpoonup> ('c \<Rightarrow> registry_error + 's)"

definition NewRegistry :: "('c, 's) registry" where
  "NewRegistry = Map.empty"

text \<open>\<open>None\<close> is the panic on a duplicate type.\<close>

definition Register ::
  "('c, 's) registry \<Rightarrow> string \<Rightarrow> ('c \<Rightarrow> registry_error + 's) \<Rightarrow> ('c, 's) registry option" where
  "Register r typ c = (case r typ of Some _ \<Rightarrow> None | None \<Rightarrow> Some (r(typ \<mapsto> c)))"

definition Known :: "('c, 's) registry \<Rightarrow> string set" where
  "Known r = dom r"

definition Build :: "('c, 's) registry \<Rightarrow> string \<Rightarrow> 'c \<Rightarrow> registry_error + 's" where
  "Build r typ cfg = (case r typ of None \<Rightarrow> Inl (UnknownType typ) | Some c \<Rightarrow> c cfg)"

definition IsAuthStatus :: "int \<Rightarrow> bool" where
  "IsAuthStatus code \<longleftrightarrow> code = 401 \<or> code = 403"

definition NormalizeSeriesName :: "string \<Rightarrow> string" where
  "NormalizeSeriesName n = ToLower (map (\<lambda>c. if c = CHR ''.'' then CHR ''_'' else c) n)"

datatype ownership_error = NotDeclared string | OwnedByBoth string string string

type_synonym owner_map = "string \<rightharpoonup> string"

fun own_names :: "owner_map \<Rightarrow> string \<Rightarrow> string list \<Rightarrow> ownership_error + owner_map" where
  "own_names owner key [] = Inr owner"
| "own_names owner key (n # ns) =
     (let norm = NormalizeSeriesName n in
      case owner norm of
        Some prev \<Rightarrow> (if prev \<noteq> key then Inl (OwnedByBoth norm prev key)
                      else own_names (owner(norm \<mapsto> key)) key ns)
      | None \<Rightarrow> own_names (owner(norm \<mapsto> key)) key ns)"

fun own_loops :: "owner_map \<Rightarrow> loop_decl list \<Rightarrow> ownership_error + owner_map" where
  "own_loops owner [] = Inr owner"
| "own_loops owner (lp # lps) =
     (case ld_SeriesNames lp of
        None \<Rightarrow> Inl (NotDeclared (key_String (ld_Key lp)))
      | Some names \<Rightarrow>
          (case own_names owner (key_String (ld_Key lp)) names of
             Inl e \<Rightarrow> Inl e
           | Inr owner1 \<Rightarrow> own_loops owner1 lps))"

definition ValidateOwnership :: "source_decl list \<Rightarrow> ownership_error option" where
  "ValidateOwnership sources =
     (case own_loops Map.empty (concat (map sd_Loops sources)) of Inl e \<Rightarrow> Some e | Inr _ \<Rightarrow> None)"

definition declared :: "loop_decl \<Rightarrow> string set" where
  "declared lp = (case ld_SeriesNames lp of None \<Rightarrow> {} | Some ns \<Rightarrow> NormalizeSeriesName ` set ns)"

section \<open>The ownership map\<close>

lemma own_names_Cons:
  "own_names owner key (n # ns) =
     (if owner (NormalizeSeriesName n) \<in> {None, Some key}
      then own_names (owner(NormalizeSeriesName n \<mapsto> key)) key ns
      else Inl (OwnedByBoth (NormalizeSeriesName n) (the (owner (NormalizeSeriesName n))) key))"
  by (simp add: Let_def split: option.splits)

lemma own_names_ok_iff:
  "(\<exists>o'. own_names owner key ns = Inr o') \<longleftrightarrow>
     (\<forall>n\<in>NormalizeSeriesName ` set ns. owner n \<in> {None, Some key})"
proof (induction ns arbitrary: owner)
  case (Cons n ns)
  show ?case unfolding own_names_Cons using Cons.IH by auto
qed simp

lemma own_names_owner:
  "own_names owner key ns = Inr o' \<Longrightarrow>
   o' x = (if x \<in> NormalizeSeriesName ` set ns then Some key else owner x)"
proof (induction ns arbitrary: owner)
  case (Cons n ns)
  then have "own_names (owner(NormalizeSeriesName n \<mapsto> key)) key ns = Inr o'"
    unfolding own_names_Cons by (simp split: if_splits)
  from Cons.IH [OF this] show ?case by simp
qed simp

text \<open>Success means: everything declared, and no name under two keys, the ones owned before included.\<close>

lemma own_loops_ok_iff:
  "(\<exists>o'. own_loops owner lps = Inr o') \<longleftrightarrow>
     (\<forall>lp\<in>set lps. ld_SeriesNames lp \<noteq> None) \<and>
     (\<forall>lp\<in>set lps. \<forall>n\<in>declared lp. owner n \<in> {None, Some (key_String (ld_Key lp))}) \<and>
     (\<forall>lp\<in>set lps. \<forall>lq\<in>set lps. declared lp \<inter> declared lq \<noteq> {} \<longrightarrow>
        key_String (ld_Key lp) = key_String (ld_Key lq))"
proof (induction owner lps rule: own_loops.induct)
  case (1 owner)
  then show ?case by simp
next
  case (2 owner lp lps)
  let ?k = "key_String (ld_Key lp)"
  show ?case
  proof (cases "ld_SeriesNames lp")
    case (Some names)
    then have d: "declared lp = NormalizeSeriesName ` set names" by (simp add: declared_def)
    show ?thesis
    proof (cases "own_names owner ?k names")
      case (Inl e)
      then have "\<not> (\<forall>n\<in>declared lp. owner n \<in> {None, Some ?k})"
        using own_names_ok_iff [of owner ?k names] unfolding d by auto
      with Some Inl show ?thesis by auto
    next
      case (Inr o1)
      have ok: "\<forall>n\<in>declared lp. owner n \<in> {None, Some ?k}"
        using own_names_ok_iff [of owner ?k names] Inr unfolding d by auto
      have o1: "o1 n \<in> {None, Some l} \<longleftrightarrow> owner n \<in> {None, Some l} \<and> (n \<in> declared lp \<longrightarrow> l = ?k)" for n l
        using own_names_owner [OF Inr, of n] ok unfolding d by auto
      have "(\<exists>o'. own_loops owner (lp # lps) = Inr o') \<longleftrightarrow> (\<exists>o'. own_loops o1 lps = Inr o')"
        using Some Inr by simp
      also have "\<dots> \<longleftrightarrow> (\<forall>lq\<in>set lps. ld_SeriesNames lq \<noteq> None) \<and>
          (\<forall>lq\<in>set lps. \<forall>n\<in>declared lq. owner n \<in> {None, Some (key_String (ld_Key lq))} \<and>
             (n \<in> declared lp \<longrightarrow> key_String (ld_Key lq) = ?k)) \<and>
          (\<forall>lq\<in>set lps. \<forall>lr\<in>set lps. declared lq \<inter> declared lr \<noteq> {} \<longrightarrow>
             key_String (ld_Key lq) = key_String (ld_Key lr))"
        unfolding "2.IH" [OF Some Inr] o1 ..
      finally have step: "(\<exists>o'. own_loops owner (lp # lps) = Inr o') \<longleftrightarrow> \<dots>" .
      show ?thesis unfolding step list.set(2) ball_simps(7) Int_commute [of _ "declared lp"]
        using Some ok by (simp add: disjoint_iff) (intro iffI conjI; metis)
    qed
  qed auto
qed

section \<open>Properties\<close>

text \<open>C39: the ownership check is exact. It accepts a set of sources precisely when every loop
  declares its series and no normalised series name is declared by two loops with different
  checkpoint keys.\<close>

theorem ValidateOwnership_iff:
  "ValidateOwnership sources = None \<longleftrightarrow>
     (\<forall>s\<in>set sources. \<forall>lp\<in>set (sd_Loops s). ld_SeriesNames lp \<noteq> None) \<and>
     (\<forall>s\<in>set sources. \<forall>lp\<in>set (sd_Loops s). \<forall>t\<in>set sources. \<forall>lq\<in>set (sd_Loops t).
        declared lp \<inter> declared lq \<noteq> {} \<longrightarrow> key_String (ld_Key lp) = key_String (ld_Key lq))"
proof -
  have "ValidateOwnership sources = None \<longleftrightarrow>
      (\<exists>o'. own_loops Map.empty (concat (map sd_Loops sources)) = Inr o')"
    by (auto simp: ValidateOwnership_def split: sum.splits)
  then show ?thesis unfolding own_loops_ok_iff by auto
qed

definition decl_of :: "string \<Rightarrow> string list \<Rightarrow> loop_decl" where
  "decl_of l ns = \<lparr>ld_Key = \<lparr>ck_SourceInstance = ''s'', ck_Loop = l, ck_OutputFingerprint = ''f''\<rparr>,
     ld_SeriesNames = Some ns\<rparr>"

theorem ValidateOwnership_iff_witness:
  "ValidateOwnership [\<lparr>sd_ID = ''s'', sd_Loops = [decl_of ''a'' [''x.cost''], decl_of ''b'' [''X_cost'']]\<rparr>] \<noteq> None \<and>
   (\<exists>lp lq. lp = decl_of ''a'' [''x.cost''] \<and> lq = decl_of ''b'' [''X_cost''] \<and> declared lp \<inter> declared lq \<noteq> {})"
proof -
  have n: "NormalizeSeriesName ''x.cost'' = ''x_cost''" "NormalizeSeriesName ''X_cost'' = ''x_cost''"
    by code_simp+
  then have d: "declared (decl_of ''a'' [''x.cost'']) \<inter> declared (decl_of ''b'' [''X_cost'']) \<noteq> {}"
    by (simp add: declared_def decl_of_def)
  have k: "key_String (ld_Key (decl_of ''a'' [''x.cost''])) \<noteq> key_String (ld_Key (decl_of ''b'' [''X_cost'']))"
    by (simp add: decl_of_def key_String_def slash_def)
  show ?thesis
    using ValidateOwnership_iff [of "[\<lparr>sd_ID = ''s'', sd_Loops = [decl_of ''a'' [''x.cost''], decl_of ''b'' [''X_cost'']]\<rparr>]"] d k
    by simp
qed

end
