(* ===== verification/Scheduler.thy ===== *)
theory Scheduler
  imports Runner Registry
begin

text \<open>
  The scheduler (\<^verbatim>\<open>internal/schedule/scheduler.go\<close>). \<open>runOnce\<close> is one tick, made of the
  parts that the tick goroutine runs between two accesses to shared state; \<open>tickPlan\<close> and
  \<open>jitter\<close> give the wait between ticks. The relation \<open>sched_step\<close> interleaves those parts
  with the worker of the runner (\<open>LoopRunner.Run\<close>), with leadership loss and with the next
  election: it is the concurrent program of one loop. A loop's \<open>Collect\<close> is a parameter
  that acts on the world. Trace spans and log lines are left out; the heartbeat hook is
  counted.
\<close>

section \<open>The wait between ticks\<close>

definition DegradedBackoff :: duration where "DegradedBackoff = 10 * Minute"

definition catchupInterval :: duration where "catchupInterval = 2 * Second"

definition tickPlan :: "bool \<Rightarrow> bool \<Rightarrow> int \<Rightarrow> int \<Rightarrow> duration \<Rightarrow> duration \<times> int \<times> bool" where
  "tickPlan degraded behind burst maxCatchup cadence =
     (if degraded then (DegradedBackoff, 0, False)
      else if behind \<and> burst < maxCatchup - 1 then (catchupInterval, burst + 1, False)
      else (cadence, 0, True))"

definition jitterFrac :: float64 where "jitterFrac = round64 (1 / 10)"

text \<open>\<open>r\<close> is the answer of \<open>rand.Float64\<close>.\<close>

definition jitter :: "float64 \<Rightarrow> duration \<Rightarrow> float64 \<Rightarrow> duration" where
  "jitter r d fr =
     wrap64 (d + f_to_int (f_mul (f_mul (f_of_int d) fr) (f_sub (f_mul r (Fin 2)) (Fin 1))))"

definition next_wait :: "float64 \<Rightarrow> bool \<Rightarrow> bool \<Rightarrow> int \<Rightarrow> int \<Rightarrow> duration \<Rightarrow> duration \<times> int" where
  "next_wait r degraded behind burst maxCatchup cadence =
     (case tickPlan degraded behind burst maxCatchup cadence of (wait, newBurst, jit) \<Rightarrow>
        ((if jit then jitter r wait jitterFrac else wait), newBurst))"

section \<open>One tick\<close>

record 's loop_spec =
  ls_Runner :: "'s runner_cfg"
  ls_Collect :: "'s \<Rightarrow> watermark \<Rightarrow> (collect_error + batch) \<times> 's"
  ls_Cadence :: duration
  ls_MaxBackfill :: duration
  ls_Window :: duration
  ls_MaxCatchupPerTick :: int

text \<open>From \<open>Since\<close> to the call of \<open>Collect\<close>; None when the checkpoint could not be read.\<close>

definition tick_since :: "'s loop_spec \<Rightarrow> instant \<Rightarrow> 's runner \<Rightarrow> watermark option \<times> 's runner" where
  "tick_since sp now st =
     (let cfg = ls_Runner sp; name = rc_name cfg in
      case Since cfg st of
        (Inl _, st1) \<Rightarrow> (None, tell (EmitError name ''checkpoint_load'') st1)
      | (Inr wm, st1) \<Rightarrow>
          (let st2 = (if \<not> IsZero (wm_Time wm) then tell (WindowLag name (time_Sub now (wm_Time wm))) st1 else st1);
               flr = time_Add now (- ls_MaxBackfill sp)
           in (Some wm,
               if ls_Window sp > 0 \<and> \<not> IsZero (wm_Time wm) \<and> wm_Time wm < flr
               then (case BackfillUnstorableMinutes (wm_Time wm) flr st2 of (mins, st3) \<Rightarrow>
                       if mins > 0 then tell (SamplesSkipped name ''backfill_unstorable'' (nat mins)) st3 else st3)
               else st2)))"

text \<open>The call of \<open>Collect\<close> and the switch on its error; None when the tick ends there.\<close>

definition tick_collect :: "'s loop_spec \<Rightarrow> watermark \<Rightarrow> 's runner \<Rightarrow> batch option \<times> 's runner" where
  "tick_collect sp wm st =
     (let cfg = ls_Runner sp; name = rc_name cfg in
      case ls_Collect sp (rn_world st) wm of (r, w) \<Rightarrow>
        (let st1 = st\<lparr>rn_world := w\<rparr> in
         case r of
           Inl ErrQuotaExceeded \<Rightarrow> (None, tell (SamplesSkipped name ''quota_exceeded'' 1) st1)
         | Inl ErrGranularityUnexpected \<Rightarrow>
             (None, Degrade cfg ''granularity_unexpected'' (tell (EmitError name ''granularity_unexpected'') st1))
         | Inl (CollectFailed _) \<Rightarrow> (None, tell (EmitError name ''collect'') st1)
         | Inr b \<Rightarrow> (Some b, st1)))"

definition tick_more :: "'s loop_spec \<Rightarrow> instant \<Rightarrow> batch \<Rightarrow> bool" where
  "tick_more sp now b \<longleftrightarrow>
     ls_Window sp > 0 \<and> \<not> IsZero (wm_Time (bt_Watermark b)) \<and> time_Sub now (wm_Time (bt_Watermark b)) > ls_Window sp"

definition runOnce :: "'s loop_spec \<Rightarrow> instant \<Rightarrow> bool \<Rightarrow> 's runner \<Rightarrow> bool \<times> 's runner" where
  "runOnce sp now sent st =
     (if rn_busy st then (ls_Window sp > 0, st)
      else case tick_since sp now st of
        (None, st1) \<Rightarrow> (False, st1)
      | (Some wm, st1) \<Rightarrow>
          (case tick_collect sp wm st1 of
             (None, st2) \<Rightarrow> (False, st2)
           | (Some b, st2) \<Rightarrow>
               (case Enqueue (ls_Runner sp) sent b st2 of
                  (False, st3) \<Rightarrow> (False, st3)
                | (True, st3) \<Rightarrow> (tick_more sp now b, st3))))"

section \<open>The two goroutines of a loop\<close>

text \<open>
  Where the tick goroutine stands: waiting for its timer, past the \<open>Busy\<close> gate, holding a
  watermark, holding a batch, with \<open>busy\<close> set in \<open>Enqueue\<close>, or returned.
\<close>

datatype tick_pc = TIdle | TPoll instant | THave instant watermark | TGot instant batch | TMarked instant batch | TStopped

text \<open>
  Where the worker stands: at its select, holding a batch taken from the queue, past the
  second look at the leadership context, or returned.
\<close>

datatype work_pc = WIdle | WTaken batch | WRun batch | WStopped

text \<open>
  \<open>sy_term\<close> counts elections and \<open>sy_epoch\<close> is the epoch of the present leadership.
  \<open>sy_since\<close> and \<open>sy_from\<close> record, for the last collection, the frontier it started from and
  its term; \<open>sy_runs\<close> records each call of \<open>ProcessBatch\<close>: the batch, whether its
  collection started from the frontier that is current now, whether its term is the current one.
\<close>

record 's sys =
  sy_run :: "'s runner"
  sy_tick :: tick_pc
  sy_work :: work_pc
  sy_epoch :: int
  sy_term :: nat
  sy_more :: bool
  sy_since :: "bool \<times> watermark"
  sy_from :: nat
  sy_beats :: nat
  sy_runs :: "(batch \<times> bool \<times> bool) list"

abbreviation sy_cancelled :: "'s loop_spec \<Rightarrow> 's sys \<Rightarrow> bool" where
  "sy_cancelled sp s \<equiv> rc_ctxErr (ls_Runner sp) (rn_world (sy_run s))"

abbreviation front_of :: "'s runner \<Rightarrow> bool \<times> watermark" where
  "front_of st \<equiv> (rn_hasFront st, rn_frontier st)"

text \<open>The first election finds the runner in any state: \<open>Run\<close> resets it before anything else.\<close>

definition sys_init :: "'s loop_spec \<Rightarrow> 's runner \<Rightarrow> int \<Rightarrow> 's sys" where
  "sys_init sp st epoch =
     \<lparr>sy_run = Reset (ls_Runner sp) st, sy_tick = TIdle, sy_work = WIdle, sy_epoch = epoch, sy_term = 0, sy_more = False,
      sy_since = (False, zero_watermark), sy_from = 0, sy_beats = 0, sy_runs = []\<rparr>"

text \<open>\<open>Enqueue\<close> in its two sections: raising \<open>busy\<close>, then one case of the select.\<close>

definition enqueue_mark :: "'s runner \<Rightarrow> 's runner" where
  "enqueue_mark st = st\<lparr>rn_busy := True\<rparr>"

definition enqueue_send :: "'s runner_cfg \<Rightarrow> batch \<Rightarrow> 's runner \<Rightarrow> 's runner" where
  "enqueue_send cfg b st = tell (QueueDepth (rc_name cfg) (Suc (length (rn_q st)))) (st\<lparr>rn_q := rn_q st @ [b]\<rparr>)"

definition enqueue_abort :: "'s runner \<Rightarrow> 's runner" where
  "enqueue_abort st = st\<lparr>rn_busy := False\<rparr>"

inductive sched_step :: "'s loop_spec \<Rightarrow> 's sys \<Rightarrow> 's sys \<Rightarrow> bool" for sp :: "'s loop_spec" where
  world: "(sy_cancelled sp s \<longrightarrow> rc_ctxErr (ls_Runner sp) w) \<Longrightarrow>
    sched_step sp s (s\<lparr>sy_run := (sy_run s)\<lparr>rn_world := w\<rparr>\<rparr>)"
| tick_busy: "sy_tick s = TIdle \<Longrightarrow> rn_busy (sy_run s) \<Longrightarrow>
    sched_step sp s (s\<lparr>sy_beats := Suc (sy_beats s), sy_more := (ls_Window sp > 0)\<rparr>)"
| tick_poll: "sy_tick s = TIdle \<Longrightarrow> \<not> rn_busy (sy_run s) \<Longrightarrow>
    sched_step sp s (s\<lparr>sy_beats := Suc (sy_beats s), sy_tick := TPoll now\<rparr>)"
| tick_no_since: "sy_tick s = TPoll now \<Longrightarrow> tick_since sp now (sy_run s) = (None, st) \<Longrightarrow>
    sched_step sp s (s\<lparr>sy_run := st, sy_tick := TIdle, sy_more := False\<rparr>)"
| tick_have: "sy_tick s = TPoll now \<Longrightarrow> tick_since sp now (sy_run s) = (Some wm, st) \<Longrightarrow>
    sched_step sp s (s\<lparr>sy_run := st, sy_tick := THave now wm, sy_since := front_of st, sy_from := sy_term s\<rparr>)"
| tick_no_batch: "sy_tick s = THave now wm \<Longrightarrow> tick_collect sp wm (sy_run s) = (None, st) \<Longrightarrow>
    sched_step sp s (s\<lparr>sy_run := st, sy_tick := TIdle, sy_more := False\<rparr>)"
| tick_got: "sy_tick s = THave now wm \<Longrightarrow> tick_collect sp wm (sy_run s) = (Some b, st) \<Longrightarrow>
    sched_step sp s (s\<lparr>sy_run := st, sy_tick := TGot now b\<rparr>)"
| tick_mark: "sy_tick s = TGot now b \<Longrightarrow>
    sched_step sp s (s\<lparr>sy_run := enqueue_mark (sy_run s), sy_tick := TMarked now b\<rparr>)"
| tick_send: "sy_tick s = TMarked now b \<Longrightarrow> length (rn_q (sy_run s)) < rc_depth (ls_Runner sp) \<Longrightarrow>
    sched_step sp s (s\<lparr>sy_run := enqueue_send (ls_Runner sp) b (sy_run s), sy_tick := TIdle, sy_more := tick_more sp now b\<rparr>)"
| tick_abort: "sy_tick s = TMarked now b \<Longrightarrow> sy_cancelled sp s \<Longrightarrow>
    sched_step sp s (s\<lparr>sy_run := enqueue_abort (sy_run s), sy_tick := TIdle, sy_more := False\<rparr>)"
| tick_stop: "sy_tick s = TIdle \<Longrightarrow> sy_cancelled sp s \<Longrightarrow> sched_step sp s (s\<lparr>sy_tick := TStopped\<rparr>)"
| work_take: "sy_work s = WIdle \<Longrightarrow> rn_q (sy_run s) = b # bs \<Longrightarrow>
    sched_step sp s (s\<lparr>sy_run := (sy_run s)\<lparr>rn_q := bs\<rparr>, sy_work := WTaken b\<rparr>)"
| work_drop: "sy_work s = WTaken b \<Longrightarrow> sy_cancelled sp s \<Longrightarrow> sched_step sp s (s\<lparr>sy_work := WStopped\<rparr>)"
| work_run: "sy_work s = WTaken b \<Longrightarrow> \<not> sy_cancelled sp s \<Longrightarrow>
    sched_step sp s (s\<lparr>sy_run := tell (QueueDepth (rc_name (ls_Runner sp)) (length (rn_q (sy_run s)))) (sy_run s), sy_work := WRun b\<rparr>)"
| work_process: "sy_work s = WRun b \<Longrightarrow>
    sched_step sp s (s\<lparr>sy_run := ProcessBatch (ls_Runner sp) (sy_epoch s) b (sy_run s), sy_work := WIdle,
      sy_runs := sy_runs s @ [(b, sy_since s = front_of (sy_run s), sy_from s = sy_term s)]\<rparr>)"
| work_stop: "sy_work s = WIdle \<Longrightarrow> sy_cancelled sp s \<Longrightarrow> sched_step sp s (s\<lparr>sy_work := WStopped\<rparr>)"
| elect: "sy_tick s = TStopped \<Longrightarrow> sy_work s = WStopped \<Longrightarrow> \<not> rc_ctxErr (ls_Runner sp) w \<Longrightarrow>
    sched_step sp s (s\<lparr>sy_run := Reset (ls_Runner sp) ((sy_run s)\<lparr>rn_world := w\<rparr>), sy_tick := TIdle, sy_work := WIdle,
      sy_epoch := epoch, sy_term := Suc (sy_term s)\<rparr>)"

inductive sched_reach :: "'s loop_spec \<Rightarrow> 's sys \<Rightarrow> 's sys \<Rightarrow> bool" for sp s0 where
  start: "sched_reach sp s0 s0"
| step: "sched_reach sp s0 s \<Longrightarrow> sched_step sp s s' \<Longrightarrow> sched_reach sp s0 s'"

inductive_cases sched_step_cases: "sched_step sp s s'"

section \<open>Frames of the parts\<close>

lemma Since_frame:
  assumes "Since cfg st = (r, st')"
  shows "rn_q st' = rn_q st" "rn_busy st' = rn_busy st" "front_of st' = front_of st"
    "rn_emits st' = rn_emits st" "rn_saves st' = rn_saves st"
  using assms by (auto simp: Since_def split: if_splits prod.splits)

lemma Backfill_frame:
  assumes "BackfillUnstorableMinutes wm flr st = (n, st')"
  shows "rn_q st' = rn_q st" "rn_busy st' = rn_busy st" "front_of st' = front_of st"
    "rn_emits st' = rn_emits st" "rn_saves st' = rn_saves st" "rn_world st' = rn_world st"
  using assms by (auto simp: BackfillUnstorableMinutes_def Let_def split: if_splits)

lemma tick_since_frame:
  assumes "tick_since sp now st = (r, st')"
  shows "rn_q st' = rn_q st" "rn_busy st' = rn_busy st" "front_of st' = front_of st"
    "rn_emits st' = rn_emits st" "rn_saves st' = rn_saves st"
proof -
  obtain q st1 where since: "Since (ls_Runner sp) st = (q, st1)" by fastforce
  note f = Since_frame [OF since]
  obtain n st3 where bf: "BackfillUnstorableMinutes (wm_Time (projr q)) (time_Add now (- ls_MaxBackfill sp))
      (if \<not> IsZero (wm_Time (projr q)) then tell (WindowLag (rc_name (ls_Runner sp)) (time_Sub now (wm_Time (projr q)))) st1 else st1) = (n, st3)"
    by fastforce
  note g = Backfill_frame [OF bf]
  have all: "rn_q st' = rn_q st \<and> rn_busy st' = rn_busy st \<and> front_of st' = front_of st \<and>
      rn_emits st' = rn_emits st \<and> rn_saves st' = rn_saves st"
    using assms since f g bf by (cases q) (auto simp: tick_since_def Let_def split: if_splits)
  then show "rn_q st' = rn_q st" "rn_busy st' = rn_busy st" "front_of st' = front_of st"
    "rn_emits st' = rn_emits st" "rn_saves st' = rn_saves st" by auto
qed

lemma tick_collect_frame:
  assumes "tick_collect sp wm st = (r, st')"
  shows "rn_q st' = rn_q st" "rn_busy st' = rn_busy st" "front_of st' = front_of st"
    "rn_emits st' = rn_emits st" "rn_saves st' = rn_saves st"
  using assms by (auto simp: tick_collect_def Let_def Degrade_def runner_frame split: prod.splits sum.splits collect_error.splits)

lemma Enqueue_sections:
  "Enqueue cfg sent b st =
     (if sent then (True, enqueue_send cfg b (enqueue_mark st)) else (False, enqueue_abort (enqueue_mark st)))"
  by (simp add: Enqueue_def enqueue_send_def enqueue_mark_def enqueue_abort_def Let_def)

lemma ProcessBatch_q: "rn_q (ProcessBatch cfg epoch b st) = rn_q st"
  and ProcessBatch_busy: "\<not> rn_busy (ProcessBatch cfg epoch b st)"
proof -
  have "kept_by_steps cfg epoch (bt_Key b) (\<lambda>st'. rn_q st' = rn_q st)"
    by (rule kept_by_stepsI) (auto simp: runner_frame emit_batch_def split: prod.splits)
  from ProcessBatch_kept [OF this] show "rn_q (ProcessBatch cfg epoch b st) = rn_q st" by simp
qed (simp add: ProcessBatch_def)

lemma Reset_fields [simp]:
  "rn_q (Reset cfg st) = []" "\<not> rn_busy (Reset cfg st)" "rn_world (Reset cfg st) = rn_world st"
  by (simp_all add: Reset_def Let_def)

section \<open>Single flight\<close>

fun held :: "work_pc \<Rightarrow> nat" where
  "held (WTaken b) = 1"
| "held (WRun b) = 1"
| "held _ = 0"

definition in_flight :: "'s sys \<Rightarrow> nat" where
  "in_flight s = length (rn_q (sy_run s)) + held (sy_work s)"

text \<open>
  The invariant. Between the gate and the send nothing is in flight and the frontier is the
  one the collection started from; the batch that is then in flight is alone, keeps \<open>busy\<close>
  up, and finds that frontier untouched and its leadership still the current one.
\<close>

definition flight_ok :: "'s sys \<Rightarrow> bool" where
  "flight_ok s \<longleftrightarrow>
     (case sy_tick s of
        TPoll _ \<Rightarrow> in_flight s = 0 \<and> \<not> rn_busy (sy_run s)
      | THave _ _ \<Rightarrow> in_flight s = 0 \<and> \<not> rn_busy (sy_run s)
      | TGot _ _ \<Rightarrow> in_flight s = 0 \<and> \<not> rn_busy (sy_run s)
      | TMarked _ _ \<Rightarrow> in_flight s = 0 \<and> rn_busy (sy_run s)
      | _ \<Rightarrow> in_flight s = 0 \<or> in_flight s = 1 \<and> rn_busy (sy_run s)) \<and>
     ((case sy_tick s of THave _ _ \<Rightarrow> True | TGot _ _ \<Rightarrow> True | TMarked _ _ \<Rightarrow> True | _ \<Rightarrow> in_flight s = 1) \<longrightarrow>
        sy_since s = front_of (sy_run s) \<and> sy_from s = sy_term s) \<and>
     (\<forall>x\<in>set (sy_runs s). snd x = (True, True))"

lemmas flight_defs = flight_ok_def in_flight_def enqueue_mark_def enqueue_send_def enqueue_abort_def

lemma flight_init: "flight_ok (sys_init sp st epoch)"
  by (simp add: flight_defs sys_init_def)

lemma flight_tick:
  assumes "flight_ok s"
  shows "sy_tick s = TPoll now \<Longrightarrow> tick_since sp now (sy_run s) = (r, st) \<Longrightarrow>
      flight_ok (s\<lparr>sy_run := st, sy_tick := TIdle, sy_more := m\<rparr>) \<and>
      flight_ok (s\<lparr>sy_run := st, sy_tick := THave now wm, sy_since := front_of st, sy_from := sy_term s\<rparr>)"
    and "sy_tick s = THave now wm \<Longrightarrow> tick_collect sp wm (sy_run s) = (q, st) \<Longrightarrow>
      flight_ok (s\<lparr>sy_run := st, sy_tick := TIdle, sy_more := m\<rparr>) \<and>
      flight_ok (s\<lparr>sy_run := st, sy_tick := TGot now b\<rparr>)"
  using assms by (auto simp: flight_defs dest: tick_since_frame tick_collect_frame)

lemma flight_step:
  assumes "sched_step sp s s'" "flight_ok s"
  shows "flight_ok s'"
  using assms(1)
proof (cases rule: sched_step.cases)
  case (work_process b)
  have "in_flight s = 1" using assms(2) work_process(2) by (auto simp: flight_defs split: tick_pc.splits)
  with assms(2) work_process show ?thesis
    by (auto simp: flight_defs ProcessBatch_q ProcessBatch_busy split: tick_pc.splits)
next
  case (tick_no_since now st)
  then show ?thesis using flight_tick(1) [OF assms(2)] by blast
next
  case (tick_have now wm st)
  then show ?thesis using flight_tick(1) [OF assms(2)] by blast
next
  case (tick_no_batch now wm st)
  then show ?thesis using flight_tick(2) [OF assms(2)] by blast
next
  case (tick_got now wm b st)
  then show ?thesis using flight_tick(2) [OF assms(2)] by blast
qed (use assms(2) in \<open>auto simp: flight_defs split: tick_pc.splits work_pc.splits\<close>)

lemma flight_reach: "sched_reach sp s0 s \<Longrightarrow> flight_ok s0 \<Longrightarrow> flight_ok s"
  by (induction rule: sched_reach.induct) (auto intro: flight_step)

section \<open>Emissions happen under leadership\<close>

lemma process_cancelled:
  "rc_ctxErr cfg (rn_world st) \<Longrightarrow> ProcessBatch cfg epoch b st = st\<lparr>rn_busy := False\<rparr>"
  by (simp add: ProcessBatch_def process_body_def)

lemma Reset_history [simp]: "rn_emits (Reset cfg st) = rn_emits st" "rn_saves (Reset cfg st) = rn_saves st"
  by (simp_all add: Reset_def Let_def)

section \<open>Catch-up bursts\<close>

text \<open>The plans of \<open>tickLoop\<close> over a sequence of ticks, each given by its degraded mark and its backlog.\<close>

fun plan_run :: "int \<Rightarrow> duration \<Rightarrow> int \<Rightarrow> (bool \<times> bool) list \<Rightarrow> (duration \<times> int \<times> bool) list" where
  "plan_run maxCatchup cadence burst [] = []"
| "plan_run maxCatchup cadence burst ((degraded, behind) # ticks) =
     (let p = tickPlan degraded behind burst maxCatchup cadence in p # plan_run maxCatchup cadence (fst (snd p)) ticks)"

definition accelerated :: "duration \<times> int \<times> bool \<Rightarrow> bool" where
  "accelerated p \<longleftrightarrow> fst (snd p) > 0"

lemma plan_run_append:
  "plan_run mc cad b ticks = xs @ ys \<Longrightarrow>
   \<exists>b' ticks'. ys = plan_run mc cad b' ticks' \<and> (0 \<le> b \<longrightarrow> 0 \<le> b')"
proof (induction xs arbitrary: b ticks)
  case (Cons x xs)
  from Cons.prems obtain d m ticks1 where ticks: "ticks = (d, m) # ticks1" by (cases ticks) auto
  let ?p = "tickPlan d m b mc cad"
  have "plan_run mc cad (fst (snd ?p)) ticks1 = xs @ ys" using Cons.prems ticks by (auto simp: Let_def)
  from Cons.IH [OF this] show ?case by (auto simp: tickPlan_def split: if_splits)
qed auto

lemma accelerated_stretch:
  assumes "plan_run mc cad b ticks = xs @ ys" "0 \<le> b" "\<forall>p\<in>set xs. accelerated p" "xs \<noteq> []"
  shows "b + int (length xs) \<le> mc - 1"
  using assms
proof (induction xs arbitrary: b ticks)
  case (Cons x xs)
  from Cons.prems obtain d m ticks1 where ticks: "ticks = (d, m) # ticks1" by (cases ticks) auto
  have x: "x = tickPlan d m b mc cad" using Cons.prems(1) ticks by (simp add: Let_def)
  have rest: "plan_run mc cad (fst (snd x)) ticks1 = xs @ ys" using Cons.prems(1) ticks by (auto simp: Let_def x)
  have nb: "fst (snd x) = b + 1" "b < mc - 1"
    using Cons.prems(3) by (auto simp: x tickPlan_def accelerated_def split: if_splits)
  show ?case using Cons.IH [OF rest] Cons.prems(2,3) nb by (cases "xs = []") auto
qed simp

section \<open>Properties\<close>

text \<open>C2: collection and emission are single-flight. Whatever the interleaving of the tick
  goroutine, the worker, leadership losses and re-elections, at most one batch is in the
  queue or with the worker, a send never blocks, and every batch that is processed was
  collected by the current leadership from the frontier that is current when it is
  processed: no window is collected twice ahead of its save, and no batch outlives the
  leadership that collected it.\<close>

theorem single_flight:
  assumes "sched_reach sp (sys_init sp st epoch) s" "1 \<le> rc_depth (ls_Runner sp)"
  shows "in_flight s \<le> 1 \<and>
    (\<forall>now b. sy_tick s = TMarked now b \<longrightarrow> length (rn_q (sy_run s)) < rc_depth (ls_Runner sp)) \<and>
    (\<forall>x\<in>set (sy_runs s). snd x = (True, True)) \<and>
    (in_flight s = 1 \<longrightarrow> sy_since s = front_of (sy_run s) \<and> sy_from s = sy_term s)"
proof -
  have "flight_ok s" by (rule flight_reach [OF assms(1) flight_init])
  then show ?thesis using assms(2) by (auto simp: flight_ok_def in_flight_def split: tick_pc.splits)
qed

definition quiet_spec :: "unit loop_spec" where
  "quiet_spec = \<lparr>ls_Runner = fst (NewLoopRunner zero_key (\<lambda>s b. (EmitOk, s))
       \<lparr>cp_Load = (\<lambda>s k. (Inr zero_watermark, s)), cp_Save = (\<lambda>s k w. (None, s))\<rparr> (\<lambda>_. False) 1 1 (rn_guard idle_runner) ()),
     ls_Collect = (\<lambda>s wm. (Inr zero_batch, s)), ls_Cadence = Minute, ls_MaxBackfill = Hour, ls_Window = Minute,
     ls_MaxCatchupPerTick = 3\<rparr>"

text \<open>A tick up to the send: the batch waits in the queue.\<close>

definition quiet_sent :: "unit sys" where
  "quiet_sent =
     (let s0 = sys_init quiet_spec idle_runner 1;
          s1 = s0\<lparr>sy_beats := 1, sy_tick := TPoll unix_epoch\<rparr>;
          s2 = s1\<lparr>sy_run := snd (tick_since quiet_spec unix_epoch (sy_run s1)), sy_tick := THave unix_epoch zero_watermark,
                 sy_since := (False, zero_watermark), sy_from := 0\<rparr>;
          s3 = s2\<lparr>sy_run := snd (tick_collect quiet_spec zero_watermark (sy_run s2)), sy_tick := TGot unix_epoch zero_batch\<rparr>;
          s4 = s3\<lparr>sy_run := enqueue_mark (sy_run s3), sy_tick := TMarked unix_epoch zero_batch\<rparr>
      in s4\<lparr>sy_run := enqueue_send (ls_Runner quiet_spec) zero_batch (sy_run s4), sy_tick := TIdle,
            sy_more := tick_more quiet_spec unix_epoch zero_batch\<rparr>)"

lemma quiet_parts:
  "tick_since quiet_spec unix_epoch (Reset (ls_Runner quiet_spec) idle_runner) =
     (Some zero_watermark, Reset (ls_Runner quiet_spec) idle_runner)"
  "tick_collect quiet_spec zero_watermark st = (Some zero_batch, st)"
  "front_of (Reset (ls_Runner quiet_spec) idle_runner) = (False, zero_watermark)"
  "rc_depth (ls_Runner quiet_spec) = 1"
  by (simp_all add: tick_since_def tick_collect_def Since_def quiet_spec_def NewLoopRunner_def idle_runner_def
      Reset_def Let_def zero_watermark_def zero_time_def IsZero_def)

lemma quiet_reach: "sched_reach quiet_spec (sys_init quiet_spec idle_runner 1) quiet_sent"
proof -
  let ?R = "Reset (ls_Runner quiet_spec) idle_runner"
  define s0 where "s0 = sys_init quiet_spec idle_runner 1"
  define s1 where "s1 = s0\<lparr>sy_beats := 1, sy_tick := TPoll unix_epoch\<rparr>"
  define s2 where "s2 = s1\<lparr>sy_run := ?R, sy_tick := THave unix_epoch zero_watermark, sy_since := (False, zero_watermark), sy_from := 0\<rparr>"
  define s3 where "s3 = s2\<lparr>sy_run := ?R, sy_tick := TGot unix_epoch zero_batch\<rparr>"
  define s4 where "s4 = s3\<lparr>sy_run := enqueue_mark ?R, sy_tick := TMarked unix_epoch zero_batch\<rparr>"
  note s0 = s0_def [unfolded sys_init_def]
  have 1: "sched_step quiet_spec s0 s1"
    using tick_poll [of s0 quiet_spec unix_epoch] by (simp add: s0 s1_def)
  have 2: "sched_step quiet_spec s1 s2"
    using tick_have [of s1 unix_epoch quiet_spec zero_watermark ?R] by (simp add: s0 s1_def s2_def quiet_parts)
  have 3: "sched_step quiet_spec s2 s3"
    using tick_got [of s2 unix_epoch zero_watermark quiet_spec zero_batch ?R] by (simp add: s0 s1_def s2_def s3_def quiet_parts)
  have 4: "sched_step quiet_spec s3 s4"
    using tick_mark [of s3 unix_epoch zero_batch quiet_spec] by (simp add: s3_def s4_def)
  have "quiet_sent = s4\<lparr>sy_run := enqueue_send (ls_Runner quiet_spec) zero_batch (sy_run s4), sy_tick := TIdle,
      sy_more := tick_more quiet_spec unix_epoch zero_batch\<rparr>"
    by (simp add: quiet_sent_def Let_def s4_def s3_def s2_def s1_def s0_def sys_init_def quiet_parts)
  then have 5: "sched_step quiet_spec s4 quiet_sent"
    using tick_send [of s4 unix_epoch zero_batch quiet_spec] by (simp add: s4_def enqueue_mark_def quiet_parts)
  from 1 2 3 4 5 show ?thesis unfolding s0_def [symmetric]
    by (meson sched_reach.start sched_reach.step)
qed

theorem single_flight_witness:
  "rn_q (sy_run quiet_sent) = [zero_batch] \<and> in_flight quiet_sent \<le> 1 \<and> sy_since quiet_sent = front_of (sy_run quiet_sent)"
proof -
  have q: "rn_q (sy_run quiet_sent) = [zero_batch]" "held (sy_work quiet_sent) = 0"
    by (simp_all add: quiet_sent_def Let_def sys_init_def enqueue_send_def enqueue_mark_def quiet_parts)
  then have "in_flight quiet_sent = 1" by (simp add: in_flight_def)
  with q single_flight [OF quiet_reach] show ?thesis by (simp add: quiet_parts)
qed

text \<open>C33: nothing leaves the process without leadership. A step of the program that emits a batch
  or attempts a save is the worker processing a batch, and the leadership context is not
  cancelled when it starts.\<close>

theorem effects_need_leadership:
  assumes "sched_step sp s s'"
    and "rn_emits (sy_run s') \<noteq> rn_emits (sy_run s) \<or> rn_saves (sy_run s') \<noteq> rn_saves (sy_run s)"
  shows "\<not> sy_cancelled sp s \<and> (\<exists>b. sy_work s = WRun b)"
  using assms(1)
proof (cases rule: sched_step.cases)
  case (work_process b)
  then show ?thesis using assms(2) process_cancelled by fastforce
qed (use assms(2) in \<open>auto simp: flight_defs dest: tick_since_frame tick_collect_frame\<close>)

definition quiet_run :: "unit sys" where
  "quiet_run = (sys_init quiet_spec idle_runner 1)\<lparr>sy_work :=
     WRun (zero_batch\<lparr>bt_Watermark := \<lparr>wm_Time = unix_epoch, wm_Cursor = '''', wm_Epoch = 0\<rparr>\<rparr>)\<rparr>"

theorem effects_need_leadership_witness:
  "\<exists>s'. sched_step quiet_spec quiet_run s' \<and> rn_saves (sy_run s') \<noteq> rn_saves (sy_run quiet_run) \<and>
     \<not> sy_cancelled quiet_spec quiet_run"
proof -
  define b where "b = zero_batch\<lparr>bt_Watermark := \<lparr>wm_Time = unix_epoch, wm_Cursor = '''', wm_Epoch = 0\<rparr>\<rparr>"
  have w: "sy_work quiet_run = WRun b" by (simp add: quiet_run_def b_def)
  note step = work_process [OF w, of quiet_spec]
  have "rn_saves (ProcessBatch (ls_Runner quiet_spec) (sy_epoch quiet_run) b (sy_run quiet_run)) \<noteq> rn_saves (sy_run quiet_run)"
    by (simp add: ProcessBatch_def process_body_def quiet_spec_def NewLoopRunner_def b_def zero_batch_def CoalesceDPM_eq
        dpm_kept_def splitByBucket_def Let_def IsZero_def unix_epoch_def commit_def save_branches_frame)
  then show ?thesis using effects_need_leadership [OF step] step by auto
qed

text \<open>Catch-up is bounded. Over any sequence of ticks, a stretch of accelerated waits is shorter
  than MaxCatchupPerTick, so every period has a full cadence wait; with a limit of one
  the loop never accelerates; a degraded tick always backs off; and a backlog that is
  within the limit is always followed by the short wait.\<close>

theorem catchup_bounded:
  assumes "plan_run maxCatchup cadence 0 ticks = xs @ ys @ zs" "\<forall>p\<in>set ys. accelerated p"
  shows "int (length ys) \<le> max 0 (maxCatchup - 1) \<and>
    fst (tickPlan True behind burst maxCatchup cadence) = DegradedBackoff \<and>
    (burst < maxCatchup - 1 \<longrightarrow> fst (tickPlan False True burst maxCatchup cadence) = catchupInterval)"
proof -
  obtain b' ticks' where run: "ys @ zs = plan_run maxCatchup cadence b' ticks'" and b': "0 \<le> b'"
    using plan_run_append [OF assms(1)] by auto
  have "int (length ys) \<le> max 0 (maxCatchup - 1)"
    using accelerated_stretch [OF run [symmetric] b' assms(2)] b' by (cases "ys = []") auto
  then show ?thesis by (simp add: tickPlan_def)
qed

theorem catchup_bounded_witness:
  "int (length [(catchupInterval, 1, False), (catchupInterval, 2, False)]) \<le> max 0 (3 - 1) \<and>
   plan_run 3 Minute 0 [(False, True), (False, True), (False, True)] =
     [(catchupInterval, 1, False), (catchupInterval, 2, False), (Minute, 0, True)]"
proof -
  have run: "plan_run 3 Minute 0 [(False, True), (False, True), (False, True)] =
      [] @ [(catchupInterval, 1, False), (catchupInterval, 2, False)] @ [(Minute, 0, True)]"
    by (simp add: Let_def tickPlan_def)
  have "\<forall>p\<in>set [(catchupInterval, 1, False), (catchupInterval, 2, False)]. accelerated p" by (simp add: accelerated_def)
  from catchup_bounded [OF run this] run show ?thesis by simp
qed




end
