(* ===== verification/Go_Time.thy ===== *)
theory Go_Time
  imports Go_Strconv
begin

text \<open>
  Calendar dates and the RFC 3339 text of an instant as \<^verbatim>\<open>time.Format\<close> and \<^verbatim>\<open>time.Parse\<close>
  write and read it (UTC on output; fraction and offset accepted on input, an hour of one
  digit too), with their round trip over the years 1 to 9999.
\<close>

section \<open>Dates\<close>

definition days_before_year :: "int \<Rightarrow> int" where
  "days_before_year y = 365 * (y - 1) + (y - 1) div 4 - (y - 1) div 100 + (y - 1) div 400"

definition is_leap :: "int \<Rightarrow> bool" where
  "is_leap y \<longleftrightarrow> y mod 4 = 0 \<and> (y mod 100 \<noteq> 0 \<or> y mod 400 = 0)"

definition days_in_months :: "bool \<Rightarrow> int list" where
  "days_in_months leap = [31, if leap then 29 else 28, 31, 30, 31, 30, 31, 31, 30, 31, 30, 31]"

text \<open>The month (from \<open>m\<close>) and the day of the month of a day counted from the start of month \<open>m\<close>.\<close>

fun month_day :: "int list \<Rightarrow> int \<Rightarrow> int \<Rightarrow> int \<times> int" where
  "month_day [] m d = (m, d + 1)"
| "month_day (l # ls) m d = (if d < l then (m, d + 1) else month_day ls (m + 1) (d - l))"

text \<open>The day of the year on which a month starts, and its length.\<close>

definition month_start :: "bool \<Rightarrow> int \<Rightarrow> int" where
  "month_start leap m = sum_list (take (nat (m - 1)) (days_in_months leap))"

definition month_len :: "bool \<Rightarrow> int \<Rightarrow> int" where
  "month_len leap m = days_in_months leap ! nat (m - 1)"

definition civil :: "int \<Rightarrow> int \<times> int \<times> int" where
  "civil d = (let y = year_of_days d; (m, k) = month_day (days_in_months (is_leap y)) 1 (d - days_before_year y) in (y, m, k))"

section \<open>Text\<close>

fun pad :: "nat \<Rightarrow> nat \<Rightarrow> string" where
  "pad 0 n = []"
| "pad (Suc w) n = pad w (n div 10) @ [digit_char (n mod 10)]"

definition pad_year :: "int \<Rightarrow> string" where
  "pad_year y = (if 0 \<le> y \<and> y < 10000 then pad 4 (nat y) else FormatInt y)"

definition trim_zeros :: "string \<Rightarrow> string" where
  "trim_zeros s = rev (dropWhile (\<lambda>c. c = CHR ''0'') (rev s))"

definition format_seconds :: "instant \<Rightarrow> string" where
  "format_seconds t =
     (case civil (t div ns_per_day) of (y, m, d) \<Rightarrow>
        (let s = t mod ns_per_day div Second in
         pad_year y @ ''-'' @ pad 2 (nat m) @ ''-'' @ pad 2 (nat d) @ ''T'' @
         pad 2 (nat (s div 3600)) @ '':'' @ pad 2 (nat (s div 60 mod 60)) @ '':'' @ pad 2 (nat (s mod 60))))"

definition FormatRFC3339 :: "instant \<Rightarrow> string" where
  "FormatRFC3339 t = format_seconds t @ ''Z''"

definition FormatRFC3339Nano :: "instant \<Rightarrow> string" where
  "FormatRFC3339Nano t =
     (let f = trim_zeros (pad 9 (nat (t mod Second)))
      in format_seconds t @ (if f = [] then [] else CHR ''.'' # f) @ ''Z'')"

definition is_digit :: "char \<Rightarrow> bool" where
  "is_digit c \<longleftrightarrow> digit_val c \<noteq> None"

definition take_num :: "nat \<Rightarrow> string \<Rightarrow> (int \<times> string) option" where
  "take_num w s =
     (if length s < w then None
      else case digits_val 0 (take w s) of None \<Rightarrow> None | Some n \<Rightarrow> Some (int n, drop w s))"

definition take_hour :: "string \<Rightarrow> (int \<times> string) option" where
  "take_hour s = (if length s \<ge> 2 \<and> is_digit (s ! 1) then take_num 2 s else take_num 1 s)"

definition take_char :: "char \<Rightarrow> string \<Rightarrow> string option" where
  "take_char c s = (case s of [] \<Rightarrow> None | x # xs \<Rightarrow> if x = c then Some xs else None)"

definition nine_digits :: "string \<Rightarrow> string" where
  "nine_digits ds = take 9 ds @ replicate (9 - length ds) CHR ''0''"

definition take_frac :: "string \<Rightarrow> int \<times> string" where
  "take_frac s =
     (if length s \<ge> 2 \<and> (hd s = CHR ''.'' \<or> hd s = CHR '','') \<and> is_digit (s ! 1)
      then (let ds = takeWhile is_digit (tl s)
            in (int (the (digits_val 0 (nine_digits ds))), dropWhile is_digit (tl s)))
      else (0, s))"

definition take_zone :: "string \<Rightarrow> int option" where
  "take_zone s =
     (if s = ''Z'' then Some 0
      else if s \<noteq> [] \<and> (hd s = CHR ''+'' \<or> hd s = CHR ''-'')
      then (case take_num 2 (tl s) of
              None \<Rightarrow> None
            | Some (h, s1) \<Rightarrow>
                (case take_char colon s1 of
                   None \<Rightarrow> None
                 | Some s2 \<Rightarrow>
                     (case take_num 2 s2 of
                        Some (m, []) \<Rightarrow>
                          (if h \<le> 24 \<and> m \<le> 60 then Some ((if hd s = CHR ''-'' then - 1 else 1) * (h * 3600 + m * 60)) else None)
                      | _ \<Rightarrow> None)))
      else None)"

definition take_field :: "char \<Rightarrow> string \<Rightarrow> (int \<times> string) option" where
  "take_field c s = (case take_char c s of None \<Rightarrow> None | Some s1 \<Rightarrow> take_num 2 s1)"

definition instant_of :: "int \<Rightarrow> int \<Rightarrow> int \<Rightarrow> int \<Rightarrow> int \<Rightarrow> int \<Rightarrow> int \<Rightarrow> instant" where
  "instant_of y m d h mi s ns =
     (days_before_year y + month_start (is_leap y) m + (d - 1)) * ns_per_day + (h * 3600 + mi * 60 + s) * Second + ns"

definition date_ok :: "int \<Rightarrow> int \<Rightarrow> int \<Rightarrow> bool" where
  "date_ok y m d \<longleftrightarrow> 1 \<le> m \<and> m \<le> 12 \<and> 1 \<le> d \<and> d \<le> month_len (is_leap y) m"

definition ParseRFC3339 :: "string \<Rightarrow> instant option" where
  "ParseRFC3339 s0 =
     (case take_num 4 s0 of None \<Rightarrow> None | Some (y, s1) \<Rightarrow>
      case take_field CHR ''-'' s1 of None \<Rightarrow> None | Some (m, s2) \<Rightarrow>
      case take_field CHR ''-'' s2 of None \<Rightarrow> None | Some (d, s3) \<Rightarrow>
      case take_char CHR ''T'' s3 of None \<Rightarrow> None | Some s4 \<Rightarrow>
      case take_hour s4 of None \<Rightarrow> None | Some (h, s5) \<Rightarrow>
      case take_field colon s5 of None \<Rightarrow> None | Some (mi, s6) \<Rightarrow>
      case take_field colon s6 of None \<Rightarrow> None | Some (sec, s7) \<Rightarrow>
      case take_frac s7 of (ns, s8) \<Rightarrow>
      case take_zone s8 of None \<Rightarrow> None | Some off \<Rightarrow>
        if date_ok y m d \<and> h < 24 \<and> mi < 60 \<and> sec < 60
        then Some (instant_of y m d h mi sec ns - off * Second) else None)"

section \<open>The calendar is exact\<close>

lemma year_length: "days_before_year (y + 1) = days_before_year y + (if is_leap y then 366 else 365)"
proof -
  have step: "y div k = (y - 1) div k + (if y mod k = 0 then 1 else 0)" if "0 < k" for k :: int
  proof -
    have y: "y = k * (y div k) + y mod k" by simp
    have r: "0 \<le> y mod k" "y mod k < k" using that by simp_all
    show ?thesis
    proof (cases "y mod k = 0")
      case True
      then have "y - 1 = k * (y div k - 1) + (k - 1)" using y by (simp add: algebra_simps)
      from int_div_pos_eq [OF this] True that show ?thesis by simp
    next
      case False
      with r have "0 \<le> y mod k - 1" "y mod k - 1 < k" by simp_all
      moreover have "y - 1 = k * (y div k) + (y mod k - 1)" using y by simp
      ultimately show ?thesis using int_div_pos_eq [of "y - 1" k "y div k" "y mod k - 1"] False by simp
    qed
  qed
  define a b c where "a = (y mod 4 = 0)" and "b = (y mod 100 = 0)" and "c = (y mod 400 = 0)"
  have "(100 :: int) dvd 400" "(4 :: int) dvd 100" by simp_all
  then have "400 dvd y \<Longrightarrow> 100 dvd y" "100 dvd y \<Longrightarrow> 4 dvd y" by (blast intro: dvd_trans)+
  then have imp: "c \<Longrightarrow> b" "b \<Longrightarrow> a" by (simp_all add: a_def b_def c_def mod_eq_0_iff_dvd)
  have div: "y div 4 = (y - 1) div 4 + (if a then 1 else 0)" "y div 100 = (y - 1) div 100 + (if b then 1 else 0)"
    "y div 400 = (y - 1) div 400 + (if c then 1 else 0)"
    unfolding a_def b_def c_def by (rule step; simp)+
  have "days_before_year (y + 1) = 365 * y + y div 4 - y div 100 + y div 400" by (simp add: days_before_year_def)
  also have "\<dots> = days_before_year y + (if a \<and> (\<not> b \<or> c) then 366 else 365)"
    unfolding days_before_year_def div using imp by (cases a; cases b; cases c) simp_all
  finally show ?thesis by (simp add: is_leap_def a_def b_def c_def)
qed

lemma year_of_cycle_days:
  assumes "0 \<le> d" "d < 146097"
  shows "days_before_year (year_of_cycle d) \<le> d" "d < days_before_year (year_of_cycle d + 1)"
proof -
  define n100 where "n100 = min 3 (d div 36524)"
  define d2 where "d2 = d - 36524 * n100"
  define n4 where "n4 = d2 div 1461"
  define d3 where "d3 = d2 mod 1461"
  define n1 where "n1 = min 3 (d3 div 365)"
  have n100: "0 \<le> n100" "n100 \<le> 3" "36524 * n100 \<le> d" "n100 < 3 \<longrightarrow> d < 36524 * n100 + 36524"
    using assms by (simp_all add: n100_def min_def) linarith+
  have d2: "0 \<le> d2" "n100 < 3 \<longrightarrow> d2 < 36524" "d2 \<le> 36524"
    using n100 assms by (simp_all add: d2_def) linarith+
  have n4: "0 \<le> n4" "n4 \<le> 24" "d2 = 1461 * n4 + d3" "0 \<le> d3" "d3 < 1461"
    using d2 by (simp_all add: n4_def d3_def)
  have n1: "0 \<le> n1" "n1 \<le> 3" "365 * n1 \<le> d3" "n1 < 3 \<longrightarrow> d3 < 365 * n1 + 365"
    using n4 by (simp_all add: n1_def min_def) linarith+
  have y: "year_of_cycle d = 100 * n100 + 4 * n4 + n1 + 1"
    by (simp add: year_of_cycle_def n100_def d2_def n4_def d3_def n1_def Let_def)
  have q: "(year_of_cycle d - 1) div 4 = 25 * n100 + n4" "(year_of_cycle d - 1) div 100 = n100" "(year_of_cycle d - 1) div 400 = 0"
    using n100 n4 n1 by (auto simp: y intro!: int_div_pos_eq)
  have before: "days_before_year (year_of_cycle d) = 36524 * n100 + 1461 * n4 + 365 * n1"
    unfolding days_before_year_def q by (simp add: y)
  have d: "d = 36524 * n100 + 1461 * n4 + d3" using n4 by (simp add: d2_def)
  show "days_before_year (year_of_cycle d) \<le> d" using before d n1 by simp
  have leap: "is_leap (year_of_cycle d)" if "n1 = 3" "n4 < 24 \<or> n100 = 3"
  proof -
    have c: "year_of_cycle d = 4 * (25 * n100 + n4 + 1)" using y that by simp
    show ?thesis
    proof (cases "n4 < 24")
      case True
      then have "year_of_cycle d mod 100 = 4 * (n4 + 1)" using y that(1) n4 by (auto intro!: int_mod_pos_eq [where q = n100])
      with c n4 show ?thesis by (simp add: is_leap_def)
    next
      case False
      with that n4 y have "year_of_cycle d = 400" by simp
      then show ?thesis by (simp add: is_leap_def)
    qed
  qed
  show "d < days_before_year (year_of_cycle d + 1)"
    using leap before d n1 n4 d2 n100 unfolding year_length by (cases "n1 = 3"; cases "n4 < 24 \<or> n100 = 3") auto
qed

lemma year_of_days_exact:
  "days_before_year (year_of_days d) \<le> d" "d < days_before_year (year_of_days d + 1)"
proof -
  define q where "q = d div 146097"
  define r where "r = d mod 146097"
  have r: "0 \<le> r" "r < 146097" and d: "d = 146097 * q + r" by (simp_all add: q_def r_def)
  have shift: "days_before_year (400 * q + y) = 146097 * q + days_before_year y" for y
  proof -
    have "400 * q + y - 1 = (y - 1) + (100 * q) * 4" "400 * q + y - 1 = (y - 1) + (4 * q) * 100"
      "400 * q + y - 1 = (y - 1) + q * 400" by simp_all
    then have "(400 * q + y - 1) div 4 = 100 * q + (y - 1) div 4" "(400 * q + y - 1) div 100 = 4 * q + (y - 1) div 100"
      "(400 * q + y - 1) div 400 = q + (y - 1) div 400" by (metis div_mult_self1 zero_neq_numeral)+
    then show ?thesis by (simp add: days_before_year_def)
  qed
  have y: "year_of_days d = 400 * q + year_of_cycle r" by (simp add: year_of_days_def q_def r_def)
  show "days_before_year (year_of_days d) \<le> d" "d < days_before_year (year_of_days d + 1)"
    unfolding y using year_of_cycle_days [OF r] shift [of "year_of_cycle r"] shift [of "year_of_cycle r + 1"] d
    by (simp_all add: add.assoc)
qed

lemma month_day_exact:
  assumes "0 \<le> d" "d < sum_list ls" "\<forall>l\<in>set ls. 0 < l" "month_day ls m d = (mm, k)"
  shows "\<exists>i < length ls. mm = m + int i \<and> d = sum_list (take i ls) + k - 1 \<and> 1 \<le> k \<and> k \<le> ls ! i"
  using assms
proof (induction ls arbitrary: m d)
  case (Cons l ls)
  show ?case
  proof (cases "d < l")
    case True
    then show ?thesis using Cons.prems by (intro exI [of _ 0]) auto
  next
    case False
    with Cons.prems have "0 \<le> d - l" "d - l < sum_list ls" "\<forall>l\<in>set ls. 0 < l" "month_day ls (m + 1) (d - l) = (mm, k)" by auto
    from Cons.IH [OF this] obtain i where "i < length ls" "mm = m + 1 + int i" "d - l = sum_list (take i ls) + k - 1" "1 \<le> k" "k \<le> ls ! i"
      by auto
    then show ?thesis by (intro exI [of _ "Suc i"]) auto
  qed
qed simp

lemma civil_exact:
  assumes "civil d = (y, m, k)"
  shows "date_ok y m k" "d = days_before_year y + month_start (is_leap y) m + (k - 1)" "y = year_of_days d"
proof -
  let ?ls = "days_in_months (is_leap (year_of_days d))"
  have md: "month_day ?ls 1 (d - days_before_year (year_of_days d)) = (m, k)" and y: "y = year_of_days d"
    using assms by (auto simp: civil_def Let_def split: prod.splits)
  have "sum_list ?ls = (if is_leap (year_of_days d) then 366 else 365)" "\<forall>l\<in>set ?ls. 0 < l" "length ?ls = 12"
    by (auto simp: days_in_months_def)
  moreover have "0 \<le> d - days_before_year (year_of_days d)"
    "d - days_before_year (year_of_days d) < (if is_leap (year_of_days d) then 366 else 365)"
    using year_of_days_exact [of d] year_length [of "year_of_days d"] by (auto split: if_splits)
  ultimately obtain i where i: "i < 12" "m = 1 + int i" "d - days_before_year (year_of_days d) = sum_list (take i ?ls) + k - 1"
    "1 \<le> k" "k \<le> ?ls ! i"
    using month_day_exact [OF _ _ _ md] by auto
  then show "date_ok y m k" "d = days_before_year y + month_start (is_leap y) m + (k - 1)" "y = year_of_days d"
    by (auto simp: date_ok_def month_len_def month_start_def y)
qed

section \<open>Reading back what was written\<close>

lemma length_pad [simp]: "length (pad w n) = w"
  by (induction w arbitrary: n) auto

lemma digits_val_pad: "n < 10 ^ w \<Longrightarrow> digits_val acc (pad w n) = Some (acc * 10 ^ w + n)"
proof (induction w arbitrary: n)
  case (Suc w)
  then have "n div 10 < 10 ^ w" by (simp add: less_mult_imp_div_less)
  with Suc.IH [of "n div 10"] show ?case by (simp add: digits_val_append)
qed simp

lemma pad_digits: "c \<in> set (pad w n) \<Longrightarrow> is_digit c"
  by (induction w arbitrary: n) (auto simp: is_digit_def)

lemma take_num_pad: "n < 10 ^ w \<Longrightarrow> take_num w (pad w n @ s) = Some (int n, s)"
  by (simp add: take_num_def digits_val_pad)

lemma take_field_pad: "n < 100 \<Longrightarrow> take_field c (c # pad 2 n @ s) = Some (int n, s)"
  using take_num_pad [of n 2 s] by (simp add: take_field_def take_char_def)

lemma take_hour_pad: "n < 100 \<Longrightarrow> take_hour (pad 2 n @ s) = Some (int n, s)"
proof -
  assume "n < 100"
  moreover have "is_digit ((pad 2 n @ s) ! 1)" by (rule pad_digits [of _ 2 n]) (simp add: nth_append nth_mem)
  ultimately show ?thesis using take_num_pad [of n 2 s] by (simp add: take_hour_def)
qed

lemma trim_zeros_pad: "trim_zeros s @ replicate (length s - length (trim_zeros s)) CHR ''0'' = s"
proof -
  have "takeWhile (\<lambda>c. c = CHR ''0'') (rev s) = replicate (length (takeWhile (\<lambda>c. c = CHR ''0'') (rev s))) CHR ''0''"
    by (rule replicate_eqI [symmetric, THEN sym]) (auto dest: set_takeWhileD)
  moreover have "length (takeWhile (\<lambda>c. c = CHR ''0'') (rev s)) = length s - length (trim_zeros s)"
    unfolding trim_zeros_def by (metis add_diff_cancel_right' length_append length_rev takeWhile_dropWhile_id)
  moreover have "s = trim_zeros s @ rev (takeWhile (\<lambda>c. c = CHR ''0'') (rev s))"
    unfolding trim_zeros_def by (metis rev_append rev_rev_ident takeWhile_dropWhile_id)
  ultimately show ?thesis by (metis rev_replicate)
qed

lemma set_trim_zeros: "set (trim_zeros s) \<subseteq> set s"
  unfolding trim_zeros_def by (auto dest: set_dropWhileD)

lemma take_frac_written:
  assumes "n < 10 ^ 9"
  shows "take_frac ((if trim_zeros (pad 9 n) = [] then [] else CHR ''.'' # trim_zeros (pad 9 n)) @ ''Z'') = (int n, ''Z'')"
proof (cases "trim_zeros (pad 9 n) = []")
  case True
  then have "pad 9 n = replicate 9 CHR ''0''" using trim_zeros_pad [of "pad 9 n"] by simp
  then have "digits_val 0 (replicate 9 CHR ''0'') = Some n" using digits_val_pad [OF assms, of 0] by simp
  moreover have "digits_val 0 (replicate 9 CHR ''0'') = Some 0" by code_simp
  ultimately have "n = 0" by simp
  with True show ?thesis by (simp add: take_frac_def)
next
  case False
  let ?f = "trim_zeros (pad 9 n)"
  have dig: "\<forall>c\<in>set ?f. is_digit c" using set_trim_zeros pad_digits by blast
  have Z: "\<not> is_digit CHR ''Z''" by code_simp
  have nine: "nine_digits ?f = pad 9 n"
  proof -
    have "length ?f \<le> 9" using arg_cong [OF trim_zeros_pad [of "pad 9 n"], of length] by simp
    then show ?thesis using trim_zeros_pad [of "pad 9 n"] by (simp add: nine_digits_def)
  qed
  have tw: "takeWhile is_digit (?f @ ''Z'') = ?f" "dropWhile is_digit (?f @ ''Z'') = ''Z''"
    using dig Z by (simp_all add: takeWhile_append2 dropWhile_append2)
  obtain x xs where f: "?f = x # xs" using False by (cases ?f) auto
  then have "is_digit x" using dig by simp
  with tw nine f digits_val_pad [OF assms, of 0] False show ?thesis by (simp add: take_frac_def Let_def)
qed

lemma ParseRFC3339_shape:
  assumes "Y < 10 ^ 4" "M < 100" "D < 100" "h < 100" "mi < 100" "sec < 100"
    and "take_frac fz = (ns, z)" "take_zone z = Some off"
    and "date_ok (int Y) (int M) (int D)" "h < 24" "mi < 60" "sec < 60"
  shows "ParseRFC3339 (pad 4 Y @ CHR ''-'' # pad 2 M @ CHR ''-'' # pad 2 D @ CHR ''T'' #
      pad 2 h @ colon # pad 2 mi @ colon # pad 2 sec @ fz) =
    Some (instant_of (int Y) (int M) (int D) (int h) (int mi) (int sec) ns - off * Second)"
  unfolding ParseRFC3339_def take_num_pad [OF assms(1)]
  using assms(7-)
  by (simp add: take_field_pad [OF assms(2)] take_field_pad [OF assms(3)] take_hour_pad [OF assms(4)]
        take_field_pad [OF assms(5)] take_field_pad [OF assms(6)] take_char_def)

lemma rfc3339_round:
  assumes "0 \<le> t" "t < 3652059 * ns_per_day"
  shows "ParseRFC3339 (FormatRFC3339Nano t) = Some t"
proof -
  obtain y m d where c: "civil (t div ns_per_day) = (y, m, d)" by (cases "civil (t div ns_per_day)") auto
  note ex = civil_exact [OF c]
  have y: "1 \<le> y" "y \<le> 9999" using time_Year_bounds [of t] assms ex(3) by (auto simp: time_Year_def)
  have leap: "m \<le> 12 \<Longrightarrow> 1 \<le> m \<Longrightarrow> month_len (is_leap y) m \<le> 31"
  proof -
    assume "m \<le> 12" "1 \<le> m"
    then have "nat (m - 1) < length (days_in_months (is_leap y))" by (simp add: days_in_months_def)
    then have "month_len (is_leap y) m \<in> set (days_in_months (is_leap y))" unfolding month_len_def by (rule nth_mem)
    then show ?thesis by (auto simp: days_in_months_def)
  qed
  have md: "1 \<le> m" "m \<le> 12" "1 \<le> d" "d \<le> 31" using ex(1) leap by (auto simp: date_ok_def)
  define s where "s = t mod ns_per_day div Second"
  have s: "0 \<le> s" "s < 86400" by (simp_all add: s_def ns_per_day_def Second_def)
  have hms: "0 \<le> s div 3600" "s div 3600 < 24" "0 \<le> s div 60 mod 60" "s div 60 mod 60 < 60" "0 \<le> s mod 60" "s mod 60 < 60"
    using s by auto
  have ns: "nat (t mod Second) < 10 ^ 9" by (simp add: Second_def)
  have split: "t = (t div ns_per_day) * ns_per_day + s * Second + t mod Second"
  proof -
    have "t mod ns_per_day mod Second = t mod Second" by (simp add: ns_per_day_def Second_def mod_mod_cancel)
    then show ?thesis unfolding s_def by (metis add.assoc div_mult_mod_eq)
  qed
  have sec: "s div 3600 * 3600 + s div 60 mod 60 * 60 + s mod 60 = s"
  proof -
    have "s div 3600 = s div 60 div 60" using zdiv_zmult2_eq [of 60 s 60] by simp
    then show ?thesis using div_mult_mod_eq [of s 60] div_mult_mod_eq [of "s div 60" 60] by linarith
  qed
  have inst: "instant_of y m d (s div 3600) (s div 60 mod 60) (s mod 60) (t mod Second) = t"
    unfolding instant_of_def sec ex(2) [symmetric] using split by simp
  have shape: "FormatRFC3339Nano t = pad 4 (nat y) @ CHR ''-'' # pad 2 (nat m) @ CHR ''-'' # pad 2 (nat d) @ CHR ''T'' #
      pad 2 (nat (s div 3600)) @ colon # pad 2 (nat (s div 60 mod 60)) @ colon # pad 2 (nat (s mod 60)) @
      ((if trim_zeros (pad 9 (nat (t mod Second))) = [] then [] else CHR ''.'' # trim_zeros (pad 9 (nat (t mod Second)))) @ ''Z'')"
    using y by (simp add: FormatRFC3339Nano_def format_seconds_def c pad_year_def s_def [symmetric] Let_def colon_def)
  have ok: "date_ok y m d" by (rule ex(1))
  have nums: "nat y < 10 ^ 4" "nat m < 100" "nat d < 100" "nat (s div 3600) < 100" "nat (s div 60 mod 60) < 100" "nat (s mod 60) < 100"
    using y md hms by auto
  have zone: "take_zone ''Z'' = Some 0" by (simp add: take_zone_def)
  have back_int: "int (nat y) = y" "int (nat m) = m" "int (nat d) = d" "int (nat (s div 3600)) = s div 3600"
    "int (nat (s div 60 mod 60)) = s div 60 mod 60" "int (nat (s mod 60)) = s mod 60" "int (nat (t mod Second)) = t mod Second"
    using y md hms by (simp_all add: Second_def)
  have "ParseRFC3339 (FormatRFC3339Nano t) =
      Some (instant_of (int (nat y)) (int (nat m)) (int (nat d)) (int (nat (s div 3600))) (int (nat (s div 60 mod 60)))
        (int (nat (s mod 60))) (int (nat (t mod Second))) - 0 * Second)"
    unfolding shape
    by (rule ParseRFC3339_shape [OF nums take_frac_written [OF ns] zone]) (use ok hms back_int in simp_all)
  then show ?thesis unfolding back_int inst by simp
qed

end
