(* ===== verification/Dynamo_Store.thy ===== *)
theory Dynamo_Store
  imports Checkpoint Go_Time
begin

text \<open>
  The DynamoDB-backed checkpointer (\<^verbatim>\<open>internal/checkpoint/dynamodb/dynamodb.go\<close>): one
  item per key, read consistently and written back under a condition on its version
  attribute. The client and the RFC 3339 rendering of instants are arguments; the locale
  \<open>dynamo_table\<close> states the conditional-write law, that other writers are fenced and bump
  the version, and that the rendering of a four-digit year reads back. Under these laws the
  store keeps the logged checkpointer contract; the in-memory table at the end provides them
  with the RFC 3339 text of \<open>Go_Time\<close>.
\<close>

datatype av = AVS string | AVN string

type_synonym item = "string \<rightharpoonup> av"

datatype ddb_cond = NotExistsPk | VersionEq int | NotExistsVersion

datatype put_error = ConditionalCheckFailed | PutOther

record 'w ddb_api =
  ddb_GetItem :: "'w \<Rightarrow> string \<Rightarrow> (unit + item option) \<times> 'w"
  ddb_PutItem :: "'w \<Rightarrow> string \<Rightarrow> item \<Rightarrow> ddb_cond \<Rightarrow> put_error option \<times> 'w"

record time_codec =
  tc_Format :: "instant \<Rightarrow> string"
  tc_Parse :: "string \<Rightarrow> instant option"

definition ddb_retries :: nat where "ddb_retries = 5"

definition pk :: "string \<Rightarrow> string \<Rightarrow> string" where
  "pk pre x = pre @ x"

definition nstr :: "int \<Rightarrow> av" where "nstr n = AVN (FormatInt n)"

definition sstr :: "string \<Rightarrow> av" where "sstr v = AVS v"

definition numAttr :: "item \<Rightarrow> string \<Rightarrow> int option" where
  "numAttr m k = (case m k of Some (AVN v) \<Rightarrow> ParseInt v | _ \<Rightarrow> None)"

definition strAttr :: "item \<Rightarrow> string \<Rightarrow> string option" where
  "strAttr m k = (case m k of Some (AVS v) \<Rightarrow> Some v | _ \<Rightarrow> None)"

definition ddb_encode :: "time_codec \<Rightarrow> string \<Rightarrow> watermark \<Rightarrow> int \<Rightarrow> item" where
  "ddb_encode tc p w version =
     [''pk'' \<mapsto> sstr p, ''time'' \<mapsto> sstr (tc_Format tc (wm_Time w)), ''cursor'' \<mapsto> sstr (wm_Cursor w),
      ''epoch'' \<mapsto> nstr (wm_Epoch w), ''version'' \<mapsto> nstr version]"

definition ddb_decode :: "time_codec \<Rightarrow> item \<Rightarrow> (watermark \<times> int) option" where
  "ddb_decode tc item =
     (case strAttr item ''time'' of
        None \<Rightarrow> None
      | Some ts \<Rightarrow>
          (case tc_Parse tc ts of
             None \<Rightarrow> None
           | Some tm \<Rightarrow>
               (case numAttr item ''epoch'' of
                  None \<Rightarrow> None
                | Some ep \<Rightarrow>
                    (case (case item ''version'' of
                             None \<Rightarrow> Some 0
                           | Some (AVN v) \<Rightarrow> ParseInt v
                           | Some (AVS v) \<Rightarrow> None) of
                       None \<Rightarrow> None
                     | Some ver \<Rightarrow>
                         Some (\<lparr>wm_Time = tm,
                                wm_Cursor = (case strAttr item ''cursor'' of None \<Rightarrow> '''' | Some c \<Rightarrow> c),
                                wm_Epoch = ep\<rparr>, ver)))))"

definition ddb_Load ::
  "'w ddb_api \<Rightarrow> time_codec \<Rightarrow> string \<Rightarrow> 'w \<Rightarrow> checkpoint_key \<Rightarrow> (cp_error + watermark) \<times> 'w" where
  "ddb_Load api tc pre s key =
     (case ddb_GetItem api s (pk pre (key_String key)) of
        (Inl _, s1) \<Rightarrow> (Inl (BackendError ''get''), s1)
      | (Inr None, s1) \<Rightarrow> (Inr zero_watermark, s1)
      | (Inr (Some it), s1) \<Rightarrow>
          (case ddb_decode tc it of
             None \<Rightarrow> (Inl (BackendError ''decode''), s1)
           | Some (wm, _) \<Rightarrow> (Inr wm, s1)))"

text \<open>What the item read says: the stored watermark, its version and whether the attribute is there.\<close>

definition ddb_stored :: "time_codec \<Rightarrow> item option \<Rightarrow> (watermark \<times> int \<times> bool) option" where
  "ddb_stored tc it =
     (case it of
        None \<Rightarrow> Some (zero_watermark, 0, False)
      | Some i \<Rightarrow>
          (case ddb_decode tc i of
             None \<Rightarrow> None
           | Some (wm, ver) \<Rightarrow> Some (wm, ver, i ''version'' \<noteq> None)))"

definition ddb_condition :: "item option \<Rightarrow> int \<Rightarrow> bool \<Rightarrow> ddb_cond" where
  "ddb_condition it version versionPresent =
     (if it = None then NotExistsPk
      else if versionPresent then VersionEq version
      else NotExistsVersion)"

fun ddb_save_loop ::
  "'w ddb_api \<Rightarrow> time_codec \<Rightarrow> string \<Rightarrow> checkpoint_key \<Rightarrow> watermark \<Rightarrow> nat \<Rightarrow> 'w
   \<Rightarrow> cp_error option \<times> 'w" where
  "ddb_save_loop api tc pre key w 0 s = (Some (BackendError ''exhausted''), s)"
| "ddb_save_loop api tc pre key w (Suc n) s =
     (case ddb_GetItem api s (pk pre (key_String key)) of
        (Inl _, s1) \<Rightarrow> (Some (BackendError ''get''), s1)
      | (Inr it, s1) \<Rightarrow>
          (case ddb_stored tc it of
             None \<Rightarrow> (Some (BackendError ''decode''), s1)
           | Some (stored, version, present) \<Rightarrow>
               (case CheckMonotonic stored w of
                  Some e \<Rightarrow> (Some e, s1)
                | None \<Rightarrow>
                    (case ddb_PutItem api s1 (pk pre (key_String key))
                            (ddb_encode tc (pk pre (key_String key)) w (wrap64 (version + 1)))
                            (ddb_condition it version present) of
                       (None, s2) \<Rightarrow> (None, s2)
                     | (Some ConditionalCheckFailed, s2) \<Rightarrow> ddb_save_loop api tc pre key w n s2
                     | (Some PutOther, s2) \<Rightarrow> (Some (BackendError ''put''), s2)))))"

definition ddb_Save ::
  "'w ddb_api \<Rightarrow> time_codec \<Rightarrow> string \<Rightarrow> 'w \<Rightarrow> checkpoint_key \<Rightarrow> watermark \<Rightarrow> cp_error option \<times> 'w" where
  "ddb_Save api tc pre s key w =
     (case CheckEncodable w of
        Some e \<Rightarrow> (Some e, s)
      | None \<Rightarrow> ddb_save_loop api tc pre key w (Suc ddb_retries) s)"

definition ddb_ops :: "'w ddb_api \<Rightarrow> time_codec \<Rightarrow> string \<Rightarrow> 'w checkpointer_ops" where
  "ddb_ops api tc pre = \<lparr>cp_Load = ddb_Load api tc pre, cp_Save = ddb_Save api tc pre\<rparr>"

text \<open>The watermark an item holds; an absent or unreadable item counts as the zero watermark.\<close>

definition item_watermark :: "time_codec \<Rightarrow> item option \<Rightarrow> watermark" where
  "item_watermark tc it = (case ddb_stored tc it of None \<Rightarrow> zero_watermark | Some (wm, _) \<Rightarrow> wm)"

text \<open>The condition of a put, on the item current at its commit point.\<close>

fun cond_holds :: "ddb_cond \<Rightarrow> item option \<Rightarrow> bool" where
  "cond_holds NotExistsPk it = (it = None)"
| "cond_holds (VersionEq v) it = (case it of None \<Rightarrow> False | Some i \<Rightarrow> numAttr i ''version'' = Some v)"
| "cond_holds NotExistsVersion it = (case it of None \<Rightarrow> True | Some i \<Rightarrow> i ''version'' = None)"

text \<open>
  The log of an item, oldest first. The rank of an item is its version, an item without
  one (seeded by hand) ranks below all; other writers bump it and are fenced.
\<close>

definition item_rank :: "item \<Rightarrow> int" where
  "item_rank i = (case numAttr i ''version'' of None \<Rightarrow> - (2 ^ 63) - 1 | Some v \<Rightarrow> v)"

inductive ddb_grows :: "time_codec \<Rightarrow> item list \<Rightarrow> item list \<Rightarrow> bool" for tc l where
  ddb_grows_refl: "ddb_grows tc l l"
| ddb_grows_step: "ddb_grows tc l m \<Longrightarrow> wm_le (item_watermark tc (last_opt m)) (item_watermark tc (Some i)) \<Longrightarrow>
    \<forall>j\<in>set m. item_rank j < item_rank i \<Longrightarrow> ddb_grows tc l (m @ [i])"

definition ddb_log_ok :: "time_codec \<Rightarrow> item list \<Rightarrow> bool" where
  "ddb_log_ok tc l \<longleftrightarrow> sorted_wrt (\<lambda>i j. item_rank i < item_rank j) l \<and>
     wm_chain (map (\<lambda>i. item_watermark tc (Some i)) l)"

definition ddb_hist :: "('w \<Rightarrow> string \<Rightarrow> item list) \<Rightarrow> time_codec \<Rightarrow> string \<Rightarrow> 'w \<Rightarrow> string \<Rightarrow> watermark list" where
  "ddb_hist item_log tc pre s x = map (\<lambda>i. item_watermark tc (Some i)) (item_log s (pk pre x))"

definition ddb_landed :: "time_codec \<Rightarrow> item list \<Rightarrow> item \<Rightarrow> ddb_cond \<Rightarrow> item list \<Rightarrow> bool" where
  "ddb_landed tc l i c l' \<longleftrightarrow>
     (\<exists>m. ddb_grows tc l m \<and> cond_holds c (last_opt m) \<and> l' = m @ [i])"

section \<open>Items\<close>

lemma ddb_decode_encode:
  assumes "tc_Parse tc (tc_Format tc (wm_Time w)) = Some (wm_Time w)" "typed_wm w" "in_int64 v"
  shows "ddb_decode tc (ddb_encode tc p w v) = Some (w, v)"
  using assms
  by (simp add: ddb_decode_def ddb_encode_def strAttr_def numAttr_def sstr_def nstr_def
      typed_wm_def ParseInt_FormatInt)

lemma item_watermark_simps [simp]:
  "item_watermark tc None = zero_watermark"
  "ddb_stored tc it = Some (wm, v, b) \<Longrightarrow> item_watermark tc it = wm"
  by (simp_all add: item_watermark_def ddb_stored_def)

section \<open>Logs\<close>

lemma last_wm_items: "last_wm (map (\<lambda>i. item_watermark tc (Some i)) l) = item_watermark tc (last_opt l)"
  by (cases l rule: rev_cases) simp_all

lemma ddb_log_ok_snoc:
  "ddb_log_ok tc (l @ [i]) \<longleftrightarrow> ddb_log_ok tc l \<and> (\<forall>j\<in>set l. item_rank j < item_rank i) \<and>
     wm_le (item_watermark tc (last_opt l)) (item_watermark tc (Some i))"
  by (auto simp: ddb_log_ok_def wm_chain_snoc last_wm_items sorted_wrt_append)

lemma ddb_grows_prefix: "ddb_grows tc l m \<Longrightarrow> prefix l m"
  by (induction rule: ddb_grows.induct) (auto simp: prefix_def)

lemma ddb_grows_log_ok: "ddb_grows tc l m \<Longrightarrow> ddb_log_ok tc l \<Longrightarrow> ddb_log_ok tc m"
  by (induction rule: ddb_grows.induct) (auto simp: ddb_log_ok_snoc)

lemma ddb_rank_last:
  assumes "ddb_log_ok tc l" "last_opt l = Some i" "j \<in> set l"
  shows "item_rank j \<le> item_rank i"
  using assms by (cases l rule: rev_cases) (auto simp: ddb_log_ok_snoc)

lemma ddb_stored_rank:
  assumes "ddb_stored tc (Some i) = Some (stored, v, b)"
  shows "in_int64 v" "b \<longleftrightarrow> i ''version'' \<noteq> None"
    and "b \<Longrightarrow> item_rank i = v" "\<not> b \<Longrightarrow> v = 0 \<and> item_rank i = - (2 ^ 63) - 1"
  using assms ParseInt_range
  by (auto simp: ddb_stored_def ddb_decode_def item_rank_def numAttr_def in_int64_def
      split: option.splits av.splits)

text \<open>
  The condition sent with a put pins the log to the one that was read: when it holds at
  the commit point, the fence was checked against the current watermark.
\<close>

lemma condition_pins:
  assumes ok: "ddb_log_ok tc m" and pre: "prefix l m"
    and st: "ddb_stored tc (last_opt l) = Some (stored, v, b)"
    and cond: "cond_holds (ddb_condition (last_opt l) v b) (last_opt m)"
  shows "m = l"
proof (cases "last_opt l")
  case None
  with cond show ?thesis by (simp add: ddb_condition_def)
next
  case (Some i)
  from pre obtain r where m: "m = l @ r" by (auto simp: prefix_def)
  have "r = []"
  proof (rule ccontr)
    assume "r \<noteq> []"
    then have j: "last_opt m = Some (last r)" "last r \<in> set r" using m by (auto simp: last_opt_def)
    have lt: "item_rank i < item_rank (last r)"
      using ok m j(2) last_opt_Some_in [OF Some] by (auto simp: ddb_log_ok_def sorted_wrt_append)
    note rk = ddb_stored_rank [OF st [unfolded Some]]
    show False
    proof (cases b)
      case True
      with cond Some j(1) have "numAttr (last r) ''version'' = Some v" by (simp add: ddb_condition_def)
      with lt rk(3) [OF True] show False by (simp add: item_rank_def)
    next
      case False
      with cond Some j(1) have "numAttr (last r) ''version'' = None"
        by (simp add: ddb_condition_def numAttr_def)
      with lt rk(4) [OF False] show False by (simp add: item_rank_def)
    qed
  qed
  with m show ?thesis by simp
qed

section \<open>The table's laws and the contract\<close>

locale dynamo_table =
  fixes api :: "'w ddb_api"
    and item_log :: "'w \<Rightarrow> string \<Rightarrow> item list"
    and tc :: time_codec
    and pre :: string
  assumes time_round: "CheckEncodable w = None \<Longrightarrow> tc_Parse tc (tc_Format tc (wm_Time w)) = Some (wm_Time w)"
    and get_step: "ddb_GetItem api s p = (g, s1) \<Longrightarrow> ddb_grows tc (item_log s x) (item_log s1 x)"
    and get_ok: "ddb_GetItem api s p = (Inr it, s1) \<Longrightarrow> it = last_opt (item_log s1 p)"
    and get_room: "ddb_GetItem api s p = (Inr (Some i), s1) \<Longrightarrow> item_rank i < 2 ^ 63 - 1"
    and put_other_keys: "ddb_PutItem api s p i c = (r, s1) \<Longrightarrow> x \<noteq> p \<Longrightarrow>
      ddb_grows tc (item_log s x) (item_log s1 x)"
    and put_ok: "ddb_PutItem api s p i c = (None, s1) \<Longrightarrow>
      ddb_landed tc (item_log s p) i c (item_log s1 p)"
    and put_refused: "ddb_PutItem api s p i c = (Some e, s1) \<Longrightarrow>
      ddb_grows tc (item_log s p) (item_log s1 p) \<or>
      e = PutOther \<and> ddb_landed tc (item_log s p) i c (item_log s1 p)"
begin

definition table_ok :: "'w \<Rightarrow> bool" where
  "table_ok s \<longleftrightarrow> (\<forall>x. ddb_log_ok tc (item_log s x))"

definition log_step :: "'w \<Rightarrow> 'w \<Rightarrow> bool" where
  "log_step s s' \<longleftrightarrow> table_ok s' \<and> (\<forall>x. prefix (item_log s x) (item_log s' x))"

lemma log_step_trans: "log_step s s1 \<Longrightarrow> log_step s1 s2 \<Longrightarrow> log_step s s2"
  unfolding log_step_def by (meson prefix_order.trans)

lemma log_step_get: "table_ok s \<Longrightarrow> ddb_GetItem api s p = (g, s1) \<Longrightarrow> log_step s s1"
  unfolding log_step_def table_ok_def
  using get_step ddb_grows_log_ok ddb_grows_prefix by blast

text \<open>An item that goes in under its condition extends the log read, at the next rank.\<close>

lemma landed_effect:
  assumes w: "CheckEncodable w = None" "typed_wm w" and ok: "ddb_log_ok tc l"
    and st: "ddb_stored tc (last_opt l) = Some (stored, v, b)" "CheckMonotonic stored w = None"
    and room: "\<And>i. last_opt l = Some i \<Longrightarrow> item_rank i < 2 ^ 63 - 1"
    and landed: "ddb_landed tc l (ddb_encode tc p w (wrap64 (v + 1))) (ddb_condition (last_opt l) v b) l'"
  shows "ddb_log_ok tc l' \<and> prefix l l' \<and> item_watermark tc (last_opt l') = w"
proof -
  let ?i = "ddb_encode tc p w (wrap64 (v + 1))"
  have new: "item_watermark tc (Some ?i) = w"
    by (simp add: item_watermark_def ddb_stored_def ddb_decode_encode [OF time_round [OF w(1)] w(2) in_int64_wrap64])
  have rank: "item_rank ?i = wrap64 (v + 1)"
    by (simp add: item_rank_def ddb_encode_def numAttr_def nstr_def ParseInt_FormatInt [OF in_int64_wrap64])
  from landed obtain m where m: "ddb_grows tc l m" "cond_holds (ddb_condition (last_opt l) v b) (last_opt m)"
      "l' = m @ [?i]" unfolding ddb_landed_def by blast
  have "m = l" by (rule condition_pins [OF ddb_grows_log_ok [OF m(1) ok] ddb_grows_prefix [OF m(1)] st(1) m(2)])
  moreover have "item_rank j < item_rank ?i" if "j \<in> set l" for j
  proof -
    have i: "last_opt l = Some (last l)" using that by (auto simp: last_opt_def)
    note rk = ddb_stored_rank [OF st(1) [unfolded i]]
    have "item_rank (last l) < wrap64 (v + 1)"
      using rk room [OF i] by (cases b) (auto simp: in_int64_def wrap64_id)
    with ddb_rank_last [OF ok i that] rank show ?thesis by simp
  qed
  moreover have "wm_le (item_watermark tc (last_opt l)) w"
    using st CheckMonotonic_wm_le by simp
  ultimately show ?thesis using m(3) ok new by (simp add: ddb_log_ok_snoc)
qed

lemma put_post:
  assumes w: "CheckEncodable w = None" "typed_wm w" and ok: "table_ok s1"
    and it: "it = last_opt (item_log s1 p)" "\<And>i. it = Some i \<Longrightarrow> item_rank i < 2 ^ 63 - 1"
    and st: "ddb_stored tc it = Some (stored, v, b)" "CheckMonotonic stored w = None"
    and put: "ddb_PutItem api s1 p (ddb_encode tc p w (wrap64 (v + 1))) (ddb_condition it v b) = (e, s2)"
  shows "log_step s1 s2 \<and> (e = None \<longrightarrow> item_watermark tc (last_opt (item_log s2 p)) = w)"
proof -
  have ok': "ddb_log_ok tc (item_log s1 x)" for x using ok by (simp add: table_ok_def)
  note eff = landed_effect [OF w ok' st [unfolded it(1)] it(2) [unfolded it(1)]]
  have other: "ddb_log_ok tc (item_log s2 x) \<and> prefix (item_log s1 x) (item_log s2 x)" if "x \<noteq> p" for x
    using put_other_keys [OF put that] ddb_grows_log_ok ok' ddb_grows_prefix by blast
  have "ddb_log_ok tc (item_log s2 p) \<and> prefix (item_log s1 p) (item_log s2 p) \<and>
      (e = None \<longrightarrow> item_watermark tc (last_opt (item_log s2 p)) = w)"
  proof (cases e)
    case None
    with eff put_ok [OF put [unfolded None]] it(1) show ?thesis by simp
  next
    case (Some err)
    with put_refused [OF put [unfolded Some]] eff it(1) ddb_grows_log_ok ok' ddb_grows_prefix
    show ?thesis by blast
  qed
  with other show ?thesis unfolding log_step_def table_ok_def by metis
qed

definition save_post :: "string \<Rightarrow> watermark \<Rightarrow> 'w \<Rightarrow> cp_error option \<Rightarrow> 'w \<Rightarrow> bool" where
  "save_post p w s q s' \<longleftrightarrow> log_step s s' \<and>
     (q = None \<longrightarrow> item_watermark tc (last_opt (item_log s' p)) = w) \<and>
     (q = Some StaleWrite \<longrightarrow> CheckMonotonic (item_watermark tc (last_opt (item_log s' p))) w = Some StaleWrite)"

lemma save_post_step: "log_step s s1 \<Longrightarrow> save_post p w s1 q s' \<Longrightarrow> save_post p w s q s'"
  unfolding save_post_def using log_step_trans by blast

lemma save_loop_post:
  assumes "CheckEncodable w = None" "typed_wm w"
  shows "table_ok s \<Longrightarrow> ddb_save_loop api tc pre key w n s = (q, s') \<Longrightarrow>
    save_post (pk pre (key_String key)) w s q s'"
proof (induction n arbitrary: s)
  case 0
  then show ?case by (auto simp: save_post_def log_step_def)
next
  case (Suc n)
  let ?p = "pk pre (key_String key)"
  obtain g s1 where get: "ddb_GetItem api s ?p = (g, s1)" by fastforce
  note s1 = log_step_get [OF Suc.prems(1) get]
  consider (err) u where "g = Inl u" | (bad) it where "g = Inr it" "ddb_stored tc it = None"
    | (stale) it stored v b e where "g = Inr it" "ddb_stored tc it = Some (stored, v, b)" "CheckMonotonic stored w = Some e"
    | (put) it stored v b where "g = Inr it" "ddb_stored tc it = Some (stored, v, b)" "CheckMonotonic stored w = None"
    by (cases g; metis option.exhaust prod_cases3)
  then show ?case
  proof cases
    case err
    with Suc.prems get s1 show ?thesis by (auto simp: save_post_def)
  next
    case bad
    with Suc.prems get s1 show ?thesis by (auto simp: save_post_def)
  next
    case stale
    then have "it = last_opt (item_log s1 ?p)" using get_ok get by blast
    with stale Suc.prems get s1 CheckMonotonic_Some [OF stale(3)] show ?thesis
      by (auto simp: save_post_def)
  next
    case put
    have it: "it = last_opt (item_log s1 ?p)" "\<And>i. it = Some i \<Longrightarrow> item_rank i < 2 ^ 63 - 1"
      using get_ok get_room get put(1) by blast+
    obtain e s2 where p: "ddb_PutItem api s1 ?p (ddb_encode tc ?p w (wrap64 (v + 1)))
        (ddb_condition it v b) = (e, s2)" by fastforce
    have ok1: "table_ok s1" using s1 by (simp add: log_step_def)
    note post = put_post [OF assms ok1 it put(2,3) p]
    have loop: "ddb_save_loop api tc pre key w (Suc n) s =
        (case e of None \<Rightarrow> (None, s2) | Some ConditionalCheckFailed \<Rightarrow> ddb_save_loop api tc pre key w n s2
         | Some PutOther \<Rightarrow> (Some (BackendError ''put''), s2))"
      using get put p by (auto split: option.splits put_error.splits)
    show ?thesis
    proof (cases "e = Some ConditionalCheckFailed")
      case True
      with Suc.prems loop have "ddb_save_loop api tc pre key w n s2 = (q, s')" by simp
      with Suc.IH [of s2] post have "save_post ?p w s2 q s'" by (simp add: log_step_def)
      with save_post_step post s1 show ?thesis by blast
    next
      case False
      with Suc.prems loop post have "save_post ?p w s1 q s'"
        by (cases e) (auto simp: save_post_def split: put_error.splits)
      with save_post_step s1 show ?thesis by blast
    qed
  qed
qed

lemma ddb_Save_post:
  assumes "typed_wm w" "table_ok s" "ddb_Save api tc pre s key w = (q, s')"
  shows "save_post (pk pre (key_String key)) w s q s'"
proof (cases "CheckEncodable w")
  case None
  with assms save_loop_post [OF None assms(1,2)] show ?thesis
    by (simp add: ddb_Save_def del: ddb_save_loop.simps)
next
  case (Some e)
  then have "e = Unencodable" by (auto simp: CheckEncodable_def Let_def split: if_splits)
  with Some assms show ?thesis by (auto simp: ddb_Save_def save_post_def log_step_def)
qed

lemma last_wm_hist:
  "last_wm (ddb_hist item_log tc pre s x) = item_watermark tc (last_opt (item_log s (pk pre x)))"
  by (simp add: ddb_hist_def last_wm_items)

lemma log_step_hist: "log_step s s' \<Longrightarrow> prefix (ddb_hist item_log tc pre s x) (ddb_hist item_log tc pre s' x)"
  by (simp add: log_step_def ddb_hist_def map_mono_prefix)

end

sublocale dynamo_table \<subseteq> logged_checkpointer "ddb_ops api tc pre" "ddb_hist item_log tc pre"
    "\<lambda>s. \<forall>x. ddb_log_ok tc (item_log s x)"
proof (unfold table_ok_def [symmetric], unfold_locales)
  fix s x
  assume "table_ok s"
  then show "wm_chain (ddb_hist item_log tc pre s x)" by (simp add: table_ok_def ddb_log_ok_def ddb_hist_def)
next
  fix s k g s' x
  assume "table_ok s" "cp_Load (ddb_ops api tc pre) s k = (g, s')"
  then have "log_step s s'" using log_step_get
    by (auto simp: ddb_ops_def ddb_Load_def split: prod.splits sum.splits option.splits)
  then show "table_ok s' \<and> prefix (ddb_hist item_log tc pre s x) (ddb_hist item_log tc pre s' x)"
    using log_step_hist by (simp add: log_step_def)
next
  fix s k w s'
  assume "cp_Load (ddb_ops api tc pre) s k = (Inr w, s')"
  then show "w = last_wm (ddb_hist item_log tc pre s' (key_String k))"
    using get_ok [of s "pk pre (key_String k)" _ s'] unfolding last_wm_hist
    by (auto simp: ddb_ops_def ddb_Load_def item_watermark_def ddb_stored_def
        split: prod.splits sum.splits option.splits)
next
  fix s k w q s' x
  assume "table_ok s" "typed_wm w" "cp_Save (ddb_ops api tc pre) s k w = (q, s')"
  then have "log_step s s'" using ddb_Save_post by (auto simp: ddb_ops_def save_post_def)
  then show "table_ok s' \<and> prefix (ddb_hist item_log tc pre s x) (ddb_hist item_log tc pre s' x)"
    using log_step_hist by (simp add: log_step_def)
next
  fix s k w s'
  assume "table_ok s" "typed_wm w" "cp_Save (ddb_ops api tc pre) s k w = (None, s')"
  then show "last_wm (ddb_hist item_log tc pre s' (key_String k)) = w"
    using ddb_Save_post unfolding last_wm_hist by (auto simp: ddb_ops_def save_post_def)
next
  fix s k w s'
  assume "table_ok s" "typed_wm w" "cp_Save (ddb_ops api tc pre) s k w = (Some StaleWrite, s')"
  then have post: "save_post (pk pre (key_String k)) w s (Some StaleWrite) s'"
    using ddb_Save_post by (auto simp: ddb_ops_def)
  then have "prefix (ddb_hist item_log tc pre s (key_String k)) (ddb_hist item_log tc pre s' (key_String k))"
    using log_step_hist by (simp add: save_post_def)
  with post show "\<exists>p. prefix (ddb_hist item_log tc pre s (key_String k)) p \<and>
      prefix p (ddb_hist item_log tc pre s' (key_String k)) \<and> CheckMonotonic (last_wm p) w = Some StaleWrite"
    by (auto simp: save_post_def last_wm_hist intro!: exI [of _ "ddb_hist item_log tc pre s' (key_String k)"])
qed

section \<open>An in-memory table\<close>

text \<open>
  A table that keeps the laws: the log of every item and a script of the fenced writes of
  other replicas, one made before each call. An item whose version has no successor in an
  int64 is not served.
\<close>

record mem_table =
  mt_log :: "string \<Rightarrow> item list"
  mt_script :: "(string \<times> watermark) option list"

definition rfc_codec :: time_codec where
  "rfc_codec = \<lparr>tc_Format = FormatRFC3339Nano, tc_Parse = ParseRFC3339\<rparr>"

definition mt_rival :: "item list \<Rightarrow> string \<Rightarrow> watermark \<Rightarrow> item list" where
  "mt_rival l p w =
     (case ddb_stored rfc_codec (last_opt l) of
        None \<Rightarrow> l
      | Some (stored, v, b) \<Rightarrow>
          (if CheckEncodable w = None \<and> typed_wm w \<and> CheckMonotonic stored w = None \<and>
              (\<forall>i\<in>set l. item_rank i < wrap64 (v + 1))
           then l @ [ddb_encode rfc_codec p w (wrap64 (v + 1))] else l))"

definition mt_interfere :: "mem_table \<Rightarrow> mem_table" where
  "mt_interfere s =
     (case mt_script s of
        [] \<Rightarrow> s
      | None # xs \<Rightarrow> s\<lparr>mt_script := xs\<rparr>
      | Some (p, w) # xs \<Rightarrow> s\<lparr>mt_script := xs, mt_log := (mt_log s)(p := mt_rival (mt_log s p) p w)\<rparr>)"

definition mt_GetItem :: "mem_table \<Rightarrow> string \<Rightarrow> (unit + item option) \<times> mem_table" where
  "mt_GetItem s p =
     (let s1 = mt_interfere s in
      case last_opt (mt_log s1 p) of
        None \<Rightarrow> (Inr None, s1)
      | Some i \<Rightarrow> (if item_rank i < 2 ^ 63 - 1 then (Inr (Some i), s1) else (Inl (), s1)))"

definition mt_PutItem :: "mem_table \<Rightarrow> string \<Rightarrow> item \<Rightarrow> ddb_cond \<Rightarrow> put_error option \<times> mem_table" where
  "mt_PutItem s p i c =
     (let s1 = mt_interfere s in
      if cond_holds c (last_opt (mt_log s1 p))
      then (None, s1\<lparr>mt_log := (mt_log s1)(p := mt_log s1 p @ [i])\<rparr>)
      else (Some ConditionalCheckFailed, s1))"

definition mt_api :: "mem_table ddb_api" where
  "mt_api = \<lparr>ddb_GetItem = mt_GetItem, ddb_PutItem = mt_PutItem\<rparr>"

lemma rfc_codec_round:
  "CheckEncodable w = None \<Longrightarrow> tc_Parse rfc_codec (tc_Format rfc_codec (wm_Time w)) = Some (wm_Time w)"
  by (simp add: rfc_codec_def CheckEncodable_None_iff rfc3339_round)

lemma mt_rival_grows: "ddb_grows rfc_codec l (mt_rival l p w)"
proof (cases "mt_rival l p w = l")
  case True
  then show ?thesis using ddb_grows_refl by simp
next
  case False
  then obtain stored v b where st: "ddb_stored rfc_codec (last_opt l) = Some (stored, v, b)"
    and ok: "CheckEncodable w = None" "typed_wm w" "CheckMonotonic stored w = None"
      "\<forall>i\<in>set l. item_rank i < wrap64 (v + 1)"
    and put: "mt_rival l p w = l @ [ddb_encode rfc_codec p w (wrap64 (v + 1))]"
    by (auto simp: mt_rival_def split: option.splits if_splits)
  have "item_watermark rfc_codec (Some (ddb_encode rfc_codec p w (wrap64 (v + 1)))) = w"
    by (simp add: item_watermark_def ddb_stored_def ddb_decode_encode [OF rfc_codec_round [OF ok(1)] ok(2) in_int64_wrap64])
  moreover have "item_rank (ddb_encode rfc_codec p w (wrap64 (v + 1))) = wrap64 (v + 1)"
    by (simp add: item_rank_def ddb_encode_def numAttr_def nstr_def ParseInt_FormatInt [OF in_int64_wrap64])
  ultimately show ?thesis
    unfolding put using ok(4) st CheckMonotonic_wm_le [OF ok(3)]
    by (intro ddb_grows_step ddb_grows_refl) simp_all
qed

lemma mt_interfere_grows: "ddb_grows rfc_codec (mt_log s x) (mt_log (mt_interfere s) x)"
  using mt_rival_grows ddb_grows_refl by (auto simp: mt_interfere_def split: list.splits option.splits)

interpretation mt: dynamo_table mt_api mt_log rfc_codec pre
  for pre :: string
proof
  fix s p g s1 x
  assume "ddb_GetItem mt_api s p = (g, s1)"
  then show "ddb_grows rfc_codec (mt_log s x) (mt_log s1 x)"
    using mt_interfere_grows [of s x]
    by (auto simp: mt_api_def mt_GetItem_def Let_def split: option.splits if_splits)
next
  fix s p it s1
  assume "ddb_GetItem mt_api s p = (Inr it, s1)"
  then show "it = last_opt (mt_log s1 p)"
    by (auto simp: mt_api_def mt_GetItem_def Let_def split: option.splits if_splits)
next
  fix s p i s1
  assume "ddb_GetItem mt_api s p = (Inr (Some i), s1)"
  then show "item_rank i < 2 ^ 63 - 1"
    by (auto simp: mt_api_def mt_GetItem_def Let_def split: option.splits if_splits)
next
  fix s p i c r s1 x
  assume "ddb_PutItem mt_api s p i c = (r, s1)" "x \<noteq> p"
  then show "ddb_grows rfc_codec (mt_log s x) (mt_log s1 x)"
    using mt_interfere_grows [of s x]
    by (auto simp: mt_api_def mt_PutItem_def Let_def split: if_splits)
next
  fix s p i c s1
  assume "ddb_PutItem mt_api s p i c = (None, s1)"
  then show "ddb_landed rfc_codec (mt_log s p) i c (mt_log s1 p)"
    using mt_interfere_grows [of s p]
    by (auto simp: mt_api_def mt_PutItem_def Let_def ddb_landed_def split: if_splits)
next
  fix s p i c e s1
  assume "ddb_PutItem mt_api s p i c = (Some e, s1)"
  then show "ddb_grows rfc_codec (mt_log s p) (mt_log s1 p) \<or>
      e = PutOther \<and> ddb_landed rfc_codec (mt_log s p) i c (mt_log s1 p)"
    using mt_interfere_grows [of s p]
    by (auto simp: mt_api_def mt_PutItem_def Let_def split: if_splits)
qed (rule rfc_codec_round)

context dynamo_table
begin

lemma is_logged: "logged_checkpointer (ddb_ops api tc pre) (ddb_hist item_log tc pre) (\<lambda>s. \<forall>x. ddb_log_ok tc (item_log s x))"
  by (rule logged_checkpointer_axioms)

end

section \<open>Properties\<close>

text \<open>C7: no update of the table is lost. Against any table with conditional writes, and with other
  replicas writing between any two calls, a save keeps the whole history of every key and
  the history only moves forward; a save that reports success has left its watermark as
  the last one of its key, and a save refused as stale met, at some moment during the
  call, a watermark the fence puts above it. A watermark stored this way is read again
  unchanged by the next load that no write precedes.\<close>

theorem ddb_no_lost_update:
  assumes "dynamo_table api item_log tc" "\<forall>x. ddb_log_ok tc (item_log s x)" "typed_wm w"
    and "ddb_Save api tc pre s k w = (q, s')"
  shows "(\<forall>x. ddb_log_ok tc (item_log s' x)) \<and>
    (\<forall>x. prefix (ddb_hist item_log tc pre s x) (ddb_hist item_log tc pre s' x) \<and> wm_chain (ddb_hist item_log tc pre s' x)) \<and>
    (q = None \<longrightarrow> last_wm (ddb_hist item_log tc pre s' (key_String k)) = w) \<and>
    (q = Some StaleWrite \<longrightarrow> (\<exists>p. prefix (ddb_hist item_log tc pre s (key_String k)) p \<and>
       prefix p (ddb_hist item_log tc pre s' (key_String k)) \<and> CheckMonotonic (last_wm p) w = Some StaleWrite)) \<and>
    (\<forall>v u. q = None \<and> ddb_Load api tc pre s' k = (Inr v, u) \<and>
       ddb_hist item_log tc pre u (key_String k) = ddb_hist item_log tc pre s' (key_String k) \<longrightarrow> v = w)"
proof -
  have lc: "logged_checkpointer (ddb_ops api tc pre) (ddb_hist item_log tc pre) (\<lambda>s. \<forall>x. ddb_log_ok tc (item_log s x))"
    by (rule dynamo_table.is_logged [OF assms(1)])
  have save: "cp_Save (ddb_ops api tc pre) s k w = (q, s')" using assms(4) by (simp add: ddb_ops_def)
  have load: "cp_Load (ddb_ops api tc pre) = ddb_Load api tc pre" by (simp add: ddb_ops_def)
  note step = logged_checkpointer.l_save_step [OF lc assms(2,3) save]
  note chain = logged_checkpointer.hist_chain [OF lc, of s']
  have ok: "q = None \<longrightarrow> last_wm (ddb_hist item_log tc pre s' (key_String k)) = w"
    using logged_checkpointer.l_save_ok [OF lc assms(2,3), of k s'] save by blast
  have again: "v = last_wm (ddb_hist item_log tc pre u (key_String k))" if "ddb_Load api tc pre s' k = (Inr v, u)" for v u
    using logged_checkpointer.l_load_ok [OF lc, of s' k v u] step that load by simp
  show ?thesis
    using step chain ok again logged_checkpointer.l_save_stale [OF lc assms(2,3), of k s'] save by metis
qed

theorem ddb_no_lost_update_witness:
  "\<exists>s'. ddb_Save mt_api rfc_codec ''p'' \<lparr>mt_log = (\<lambda>_. []), mt_script = []\<rparr> zero_key (zero_watermark\<lparr>wm_Time := 7\<rparr>) = (None, s') \<and>
     last_wm (ddb_hist mt_log rfc_codec ''p'' s' (key_String zero_key)) = zero_watermark\<lparr>wm_Time := 7\<rparr>"
proof -
  let ?w = "zero_watermark\<lparr>wm_Time := 7\<rparr>"
  have enc: "CheckEncodable ?w = None" by (simp add: CheckEncodable_None_iff ns_per_day_def zero_watermark_def)
  have mono: "CheckMonotonic zero_watermark ?w = None" by (simp add: CheckMonotonic_def zero_watermark_def zero_time_def)
  obtain s' where save: "ddb_Save mt_api rfc_codec ''p'' \<lparr>mt_log = (\<lambda>_. []), mt_script = []\<rparr> zero_key ?w = (None, s')"
    using enc mono
    by (simp add: ddb_Save_def mt_api_def mt_GetItem_def mt_PutItem_def mt_interfere_def ddb_stored_def ddb_condition_def Let_def)
  have ok: "\<forall>x. ddb_log_ok rfc_codec (mt_log \<lparr>mt_log = (\<lambda>_. []), mt_script = []\<rparr> x)" by (simp add: ddb_log_ok_def)
  have "typed_wm ?w" by (simp add: typed_wm_def in_int64_def zero_watermark_def)
  from ddb_no_lost_update [OF mt.dynamo_table_axioms ok this save] save show ?thesis by simp
qed

end
