(* ===== verification/Limiter.thy ===== *)
theory Limiter
  imports Prelude
begin

text \<open>
  The log-line limiter (\<^verbatim>\<open>internal/logging/limiter.go\<close>) that the scheduler and the runner put
  in front of every warning. The clock is an argument of \<open>Allow\<close>; the body under the mutex is
  one step.
\<close>

record limiter =
  lim_last :: "string \<rightharpoonup> instant"
  lim_every :: duration

definition NewLimiter :: "duration \<Rightarrow> limiter" where
  "NewLimiter every = \<lparr>lim_last = Map.empty, lim_every = every\<rparr>"

definition Allow :: "instant \<Rightarrow> string \<Rightarrow> limiter \<Rightarrow> bool \<times> limiter" where
  "Allow now key l =
     (let held = (case lim_last l key of None \<Rightarrow> False | Some prev \<Rightarrow> time_Sub now prev < lim_every l)
      in if held then (False, l) else (True, l\<lparr>lim_last := (lim_last l)(key \<mapsto> now)\<rparr>))"

text \<open>A sequence of calls, and the ones that let a line through.\<close>

fun allow_run :: "(instant \<times> string) list \<Rightarrow> limiter \<Rightarrow> (instant \<times> string) list \<times> limiter" where
  "allow_run [] l = ([], l)"
| "allow_run ((now, key) # calls) l =
     (case Allow now key l of (ok, l1) \<Rightarrow>
        (case allow_run calls l1 of (out, l2) \<Rightarrow> ((if ok then (now, key) # out else out), l2)))"

definition lines_of :: "string \<Rightarrow> (instant \<times> string) list \<Rightarrow> instant list" where
  "lines_of key out = map fst (filter (\<lambda>c. snd c = key) out)"

lemma lines_of_simps [simp]:
  "lines_of key [] = []"
  "lines_of key ((t, k) # out) = (if k = key then t # lines_of key out else lines_of key out)"
  by (simp_all add: lines_of_def)

lemma Allow_every [simp]: "lim_every (snd (Allow now key l)) = lim_every l"
  by (simp add: Allow_def Let_def)

lemma Allow_other: "k \<noteq> key \<Longrightarrow> lim_last (snd (Allow now key l)) k = lim_last l k"
  by (simp add: Allow_def Let_def)

lemma Allow_refused: "\<not> fst (Allow now key l) \<Longrightarrow> snd (Allow now key l) = l"
  by (simp add: Allow_def Let_def split: if_splits)

lemma Allow_granted:
  "fst (Allow now key l) \<Longrightarrow> lim_last (snd (Allow now key l)) key = Some now"
  by (simp add: Allow_def Let_def split: if_splits)

lemma allow_run_spaced:
  "successively (\<lambda>a b. lim_every l \<le> time_Sub b a)
     ((case lim_last l key of None \<Rightarrow> [] | Some p \<Rightarrow> [p]) @ lines_of key (fst (allow_run calls l)))"
proof (induction calls arbitrary: l)
  case Nil
  then show ?case by (simp split: option.split)
next
  case (Cons c calls)
  obtain now k where c: "c = (now, k)" by fastforce
  obtain ok l1 where al: "Allow now k l = (ok, l1)" by fastforce
  obtain out l2 where run: "allow_run calls l1 = (out, l2)" by fastforce
  have ev: "lim_every l1 = lim_every l" using Allow_every [of now k l] al by simp
  note IH = Cons.IH [of l1, unfolded ev run fst_conv]
  show ?case
  proof (cases "k = key \<and> ok")
    case True
    have l1: "lim_last l1 key = Some now" using Allow_granted [of now k l] al True by simp
    have gap: "lim_every l \<le> time_Sub now p" if "lim_last l key = Some p" for p
      using al True that by (auto simp: Allow_def Let_def split: if_splits)
    show ?thesis using True IH l1 gap c al run by (auto split: option.split)
  next
    case False
    then have "lim_last l1 key = lim_last l key"
      using Allow_other [of key k now l] Allow_refused [of now k l] al by (cases "k = key") auto
    with False IH c al run show ?thesis by auto
  qed
qed

section \<open>Properties\<close>

text \<open>Lines are spaced out per key. Over any sequence of calls, whatever the other keys do and
  even if the clock jumps, two consecutive lines let through for a key are at least the
  configured interval apart, and the first line of a key is never held back.\<close>

theorem limiter_spaced:
  "successively (\<lambda>a b. every \<le> time_Sub b a) (lines_of key (fst (allow_run calls (NewLimiter every)))) \<and>
   (lines_of key (fst (allow_run calls (NewLimiter every))) = [] \<longleftrightarrow> key \<notin> snd ` set calls)"
proof -
  have first: "lim_last l key = None \<Longrightarrow> lines_of key (fst (allow_run calls l)) = [] \<longleftrightarrow> key \<notin> snd ` set calls" for l
  proof (induction calls arbitrary: l)
    case (Cons c calls)
    obtain now k where c: "c = (now, k)" by fastforce
    obtain ok l1 where al: "Allow now k l = (ok, l1)" by fastforce
    have "k = key \<Longrightarrow> ok" using al Cons.prems by (auto simp: Allow_def Let_def)
    moreover have "k \<noteq> key \<Longrightarrow> lim_last l1 key = None" using Allow_other [of key k now l] al Cons.prems by simp
    ultimately show ?case using Cons.IH [of l1] c al by (cases "allow_run calls l1"; cases "k = key") simp_all
  qed simp
  show ?thesis
    using allow_run_spaced [of "NewLimiter every" key calls] first [of "NewLimiter every"]
    by (simp add: NewLimiter_def)
qed

end
