(* ===== verification/Otlp_Encode.thy ===== *)
theory Otlp_Encode
  imports Model "HOL-Library.Product_Lexorder"
begin

text \<open>
  The deterministic OTLP encoders (\<^verbatim>\<open>internal/emit/otlp/encode.go\<close>,
  \<^verbatim>\<open>logs_encode.go\<close>). The protobuf messages are records with the fields the encoders
  set; turning a message into bytes (\<^verbatim>\<open>proto.Marshal\<close>, which may fail) and wrapping it as
  field 1 (\<^verbatim>\<open>protowire\<close>) are arguments. What the encoders owe is that the message does not
  depend on the order of the input and that every sample ends up in exactly one place.
\<close>

section \<open>Messages\<close>

record data_point =
  dp_Attributes :: "(string \<times> string) list"
  dp_TimeUnixNano :: nat
  dp_AsDouble :: float64

record metric_msg =
  mm_Name :: string
  mm_Unit :: string
  mm_DataPoints :: "data_point list"

record resource_metrics =
  rm_Resource :: "(string \<times> string) list"
  rm_Scope :: string
  rm_Metrics :: "metric_msg list"

record log_msg =
  lm_TimeUnixNano :: nat
  lm_SeverityText :: string
  lm_Attributes :: "(string \<times> string) list"
  lm_TraceId :: "string option"
  lm_Body :: "string option"

record resource_logs =
  rl_Resource :: "(string \<times> string) list"
  rl_Scope :: string
  rl_LogRecords :: "log_msg list"

text \<open>The protobuf library, as the encoders use it.\<close>

record proto =
  pb_MarshalMetrics :: "resource_metrics \<Rightarrow> string option"
  pb_MarshalLogs :: "resource_logs \<Rightarrow> string option"
  pb_Field1 :: "string \<Rightarrow> string"

definition scopeName :: string where "scopeName = ''genai-otel-bridge''"

text \<open>The conversion \<^verbatim>\<open>uint64(t.UnixNano())\<close>.\<close>

definition to_uint64 :: "int \<Rightarrow> nat" where
  "to_uint64 x = nat (x mod 2 ^ 64)"

section \<open>Metrics\<close>

definition sortedKVs :: "labels \<Rightarrow> (string \<times> string) list" where
  "sortedKVs m = map (\<lambda>k. (k, map_get m k)) (sorted_keys m)"

definition labelKey :: "labels \<Rightarrow> string" where
  "labelKey m =
     (if m = fmempty then ''''
      else concat (map (\<lambda>k. len_prefixed k @ len_prefixed (map_get m k)) (sorted_keys m)))"

definition sample_less :: "sample \<Rightarrow> sample \<Rightarrow> bool" where
  "sample_less a b =
     (if smp_Name a \<noteq> smp_Name b then smp_Name a < smp_Name b
      else if smp_Unit a \<noteq> smp_Unit b then smp_Unit a < smp_Unit b
      else if labelKey (smp_Labels a) \<noteq> labelKey (smp_Labels b) then labelKey (smp_Labels a) < labelKey (smp_Labels b)
      else smp_Timestamp a < smp_Timestamp b)"

datatype encode_error = DeltaTemporality string | NotGauge string | MarshalError

definition data_point_of :: "sample \<Rightarrow> data_point" where
  "data_point_of s = \<lparr>dp_Attributes = sortedKVs (smp_Labels s),
     dp_TimeUnixNano = to_uint64 (UnixNano (smp_Timestamp s)), dp_AsDouble = smp_Value s\<rparr>"

text \<open>The loop over the sorted samples; the metrics so far, the current one last.\<close>

fun group_metrics :: "metric_msg list \<Rightarrow> sample list \<Rightarrow> encode_error + metric_msg list" where
  "group_metrics ms [] = Inr ms"
| "group_metrics ms (s # ss) =
     (if smp_Temporality s = Delta then Inl (DeltaTemporality (smp_Name s))
      else if smp_Kind s \<noteq> Gauge then Inl (NotGauge (smp_Name s))
      else
        (let dp = data_point_of s in
         if ms = [] \<or> mm_Name (last ms) \<noteq> smp_Name s \<or> mm_Unit (last ms) \<noteq> smp_Unit s
         then group_metrics (ms @ [\<lparr>mm_Name = smp_Name s, mm_Unit = smp_Unit s, mm_DataPoints = [dp]\<rparr>]) ss
         else group_metrics (butlast ms @ [(last ms)\<lparr>mm_DataPoints := mm_DataPoints (last ms) @ [dp]\<rparr>]) ss))"

definition encode_metrics :: "labels \<Rightarrow> sample list \<Rightarrow> encode_error + resource_metrics" where
  "encode_metrics identity samples =
     (case group_metrics [] (stable_sort sample_less samples) of
        Inl e \<Rightarrow> Inl e
      | Inr metrics \<Rightarrow> Inr \<lparr>rm_Resource = sortedKVs identity, rm_Scope = scopeName, rm_Metrics = metrics\<rparr>)"

definition Encode :: "proto \<Rightarrow> labels \<Rightarrow> sample list \<Rightarrow> encode_error + string" where
  "Encode pb identity samples =
     (case encode_metrics identity samples of
        Inl e \<Rightarrow> Inl e
      | Inr rm \<Rightarrow>
          (case pb_MarshalMetrics pb rm of
             None \<Rightarrow> Inl MarshalError
           | Some body \<Rightarrow> Inr (pb_Field1 pb body)))"

section \<open>Logs\<close>

definition mergeAttrs :: "labels \<Rightarrow> labels \<Rightarrow> labels" where
  "mergeAttrs a b = a ++\<^sub>f b"

definition log_less :: "log_record \<Rightarrow> log_record \<Rightarrow> bool" where
  "log_less a b =
     (if lr_Timestamp a \<noteq> lr_Timestamp b then lr_Timestamp a < lr_Timestamp b
      else if lr_Severity a \<noteq> lr_Severity b then lr_Severity a < lr_Severity b
      else if labelKey (lr_RecordAttributes a) \<noteq> labelKey (lr_RecordAttributes b)
           then labelKey (lr_RecordAttributes a) < labelKey (lr_RecordAttributes b)
      else lr_TraceID a < lr_TraceID b)"

definition log_msg_of :: "log_record \<Rightarrow> log_msg" where
  "log_msg_of r = \<lparr>lm_TimeUnixNano = to_uint64 (UnixNano (lr_Timestamp r)), lm_SeverityText = lr_Severity r,
     lm_Attributes = sortedKVs (lr_RecordAttributes r),
     lm_TraceId = (if length (lr_TraceID r) = 16 then Some (lr_TraceID r) else None),
     lm_Body = (if lr_Body r \<noteq> '''' then Some (lr_Body r) else None)\<rparr>"

definition log_group :: "log_record list \<Rightarrow> string \<Rightarrow> log_record list" where
  "log_group logs k = filter (\<lambda>lr. labelKey (lr_IndexedAttributes lr) = k) logs"

definition encode_log_group :: "labels \<Rightarrow> log_record list \<Rightarrow> resource_logs" where
  "encode_log_group identity recs =
     \<lparr>rl_Resource = sortedKVs (mergeAttrs identity (lr_IndexedAttributes (hd recs))), rl_Scope = scopeName,
      rl_LogRecords = map log_msg_of (stable_sort log_less recs)\<rparr>"

definition encode_logs :: "labels \<Rightarrow> log_record list \<Rightarrow> resource_logs list" where
  "encode_logs identity logs =
     map (\<lambda>k. encode_log_group identity (log_group logs k))
       (sort (remdups (map (\<lambda>lr. labelKey (lr_IndexedAttributes lr)) logs)))"

fun marshal_logs :: "proto \<Rightarrow> resource_logs list \<Rightarrow> encode_error + string" where
  "marshal_logs pb [] = Inr ''''"
| "marshal_logs pb (rl # rls) =
     (case pb_MarshalLogs pb rl of
        None \<Rightarrow> Inl MarshalError
      | Some body \<Rightarrow> (case marshal_logs pb rls of Inl e \<Rightarrow> Inl e | Inr rest \<Rightarrow> Inr (pb_Field1 pb body @ rest)))"

definition EncodeLogs :: "proto \<Rightarrow> labels \<Rightarrow> log_record list \<Rightarrow> encode_error + string" where
  "EncodeLogs pb identity logs = marshal_logs pb (encode_logs identity logs)"

section \<open>The sort keys\<close>

lemma labelKey_components: "labelKey m = len_prefixed_all (label_components m)"
proof -
  have "concat (map (\<lambda>k. len_prefixed k @ len_prefixed (f k)) ks) =
      concat (map len_prefixed (concat (map (\<lambda>k. [k, f k]) ks)))" for f ks
    by (induction ks) simp_all
  then show ?thesis by (simp add: labelKey_def len_prefixed_all_def label_components_def)
qed

lemma labelKey_eq_iff: "labelKey a = labelKey b \<longleftrightarrow> a = b"
  unfolding labelKey_components using len_prefixed_all_inj label_components_inj by metis

definition sample_id :: "sample \<Rightarrow> string \<times> string \<times> labels \<times> instant" where
  "sample_id s = (smp_Name s, smp_Unit s, smp_Labels s, smp_Timestamp s)"

definition log_id :: "log_record \<Rightarrow> instant \<times> string \<times> labels \<times> string" where
  "log_id r = (lr_Timestamp r, lr_Severity r, lr_RecordAttributes r, lr_TraceID r)"

lemma labelKey_linear: "a \<noteq> b \<Longrightarrow> \<not> labelKey b < labelKey a \<Longrightarrow> labelKey a < labelKey b"
  using labelKey_eq_iff [of a b] by simp

lemma strict_weak_sample_less: "strict_weak sample_less"
  unfolding strict_weak_def sample_less_def by (auto split: if_splits)

lemma sample_less_total: "sample_id x \<noteq> sample_id y \<Longrightarrow> sample_less x y \<or> sample_less y x"
  by (auto simp: sample_less_def sample_id_def labelKey_eq_iff intro: labelKey_linear)

lemma strict_weak_log_less: "strict_weak log_less"
  unfolding strict_weak_def log_less_def by (auto split: if_splits)

lemma log_less_total: "log_id x \<noteq> log_id y \<Longrightarrow> log_less x y \<or> log_less y x"
  by (auto simp: log_less_def log_id_def labelKey_eq_iff intro: labelKey_linear)

section \<open>Grouping\<close>

definition acceptable :: "sample \<Rightarrow> bool" where
  "acceptable s \<longleftrightarrow> smp_Temporality s \<noteq> Delta \<and> smp_Kind s = Gauge"

definition head_of :: "metric_msg \<Rightarrow> string \<times> string" where
  "head_of m = (mm_Name m, mm_Unit m)"

definition name_unit :: "sample \<Rightarrow> string \<times> string" where
  "name_unit s = (smp_Name s, smp_Unit s)"

definition points :: "metric_msg list \<Rightarrow> ((string \<times> string) \<times> data_point) list" where
  "points ms = concat (map (\<lambda>m. map (\<lambda>d. (head_of m, d)) (mm_DataPoints m)) ms)"

text \<open>One step of the loop: the current metric is extended, or a new one is opened.\<close>

definition add_point :: "metric_msg list \<Rightarrow> sample \<Rightarrow> metric_msg list" where
  "add_point ms s =
     (if ms = [] \<or> head_of (last ms) \<noteq> name_unit s
      then ms @ [\<lparr>mm_Name = smp_Name s, mm_Unit = smp_Unit s, mm_DataPoints = [data_point_of s]\<rparr>]
      else butlast ms @ [(last ms)\<lparr>mm_DataPoints := mm_DataPoints (last ms) @ [data_point_of s]\<rparr>])"

lemma group_metrics_Cons:
  "acceptable s \<Longrightarrow> group_metrics ms (s # ss) = group_metrics (add_point ms s) ss"
  by (auto simp: acceptable_def add_point_def Let_def head_of_def name_unit_def)

lemma group_metrics_eq:
  "group_metrics ms ss =
     (case find (\<lambda>s. \<not> acceptable s) ss of
        None \<Rightarrow> Inr (fold (\<lambda>s ms. add_point ms s) ss ms)
      | Some s \<Rightarrow> Inl (if smp_Temporality s = Delta then DeltaTemporality (smp_Name s) else NotGauge (smp_Name s)))"
proof (induction ss arbitrary: ms)
  case (Cons s ss)
  show ?case
  proof (cases "acceptable s")
    case True
    then show ?thesis unfolding group_metrics_Cons [OF True] Cons.IH by (simp split: option.split)
  next
    case False
    then show ?thesis by (auto simp: acceptable_def)
  qed
qed simp

lemma points_Nil [simp]: "points [] = []"
  by (simp add: points_def)

lemma points_add_point: "points (add_point ms s) = points ms @ [(name_unit s, data_point_of s)]"
proof (cases "ms = [] \<or> head_of (last ms) \<noteq> name_unit s")
  case True
  then show ?thesis by (simp add: add_point_def points_def head_of_def name_unit_def)
next
  case False
  then obtain ns m where ms: "ms = ns @ [m]" "head_of m = name_unit s"
    by (metis append_butlast_last_id)
  then show ?thesis by (simp add: add_point_def points_def head_of_def name_unit_def)
qed

lemma points_fold: "points (fold (\<lambda>s ms. add_point ms s) ss ms) = points ms @ map (\<lambda>s. (name_unit s, data_point_of s)) ss"
  by (induction ss arbitrary: ms) (simp_all add: points_add_point)

lemma heads_add_point:
  assumes "sorted_wrt (<) (map head_of ms)" "ms \<noteq> [] \<Longrightarrow> head_of (last ms) \<le> name_unit s"
  shows "sorted_wrt (<) (map head_of (add_point ms s)) \<and> head_of (last (add_point ms s)) = name_unit s \<and> add_point ms s \<noteq> []"
proof (cases ms rule: rev_cases)
  case Nil
  then show ?thesis by (simp add: add_point_def head_of_def name_unit_def)
next
  case (snoc ns m)
  have new: "head_of \<lparr>mm_Name = smp_Name s, mm_Unit = smp_Unit s, mm_DataPoints = d\<rparr> = name_unit s" for d
    by (simp add: head_of_def name_unit_def)
  have upd: "head_of (m\<lparr>mm_DataPoints := d\<rparr>) = head_of m" for d by (simp add: head_of_def)
  show ?thesis
  proof (cases "head_of m = name_unit s")
    case True
    with snoc assms(1) show ?thesis by (simp add: add_point_def upd sorted_wrt_append)
  next
    case False
    with assms(2) snoc have lt: "head_of m < name_unit s" by auto
    have "x < name_unit s" if "x \<in> set (map head_of ns)" for x
      using that assms(1) snoc lt by (auto simp: sorted_wrt_append)
    with False snoc assms(1) lt show ?thesis by (simp add: add_point_def new sorted_wrt_append)
  qed
qed

lemma heads_fold:
  assumes "sorted_wrt (<) (map head_of ms)" "sorted (map name_unit ss)"
    and "ms \<noteq> [] \<Longrightarrow> ss \<noteq> [] \<Longrightarrow> head_of (last ms) \<le> name_unit (hd ss)"
  shows "sorted_wrt (<) (map head_of (fold (\<lambda>s ms. add_point ms s) ss ms))"
  using assms
proof (induction ss arbitrary: ms)
  case (Cons s ss)
  have step: "sorted_wrt (<) (map head_of (add_point ms s)) \<and> head_of (last (add_point ms s)) = name_unit s \<and> add_point ms s \<noteq> []"
    by (rule heads_add_point) (use Cons.prems in auto)
  have "sorted_wrt (<) (map head_of (fold (\<lambda>s ms. add_point ms s) ss (add_point ms s)))"
    by (rule Cons.IH) (use step Cons.prems(2) in \<open>cases ss; auto\<close>)+
  then show ?case by simp
qed simp

lemma sorted_name_unit: "sorted (map name_unit (stable_sort sample_less samples))"
proof -
  have "\<not> sample_less y x \<Longrightarrow> name_unit x \<le> name_unit y" for x y
    by (auto simp: sample_less_def name_unit_def split: if_splits)
  then show ?thesis
    unfolding sorted_map
    by (rule sorted_wrt_mono_rel [OF _ sorted_stable_sort [OF strict_weak_sample_less, of samples]])
qed

lemma encode_metrics_ok:
  assumes "\<forall>s\<in>set samples. acceptable s"
  shows "encode_metrics identity samples =
    Inr \<lparr>rm_Resource = sortedKVs identity, rm_Scope = scopeName,
         rm_Metrics = fold (\<lambda>s ms. add_point ms s) (stable_sort sample_less samples) []\<rparr>"
proof -
  have "find (\<lambda>s. \<not> acceptable s) (stable_sort sample_less samples) = None"
    using assms by (simp add: find_None_iff)
  then show ?thesis by (simp add: encode_metrics_def group_metrics_eq)
qed

section \<open>Log groups\<close>

lemma log_group_indexed: "r \<in> set (log_group logs (labelKey m)) \<Longrightarrow> lr_IndexedAttributes r = m"
  by (simp add: log_group_def labelKey_eq_iff)

lemma encode_log_group_perm:
  assumes "mset xs = mset ys" "inj_on (\<lambda>r. (lr_IndexedAttributes r, log_id r)) (set xs)"
    and "\<forall>r\<in>set xs. lr_IndexedAttributes r = m" "xs \<noteq> []"
  shows "encode_log_group identity xs = encode_log_group identity ys"
proof -
  have "stable_sort log_less xs = stable_sort log_less ys"
  proof (rule stable_sort_perm [OF strict_weak_log_less assms(1)], intro ballI impI)
    fix x y
    assume "x \<in> set xs" "y \<in> set xs" "x \<noteq> y"
    then have "log_id x \<noteq> log_id y" using assms(2,3) by (auto simp: inj_on_def)
    then show "log_less x y \<or> log_less y x" by (rule log_less_total)
  qed
  moreover have "set ys = set xs" "ys \<noteq> []"
    using assms(1,4) by (metis set_mset_mset, auto)
  then have "hd ys \<in> set xs" using hd_in_set by blast
  then have "lr_IndexedAttributes (hd xs) = lr_IndexedAttributes (hd ys)" using assms(3,4) by simp
  ultimately show ?thesis by (simp add: encode_log_group_def)
qed

lemma encode_logs_perm:
  assumes "mset xs = mset ys" "inj_on (\<lambda>r. (lr_IndexedAttributes r, log_id r)) (set xs)"
  shows "encode_logs identity xs = encode_logs identity ys"
proof -
  let ?f = "\<lambda>lr. labelKey (lr_IndexedAttributes lr)"
  have set: "set xs = set ys" using assms(1) by (metis set_mset_mset)
  then have order: "sort (remdups (map ?f xs)) = sort (remdups (map ?f ys))"
    by (intro sorted_distinct_set_unique) simp_all
  have "encode_log_group identity (log_group xs k) = encode_log_group identity (log_group ys k)"
    if "k \<in> set (sort (remdups (map ?f xs)))" for k
  proof -
    from that obtain r where r: "r \<in> set xs" "k = ?f r" by auto
    show ?thesis
    proof (rule encode_log_group_perm [where m = "lr_IndexedAttributes r"])
      show "mset (log_group xs k) = mset (log_group ys k)" using assms(1) by (simp add: log_group_def)
      show "inj_on (\<lambda>r. (lr_IndexedAttributes r, log_id r)) (set (log_group xs k))"
        by (rule inj_on_subset [OF assms(2)]) (auto simp: log_group_def)
      show "\<forall>ra\<in>set (log_group xs k). lr_IndexedAttributes ra = lr_IndexedAttributes r"
        unfolding r(2) using log_group_indexed by blast
      show "log_group xs k \<noteq> []" using r by (auto simp: log_group_def filter_empty_conv)
    qed
  qed
  then show ?thesis unfolding encode_logs_def order [symmetric] by (intro map_cong) auto
qed

text \<open>Every record is in the one group of its indexed attributes, under the resource made of them.\<close>

lemma encode_logs_member:
  assumes "r \<in> set logs"
  shows "\<exists>rl\<in>set (encode_logs identity logs).
    rl_Resource rl = sortedKVs (mergeAttrs identity (lr_IndexedAttributes r)) \<and> log_msg_of r \<in> set (rl_LogRecords rl)"
proof -
  let ?k = "labelKey (lr_IndexedAttributes r)"
  have mem: "r \<in> set (log_group logs ?k)" using assms by (simp add: log_group_def)
  then have "lr_IndexedAttributes (hd (log_group logs ?k)) = lr_IndexedAttributes r"
    using log_group_indexed hd_in_set by (metis length_greater_0_conv length_pos_if_in_set)
  moreover have "encode_log_group identity (log_group logs ?k) \<in> set (encode_logs identity logs)"
    using assms by (auto simp: encode_logs_def)
  ultimately show ?thesis
    using mem by (intro bexI [of _ "encode_log_group identity (log_group logs ?k)"])
      (auto simp: encode_log_group_def)
qed

section \<open>Properties\<close>

text \<open>C29: re-emission is byte-identical. Two arrangements of the same samples, no two different
  ones agreeing on name, unit, labels and timestamp, encode to the same bytes (or the same
  error), whatever the marshalling does.\<close>

theorem Encode_perm:
  assumes "mset xs = mset ys" "inj_on sample_id (set xs)"
  shows "Encode pb identity xs = Encode pb identity ys"
proof -
  have "stable_sort sample_less xs = stable_sort sample_less ys"
    by (rule stable_sort_perm [OF strict_weak_sample_less assms(1)])
      (use assms(2) sample_less_total in \<open>auto simp: inj_on_def\<close>)
  then show ?thesis by (simp add: Encode_def encode_metrics_def)
qed

definition toy_proto :: proto where
  "toy_proto = \<lparr>pb_MarshalMetrics = (\<lambda>rm. Some (concat (map mm_Name (rm_Metrics rm)))),
     pb_MarshalLogs = (\<lambda>rl. Some (concat (map lm_SeverityText (rl_LogRecords rl)))), pb_Field1 = (\<lambda>b. CHR 0x0A # b)\<rparr>"

theorem Encode_perm_witness:
  "Encode toy_proto fmempty [gauge ''b'' fmempty FNaN 0, gauge ''a'' fmempty FNaN 0] =
   Encode toy_proto fmempty [gauge ''a'' fmempty FNaN 0, gauge ''b'' fmempty FNaN 0] \<and>
   Encode toy_proto fmempty [gauge ''a'' fmempty FNaN 0, gauge ''b'' fmempty FNaN 0] = Inr (CHR 0x0A # ''ab'')"
proof -
  have "Encode toy_proto fmempty [gauge ''a'' fmempty FNaN 0, gauge ''b'' fmempty FNaN 0] = Inr (CHR 0x0A # ''ab'')"
    by (simp add: Encode_def encode_metrics_def stable_sort_def sample_less_def gauge_def Let_def toy_proto_def
        less_char_def)
  moreover have "Encode toy_proto fmempty [gauge ''b'' fmempty FNaN 0, gauge ''a'' fmempty FNaN 0] =
      Encode toy_proto fmempty [gauge ''a'' fmempty FNaN 0, gauge ''b'' fmempty FNaN 0]"
    by (rule Encode_perm) (simp_all add: add_mset_commute inj_on_def sample_id_def gauge_def)
  ultimately show ?thesis by simp
qed

text \<open>One metric message per series name and unit. Encoding succeeds, up to marshalling, exactly
  when no sample has delta temporality or another kind than gauge; then the messages have
  pairwise different name and unit, and their data points are those of the samples, each
  once, under its own name and unit.\<close>

theorem encode_metrics_groups:
  "(case encode_metrics identity samples of
      Inl e \<Rightarrow> (\<exists>s\<in>set samples. smp_Temporality s = Delta \<or> smp_Kind s \<noteq> Gauge)
    | Inr rm \<Rightarrow> (\<forall>s\<in>set samples. acceptable s) \<and>
        distinct (map head_of (rm_Metrics rm)) \<and>
        mset (points (rm_Metrics rm)) = mset (map (\<lambda>s. (name_unit s, data_point_of s)) samples))"
proof (cases "\<forall>s\<in>set samples. acceptable s")
  case True
  have "sorted_wrt (<) (map head_of (fold (\<lambda>s ms. add_point ms s) (stable_sort sample_less samples) []))"
    by (rule heads_fold) (simp_all add: sorted_name_unit)
  then show ?thesis
    using True by (auto simp: encode_metrics_ok points_fold strict_sorted_iff)
next
  case False
  then obtain s where "find (\<lambda>s. \<not> acceptable s) (stable_sort sample_less samples) = Some s"
    by (cases "find (\<lambda>s. \<not> acceptable s) (stable_sort sample_less samples)") (auto simp: find_None_iff)
  with False show ?thesis by (auto simp: encode_metrics_def group_metrics_eq acceptable_def)
qed

theorem encode_metrics_groups_witness:
  "case encode_metrics fmempty [gauge ''b'' fmempty FNaN 0, gauge ''a'' fmempty FNaN 0] of
     Inl e \<Rightarrow> False
   | Inr rm \<Rightarrow> distinct (map head_of (rm_Metrics rm))"
  using encode_metrics_groups [where identity = fmempty and samples = "[gauge ''b'' fmempty FNaN 0, gauge ''a'' fmempty FNaN 0]"]
  by (simp add: gauge_def split: sum.splits)

text \<open>The same for log records: the bytes of a re-emitted chunk depend only on the records, when
  no two different ones agree on indexed attributes, timestamp, severity, record attributes
  and trace id; and every record is under the resource made of the identity and its own
  indexed attributes.\<close>

theorem EncodeLogs_perm:
  assumes "mset xs = mset ys" "inj_on (\<lambda>r. (lr_IndexedAttributes r, log_id r)) (set xs)"
  shows "EncodeLogs pb identity xs = EncodeLogs pb identity ys \<and>
    (\<forall>r\<in>set xs. \<exists>rl\<in>set (encode_logs identity ys).
       rl_Resource rl = sortedKVs (mergeAttrs identity (lr_IndexedAttributes r)) \<and>
       log_msg_of r \<in> set (rl_LogRecords rl))"
proof -
  have "set xs = set ys" using assms(1) by (metis set_mset_mset)
  then show ?thesis
    using encode_logs_member [of _ ys identity] by (simp add: EncodeLogs_def encode_logs_perm [OF assms])
qed

definition plain_log :: "instant \<Rightarrow> string \<Rightarrow> labels \<Rightarrow> log_record" where
  "plain_log t sev ix = \<lparr>lr_Timestamp = t, lr_Body = '''', lr_Severity = sev, lr_IndexedAttributes = ix,
     lr_RecordAttributes = fmempty, lr_TraceID = ''''\<rparr>"

theorem EncodeLogs_perm_witness:
  "EncodeLogs toy_proto fmempty [plain_log 2 ''b'' fmempty, plain_log 1 ''a'' fmempty] =
   EncodeLogs toy_proto fmempty [plain_log 1 ''a'' fmempty, plain_log 2 ''b'' fmempty] \<and>
   EncodeLogs toy_proto fmempty [plain_log 1 ''a'' fmempty, plain_log 2 ''b'' fmempty] = Inr (CHR 0x0A # ''ab'')"
proof -
  have "EncodeLogs toy_proto fmempty [plain_log 1 ''a'' fmempty, plain_log 2 ''b'' fmempty] = Inr (CHR 0x0A # ''ab'')"
    by (simp add: EncodeLogs_def encode_logs_def encode_log_group_def log_group_def plain_log_def stable_sort_def
        log_less_def log_msg_of_def toy_proto_def)
  moreover have "EncodeLogs toy_proto fmempty [plain_log 2 ''b'' fmempty, plain_log 1 ''a'' fmempty] =
      EncodeLogs toy_proto fmempty [plain_log 1 ''a'' fmempty, plain_log 2 ''b'' fmempty]"
    by (rule conjunct1 [OF EncodeLogs_perm]) (simp_all add: add_mset_commute inj_on_def log_id_def plain_log_def)
  ultimately show ?thesis by simp
qed

end
