(* ===== verification/Go_Text.thy ===== *)
theory Go_Text
  imports Go_Strconv Go_Float
begin

text \<open>
  Library functions on text that the configuration and the vendor sources call:
  \<open>time.ParseDuration\<close>, \<open>strconv.ParseBool\<close>, the escaping of \<open>net/url\<close> and
  \<open>strings.Trim\<close>. \<open>None\<close> is the error.
\<close>

section \<open>Booleans\<close>

definition ParseBool :: "string \<Rightarrow> bool option" where
  "ParseBool s =
     (if s \<in> {''1'', ''t'', ''T'', ''true'', ''TRUE'', ''True''} then Some True
      else if s \<in> {''0'', ''f'', ''F'', ''false'', ''FALSE'', ''False''} then Some False
      else None)"

section \<open>Durations\<close>

definition is_dec :: "char \<Rightarrow> bool" where
  "is_dec c \<longleftrightarrow> digit_val c \<noteq> None"

definition dec :: "char \<Rightarrow> nat" where
  "dec c = (case digit_val c of None \<Rightarrow> 0 | Some d \<Rightarrow> d)"

text \<open>\<open>leadingInt\<close>: the digits' value, or an overflow past 2 to the 63.\<close>

fun leadingInt :: "nat \<Rightarrow> string \<Rightarrow> (nat \<times> string) option" where
  "leadingInt x [] = Some (x, [])"
| "leadingInt x (c # s) =
     (if \<not> is_dec c then Some (x, c # s)
      else if 2 ^ 63 div 10 < x then None
      else let y = x * 10 + dec c in if 2 ^ 63 < y then None else leadingInt y s)"

text \<open>\<open>leadingFraction\<close>: digits past the precision are read and dropped.\<close>

fun leadingFraction :: "nat \<Rightarrow> nat \<Rightarrow> bool \<Rightarrow> string \<Rightarrow> nat \<times> nat \<times> string" where
  "leadingFraction x scale over [] = (x, scale, [])"
| "leadingFraction x scale over (c # s) =
     (if \<not> is_dec c then (x, scale, c # s)
      else if over then leadingFraction x scale over s
      else if (2 ^ 63 - 1) div 10 < x then leadingFraction x scale True s
      else let y = x * 10 + dec c
           in if 2 ^ 63 < y then leadingFraction x scale True s
              else leadingFraction y (scale * 10) over s)"

definition unit_of :: "string \<Rightarrow> nat option" where
  "unit_of u =
     (if u = ''ns'' then Some 1
      else if u \<in> {''us'', [CHR 0xC2, CHR 0xB5, CHR ''s''], [CHR 0xCE, CHR 0xBC, CHR ''s'']} then Some 1000
      else if u = ''ms'' then Some 1000000
      else if u = ''s'' then Some 1000000000
      else if u = ''m'' then Some 60000000000
      else if u = ''h'' then Some 3600000000000
      else None)"

definition unit_char :: "char \<Rightarrow> bool" where
  "unit_char c \<longleftrightarrow> c \<noteq> CHR ''.'' \<and> \<not> is_dec c"

text \<open>One number with its unit, in nanoseconds, and the rest of the text.\<close>

definition duration_part :: "string \<Rightarrow> (nat \<times> string) option" where
  "duration_part s =
     (if s = [] \<or> \<not> (hd s = CHR ''.'' \<or> is_dec (hd s)) then None
      else case leadingInt 0 s of
        None \<Rightarrow> None
      | Some (v, s1) \<Rightarrow>
          (let pre = (length s1 \<noteq> length s);
               dot = (s1 \<noteq> [] \<and> hd s1 = CHR ''.'');
               (f, scale, s2) = (if dot then leadingFraction 0 1 False (tl s1) else (0, 1, s1));
               post = (dot \<and> length s2 \<noteq> length (tl s1));
               u = takeWhile unit_char s2; s3 = dropWhile unit_char s2
           in if \<not> pre \<and> \<not> post then None
              else if u = [] then None
              else case unit_of u of
                None \<Rightarrow> None
              | Some unit \<Rightarrow>
                  (if 2 ^ 63 div unit < v then None
                   else let w = v * unit + (if 0 < f
                                then nat (f_to_int (f_mul (f_of_int (int f)) (f_div_const (f_of_int (int unit)) (of_nat scale))))
                                else 0)
                        in if 2 ^ 63 < w then None else Some (w, s3))))"

fun duration_parts :: "nat \<Rightarrow> nat \<Rightarrow> string \<Rightarrow> nat option" where
  "duration_parts 0 d s = (if s = [] then Some d else None)"
| "duration_parts (Suc n) d s =
     (if s = [] then Some d
      else case duration_part s of
        None \<Rightarrow> None
      | Some (v, s1) \<Rightarrow> if 2 ^ 63 < d + v then None else duration_parts n (d + v) s1)"

definition ParseDuration :: "string \<Rightarrow> duration option" where
  "ParseDuration s0 =
     (let neg = (s0 \<noteq> [] \<and> hd s0 = CHR ''-'');
          s = (if s0 \<noteq> [] \<and> (hd s0 = CHR ''-'' \<or> hd s0 = CHR ''+'') then tl s0 else s0)
      in if s = ''0'' then Some 0
         else if s = [] then None
         else case duration_parts (length s) 0 s of
           None \<Rightarrow> None
         | Some d \<Rightarrow>
             (if neg then Some (wrap64 (- int d))
              else if 2 ^ 63 - 1 < d then None else Some (int d)))"

section \<open>Escaping\<close>

definition hex_digit :: "nat \<Rightarrow> char" where
  "hex_digit n = (if n < 10 then char_of (48 + n) else char_of (55 + n))"

definition pct :: "char \<Rightarrow> string" where
  "pct c = (let n = of_char c in [CHR ''%'', hex_digit (n div 16), hex_digit (n mod 16)])"

definition is_alnum :: "char \<Rightarrow> bool" where
  "is_alnum c \<longleftrightarrow> (let n = of_char c :: nat in (48 \<le> n \<and> n \<le> 57) \<or> (65 \<le> n \<and> n \<le> 90) \<or> (97 \<le> n \<and> n \<le> 122))"

definition unreserved :: "char \<Rightarrow> bool" where
  "unreserved c \<longleftrightarrow> is_alnum c \<or> c \<in> {CHR ''-'', CHR ''_'', CHR ''.'', CHR ''~''}"

definition QueryEscape :: "string \<Rightarrow> string" where
  "QueryEscape s = concat (map (\<lambda>c. if unreserved c then [c] else if c = CHR '' '' then [CHR ''+''] else pct c) s)"

text \<open>In a path segment \<^verbatim>\<open>$ & + : = @\<close> are kept as well.\<close>

definition PathEscape :: "string \<Rightarrow> string" where
  "PathEscape s = concat (map (\<lambda>c. if unreserved c \<or> c \<in> {CHR ''$'', CHR ''&'', CHR ''+'', CHR '':'', CHR ''='', CHR ''@''}
                                  then [c] else pct c) s)"

text \<open>\<open>url.Values.Encode\<close> for keys with one value each: sorted by key.\<close>

definition values_Encode :: "(string, string) fmap \<Rightarrow> string" where
  "values_Encode q =
     join_with ''&'' (map (\<lambda>k. QueryEscape k @ CHR ''='' # QueryEscape (map_get q k)) (sorted_keys q))"

section \<open>Trimming and lists\<close>

definition trim_char :: "char \<Rightarrow> string \<Rightarrow> string" where
  "trim_char c s = rev (dropWhile ((=) c) (rev (dropWhile ((=) c) s)))"

definition HasSuffix :: "string \<Rightarrow> string \<Rightarrow> bool" where
  "HasSuffix s p \<longleftrightarrow> suffix p s"

text \<open>\<^verbatim>\<open>strings.ReplaceAll\<close> with a non-empty pattern: leftmost matches, no overlap.\<close>

function ReplaceAll :: "string \<Rightarrow> string \<Rightarrow> string \<Rightarrow> string" where
  "ReplaceAll old new s =
     (if old \<noteq> [] \<and> prefix old s then new @ ReplaceAll old new (drop (length old) s)
      else case s of [] \<Rightarrow> [] | c # cs \<Rightarrow> c # ReplaceAll old new cs)"
  by pat_completeness auto
termination
proof (relation "measure (\<lambda>(old, new, s). length s)")
  fix old new s :: string
  assume "old \<noteq> [] \<and> prefix old s"
  then show "((old, new, drop (length old) s), old, new, s) \<in> measure (\<lambda>(old, new, s). length s)"
    by (cases old; cases s) auto
qed auto

declare ReplaceAll.simps [simp del]

lemma ReplaceAll_Nil [simp]: "ReplaceAll old new [] = []"
  by (simp add: ReplaceAll.simps)

section \<open>Facts\<close>

lemma leadingInt_length: "leadingInt x s = Some (v, r) \<Longrightarrow> length r \<le> length s"
  by (induction x s rule: leadingInt.induct) (auto simp: Let_def split: if_splits)

lemma leadingFraction_length: "leadingFraction x sc ov s = (f, sc', r) \<Longrightarrow> length r \<le> length s"
  by (induction x sc ov s rule: leadingFraction.induct) (fastforce simp: Let_def split: if_splits)+

lemma duration_part_shorter:
  assumes "duration_part s = Some (v, r)"
  shows "length r < length s"
proof -
  obtain w s1 where l: "leadingInt 0 s = Some (w, s1)"
    using assms by (auto simp: duration_part_def split: if_splits option.splits)
  define dot where "dot = (s1 \<noteq> [] \<and> hd s1 = CHR ''.'')"
  obtain f sc s2 where f: "(if dot then leadingFraction 0 1 False (tl s1) else (0, 1, s1)) = (f, sc, s2)"
    by (metis prod_cases3)
  have s2: "length s2 \<le> length s1"
    using f leadingFraction_length [of 0 1 False "tl s1" f sc s2] by (auto split: if_splits)
  have r: "r = dropWhile unit_char s2" "takeWhile unit_char s2 \<noteq> []"
    using assms l f by (auto simp: duration_part_def Let_def dot_def split: if_splits option.splits)
  have "length (takeWhile unit_char s2) + length r = length s2"
    using r(1) by (metis length_append takeWhile_dropWhile_id)
  then show ?thesis using r(2) s2 leadingInt_length [OF l] by (cases "takeWhile unit_char s2") auto
qed

text \<open>The fuel of \<open>duration_parts\<close> is never what ends it: more fuel than the text is long changes nothing.\<close>

lemma duration_parts_fuel: "length s \<le> n \<Longrightarrow> duration_parts n d s = duration_parts (length s) d s"
proof (induction "length s" arbitrary: s n d rule: less_induct)
  case less
  show ?case
  proof (cases "s = []")
    case True
    then show ?thesis by (cases n) auto
  next
    case False
    then obtain k m where k: "length s = Suc k" and m: "n = Suc m" using less.prems by (cases n; cases s) auto
    have step: "duration_parts m (d + v) r = duration_parts k (d + v) r" if "duration_part s = Some (v, r)" for v r
      using less.hyps [of r m "d + v"] less.hyps [of r k "d + v"] duration_part_shorter [OF that] less.prems k m by simp
    show ?thesis unfolding k m using False step by (auto split: option.splits)
  qed
qed

lemma ParseDuration_range: "ParseDuration s = Some d \<Longrightarrow> in_int64 d"
proof -
  have "in_int64 (int n)" if "\<not> 2 ^ 63 - 1 < n" for n using that by (simp add: in_int64_def)
  moreover have "in_int64 0" by (simp add: in_int64_def)
  ultimately show "ParseDuration s = Some d \<Longrightarrow> in_int64 d"
    using in_int64_wrap64 unfolding ParseDuration_def Let_def by (auto split: if_splits option.splits)
qed

lemma pct_not_reserved: "c \<in> set (pct x) \<Longrightarrow> c = CHR ''%'' \<or> unreserved c"
proof -
  have h: "unreserved (hex_digit n)" if "n < 16" for n
    using that unfolding unreserved_def is_alnum_def hex_digit_def by auto
  have "of_char x div 16 < (16 :: nat)" using nat_of_char_less_256 [of x] by (simp add: less_mult_imp_div_less)
  then show "c \<in> set (pct x) \<Longrightarrow> c = CHR ''%'' \<or> unreserved c"
    using h [of "of_char x div 16"] h [of "of_char x mod 16"]
    by (auto simp: pct_def Let_def)
qed

text \<open>An escaped value holds no separator of a query: it cannot add a parameter.\<close>

lemma QueryEscape_no_separator: "c \<in> set (QueryEscape s) \<Longrightarrow> unreserved c \<or> c = CHR ''+'' \<or> c = CHR ''%''"
  by (auto simp: QueryEscape_def dest: pct_not_reserved split: if_splits)

end
