(* ===== verification/Otlp_Reject.thy ===== *)
theory Otlp_Reject
  imports Coalesce Go_Text
begin

text \<open>
  How the OTLP emitter reads a response (\<^verbatim>\<open>internal/emit/otlp/otlp.go\<close>,
  \<^verbatim>\<open>partial_success.go\<close>): the reject taxonomy, the Retry-After header, the redaction of
  the emitter's own credentials and the partial-success body. The HTTP-date parser and the
  protobuf wire reader are arguments; \<open>wire_ok\<close> states what the decoders rely on: a field
  read successfully has a positive length within the input.
\<close>

section \<open>Classification\<close>

definition has_any :: "string \<Rightarrow> string list \<Rightarrow> bool" where
  "has_any low subs \<longleftrightarrow> (\<exists>s\<in>set subs. Contains low s)"

definition duplicate_markers :: "string list" where
  "duplicate_markers = [''err-mimir-sample-duplicate-timestamp'', ''duplicate-timestamp'', ''duplicate sample'']"

definition too_old_markers :: "string list" where
  "too_old_markers =
     [''err-mimir-sample-out-of-order'', ''err-mimir-sample-timestamp-too-old'', ''err-mimir-sample-out-of-bounds'',
      ''out-of-order'', ''out of order'', ''too old'', ''too-old'', ''too far in past'',
      ''entry out of order'', ''too far behind'', ''greater than max age'', ''max_age'']"

definition bad_encoding_markers :: "string list" where
  "bad_encoding_markers =
     [''failed to parse'', ''malformed'', ''proto:'', ''invalid request body'', ''bad request body'']"

definition trunc :: "string \<Rightarrow> string" where
  "trunc s = trunc_to 256 s"

definition classify :: "int \<Rightarrow> string \<Rightarrow> reject_error" where
  "classify status body =
     (if status = 413 then \<lparr>re_Reason = ReasonPayloadTooLarge, re_Status = 413, re_Msg = trunc body\<rparr>
      else
        (let low = ToLower body in
         if has_any low duplicate_markers
         then \<lparr>re_Reason = ReasonDuplicateTimestamp, re_Status = status, re_Msg = trunc body\<rparr>
         else if has_any low too_old_markers
         then \<lparr>re_Reason = ReasonTooOld, re_Status = status, re_Msg = trunc body\<rparr>
         else if has_any low bad_encoding_markers
         then \<lparr>re_Reason = ReasonBadEncoding, re_Status = status, re_Msg = trunc body\<rparr>
         else \<lparr>re_Reason = ReasonUnknown, re_Status = status, re_Msg = trunc body\<rparr>))"

definition isRetryable :: "int \<Rightarrow> bool \<Rightarrow> bool" where
  "isRetryable status err = (if err then True else status = 429 \<or> status = 502 \<or> status = 503 \<or> status = 504)"

section \<open>Retry-After\<close>

definition parseRetryAfter :: "(string \<Rightarrow> instant option) \<Rightarrow> string \<Rightarrow> instant \<Rightarrow> duration" where
  "parseRetryAfter ParseTime v0 now =
     (let v = TrimSpace v0 in
      if v = '''' then 0
      else case ParseInt v of
        Some secs \<Rightarrow> (if secs \<le> 0 then 0 else wrap64 (secs * Second))
      | None \<Rightarrow>
          (case ParseTime v of
             Some t \<Rightarrow> (let d = time_Sub t now in if d > 0 then d else 0)
           | None \<Rightarrow> 0))"

section \<open>Redaction\<close>


definition redacted :: string where "redacted = ''[REDACTED]''"

definition redact_one :: "string \<Rightarrow> string \<Rightarrow> string" where
  "redact_one secret s = (if length secret > 1 then ReplaceAll secret redacted s else s)"

definition TrimPrefix :: "string \<Rightarrow> string \<Rightarrow> string" where
  "TrimPrefix s p = (if HasPrefix s p then drop (length p) s else s)"

record credentials =
  cr_InstanceID :: string
  cr_Token :: string
  cr_auth :: string

text \<open>The Authorization header that \<open>New\<close> builds: none without a credential.\<close>

definition basic_auth :: "(string \<Rightarrow> string) \<Rightarrow> string \<Rightarrow> string \<Rightarrow> credentials" where
  "basic_auth base64 inst token =
     \<lparr>cr_InstanceID = inst, cr_Token = token,
      cr_auth = (if inst \<noteq> '''' \<or> token \<noteq> '''' then ''Basic '' @ base64 (inst @ '':'' @ token) else '''')\<rparr>"

definition redactSecrets :: "credentials \<Rightarrow> string \<Rightarrow> string" where
  "redactSecrets e s =
     (if s = '''' then s
      else fold redact_one
             [TrimPrefix (cr_auth e) ''Basic '', cr_Token e, cr_InstanceID e @ '':'' @ cr_Token e] s)"

section \<open>Partial success\<close>

record protowire =
  pw_ConsumeTag :: "string \<Rightarrow> int \<times> int \<times> int"
  pw_ConsumeVarint :: "string \<Rightarrow> int \<times> int"
  pw_ConsumeBytes :: "string \<Rightarrow> string \<times> int"
  pw_ConsumeFieldValue :: "int \<Rightarrow> int \<Rightarrow> string \<Rightarrow> int"

definition VarintType :: int where "VarintType = 0"
definition BytesType :: int where "BytesType = 2"

text \<open>The loop of \<open>fieldBytes\<close>; the fuel is the length of the input, one field per round.\<close>

fun field_loop :: "protowire \<Rightarrow> nat \<Rightarrow> string \<Rightarrow> int \<Rightarrow> string option \<Rightarrow> string option" where
  "field_loop pw 0 b num out = out"
| "field_loop pw (Suc fuel) b num out =
     (if b = [] then out
      else case pw_ConsumeTag pw b of (n, typ, tlen) \<Rightarrow>
        if tlen < 0 then out
        else let b1 = drop (nat tlen) b in
          if n = num \<and> typ = BytesType
          then (case pw_ConsumeBytes pw b1 of (v, vl) \<Rightarrow>
                  if vl < 0 then out else field_loop pw fuel (drop (nat vl) b1) num (Some v))
          else (let vl = pw_ConsumeFieldValue pw n typ b1 in
                if vl < 0 then out else field_loop pw fuel (drop (nat vl) b1) num out))"

definition fieldBytes :: "protowire \<Rightarrow> string \<Rightarrow> int \<Rightarrow> string option" where
  "fieldBytes pw b num = field_loop pw (length b) b num None"

fun partial_loop :: "protowire \<Rightarrow> nat \<Rightarrow> string \<Rightarrow> int \<Rightarrow> string \<Rightarrow> int \<times> string" where
  "partial_loop pw 0 sub rejected msg = (rejected, msg)"
| "partial_loop pw (Suc fuel) sub rejected msg =
     (if sub = [] then (rejected, msg)
      else case pw_ConsumeTag pw sub of (num, typ, tlen) \<Rightarrow>
        if tlen < 0 then (0, '''')
        else let s1 = drop (nat tlen) sub in
          if num = 1 \<and> typ = VarintType
          then (case pw_ConsumeVarint pw s1 of (v, vl) \<Rightarrow>
                  if vl < 0 then (0, '''') else partial_loop pw fuel (drop (nat vl) s1) (wrap64 v) msg)
          else if num = 2 \<and> typ = BytesType
          then (case pw_ConsumeBytes pw s1 of (b, vl) \<Rightarrow>
                  if vl < 0 then (0, '''') else partial_loop pw fuel (drop (nat vl) s1) rejected b)
          else (let vl = pw_ConsumeFieldValue pw num typ s1 in
                if vl < 0 then (0, '''') else partial_loop pw fuel (drop (nat vl) s1) rejected msg))"

definition decodePartialSuccess :: "protowire \<Rightarrow> string \<Rightarrow> int \<times> string" where
  "decodePartialSuccess pw body =
     (case fieldBytes pw body 1 of
        None \<Rightarrow> (0, '''')
      | Some sub \<Rightarrow> partial_loop pw (length sub) sub 0 '''')"

text \<open>The wire reader's promise: a tag that is read has at least one byte, within the input.\<close>

definition wire_ok :: "protowire \<Rightarrow> bool" where
  "wire_ok pw \<longleftrightarrow> (\<forall>b n t l. pw_ConsumeTag pw b = (n, t, l) \<longrightarrow> l < 0 \<or> 0 < l \<and> l \<le> int (length b))"

section \<open>Fuel\<close>

text \<open>The fuel of both loops is enough: more of it changes nothing.\<close>

lemma drop_tag_shorter:
  assumes "wire_ok pw" "pw_ConsumeTag pw b = (n, t, l)" "\<not> l < 0" "b \<noteq> []"
  shows "length (drop k (drop (nat l) b)) < length b"
proof -
  have "0 < l" using assms(1-3) unfolding wire_ok_def by (metis linorder_not_less)
  then show ?thesis using assms(4) by (cases b) auto
qed

lemma field_loop_fuel:
  assumes "wire_ok pw"
  shows "length b \<le> fuel \<Longrightarrow> field_loop pw (fuel + k) b num out = field_loop pw fuel b num out"
proof (induction fuel arbitrary: b out)
  case 0
  then show ?case by (cases k) simp_all
next
  case (Suc fuel)
  obtain n t l where tag: "pw_ConsumeTag pw b = (n, t, l)" by (metis prod_cases3)
  have IH: "field_loop pw (fuel + k) (drop (j + nat l) b) num o' = field_loop pw fuel (drop (j + nat l) b) num o'"
    if "\<not> l < 0" "b \<noteq> []" for j o'
    using Suc.IH [of "drop (j + nat l) b" o'] drop_tag_shorter [OF assms tag that, of j] Suc.prems by simp
  show ?case
    by (cases "b = []"; cases "l < 0") (simp_all add: tag IH Let_def split: prod.splits)
qed

lemma partial_loop_fuel:
  assumes "wire_ok pw"
  shows "length b \<le> fuel \<Longrightarrow> partial_loop pw (fuel + k) b r m = partial_loop pw fuel b r m"
proof (induction fuel arbitrary: b r m)
  case 0
  then show ?case by (cases k) simp_all
next
  case (Suc fuel)
  obtain n t l where tag: "pw_ConsumeTag pw b = (n, t, l)" by (metis prod_cases3)
  have IH: "partial_loop pw (fuel + k) (drop (j + nat l) b) r' m' = partial_loop pw fuel (drop (j + nat l) b) r' m'"
    if "\<not> l < 0" "b \<noteq> []" for j r' m'
    using Suc.IH [of "drop (j + nat l) b" r' m'] drop_tag_shorter [OF assms tag that, of j] Suc.prems by simp
  show ?case
    by (cases "b = []"; cases "l < 0") (simp_all add: tag IH Let_def split: prod.splits)
qed

section \<open>Redaction leaves no secret\<close>

definition redactable :: "string \<Rightarrow> bool" where
  "redactable x \<longleftrightarrow> length x > 1 \<and> CHR ''['' \<notin> set x \<and> CHR '']'' \<notin> set x \<and> \<not> Contains ''REDACTED'' x"

lemma prefix_sep: "prefix x (a @ c # b) \<Longrightarrow> c \<notin> set x \<Longrightarrow> prefix x a"
  by (auto simp: prefix_append prefix_Cons)

lemma Contains_sep: "Contains (a @ c # b) x \<Longrightarrow> c \<notin> set x \<Longrightarrow> x \<noteq> [] \<Longrightarrow> Contains a x \<or> Contains b x"
proof (induction a)
  case Nil
  then show ?case by (cases x) auto
next
  case (Cons d a)
  then show ?case using prefix_sep [of x "d # a" c b] by auto
qed

lemma Contains_redacted:
  assumes "Contains (redacted @ r) x" "redactable x"
  shows "Contains r x"
proof -
  have x: "x \<noteq> []" "CHR ''['' \<notin> set x" "CHR '']'' \<notin> set x" "\<not> Contains ''REDACTED'' x"
    using assms(2) by (auto simp: redactable_def)
  have "Contains ([] @ CHR ''['' # (''REDACTED'' @ CHR '']'' # r)) x" using assms(1) by (simp add: redacted_def)
  from Contains_sep [OF this x(2,1)] x(1) have "Contains (''REDACTED'' @ CHR '']'' # r) x" by simp
  from Contains_sep [OF this x(3,1)] x(4) show ?thesis by simp
qed

lemma prefix_ReplaceAll: "prefix x (ReplaceAll old redacted s) \<Longrightarrow> CHR ''['' \<notin> set x \<Longrightarrow> prefix x s"
proof (induction s arbitrary: x rule: length_induct)
  case (1 s)
  show ?case
  proof (cases "old \<noteq> [] \<and> prefix old s")
    case True
    with "1.prems"(1) have "prefix x (redacted @ ReplaceAll old redacted (drop (length old) s))"
      by (simp add: ReplaceAll.simps [of old redacted s])
    then show ?thesis using "1.prems"(2) by (cases x) (auto simp: redacted_def)
  next
    case False
    show ?thesis
    proof (cases s)
      case (Cons c cs)
      with "1.prems"(1) False have "prefix x (c # ReplaceAll old redacted cs)"
        by (auto simp: ReplaceAll.simps [of old redacted "c # cs"])
      with "1.prems"(2) "1.IH" Cons show ?thesis by (cases x) auto
    qed (use "1.prems"(1) False in \<open>simp add: ReplaceAll.simps [of old redacted s]\<close>)
  qed
qed

lemma Contains_drop: "Contains (drop n s) x \<Longrightarrow> Contains s x"
proof (induction n arbitrary: s)
  case (Suc n)
  then show ?case by (cases s) auto
qed simp

text \<open>Replacing one secret brings back no other, and none of itself.\<close>

lemma Contains_ReplaceAll: "Contains (ReplaceAll old redacted s) x \<Longrightarrow> redactable x \<Longrightarrow> Contains s x"
proof (induction s rule: length_induct)
  case (1 s)
  show ?case
  proof (cases "old \<noteq> [] \<and> prefix old s")
    case True
    with "1.prems"(1) have "Contains (redacted @ ReplaceAll old redacted (drop (length old) s)) x"
      by (simp add: ReplaceAll.simps [of old redacted s])
    from Contains_redacted [OF this "1.prems"(2)] "1.IH" "1.prems"(2) True
    have "Contains (drop (length old) s) x" by (cases s; cases old) auto
    then show ?thesis by (rule Contains_drop)
  next
    case False
    show ?thesis
    proof (cases s)
      case Nil
      with "1.prems"(1) False show ?thesis by (simp add: ReplaceAll.simps [of old redacted s])
    next
      case (Cons c cs)
      have s: "ReplaceAll old redacted s = c # ReplaceAll old redacted cs"
        unfolding Cons using False Cons by (auto simp: ReplaceAll.simps [of old redacted "c # cs"])
      from "1.prems"(1) s consider "prefix x (ReplaceAll old redacted s)" | "Contains (ReplaceAll old redacted cs) x"
        by auto
      then show ?thesis
      proof cases
        case 1
        then have "prefix x s" using prefix_ReplaceAll "1.prems"(2) by (auto simp: redactable_def)
        with Cons show ?thesis by simp
      next
        case 2
        with "1.IH" "1.prems"(2) Cons show ?thesis by auto
      qed
    qed
  qed
qed

lemma ReplaceAll_clean: "redactable old \<Longrightarrow> \<not> Contains (ReplaceAll old redacted s) old"
proof (induction s rule: length_induct)
  case (1 s)
  have ne: "old \<noteq> []" using "1.prems" by (auto simp: redactable_def)
  show ?case
  proof (cases "prefix old s")
    case True
    then have "ReplaceAll old redacted s = redacted @ ReplaceAll old redacted (drop (length old) s)"
      using ne by (simp add: ReplaceAll.simps [of old redacted s])
    moreover have "\<not> Contains (ReplaceAll old redacted (drop (length old) s)) old"
      using "1.IH" "1.prems" True ne by (cases s; cases old) auto
    ultimately show ?thesis using Contains_redacted [OF _ "1.prems"] by metis
  next
    case False
    show ?thesis
    proof (cases s)
      case Nil
      with False ne show ?thesis by (simp add: ReplaceAll.simps [of old redacted s])
    next
      case (Cons c cs)
      have s: "ReplaceAll old redacted s = c # ReplaceAll old redacted cs"
        unfolding Cons using False Cons by (auto simp: ReplaceAll.simps [of old redacted "c # cs"])
      have "\<not> prefix old (ReplaceAll old redacted s)"
        using prefix_ReplaceAll [of old old s] False "1.prems" by (auto simp: redactable_def)
      with s "1.IH" "1.prems" Cons show ?thesis by simp
    qed
  qed
qed

lemma redact_one_keeps: "\<not> Contains s x \<Longrightarrow> redactable x \<Longrightarrow> \<not> Contains (redact_one y s) x"
  using Contains_ReplaceAll by (auto simp: redact_one_def)

lemma redact_one_clean: "redactable x \<Longrightarrow> \<not> Contains (redact_one x s) x"
  using ReplaceAll_clean by (simp add: redact_one_def redactable_def)

lemma redact_fold_keeps: "\<not> Contains s x \<Longrightarrow> redactable x \<Longrightarrow> \<not> Contains (fold redact_one ys s) x"
  by (induction ys arbitrary: s) (simp_all add: redact_one_keeps)

lemma redact_fold_clean: "x \<in> set ys \<Longrightarrow> redactable x \<Longrightarrow> \<not> Contains (fold redact_one ys s) x"
proof (induction ys arbitrary: s)
  case (Cons y ys)
  then show ?case
    using redact_fold_keeps [of "redact_one x s" x ys] redact_one_clean [of x s] by auto
qed simp

section \<open>Properties\<close>

text \<open>C31: no credential in error text. A response body that echoes the emitter's token, its
  instance-and-token pair or its encoded Basic credential holds none of them after
  redaction, for secrets of two characters or more without square brackets that are not
  themselves part of the word that replaces them.\<close>

theorem redactSecrets_clean:
  assumes "x = TrimPrefix (cr_auth e) ''Basic '' \<or> x = cr_Token e \<or> x = cr_InstanceID e @ '':'' @ cr_Token e"
    and "redactable x"
  shows "\<not> Contains (redactSecrets e s) x"
proof (cases "s = ''''")
  case True
  with assms(2) show ?thesis by (auto simp: redactSecrets_def redactable_def)
next
  case False
  have "x \<in> set [TrimPrefix (cr_auth e) ''Basic '', cr_Token e, cr_InstanceID e @ '':'' @ cr_Token e]"
    using assms(1) by auto
  from redact_fold_clean [OF this assms(2), of s] False show ?thesis by (simp add: redactSecrets_def)
qed

theorem redactSecrets_clean_witness:
  "\<not> Contains (redactSecrets (basic_auth (\<lambda>s. ''QkFTRTY0'') ''42'' ''glc_x'') ''bad auth QkFTRTY0 glc_x'') ''glc_x'' \<and>
   redactSecrets (basic_auth (\<lambda>s. ''QkFTRTY0'') ''42'' ''glc_x'') ''bad auth QkFTRTY0 glc_x'' = ''bad auth [REDACTED] [REDACTED]''"
proof -
  have "redactable ''glc_x''" by (simp add: redactable_def)
  then have "\<not> Contains (redactSecrets (basic_auth (\<lambda>s. ''QkFTRTY0'') ''42'' ''glc_x'') ''bad auth QkFTRTY0 glc_x'') ''glc_x''"
    by (intro redactSecrets_clean) (simp_all add: basic_auth_def)
  moreover have "redactSecrets (basic_auth (\<lambda>s. ''QkFTRTY0'') ''42'' ''glc_x'') ''bad auth QkFTRTY0 glc_x'' = ''bad auth [REDACTED] [REDACTED]''"
    by (simp add: redactSecrets_def basic_auth_def redact_one_def TrimPrefix_def HasPrefix_def ReplaceAll.simps redacted_def)
  ultimately show ?thesis by blast
qed


section \<open>A wire reader, and two edges\<close>

text \<open>The varint and length-delimited fields of the protobuf wire format, to run the decoder on bytes.\<close>

fun varint :: "nat \<Rightarrow> string \<Rightarrow> (nat \<times> nat) option" where
  "varint k [] = None"
| "varint k (c # cs) =
     (if (of_char c :: nat) < 128 then Some (of_char c, 1)
      else if k = 0 then None
      else case varint (k - 1) cs of None \<Rightarrow> None | Some (v, n) \<Rightarrow> Some (of_char c - 128 + 128 * v, Suc n))"

definition std_bytes :: "string \<Rightarrow> string \<times> int" where
  "std_bytes b = (case varint 9 b of None \<Rightarrow> ('''', -1)
     | Some (l, n) \<Rightarrow> if n + l \<le> length b then (take l (drop n b), int (n + l)) else ('''', -1))"

definition std_wire :: protowire where
  "std_wire =
     \<lparr>pw_ConsumeTag = (\<lambda>b. case varint 9 b of None \<Rightarrow> (0, 0, -1) | Some (v, n) \<Rightarrow> (int (v div 8), int (v mod 8), int n)),
      pw_ConsumeVarint = (\<lambda>b. case varint 9 b of None \<Rightarrow> (0, -1) | Some (v, n) \<Rightarrow> (int v, int n)),
      pw_ConsumeBytes = std_bytes,
      pw_ConsumeFieldValue = (\<lambda>num typ b. if typ = 0 then (case varint 9 b of None \<Rightarrow> -1 | Some (v, n) \<Rightarrow> int n)
         else if typ = 2 then snd (std_bytes b) else -1)\<rparr>"

lemma varint_length: "varint k b = Some (v, n) \<Longrightarrow> 0 < n \<and> n \<le> length b"
  by (induction k b arbitrary: v n rule: varint.induct) (force split: if_splits option.splits)+

lemma wire_ok_std: "wire_ok std_wire"
  using varint_length by (auto simp: wire_ok_def std_wire_def split: option.splits)



text \<open>
  A body that is malformed after a well-formed partial-success field still yields its count:
  \<open>fieldBytes\<close> returns what it has read so far.
\<close>

lemma decodePartialSuccess_trailing_garbage:
  "decodePartialSuccess std_wire [CHR 0x0A, CHR 0x02, CHR 0x08, CHR 0x05, CHR 0xFF] = (5, '''')"
  by code_simp

text \<open>A Retry-After of 292 years or more wraps around to a negative delay.\<close>

lemma parseRetryAfter_wraps: "parseRetryAfter P ''9223372037'' now = - 9223372036709551616"
  by (simp add: parseRetryAfter_def TrimSpace_def is_space_def ParseInt_def parse_nat_def digit_val_def Let_def
      in_int64_def wrap64_def Second_def)

end
