(* ===== verification/Otlp_Emit.thy ===== *)
theory Otlp_Emit
  imports Otlp_Encode Otlp_Reject
begin

text \<open>
  The OTLP emitter (\<^verbatim>\<open>internal/emit/otlp/otlp.go\<close>): one POST, the retry loop around it,
  and the recursive splitting of a batch that is too large. The clock, the random source,
  the cancellable sleep and the HTTP exchange are arguments that thread a world of any
  type; gzip and the protobuf library are arguments too. \<open>ps_sent\<close> records every request
  with the status it got (0 for a transport error), \<open>ps_events\<close> the calls of the two hooks.
  The retry loop is bounded by fuel; \<open>post_terminates\<close> shows how much is enough.
\<close>

section \<open>Configuration and environment\<close>

record retry_policy =
  rp_InitialDelay :: duration
  rp_MaxDelay :: duration
  rp_MaxElapsed :: duration
  rp_Multiplier :: float64
  rp_Jitter :: float64

definition DefaultRetryPolicy :: retry_policy where
  "DefaultRetryPolicy = \<lparr>rp_InitialDelay = 5 * Second, rp_MaxDelay = 30 * Second, rp_MaxElapsed = 5 * Minute,
     rp_Multiplier = Fin (3 / 2), rp_Jitter = Fin (1 / 2)\<rparr>"

definition zero_policy :: retry_policy where
  "zero_policy = \<lparr>rp_InitialDelay = 0, rp_MaxDelay = 0, rp_MaxElapsed = 0, rp_Multiplier = Fin 0, rp_Jitter = Fin 0\<rparr>"

record emitter_config =
  oc_Endpoint :: string
  oc_InstanceID :: string
  oc_Token :: string
  oc_Identity :: labels
  oc_MaxBytes :: int
  oc_Retry :: retry_policy
  oc_Observer :: bool
  oc_OnPartialReject :: bool

record emitter =
  em_cfg :: emitter_config
  em_url :: string
  em_logsURL :: string
  em_cred :: credentials

definition TrimRight_slash :: "string \<Rightarrow> string" where
  "TrimRight_slash s = rev (dropWhile (\<lambda>c. c = CHR ''/'') (rev s))"

definition otlp_New :: "(string \<Rightarrow> string) \<Rightarrow> emitter_config \<Rightarrow> emitter" where
  "otlp_New base64 cfg =
     (let base = TrimRight_slash (oc_Endpoint cfg) in
      \<lparr>em_cfg = (if oc_Retry cfg = zero_policy then cfg\<lparr>oc_Retry := DefaultRetryPolicy\<rparr> else cfg),
       em_url = base @ ''/v1/metrics'', em_logsURL = base @ ''/v1/logs'',
       em_cred = basic_auth base64 (oc_InstanceID cfg) (oc_Token cfg)\<rparr>)"

record http_request =
  rq_url :: string
  rq_auth :: "string option"
  rq_body :: string

record http_response =
  rs_status :: int
  rs_body :: string
  rs_retry_after :: string

record 'w http_env =
  he_NewRequest :: "string \<Rightarrow> bool"
  he_now :: "'w \<Rightarrow> instant \<times> 'w"
  he_Do :: "'w \<Rightarrow> http_request \<Rightarrow> http_response option \<times> 'w"
  he_rand :: "'w \<Rightarrow> float64 \<times> 'w"
  he_sleep :: "'w \<Rightarrow> duration \<Rightarrow> bool \<times> 'w"
  he_ParseTime :: "string \<Rightarrow> instant option"
  he_wire :: protowire

datatype emit_event = Observed string int bool duration | PartialReject string int string

record 'w post_state =
  ps_w :: 'w
  ps_events :: "emit_event list"
  ps_sent :: "(string \<times> string \<times> int) list"

definition plane_of :: "emitter \<Rightarrow> string \<Rightarrow> string" where
  "plane_of e url = (if url = em_logsURL e then ''logs'' else ''metrics'')"

section \<open>One POST\<close>

definition observe :: "emitter \<Rightarrow> emit_event \<Rightarrow> 'w post_state \<Rightarrow> 'w post_state" where
  "observe e ev s = (if oc_Observer (em_cfg e) then s\<lparr>ps_events := ps_events s @ [ev]\<rparr> else s)"

text \<open>The result is the status, the body, the Retry-After delay and whether there was an error.\<close>

definition doOnce ::
  "emitter \<Rightarrow> 'w http_env \<Rightarrow> string \<Rightarrow> string \<Rightarrow> 'w post_state \<Rightarrow> (int \<times> string \<times> duration \<times> bool) \<times> 'w post_state" where
  "doOnce e env url gz s =
     (if \<not> he_NewRequest env url then ((0, '''', 0, True), s)
      else
        (let rq = \<lparr>rq_url = url, rq_auth = (if cr_auth (em_cred e) \<noteq> '''' then Some (cr_auth (em_cred e)) else None),
                   rq_body = gz\<rparr>;
             (start, w1) = he_now env (ps_w s);
             (resp, w2) = he_Do env w1 rq;
             (stop, w3) = he_now env w2;
             dur = time_Sub stop start
         in case resp of
              None \<Rightarrow> ((0, '''', 0, True),
                observe e (Observed (plane_of e url) 0 True dur)
                  (s\<lparr>ps_w := w3, ps_sent := ps_sent s @ [(url, gz, 0)]\<rparr>))
            | Some r \<Rightarrow>
                (let (t, w4) = he_now env w3
                 in ((rs_status r, take 4096 (rs_body r), parseRetryAfter (he_ParseTime env) (rs_retry_after r) t, False),
                     observe e (Observed (plane_of e url) (rs_status r) False dur)
                       (s\<lparr>ps_w := w4, ps_sent := ps_sent s @ [(url, gz, rs_status r)]\<rparr>)))))"

section \<open>The retry loop\<close>

definition jittered :: "duration \<Rightarrow> float64 \<Rightarrow> float64 \<Rightarrow> duration" where
  "jittered d j r =
     (if f_le j (Fin 0) then d
      else wrap64 (d + f_to_int (f_mul (f_mul (f_of_int d) j) (f_sub (f_mul r (Fin 2)) (Fin 1)))))"

definition next_delay :: "retry_policy \<Rightarrow> duration \<Rightarrow> duration" where
  "next_delay p delay =
     (let d = f_to_int (f_mul (f_of_int delay) (rp_Multiplier p)) in if d > rp_MaxDelay p then rp_MaxDelay p else d)"

text \<open>The random source is read only when the jitter is positive.\<close>

definition draw_sleep :: "'w http_env \<Rightarrow> retry_policy \<Rightarrow> duration \<Rightarrow> 'w \<Rightarrow> duration \<times> 'w" where
  "draw_sleep env p delay w =
     (if f_le (rp_Jitter p) (Fin 0) then (delay, w)
      else case he_rand env w of (r, w1) \<Rightarrow> (jittered delay (rp_Jitter p) r, w1))"

definition on_success :: "emitter \<Rightarrow> 'w http_env \<Rightarrow> string \<Rightarrow> string \<Rightarrow> 'w post_state \<Rightarrow> 'w post_state" where
  "on_success e env url raw s =
     (if oc_OnPartialReject (em_cfg e)
      then case decodePartialSuccess (he_wire env) raw of (n, msg) \<Rightarrow>
             (if n > 0 then s\<lparr>ps_events := ps_events s @ [PartialReject (plane_of e url) n (redactSecrets (em_cred e) msg)]\<rparr>
              else s)
      else s)"

text \<open>
  The rest of a round without a verdict: give up (\<open>Inl\<close>) on a status that is not retried, a
  spent budget, a Retry-After beyond it or a cancelled sleep, or go round again (\<open>Inr\<close>).
\<close>

definition post_backoff ::
  "'w http_env \<Rightarrow> retry_policy \<Rightarrow> instant \<Rightarrow> duration \<Rightarrow> int \<Rightarrow> duration \<Rightarrow> bool \<Rightarrow> 'w post_state
   \<Rightarrow> 'w post_state + 'w post_state" where
  "post_backoff env p deadline delay status retryAfter err s1 =
     (if \<not> isRetryable status err then Inl s1
      else
        (let (now, w2) = he_now env (ps_w s1); s2 = s1\<lparr>ps_w := w2\<rparr> in
         if now > deadline then Inl s2
         else
           (let (sl, w3) = draw_sleep env p delay w2; s3 = s2\<lparr>ps_w := w3\<rparr> in
            if status = 429 \<and> retryAfter > 0 \<and> retryAfter > time_Sub deadline now then Inl s3
            else
              (let sl' = (if status = 429 \<and> retryAfter > 0 \<and> retryAfter > sl then retryAfter else sl);
                   (cancelled, w4) = he_sleep env w3 sl'; s4 = s3\<lparr>ps_w := w4\<rparr> in
               if cancelled then Inl s4 else Inr s4))))"

fun post_loop ::
  "emitter \<Rightarrow> 'w http_env \<Rightarrow> string \<Rightarrow> string \<Rightarrow> instant \<Rightarrow> nat \<Rightarrow> duration \<Rightarrow> 'w post_state
   \<Rightarrow> (emit_result \<times> 'w post_state) option" where
  "post_loop e env url gz deadline 0 delay s = None"
| "post_loop e env url gz deadline (Suc fuel) delay s =
     (case doOnce e env url gz s of ((status, raw, retryAfter, err), s1) \<Rightarrow>
        if \<not> err \<and> 200 \<le> status \<and> status < 300 then Some (EmitOk, on_success e env url raw s1)
        else if 400 \<le> status \<and> status < 500 \<and> status \<noteq> 429
        then Some (EmitReject (classify status (redactSecrets (em_cred e) raw)), s1)
        else
          (case post_backoff env (oc_Retry (em_cfg e)) deadline delay status retryAfter err s1 of
             Inl s2 \<Rightarrow> Some (EmitRetryable status, s2)
           | Inr s2 \<Rightarrow> post_loop e env url gz deadline fuel (next_delay (oc_Retry (em_cfg e)) delay) s2))"

definition post ::
  "nat \<Rightarrow> emitter \<Rightarrow> 'w http_env \<Rightarrow> string \<Rightarrow> string \<Rightarrow> 'w post_state \<Rightarrow> (emit_result \<times> 'w post_state) option" where
  "post fuel e env url gz s =
     (case he_now env (ps_w s) of (t, w1) \<Rightarrow>
        post_loop e env url gz (time_Add t (rp_MaxElapsed (oc_Retry (em_cfg e)))) fuel
          (rp_InitialDelay (oc_Retry (em_cfg e))) (s\<lparr>ps_w := w1\<rparr>))"

section \<open>Splitting\<close>

fun too_large :: "emit_result \<Rightarrow> bool" where
  "too_large (EmitReject re) = (re_Reason re = ReasonPayloadTooLarge)"
| "too_large _ = False"

definition encode_error_msg :: "encode_error \<Rightarrow> string" where
  "encode_error_msg e =
     (case e of
        DeltaTemporality n \<Rightarrow> ''otlp: Delta temporality not accepted by the GC gateway (use Cumulative): '' @ n
      | NotGauge n \<Rightarrow> ''otlp: v1 emits Gauge only, got kind=1 for '' @ n
      | MarshalError \<Rightarrow> ''otlp: marshal'')"

text \<open>The body shared by \<open>emitSamples\<close> and \<open>emitLogs\<close>, which differ in the encoder and the URL.\<close>

function emit_chunks ::
  "('s \<Rightarrow> string \<Rightarrow> (emit_result \<times> 's) option) \<Rightarrow> ('a list \<Rightarrow> encode_error + string) \<Rightarrow> (string \<Rightarrow> string option) \<Rightarrow> int
   \<Rightarrow> 'a list \<Rightarrow> 's \<Rightarrow> (emit_result \<times> 's) option" where
  "emit_chunks pst enc gzip mx xs s =
     (case enc xs of
        Inl e \<Rightarrow> Some (EmitReject \<lparr>re_Reason = ReasonBadEncoding, re_Status = 0, re_Msg = encode_error_msg e\<rparr>, s)
      | Inr body \<Rightarrow>
          (case gzip body of
             None \<Rightarrow> Some (EmitOther ''otlp: gzip'', s)
           | Some gz \<Rightarrow>
               (if mx > 0 \<and> int (length gz) > mx \<and> length xs > 1
                then (case emit_chunks pst enc gzip mx (take (length xs div 2) xs) s of
                        None \<Rightarrow> None
                      | Some (r, s1) \<Rightarrow>
                          (if r \<noteq> EmitOk then Some (r, s1)
                           else emit_chunks pst enc gzip mx (drop (length xs div 2) xs) s1))
                else
                  (case pst s gz of
                     None \<Rightarrow> None
                   | Some (rerr, s0) \<Rightarrow>
                       (if too_large rerr \<and> length xs > 1
                        then (case emit_chunks pst enc gzip mx (take (length xs div 2) xs) s0 of
                                None \<Rightarrow> None
                              | Some (r, s1) \<Rightarrow>
                                  (if r \<noteq> EmitOk then Some (r, s1)
                                   else emit_chunks pst enc gzip mx (drop (length xs div 2) xs) s1))
                        else Some (rerr, s0))))))"
  by pat_completeness auto
termination
  by (relation "measure (\<lambda>(pst, enc, gzip, mx, xs, s). length xs)") auto

declare emit_chunks.simps [simp del]

definition emitSamples ::
  "nat \<Rightarrow> emitter \<Rightarrow> 'w http_env \<Rightarrow> proto \<Rightarrow> (string \<Rightarrow> string option) \<Rightarrow> sample list \<Rightarrow> 'w post_state
   \<Rightarrow> (emit_result \<times> 'w post_state) option" where
  "emitSamples fuel e env pb gzip samples s =
     emit_chunks (\<lambda>s gz. post fuel e env (em_url e) gz s) (Encode pb (oc_Identity (em_cfg e))) gzip
       (oc_MaxBytes (em_cfg e)) samples s"

definition emitLogs ::
  "nat \<Rightarrow> emitter \<Rightarrow> 'w http_env \<Rightarrow> proto \<Rightarrow> (string \<Rightarrow> string option) \<Rightarrow> log_record list \<Rightarrow> 'w post_state
   \<Rightarrow> (emit_result \<times> 'w post_state) option" where
  "emitLogs fuel e env pb gzip logs s =
     emit_chunks (\<lambda>s gz. post fuel e env (em_logsURL e) gz s) (EncodeLogs pb (oc_Identity (em_cfg e))) gzip
       (oc_MaxBytes (em_cfg e)) logs s"

definition otlp_Emit ::
  "nat \<Rightarrow> emitter \<Rightarrow> 'w http_env \<Rightarrow> proto \<Rightarrow> (string \<Rightarrow> string option) \<Rightarrow> batch \<Rightarrow> 'w post_state
   \<Rightarrow> (emit_result \<times> 'w post_state) option" where
  "otlp_Emit fuel e env pb gzip b s =
     (case (if bt_Samples b \<noteq> [] then emitSamples fuel e env pb gzip (bt_Samples b) s else Some (EmitOk, s)) of
        None \<Rightarrow> None
      | Some (r, s1) \<Rightarrow>
          (if r \<noteq> EmitOk then Some (r, s1)
           else if bt_Logs b \<noteq> [] then emitLogs fuel e env pb gzip (bt_Logs b) s1
           else Some (EmitOk, s1)))"

section \<open>What a POST leaves behind\<close>

definition is_2xx :: "int \<Rightarrow> bool" where
  "is_2xx st \<longleftrightarrow> 200 \<le> st \<and> st < 300"

text \<open>The bodies the gateway has accepted on a URL.\<close>

definition accepted :: "string \<Rightarrow> 'w post_state \<Rightarrow> string list" where
  "accepted url s = map (\<lambda>x. fst (snd x)) (filter (\<lambda>x. fst x = url \<and> is_2xx (snd (snd x))) (ps_sent s))"

definition tries :: "string \<Rightarrow> string \<Rightarrow> (string \<times> string \<times> int) list \<Rightarrow> bool" where
  "tries url gz l \<longleftrightarrow> (\<forall>x\<in>set l. \<exists>st. x = (url, gz, st) \<and> \<not> is_2xx st)"

lemma ps_sent_observe [simp]: "ps_sent (observe e ev s) = ps_sent s" "ps_w (observe e ev s) = ps_w s"
  by (simp_all add: observe_def)

lemma ps_sent_on_success [simp]: "ps_sent (on_success e env url raw s) = ps_sent s"
  by (simp add: on_success_def split: prod.split)

lemma doOnce_sent:
  assumes "doOnce e env url gz s = ((status, raw, ra, err), s1)"
  shows "err \<and> status = 0 \<and> ps_sent s1 = ps_sent s \<or>
    (err \<longrightarrow> status = 0) \<and> ps_sent s1 = ps_sent s @ [(url, gz, status)]"
  using assms by (auto simp: doOnce_def Let_def split: if_splits prod.splits option.splits)

lemma doOnce_tries:
  assumes "doOnce e env url gz s = ((status, raw, ra, err), s1)" "err \<or> \<not> is_2xx status"
  shows "\<exists>l. ps_sent s1 = ps_sent s @ l \<and> tries url gz l"
  using doOnce_sent [OF assms(1)] assms(2) by (auto simp: tries_def is_2xx_def)

text \<open>The outcome of the loop: success ends with the one accepted request, anything else has none.\<close>

definition post_outcome ::
  "string \<Rightarrow> string \<Rightarrow> 'w post_state \<Rightarrow> emit_result \<Rightarrow> 'w post_state \<Rightarrow> bool" where
  "post_outcome url gz s r s' \<longleftrightarrow>
     (\<exists>l. ps_sent s' = ps_sent s @ l \<and>
        (case r of
           EmitOk \<Rightarrow> (\<exists>l' st. l = l' @ [(url, gz, st)] \<and> tries url gz l' \<and> is_2xx st)
         | EmitReject re \<Rightarrow> tries url gz l \<and> (\<exists>st body. l \<noteq> [] \<and> last l = (url, gz, st) \<and>
             400 \<le> st \<and> st < 500 \<and> st \<noteq> 429 \<and> re = classify st body)
         | EmitRetryable st \<Rightarrow> tries url gz l
         | EmitOther m \<Rightarrow> False))"

lemma tries_append: "tries url gz (a @ b) \<longleftrightarrow> tries url gz a \<and> tries url gz b"
  by (auto simp: tries_def)

lemma post_outcome_step:
  assumes "ps_sent s1 = ps_sent s @ l" "tries url gz l" "post_outcome url gz s1 r s'"
  shows "post_outcome url gz s r s'"
proof -
  from assms(3) obtain m where m: "ps_sent s' = ps_sent s1 @ m" and
    r: "case r of
           EmitOk \<Rightarrow> (\<exists>l' st. m = l' @ [(url, gz, st)] \<and> tries url gz l' \<and> is_2xx st)
         | EmitReject re \<Rightarrow> tries url gz m \<and> (\<exists>st body. m \<noteq> [] \<and> last m = (url, gz, st) \<and>
             400 \<le> st \<and> st < 500 \<and> st \<noteq> 429 \<and> re = classify st body)
         | EmitRetryable st \<Rightarrow> tries url gz m
         | EmitOther m \<Rightarrow> False"
    unfolding post_outcome_def by blast
  have "case r of
           EmitOk \<Rightarrow> (\<exists>l' st. l @ m = l' @ [(url, gz, st)] \<and> tries url gz l' \<and> is_2xx st)
         | EmitReject re \<Rightarrow> tries url gz (l @ m) \<and> (\<exists>st body. l @ m \<noteq> [] \<and> last (l @ m) = (url, gz, st) \<and>
             400 \<le> st \<and> st < 500 \<and> st \<noteq> 429 \<and> re = classify st body)
         | EmitRetryable st \<Rightarrow> tries url gz (l @ m)
         | EmitOther m \<Rightarrow> False"
  proof (cases r)
    case EmitOk
    with r obtain l' st where "m = l' @ [(url, gz, st)]" "tries url gz l'" "is_2xx st" by auto
    with EmitOk assms(2) show ?thesis by (simp add: tries_append)
  qed (use r assms(2) in \<open>auto simp: tries_append\<close>)
  with m assms(1) show ?thesis unfolding post_outcome_def by auto
qed

lemma post_backoff_frame:
  assumes "post_backoff env p deadline delay status ra err s1 = q" "q = Inl s2 \<or> q = Inr s2"
  shows "ps_sent s2 = ps_sent s1"
  using assms by (auto simp: post_backoff_def Let_def split: if_splits prod.splits)

lemma post_loop_outcome:
  "post_loop e env url gz deadline fuel delay s = Some (r, s') \<Longrightarrow> post_outcome url gz s r s'"
proof (induction fuel arbitrary: delay s)
  case (Suc fuel)
  obtain status raw ra err s1 where once: "doOnce e env url gz s = ((status, raw, ra, err), s1)"
    by (metis prod.collapse)
  show ?case
  proof (cases "\<not> err \<and> is_2xx status")
    case True
    then have "r = EmitOk" "ps_sent s' = ps_sent s1"
      using Suc.prems once by (auto simp: is_2xx_def)
    with doOnce_sent [OF once] True show ?thesis
      by (auto simp: post_outcome_def tries_def)
  next
    case False
    then obtain l where l: "ps_sent s1 = ps_sent s @ l" "tries url gz l"
      using doOnce_tries [OF once] by blast
    have nok: "\<not> (\<not> err \<and> 200 \<le> status \<and> status < 300)" using False by (simp add: is_2xx_def)
    show ?thesis
    proof (cases "400 \<le> status \<and> status < 500 \<and> status \<noteq> 429")
      case True
      then have "r = EmitReject (classify status (redactSecrets (em_cred e) raw))" "s' = s1"
        using Suc.prems once nok by (auto simp: Let_def)
      moreover have "l = [(url, gz, status)]" using doOnce_sent [OF once] True l(1) by auto
      ultimately show ?thesis using l True by (auto simp: post_outcome_def)
    next
      case no4xx: False
      define q where "q = post_backoff env (oc_Retry (em_cfg e)) deadline delay status ra err s1"
      obtain s2 where s2: "q = Inl s2 \<or> q = Inr s2" by (cases q) auto
      have sent: "ps_sent s2 = ps_sent s @ l" using post_backoff_frame [OF q_def [symmetric] s2] l(1) by simp
      from s2 show ?thesis
      proof
        assume "q = Inl s2"
        with Suc.prems once nok no4xx have "r = EmitRetryable status" "s' = s2" by (auto simp: q_def)
        with l sent show ?thesis by (auto simp: post_outcome_def)
      next
        assume "q = Inr s2"
        with Suc.prems once nok no4xx
        have "post_loop e env url gz deadline fuel (next_delay (oc_Retry (em_cfg e)) delay) s2 = Some (r, s')"
          by (auto simp: q_def)
        from post_outcome_step [OF sent l(2) Suc.IH [OF this]] show ?thesis .
      qed
    qed
  qed
qed simp

lemma post_outcome_post: "post fuel e env url gz s = Some (r, s') \<Longrightarrow> post_outcome url gz s r s'"
  using post_loop_outcome by (fastforce simp: post_def post_outcome_def split: prod.splits)

lemma post_accepted:
  assumes "post fuel e env url gz s = Some (r, s')"
  shows "accepted url s' = accepted url s @ (if r = EmitOk then [gz] else [])"
proof -
  have "tries url gz l \<Longrightarrow> filter (\<lambda>x. fst x = url \<and> is_2xx (snd (snd x))) l = []" for l
    by (auto simp: tries_def filter_empty_conv)
  with post_outcome_post [OF assms] show ?thesis
    by (cases r) (auto simp: post_outcome_def accepted_def)
qed

section \<open>What splitting leaves behind\<close>

definition encodes :: "('a list \<Rightarrow> encode_error + string) \<Rightarrow> (string \<Rightarrow> string option) \<Rightarrow> 'a list \<Rightarrow> string \<Rightarrow> bool" where
  "encodes enc gzip c z \<longleftrightarrow> (\<exists>b. enc c = Inr b \<and> gzip b = Some z)"

text \<open>The accepted bodies are the encodings of chunks of a prefix of the input, all of it on success.\<close>

definition chunks_sent ::
  "('s \<Rightarrow> string list) \<Rightarrow> ('a list \<Rightarrow> string \<Rightarrow> bool) \<Rightarrow> 'a list \<Rightarrow> 's \<Rightarrow> emit_result \<Rightarrow> 's \<Rightarrow> bool" where
  "chunks_sent acc R xs s r s' \<longleftrightarrow>
     (\<exists>cs zs. acc s' = acc s @ zs \<and> list_all2 R cs zs \<and> prefix (concat cs) xs \<and> (r = EmitOk \<longrightarrow> concat cs = xs))"

lemma chunks_sent_append:
  assumes "chunks_sent acc R xs s EmitOk s1" "chunks_sent acc R ys s1 r s'"
  shows "chunks_sent acc R (xs @ ys) s r s'"
proof -
  from assms(1) obtain cs zs where 1: "acc s1 = acc s @ zs" "list_all2 R cs zs" "concat cs = xs"
    by (auto simp: chunks_sent_def)
  from assms(2) obtain ds us where 2: "acc s' = acc s1 @ us" "list_all2 R ds us" "prefix (concat ds) ys"
      "r = EmitOk \<longrightarrow> concat ds = ys"
    by (auto simp: chunks_sent_def)
  show ?thesis unfolding chunks_sent_def
    by (intro exI [of _ "cs @ ds"] exI [of _ "zs @ us"])
      (use 1 2 in \<open>auto intro: list_all2_appendI\<close>)
qed

lemma chunks_sent_prefix:
  assumes "chunks_sent acc R xs s r s'" "r \<noteq> EmitOk"
  shows "chunks_sent acc R (xs @ ys) s r s'"
  using assms unfolding chunks_sent_def by (metis prefix_append)

lemma chunks_sent_base:
  assumes "acc s1 = acc s" "chunks_sent acc R xs s1 r s'"
  shows "chunks_sent acc R xs s r s'"
  using assms by (simp add: chunks_sent_def)

lemma chunks_sent_none: "acc s1 = acc s \<Longrightarrow> r \<noteq> EmitOk \<Longrightarrow> chunks_sent acc R xs s r s1"
  by (auto simp: chunks_sent_def intro!: exI [of _ "[]"])

lemma emit_chunks_sent:
  assumes acc: "\<And>s z r s1. pst s z = Some (r, s1) \<Longrightarrow> acc s1 = acc s @ (if r = EmitOk then [z] else [])"
  shows "emit_chunks pst enc gzip mx xs s = Some (r, s') \<Longrightarrow> chunks_sent acc (encodes enc gzip) xs s r s'"
proof (induction xs arbitrary: s r s' rule: length_induct)
  case (1 xs)
  let ?h = "length xs div 2"
  have halves: "chunks_sent acc (encodes enc gzip) xs s0 r s'"
    if len: "length xs > 1" and run: "(case emit_chunks pst enc gzip mx (take ?h xs) s0 of None \<Rightarrow> None
        | Some (r, s1) \<Rightarrow> (if r \<noteq> EmitOk then Some (r, s1) else emit_chunks pst enc gzip mx (drop ?h xs) s1)) = Some (r, s')" for s0
  proof -
    from run obtain r1 s1 where first: "emit_chunks pst enc gzip mx (take ?h xs) s0 = Some (r1, s1)"
      by (auto split: option.splits)
    have c1: "chunks_sent acc (encodes enc gzip) (take ?h xs) s0 r1 s1"
      using "1.IH" first len by auto
    show ?thesis
    proof (cases "r1 = EmitOk")
      case True
      with run first have "emit_chunks pst enc gzip mx (drop ?h xs) s1 = Some (r, s')" by simp
      then have "chunks_sent acc (encodes enc gzip) (drop ?h xs) s1 r s'" using "1.IH" len by auto
      from chunks_sent_append [OF c1 [unfolded True] this] show ?thesis by simp
    next
      case False
      with run first have "r1 = r" "s1 = s'" by auto
      with chunks_sent_prefix [OF c1 False, of "drop ?h xs"] show ?thesis by simp
    qed
  qed
  show ?case
  proof (cases "enc xs")
    case (Inl e)
    with "1.prems" show ?thesis by (auto simp: emit_chunks.simps [of _ _ _ _ xs] intro: chunks_sent_none)
  next
    case (Inr b)
    show ?thesis
    proof (cases "gzip b")
      case None
      with Inr "1.prems" show ?thesis by (auto simp: emit_chunks.simps [of _ _ _ _ xs] intro: chunks_sent_none)
    next
      case (Some z)
      show ?thesis
      proof (cases "mx > 0 \<and> int (length z) > mx \<and> length xs > 1")
        case True
        with Inr Some "1.prems" show ?thesis
          by (intro halves) (simp_all add: emit_chunks.simps [of _ _ _ _ xs])
      next
        case False
        with Inr Some "1.prems" obtain q s0 where p: "pst s z = Some (q, s0)"
          by (subst (asm) emit_chunks.simps) (auto split: option.splits)
        show ?thesis
        proof (cases "too_large q \<and> length xs > 1")
          case True
          then have "acc s0 = acc s" using acc [OF p] by (cases q) auto
          moreover have "emit_chunks pst enc gzip mx xs s =
              (case emit_chunks pst enc gzip mx (take ?h xs) s0 of None \<Rightarrow> None
               | Some (r, s1) \<Rightarrow> (if r \<noteq> EmitOk then Some (r, s1) else emit_chunks pst enc gzip mx (drop ?h xs) s1))"
            by (subst emit_chunks.simps) (use True Inr Some p False in auto)
          then have "chunks_sent acc (encodes enc gzip) xs s0 r s'"
            using True "1.prems" by (intro halves) simp_all
          ultimately show ?thesis by (rule chunks_sent_base)
        next
          case small: False
          with False Inr Some p "1.prems" have "q = r" "s0 = s'"
            by (simp_all add: emit_chunks.simps [of _ _ _ _ xs] split: if_splits)
          moreover have "encodes enc gzip xs z" using Inr Some by (simp add: encodes_def)
          ultimately show ?thesis
          proof (cases "r = EmitOk")
            case True
            with acc [OF p] \<open>q = r\<close> \<open>s0 = s'\<close> \<open>encodes enc gzip xs z\<close> show ?thesis
              unfolding chunks_sent_def by (intro exI [of _ "[xs]"] exI [of _ "[z]"]) simp
          next
            case False
            with acc [OF p] \<open>q = r\<close> \<open>s0 = s'\<close> show ?thesis by (simp add: chunks_sent_none)
          qed
        qed
      qed
    qed
  qed
qed

section \<open>Enough fuel\<close>

text \<open>A clock that never goes back, and requests that take at least a given time.\<close>

definition clocked :: "'w http_env \<Rightarrow> ('w \<Rightarrow> instant) \<Rightarrow> duration \<Rightarrow> bool" where
  "clocked env clk d \<longleftrightarrow>
     (\<forall>w t w'. he_now env w = (t, w') \<longrightarrow> t = clk w \<and> clk w \<le> clk w') \<and>
     (\<forall>w rq r w'. he_Do env w rq = (r, w') \<longrightarrow> clk w + d \<le> clk w') \<and>
     (\<forall>w r w'. he_rand env w = (r, w') \<longrightarrow> clk w \<le> clk w') \<and>
     (\<forall>w x c w'. he_sleep env w x = (c, w') \<longrightarrow> clk w \<le> clk w')"

lemma clockedD:
  assumes "clocked env clk d"
  shows "he_now env w = (t, w') \<Longrightarrow> t = clk w" "he_now env w = (t, w') \<Longrightarrow> clk w \<le> clk w'"
    "he_Do env w rq = (r, w') \<Longrightarrow> clk w + d \<le> clk w'" "he_rand env w = (x, w') \<Longrightarrow> clk w \<le> clk w'"
    "he_sleep env w y = (c, w') \<Longrightarrow> clk w \<le> clk w'"
  using assms unfolding clocked_def by blast+

lemma doOnce_clock:
  assumes "clocked env clk d" "he_NewRequest env url" "doOnce e env url gz s = (a, s1)"
  shows "clk (ps_w s) + d \<le> clk (ps_w s1)"
proof -
  let ?rq = "\<lparr>rq_url = url, rq_auth = (if cr_auth (em_cred e) \<noteq> '''' then Some (cr_auth (em_cred e)) else None),
      rq_body = gz\<rparr>"
  obtain t1 w1 where 1: "he_now env (ps_w s) = (t1, w1)" by fastforce
  obtain r w2 where 2: "he_Do env w1 ?rq = (r, w2)" by fastforce
  obtain t3 w3 where 3: "he_now env w2 = (t3, w3)" by fastforce
  obtain t4 w4 where 4: "he_now env w3 = (t4, w4)" by fastforce
  have "ps_w s1 = w3 \<or> ps_w s1 = w4"
    using assms(2,3) 1 2 3 4 by (cases r) (auto simp: doOnce_def Let_def)
  moreover note c = clockedD [OF assms(1)]
  have "clk (ps_w s) + d \<le> clk w3" "clk w3 \<le> clk w4"
    using c(2) [OF 1] c(3) [OF 2] c(2) [OF 3] c(2) [OF 4] by linarith+
  ultimately show ?thesis by auto
qed

lemma post_backoff_clock:
  assumes "clocked env clk d" "post_backoff env p deadline delay status ra err s1 = Inr s2"
  shows "clk (ps_w s1) \<le> deadline \<and> clk (ps_w s1) \<le> clk (ps_w s2)"
proof -
  note c = clockedD [OF assms(1)]
  obtain now w2 where n: "he_now env (ps_w s1) = (now, w2)" by fastforce
  obtain sl w3 where d: "draw_sleep env p delay w2 = (sl, w3)" by fastforce
  obtain cn w4 where s: "he_sleep env w3 (if status = 429 \<and> ra > 0 \<and> ra > sl then ra else sl) = (cn, w4)" by fastforce
  have "clk w2 \<le> clk w3"
    using d c(4) by (auto simp: draw_sleep_def split: if_splits prod.splits)
  moreover have "now \<le> deadline" "ps_w s2 = w4"
    using assms(2) n d s by (auto simp: post_backoff_def Let_def split: if_splits)
  ultimately show ?thesis using c(1) [OF n] c(2) [OF n] c(5) [OF s] by simp
qed

lemma post_loop_total:
  assumes "clocked env clk d" "0 < d" "he_NewRequest env url"
  shows "0 < fuel \<Longrightarrow> deadline < clk (ps_w s) + int fuel * d \<Longrightarrow>
    \<exists>r s'. post_loop e env url gz deadline fuel delay s = Some (r, s')"
proof (induction fuel arbitrary: delay s)
  case (Suc n)
  obtain status raw ra err s1 where once: "doOnce e env url gz s = ((status, raw, ra, err), s1)"
    by (metis prod.collapse)
  note clk1 = doOnce_clock [OF assms(1,3) once]
  show ?case
  proof (cases "post_backoff env (oc_Retry (em_cfg e)) deadline delay status ra err s1")
    case (Inl s2)
    then show ?thesis using once by auto
  next
    case (Inr s2)
    note clk2 = post_backoff_clock [OF assms(1) Inr]
    have "0 < n" using clk1 clk2 Suc.prems(2) assms(2) by (cases n) auto
    moreover have "deadline < clk (ps_w s2) + int n * d"
      using clk1 clk2 Suc.prems(2) by (simp add: algebra_simps)
    ultimately show ?thesis using Suc.IH [of s2] once Inr by auto
  qed
qed simp

section \<open>Properties\<close>

text \<open>C20: success means accepted, and only that. When the POST loop returns, its requests all carry
  the one body to the one URL; it reports success exactly when the last of them got a 2xx
  and no other did, and a rejection only for a last status between 400 and 499 other than
  429, classified from that response.\<close>

theorem post_honest:
  assumes "post fuel e env url gz s = Some (r, s')"
  shows "\<exists>l. ps_sent s' = ps_sent s @ l \<and> (\<forall>x\<in>set l. fst x = url \<and> fst (snd x) = gz) \<and>
    (case r of
       EmitOk \<Rightarrow> l \<noteq> [] \<and> is_2xx (snd (snd (last l))) \<and> (\<forall>x\<in>set (butlast l). \<not> is_2xx (snd (snd x)))
     | EmitReject re \<Rightarrow> l \<noteq> [] \<and> (\<forall>x\<in>set l. \<not> is_2xx (snd (snd x))) \<and>
         400 \<le> re_Status re \<and> re_Status re < 500 \<and> re_Status re \<noteq> 429 \<and> re_Status re = snd (snd (last l))
     | EmitRetryable st \<Rightarrow> (\<forall>x\<in>set l. \<not> is_2xx (snd (snd x)))
     | EmitOther m \<Rightarrow> False)"
proof -
  have cl: "re_Status (classify st b) = st" for st b by (simp add: classify_def Let_def)
  from post_outcome_post [OF assms] obtain l where l: "ps_sent s' = ps_sent s @ l" and
    r: "case r of
           EmitOk \<Rightarrow> (\<exists>l' st. l = l' @ [(url, gz, st)] \<and> tries url gz l' \<and> is_2xx st)
         | EmitReject re \<Rightarrow> tries url gz l \<and> (\<exists>st body. l \<noteq> [] \<and> last l = (url, gz, st) \<and>
             400 \<le> st \<and> st < 500 \<and> st \<noteq> 429 \<and> re = classify st body)
         | EmitRetryable st \<Rightarrow> tries url gz l
         | EmitOther m \<Rightarrow> False"
    unfolding post_outcome_def by blast
  have tr: "tries url gz l' \<Longrightarrow> x \<in> set l' \<Longrightarrow> fst x = url \<and> fst (snd x) = gz \<and> \<not> is_2xx (snd (snd x))" for x l'
    by (auto simp: tries_def)
  show ?thesis
    by (rule exI [of _ l]) (use l r tr in \<open>cases r; auto simp: cl\<close>)
qed

record script_world =
  sw_clock :: instant
  sw_answers :: "http_response option list"

definition script_env :: "script_world http_env" where
  "script_env =
     \<lparr>he_NewRequest = (\<lambda>_. True), he_now = (\<lambda>w. (sw_clock w, w)),
      he_Do = (\<lambda>w rq. (case sw_answers w of [] \<Rightarrow> None | a # _ \<Rightarrow> a,
                w\<lparr>sw_clock := sw_clock w + Second, sw_answers := tl (sw_answers w)\<rparr>)),
      he_rand = (\<lambda>w. (Fin (1 / 2), w)), he_sleep = (\<lambda>w d. (False, w\<lparr>sw_clock := sw_clock w + max 0 d\<rparr>)),
      he_ParseTime = (\<lambda>_. None), he_wire = std_wire\<rparr>"

definition script_emitter :: emitter where
  "script_emitter = otlp_New id \<lparr>oc_Endpoint = ''http://g/'', oc_InstanceID = '''', oc_Token = '''', oc_Identity = fmempty,
     oc_MaxBytes = 0, oc_Retry = \<lparr>rp_InitialDelay = Second, rp_MaxDelay = 2 * Second, rp_MaxElapsed = 3 * Second,
       rp_Multiplier = Fin 2, rp_Jitter = Fin 0\<rparr>, oc_Observer = False, oc_OnPartialReject = False\<rparr>"

definition answer :: "int \<Rightarrow> string \<Rightarrow> http_response option" where
  "answer st b = Some \<lparr>rs_status = st, rs_body = b, rs_retry_after = ''''\<rparr>"

definition script :: "http_response option list \<Rightarrow> script_world post_state" where
  "script as = \<lparr>ps_w = \<lparr>sw_clock = 0, sw_answers = as\<rparr>, ps_events = [], ps_sent = []\<rparr>"

lemmas script_defs = script_env_def script_emitter_def answer_def script_def otlp_New_def basic_auth_def
  TrimRight_slash_def zero_policy_def post_def doOnce_def post_backoff_def on_success_def observe_def draw_sleep_def
  isRetryable_def parseRetryAfter_def TrimSpace_def f_le_def f_eq_def Second_def time_Add_def Let_def

lemma script_post:
  "post 2 script_emitter script_env ''http://g/v1/metrics'' ''z'' (script [None, answer 204 ''''])
   = Some (EmitOk, \<lparr>ps_w = \<lparr>sw_clock = 3 * Second, sw_answers = []\<rparr>, ps_events = [],
       ps_sent = [(''http://g/v1/metrics'', ''z'', 0), (''http://g/v1/metrics'', ''z'', 204)]\<rparr>)"
  by (simp add: script_defs numeral_2_eq_2)

theorem post_honest_witness:
  "\<exists>s'. post 2 script_emitter script_env ''http://g/v1/metrics'' ''z'' (script [None, answer 204 '''']) = Some (EmitOk, s') \<and>
     ps_sent s' \<noteq> [] \<and> is_2xx (snd (snd (last (ps_sent s'))))"
  using post_honest [OF script_post] script_post by (auto simp: script_def)



text \<open>C25: an emission is complete and in order. However the batch was split, the bodies the gateway
  accepted during emitSamples are the encodings of consecutive chunks of the samples, each
  sample in at most one; when it returns success the chunks make up exactly the samples.\<close>

theorem emitSamples_complete:
  assumes "emitSamples fuel e env pb gzip samples s = Some (r, s')"
  shows "\<exists>cs zs. accepted (em_url e) s' = accepted (em_url e) s @ zs \<and>
    list_all2 (encodes (Encode pb (oc_Identity (em_cfg e))) gzip) cs zs \<and>
    prefix (concat cs) samples \<and> (r = EmitOk \<longrightarrow> concat cs = samples)"
  using emit_chunks_sent [where acc = "accepted (em_url e)", OF post_accepted assms [unfolded emitSamples_def]]
  unfolding chunks_sent_def .

lemma script_emit:
  "\<exists>s'. emitSamples 1 script_emitter script_env toy_proto Some
      [gauge ''a'' fmempty FNaN 0, gauge ''b'' fmempty FNaN 0] (script [answer 413 '''', answer 200 '''', answer 200 '''']) = Some (EmitOk, s') \<and>
    ps_sent s' = [(''http://g/v1/metrics'', CHR 0x0A # ''ab'', 413), (''http://g/v1/metrics'', CHR 0x0A # ''a'', 200),
       (''http://g/v1/metrics'', CHR 0x0A # ''b'', 200)]"
  by (simp add: emitSamples_def emit_chunks.simps script_defs Encode_def encode_metrics_def stable_sort_def
      sample_less_def gauge_def toy_proto_def less_char_def classify_def redactSecrets_def)

theorem emitSamples_complete_witness:
  "\<exists>s' cs. emitSamples 1 script_emitter script_env toy_proto Some
      [gauge ''a'' fmempty FNaN 0, gauge ''b'' fmempty FNaN 0] (script [answer 413 '''', answer 200 '''', answer 200 '''']) = Some (EmitOk, s') \<and>
    accepted (em_url script_emitter) s' = [CHR 0x0A # ''a'', CHR 0x0A # ''b''] \<and>
    concat cs = [gauge ''a'' fmempty FNaN 0, gauge ''b'' fmempty FNaN 0]"
proof -
  have url: "em_url script_emitter = ''http://g/v1/metrics''"
    by (simp add: script_emitter_def otlp_New_def Let_def TrimRight_slash_def)
  obtain s' where run: "emitSamples 1 script_emitter script_env toy_proto Some
      [gauge ''a'' fmempty FNaN 0, gauge ''b'' fmempty FNaN 0] (script [answer 413 '''', answer 200 '''', answer 200 '''']) = Some (EmitOk, s')"
    and sent: "ps_sent s' = [(''http://g/v1/metrics'', CHR 0x0A # ''ab'', 413), (''http://g/v1/metrics'', CHR 0x0A # ''a'', 200),
       (''http://g/v1/metrics'', CHR 0x0A # ''b'', 200)]"
    using script_emit by blast
  from emitSamples_complete [OF run] run sent show ?thesis by (auto simp: accepted_def url is_2xx_def)
qed

end
