(* ===== verification/Coordinator.thy ===== *)
theory Coordinator
  imports Checkpoint Go_Strconv
begin

text \<open>
  Leader election: the coordinator seam (\<^verbatim>\<open>internal/coordinate/coordinate.go\<close>), the DynamoDB lock
  (\<^verbatim>\<open>coordinate/dynamodb/dynamodb.go\<close>) and the epoch of the Kubernetes lease
  (\<^verbatim>\<open>coordinate/lease/lease.go\<close>). The table's \<open>UpdateItem\<close> is a parameter; \<open>lock_table\<close> states
  its conditional-write law, and \<open>lock_holds\<close> and \<open>lock_apply\<close> are what the two condition
  and update expressions of the source say. The relation \<open>lock_step\<close> runs any number of
  replicas against one lock item on one clock: calls are sent, commit and are answered (or
  not) at different moments, the watchdog steps a leader down on time, and a term is over
  only when its work has drained. The elector of client-go is not modelled, only the code
  around it that reads the epoch and names the event.
\<close>

section \<open>The seam\<close>

definition RequireIdentity :: "string \<Rightarrow> string \<Rightarrow> string option" where
  "RequireIdentity coordinator identity =
     (if identity = '''' \<and> (coordinator = ''lease'' \<or> coordinator = ''dynamodb'')
      then Some ''leader-election identity is empty'' else None)"

text \<open>A context is its chain of values; the epoch is found under its key.\<close>

type_synonym context_values = "(nat \<times> int) list"

definition epochKey :: nat where "epochKey = 0"

definition WithEpoch :: "context_values \<Rightarrow> int \<Rightarrow> context_values" where
  "WithEpoch ctx epoch = (epochKey, epoch) # ctx"

definition EpochFromContext :: "context_values \<Rightarrow> int" where
  "EpochFromContext ctx = (case map_of ctx epochKey of Some v \<Rightarrow> v | None \<Rightarrow> 0)"

definition noop_epoch :: "int \<Rightarrow> context_values \<Rightarrow> context_values" where
  "noop_epoch epoch ctx = WithEpoch ctx (max 1 epoch)"

section \<open>The DynamoDB lock\<close>

record lock_item =
  li_holder :: "string option"
  li_expiresAtMs :: "int option"
  li_fence :: "int option"

datatype lock_cond = AcquireCond int string | RenewCond string int

datatype lock_update = AcquireUpdate string int | RenewUpdate int

fun lock_holds :: "lock_cond \<Rightarrow> lock_item option \<Rightarrow> bool" where
  "lock_holds (AcquireCond now me) None = True"
| "lock_holds (AcquireCond now me) (Some i) =
     (li_expiresAtMs i = None \<or> (\<exists>e. li_expiresAtMs i = Some e \<and> e < now) \<or> li_holder i = Some me)"
| "lock_holds (RenewCond me fence) None = False"
| "lock_holds (RenewCond me fence) (Some i) = (li_holder i = Some me \<and> li_fence i = Some fence)"

definition empty_item :: lock_item where
  "empty_item = \<lparr>li_holder = None, li_expiresAtMs = None, li_fence = None\<rparr>"

fun lock_apply :: "lock_update \<Rightarrow> lock_item option \<Rightarrow> lock_item" where
  "lock_apply (AcquireUpdate me till) it =
     (let i = (case it of None \<Rightarrow> empty_item | Some i \<Rightarrow> i)
      in i\<lparr>li_holder := Some me, li_expiresAtMs := Some till,
           li_fence := Some ((case li_fence i of None \<Rightarrow> 0 | Some f \<Rightarrow> f) + 1)\<rparr>)"
| "lock_apply (RenewUpdate till) it =
     (let i = (case it of None \<Rightarrow> empty_item | Some i \<Rightarrow> i) in i\<lparr>li_expiresAtMs := Some till\<rparr>)"

datatype lock_error = LockConditionFailed | LockTransient string

record lock_config =
  lc_identity :: string
  lc_lease :: duration
  lc_renewDeadline :: duration
  lc_retry :: duration

type_synonym 'w lock_api = "'w \<Rightarrow> lock_cond \<Rightarrow> lock_update \<Rightarrow> (lock_error + lock_item) \<times> 'w"

definition acquire :: "'w lock_api \<Rightarrow> lock_config \<Rightarrow> instant \<Rightarrow> 'w \<Rightarrow> (lock_error option \<times> int \<times> bool) \<times> 'w" where
  "acquire api c now s =
     (let till = UnixMilli (time_Add now (lc_lease c)) in
      case api s (AcquireCond (UnixMilli now) (lc_identity c)) (AcquireUpdate (lc_identity c) till) of
        (Inl LockConditionFailed, s1) \<Rightarrow> ((None, 0, False), s1)
      | (Inl e, s1) \<Rightarrow> ((Some e, 0, False), s1)
      | (Inr a, s1) \<Rightarrow>
          (case li_fence a of
             None \<Rightarrow> ((Some (LockTransient ''fence missing or not a number''), 0, False), s1)
           | Some fence \<Rightarrow> ((None, fence, True), s1)))"

definition renew :: "'w lock_api \<Rightarrow> lock_config \<Rightarrow> instant \<Rightarrow> int \<Rightarrow> 'w \<Rightarrow> (lock_error option \<times> bool) \<times> 'w" where
  "renew api c now fence s =
     (let till = UnixMilli (time_Add now (lc_lease c)) in
      case api s (RenewCond (lc_identity c) fence) (RenewUpdate till) of
        (Inl LockConditionFailed, s1) \<Rightarrow> ((None, False), s1)
      | (Inl e, s1) \<Rightarrow> ((Some e, False), s1)
      | (Inr _, s1) \<Rightarrow> ((None, True), s1))"

section \<open>The epoch of the lease\<close>

definition epochReadAttempts :: nat where "epochReadAttempts = 5"

datatype log_level = LevelDebug | LevelInfo | LevelWarn

definition leadershipStoppedEvent :: "bool \<Rightarrow> bool \<Rightarrow> log_level \<times> string" where
  "leadershipStoppedEvent everLed ctxErr =
     (if \<not> everLed then (LevelDebug, ''leader-election stopped without ever leading (standby)'')
      else if ctxErr then (LevelInfo, ''leadership released on shutdown; loops stopped'')
      else (LevelWarn, ''leadership lost (renewal lapse); loops stopped''))"

text \<open>
  \<open>get\<close> is the read of the lease (Inr of its transitions, which may be absent), \<open>waited\<close> the
  answer of the select between two attempts: true when the backoff passed, false when the
  context was cancelled.
\<close>

fun lease_epoch_loop :: "('w \<Rightarrow> (unit + int option) \<times> 'w) \<Rightarrow> ('w \<Rightarrow> bool \<times> 'w) \<Rightarrow> nat \<Rightarrow> 'w \<Rightarrow> int \<times> 'w" where
  "lease_epoch_loop get waited 0 s = (0, s)"
| "lease_epoch_loop get waited (Suc n) s =
     (case get s of
        (Inr None, s1) \<Rightarrow> (0, s1)
      | (Inr (Some t), s1) \<Rightarrow> (t, s1)
      | (Inl _, s1) \<Rightarrow>
          (if n = 0 then (0, s1)
           else case waited s1 of
                  (False, s2) \<Rightarrow> (0, s2)
                | (True, s2) \<Rightarrow> lease_epoch_loop get waited n s2))"

definition lease_epoch :: "('w \<Rightarrow> (unit + int option) \<times> 'w) \<Rightarrow> ('w \<Rightarrow> bool \<times> 'w) \<Rightarrow> 'w \<Rightarrow> int \<times> 'w" where
  "lease_epoch get waited s = lease_epoch_loop get waited epochReadAttempts s"

section \<open>The table's law\<close>

text \<open>
  A conditional write commits where its condition holds, as often as the transport repeats
  it. An answered write has committed and returns the item it left; a refused one met an
  item on which its condition fails.
\<close>

inductive lock_commits :: "lock_cond \<Rightarrow> lock_update \<Rightarrow> lock_item option \<Rightarrow> lock_item option \<Rightarrow> bool" for c u where
  none: "lock_commits c u it it"
| once: "lock_commits c u it it1 \<Longrightarrow> lock_holds c it1 \<Longrightarrow> lock_commits c u it (Some (lock_apply u it1))"

lemma commit_once: "lock_holds c it \<Longrightarrow> lock_commits c u it (Some (lock_apply u it))"
  by (rule lock_commits.once [OF lock_commits.none])

lemma commit_twice:
  "lock_holds c it \<Longrightarrow> lock_holds c (Some (lock_apply u it)) \<Longrightarrow>
   lock_commits c u it (Some (lock_apply u (Some (lock_apply u it))))"
  by (rule lock_commits.once [OF commit_once])

locale lock_table =
  fixes api :: "'w lock_api"
    and item :: "'w \<Rightarrow> lock_item option"
  assumes update_commits: "api s c u = (r, s') \<Longrightarrow> lock_commits c u (item s) (item s')"
    and update_ok: "api s c u = (Inr a, s') \<Longrightarrow>
      \<exists>it. lock_commits c u (item s) it \<and> lock_holds c it \<and> a = lock_apply u it \<and> item s' = Some a"
    and update_refused: "api s c u = (Inl LockConditionFailed, s') \<Longrightarrow> \<not> lock_holds c (item s')"
begin

lemma acquire_effect:
  assumes "acquire api c now s = ((err, fence, True), s')"
  shows "err = None \<and> (\<exists>i. item s' = Some i \<and> li_holder i = Some (lc_identity c) \<and>
    li_expiresAtMs i = Some (UnixMilli (time_Add now (lc_lease c))) \<and> li_fence i = Some fence)"
proof -
  from assms obtain a where upd: "api s (AcquireCond (UnixMilli now) (lc_identity c))
        (AcquireUpdate (lc_identity c) (UnixMilli (time_Add now (lc_lease c)))) = (Inr a, s')"
    and err: "err = None" and f: "li_fence a = Some fence"
    by (auto simp: acquire_def Let_def split: prod.splits sum.splits lock_error.splits option.splits)
  from update_ok [OF upd] f err show ?thesis by (auto simp: Let_def)
qed

lemma renew_effect:
  assumes "renew api c now fence s = ((err, True), s')"
  shows "\<exists>i. item s' = Some i \<and> li_holder i = Some (lc_identity c) \<and> li_fence i = Some fence \<and>
    li_expiresAtMs i = Some (UnixMilli (time_Add now (lc_lease c)))"
proof -
  from assms obtain a where upd: "api s (RenewCond (lc_identity c) fence)
        (RenewUpdate (UnixMilli (time_Add now (lc_lease c)))) = (Inr a, s')"
    by (auto simp: renew_def Let_def split: prod.splits sum.splits lock_error.splits)
  from update_ok [OF upd] obtain it where "lock_holds (RenewCond (lc_identity c) fence) it"
    "item s' = Some (lock_apply (RenewUpdate (UnixMilli (time_Add now (lc_lease c)))) it)" by blast
  then show ?thesis by (cases it) (auto simp: Let_def)
qed

end

text \<open>A table in memory whose answers are lost, doubled or refused by a script.\<close>

datatype call_fate = Answered | Repeated | ResponseLost | RequestLost

record mem_lock =
  ml_item :: "lock_item option"
  ml_fates :: "call_fate list"

definition ml_fate :: "mem_lock \<Rightarrow> call_fate" where
  "ml_fate s = (case ml_fates s of [] \<Rightarrow> Answered | f # _ \<Rightarrow> f)"

definition mem_update :: "mem_lock lock_api" where
  "mem_update s c u =
     (let s1 = s\<lparr>ml_fates := tl (ml_fates s)\<rparr>; put = (\<lambda>it. s1\<lparr>ml_item := Some (lock_apply u it)\<rparr>) in
      case ml_fate s of
        RequestLost \<Rightarrow> (Inl (LockTransient ''timeout''), s1)
      | ResponseLost \<Rightarrow> (Inl (LockTransient ''timeout''), if lock_holds c (ml_item s) then put (ml_item s) else s1)
      | Answered \<Rightarrow> (if lock_holds c (ml_item s) then (Inr (lock_apply u (ml_item s)), put (ml_item s))
                     else (Inl LockConditionFailed, s1))
      | Repeated \<Rightarrow>
          (if lock_holds c (ml_item s)
           then (let s2 = put (ml_item s) in
                 if lock_holds c (ml_item s2) then (Inr (lock_apply u (ml_item s2)), put (ml_item s2))
                 else (Inl LockConditionFailed, s2))
           else (Inl LockConditionFailed, s1)))"

interpretation ml: lock_table mem_update ml_item
proof
  fix s c u r s'
  assume "mem_update s c u = (r, s')"
  then show "lock_commits c u (ml_item s) (ml_item s')"
    by (auto simp: mem_update_def Let_def split: call_fate.splits if_splits intro: lock_commits.none commit_once commit_twice)
next
  fix s c u a s'
  assume "mem_update s c u = (Inr a, s')"
  then show "\<exists>it. lock_commits c u (ml_item s) it \<and> lock_holds c it \<and> a = lock_apply u it \<and> ml_item s' = Some a"
    by (auto simp: mem_update_def Let_def split: call_fate.splits if_splits intro: lock_commits.none commit_once commit_twice)
next
  fix s c u s'
  assume "mem_update s c u = (Inl LockConditionFailed, s')"
  then show "\<not> lock_holds c (ml_item s')"
    by (auto simp: mem_update_def Let_def split: call_fate.splits if_splits)
qed

section \<open>Replicas racing for the lock\<close>

text \<open>
  Where a replica stands: between attempts; in \<open>acquire\<close>, with the time it read and the fence
  its request has committed with, if it has; leading, with its fence, the time of the last
  answered call, the time that call had read, and the renewal in flight (its time and
  whether it has committed); or stepped down, waiting for the work of the term to drain.
\<close>

datatype replica = RIdle | RAcquiring instant "int option" | RLeading int instant instant "(instant \<times> bool) option" | RDraining

record lock_sys =
  ls_now :: instant
  ls_item :: "lock_item option"
  ls_rep :: "nat \<Rightarrow> replica"
  ls_terms :: "(nat \<times> int) list"

definition clock_ok :: "(nat \<Rightarrow> lock_config) \<Rightarrow> instant \<Rightarrow> bool" where
  "clock_ok cfg t \<longleftrightarrow> in_int64 ((t - unix_epoch) div 1000000) \<and>
     (\<forall>i. 0 \<le> lc_lease (cfg i) \<and> in_int64 ((t + lc_lease (cfg i) - unix_epoch) div 1000000))"

text \<open>
  Time passes only up to the deadline of a leader: its watchdog fires on time, whatever
  its renewal is doing. An answer is taken within \<open>L\<close> of the moment the call read the
  clock, and a request commits only while its call is pending.
\<close>

inductive lock_step :: "(nat \<Rightarrow> lock_config) \<Rightarrow> duration \<Rightarrow> lock_sys \<Rightarrow> lock_sys \<Rightarrow> bool" for cfg L where
  pass: "ls_now s \<le> t \<Longrightarrow> clock_ok cfg t \<Longrightarrow>
    (\<forall>i f b r q. ls_rep s i = RLeading f b r q \<longrightarrow> t \<le> b + lc_renewDeadline (cfg i)) \<Longrightarrow>
    lock_step cfg L s (s\<lparr>ls_now := t\<rparr>)"
| acquire_send: "ls_rep s i = RIdle \<Longrightarrow>
    lock_step cfg L s (s\<lparr>ls_rep := (ls_rep s)(i := RAcquiring (ls_now s) None)\<rparr>)"
| acquire_commit: "ls_rep s i = RAcquiring t g \<Longrightarrow>
    lock_holds (AcquireCond (UnixMilli t) (lc_identity (cfg i))) (ls_item s) \<Longrightarrow>
    it = lock_apply (AcquireUpdate (lc_identity (cfg i)) (UnixMilli (time_Add t (lc_lease (cfg i))))) (ls_item s) \<Longrightarrow>
    lock_step cfg L s (s\<lparr>ls_item := Some it, ls_rep := (ls_rep s)(i := RAcquiring t (li_fence it))\<rparr>)"
| acquire_ok: "ls_rep s i = RAcquiring t (Some f) \<Longrightarrow> ls_now s \<le> t + L \<Longrightarrow>
    lock_step cfg L s (s\<lparr>ls_rep := (ls_rep s)(i := RLeading f (ls_now s) t None), ls_terms := ls_terms s @ [(i, f)]\<rparr>)"
| acquire_fail: "ls_rep s i = RAcquiring t g \<Longrightarrow> lock_step cfg L s (s\<lparr>ls_rep := (ls_rep s)(i := RIdle)\<rparr>)"
| renew_send: "ls_rep s i = RLeading f b r None \<Longrightarrow>
    lock_step cfg L s (s\<lparr>ls_rep := (ls_rep s)(i := RLeading f b r (Some (ls_now s, False)))\<rparr>)"
| renew_commit: "ls_rep s i = RLeading f b r (Some (t, c)) \<Longrightarrow>
    lock_holds (RenewCond (lc_identity (cfg i)) f) (ls_item s) \<Longrightarrow>
    it = lock_apply (RenewUpdate (UnixMilli (time_Add t (lc_lease (cfg i))))) (ls_item s) \<Longrightarrow>
    lock_step cfg L s (s\<lparr>ls_item := Some it, ls_rep := (ls_rep s)(i := RLeading f b r (Some (t, True)))\<rparr>)"
| renew_ok: "ls_rep s i = RLeading f b r (Some (t, True)) \<Longrightarrow> ls_now s \<le> t + L \<Longrightarrow>
    lock_step cfg L s (s\<lparr>ls_rep := (ls_rep s)(i := RLeading f (ls_now s) t None)\<rparr>)"
| renew_error: "ls_rep s i = RLeading f b r q \<Longrightarrow>
    lock_step cfg L s (s\<lparr>ls_rep := (ls_rep s)(i := RLeading f b r None)\<rparr>)"
| step_down: "ls_rep s i = RLeading f b r q \<Longrightarrow> lock_step cfg L s (s\<lparr>ls_rep := (ls_rep s)(i := RDraining)\<rparr>)"
| drained: "ls_rep s i = RDraining \<Longrightarrow> lock_step cfg L s (s\<lparr>ls_rep := (ls_rep s)(i := RIdle)\<rparr>)"

inductive lock_reach :: "(nat \<Rightarrow> lock_config) \<Rightarrow> duration \<Rightarrow> lock_sys \<Rightarrow> lock_sys \<Rightarrow> bool" for cfg L s0 where
  start: "lock_reach cfg L s0 s0"
| step: "lock_reach cfg L s0 s \<Longrightarrow> lock_step cfg L s s' \<Longrightarrow> lock_reach cfg L s0 s'"

text \<open>Any item may be there at the start, even a damaged one; no replica has started.\<close>

definition lock_init :: "instant \<Rightarrow> lock_item option \<Rightarrow> lock_sys" where
  "lock_init t it = \<lparr>ls_now = t, ls_item = it, ls_rep = (\<lambda>_. RIdle), ls_terms = []\<rparr>"

section \<open>One leader at a time\<close>

text \<open>
  A replica's claim on the lock, with the time its lease counts from: as leader, through a
  renewal that has committed, or through an acquisition that can still be answered.
\<close>

fun claims :: "duration \<Rightarrow> instant \<Rightarrow> replica \<Rightarrow> int \<Rightarrow> instant \<Rightarrow> bool" where
  "claims L now (RLeading g b u q) f r = (g = f \<and> (r = u \<or> q = Some (r, True)))"
| "claims L now (RAcquiring t g) f r = (g = Some f \<and> r = t \<and> now \<le> t + L)"
| "claims L now _ f r = False"

definition owns :: "(nat \<Rightarrow> lock_config) \<Rightarrow> lock_item option \<Rightarrow> nat \<Rightarrow> int \<Rightarrow> instant \<Rightarrow> bool" where
  "owns cfg it i f r \<longleftrightarrow> (\<exists>x e. it = Some x \<and> li_holder x = Some (lc_identity (cfg i)) \<and> li_fence x = Some f \<and>
     li_expiresAtMs x = Some e \<and> UnixMilli (r + lc_lease (cfg i)) \<le> e)"

fun timely :: "(nat \<Rightarrow> lock_config) \<Rightarrow> duration \<Rightarrow> instant \<Rightarrow> nat \<Rightarrow> replica \<Rightarrow> bool" where
  "timely cfg L now i (RAcquiring t g) = (t \<le> now \<and> clock_ok cfg t)"
| "timely cfg L now i (RLeading f b r q) =
     (r \<le> b \<and> b \<le> r + L \<and> b \<le> now \<and> now \<le> b + lc_renewDeadline (cfg i) \<and> clock_ok cfg r \<and>
      (\<forall>t c. q = Some (t, c) \<longrightarrow> r \<le> t \<and> t \<le> now \<and> clock_ok cfg t))"
| "timely cfg L now i _ = True"

definition lock_inv :: "(nat \<Rightarrow> lock_config) \<Rightarrow> duration \<Rightarrow> lock_sys \<Rightarrow> bool" where
  "lock_inv cfg L s \<longleftrightarrow> clock_ok cfg (ls_now s) \<and> (\<forall>i. timely cfg L (ls_now s) i (ls_rep s i)) \<and>
     (\<forall>i f r. claims L (ls_now s) (ls_rep s i) f r \<longrightarrow> owns cfg (ls_item s) i f r)"

lemma lock_invD:
  assumes "lock_inv cfg L s"
  shows "clock_ok cfg (ls_now s)" "timely cfg L (ls_now s) i (ls_rep s i)"
    "claims L (ls_now s) (ls_rep s i) f r \<Longrightarrow> owns cfg (ls_item s) i f r"
  using assms by (auto simp: lock_inv_def)

text \<open>Changing one replica, with the item and the list of terms as the step leaves them.\<close>

lemma lock_inv_upd:
  assumes "lock_inv cfg L s" "timely cfg L (ls_now s) i p"
    and "\<And>f r. claims L (ls_now s) p f r \<Longrightarrow> owns cfg it i f r"
    and "\<And>j f r. j \<noteq> i \<Longrightarrow> claims L (ls_now s) (ls_rep s j) f r \<Longrightarrow> owns cfg (ls_item s) j f r \<Longrightarrow> owns cfg it j f r"
  shows "lock_inv cfg L (s\<lparr>ls_item := it, ls_rep := (ls_rep s)(i := p), ls_terms := ts\<rparr>)"
  using assms unfolding lock_inv_def by auto

lemma UnixMilli_mono:
  assumes "t \<le> u" "in_int64 ((t - unix_epoch) div 1000000)" "in_int64 ((u - unix_epoch) div 1000000)"
  shows "UnixMilli t \<le> UnixMilli u"
  using assms by (simp add: UnixMilli_def wrap64_id zdiv_mono1)

text \<open>The configuration under which the lease outlives the watchdog.\<close>

definition lease_safe :: "(nat \<Rightarrow> lock_config) \<Rightarrow> duration \<Rightarrow> bool" where
  "lease_safe cfg L \<longleftrightarrow> 0 \<le> L \<and> inj (\<lambda>i. lc_identity (cfg i)) \<and>
     (\<forall>i. 0 \<le> lc_renewDeadline (cfg i) \<and> lc_renewDeadline (cfg i) + L \<le> lc_lease (cfg i))"

lemma claim_in_lease:
  assumes "lease_safe cfg L" "timely cfg L now i p" "claims L now p f r"
  shows "now \<le> r + lc_lease (cfg i) \<and> r \<le> now \<and> clock_ok cfg r"
proof -
  have c: "0 \<le> lc_renewDeadline (cfg i)" "lc_renewDeadline (cfg i) + L \<le> lc_lease (cfg i)" "0 \<le> L"
    using assms(1) by (auto simp: lease_safe_def)
  from assms(2,3) c show ?thesis by (cases p) auto
qed

text \<open>While a claim stands nobody else can take the lock.\<close>

lemma no_steal:
  assumes "lock_inv cfg L s" "lease_safe cfg L" "claims L (ls_now s) (ls_rep s i) f r" "j \<noteq> i"
    and "ls_rep s j = RAcquiring t g"
  shows "\<not> lock_holds (AcquireCond (UnixMilli t) (lc_identity (cfg j))) (ls_item s)"
proof -
  obtain x e where x: "ls_item s = Some x" "li_holder x = Some (lc_identity (cfg i))" "li_expiresAtMs x = Some e"
    "UnixMilli (r + lc_lease (cfg i)) \<le> e"
    using lock_invD(3) [OF assms(1,3)] by (auto simp: owns_def)
  have r: "ls_now s \<le> r + lc_lease (cfg i)" "clock_ok cfg r"
    using claim_in_lease [OF assms(2) lock_invD(2) [OF assms(1)] assms(3)] by auto
  have t: "t \<le> ls_now s" "clock_ok cfg t" using lock_invD(2) [OF assms(1), of j] assms(5) by auto
  have "UnixMilli t \<le> UnixMilli (r + lc_lease (cfg i))"
    using r t by (intro UnixMilli_mono) (auto simp: clock_ok_def)
  moreover have "lc_identity (cfg i) \<noteq> lc_identity (cfg j)"
    using assms(2,4) by (auto simp: lease_safe_def dest: injD)
  ultimately show ?thesis using x by simp
qed

lemma renew_owner:
  assumes "lock_inv cfg L s" "lease_safe cfg L" "claims L (ls_now s) (ls_rep s j) f r" "owns cfg (ls_item s) j f r"
    and "lock_holds (RenewCond (lc_identity (cfg i)) g) (ls_item s)"
  shows "j = i"
  using assms by (auto simp: owns_def lease_safe_def dest: injD)

lemma lock_inv_step:
  assumes "lock_step cfg L s s'" "lock_inv cfg L s" "lease_safe cfg L"
  shows "lock_inv cfg L s'"
  using assms(1)
proof (cases rule: lock_step.cases)
  case (pass t)
  have "timely cfg L t i (ls_rep s i)" for i
    using lock_invD(2) [OF assms(2), of i] pass by (cases "ls_rep s i") auto
  moreover have "claims L t p f r \<Longrightarrow> claims L (ls_now s) p f r" for p f r
    using pass(2) by (cases p) auto
  ultimately show ?thesis using pass assms(2) by (auto simp: lock_inv_def)
next
  case (acquire_send i)
  then show ?thesis
    using lock_inv_upd [OF assms(2), of i "RAcquiring (ls_now s) None" "ls_item s" "ls_terms s"] lock_invD(1) [OF assms(2)] by simp
next
  case (acquire_commit i t g it)
  have "owns cfg (Some it) i f t" if "li_fence it = Some f" for f
    using that acquire_commit(4) by (auto simp: owns_def Let_def time_Add_def)
  moreover have "\<not> claims L (ls_now s) (ls_rep s j) f r" if "j \<noteq> i" for j f r
    using no_steal [OF assms(2,3) _ _ acquire_commit(2)] that acquire_commit(3) by blast
  ultimately show ?thesis
    using lock_inv_upd [OF assms(2), of i "RAcquiring t (li_fence it)" "Some it" "ls_terms s"]
      lock_invD(2) [OF assms(2), of i] acquire_commit by simp
next
  case (acquire_ok i t f)
  have "0 \<le> lc_renewDeadline (cfg i)" using assms(3) by (simp add: lease_safe_def)
  moreover have "owns cfg (ls_item s) i f t" by (rule lock_invD(3) [OF assms(2)]) (use acquire_ok in simp)
  ultimately show ?thesis
    using lock_inv_upd [OF assms(2), of i "RLeading f (ls_now s) t None" "ls_item s" "ls_terms s @ [(i, f)]"]
      lock_invD(2) [OF assms(2), of i] acquire_ok by simp
next
  case (acquire_fail i t g)
  then show ?thesis using lock_inv_upd [OF assms(2), of i RIdle "ls_item s" "ls_terms s"] by simp
next
  case (renew_send i f b r)
  then show ?thesis
    using lock_inv_upd [OF assms(2), of i "RLeading f b r (Some (ls_now s, False))" "ls_item s" "ls_terms s"]
      lock_invD(1) [OF assms(2)] lock_invD(2,3) [OF assms(2), of i] by simp
next
  case (renew_commit i f b r t c it)
  have t: "r \<le> t" "clock_ok cfg r" "clock_ok cfg t" using lock_invD(2) [OF assms(2), of i] renew_commit(2) by auto
  have "UnixMilli (r + lc_lease (cfg i)) \<le> UnixMilli (t + lc_lease (cfg i))"
    using t by (intro UnixMilli_mono) (auto simp: clock_ok_def)
  then have own: "owns cfg (Some it) i f r \<and> owns cfg (Some it) i f t"
    using renew_commit(3,4) by (cases "ls_item s") (auto simp: owns_def Let_def time_Add_def)
  have "False" if "j \<noteq> i" "claims L (ls_now s) (ls_rep s j) g u" "owns cfg (ls_item s) j g u" for j g u
    using renew_owner [OF assms(2,3) that(2,3) renew_commit(3)] that(1) by simp
  with own show ?thesis
    using lock_inv_upd [OF assms(2), of i "RLeading f b r (Some (t, True))" "Some it" "ls_terms s"]
      lock_invD(2) [OF assms(2), of i] renew_commit by auto
next
  case (renew_ok i f b r t)
  have "0 \<le> lc_renewDeadline (cfg i)" using assms(3) by (simp add: lease_safe_def)
  moreover have "owns cfg (ls_item s) i f t" by (rule lock_invD(3) [OF assms(2)]) (use renew_ok in simp)
  ultimately show ?thesis
    using lock_inv_upd [OF assms(2), of i "RLeading f (ls_now s) t None" "ls_item s" "ls_terms s"]
      lock_invD(2) [OF assms(2), of i] renew_ok by auto
next
  case (renew_error i f b r q)
  then show ?thesis
    using lock_inv_upd [OF assms(2), of i "RLeading f b r None" "ls_item s" "ls_terms s"] lock_invD(1) [OF assms(2)] lock_invD(2,3) [OF assms(2), of i] by simp
next
  case (step_down i f b r q)
  then show ?thesis using lock_inv_upd [OF assms(2), of i RDraining "ls_item s" "ls_terms s"] by simp
next
  case (drained i)
  then show ?thesis using lock_inv_upd [OF assms(2), of i RIdle "ls_item s" "ls_terms s"] by simp
qed

section \<open>Fences grow\<close>

text \<open>
  The fence of the item is an upper bound of every fence handed out, and a fence that an
  acquisition has committed with belongs to that acquisition alone.
\<close>

fun pending_fence :: "replica \<Rightarrow> int option" where
  "pending_fence (RAcquiring t g) = g"
| "pending_fence _ = None"

definition fence_inv :: "lock_sys \<Rightarrow> bool" where
  "fence_inv s \<longleftrightarrow>
     (let used = (\<lambda>f. f \<in> snd ` set (ls_terms s) \<or> (\<exists>i. pending_fence (ls_rep s i) = Some f)) in
      (\<forall>f. used f \<longrightarrow> (\<exists>x g. ls_item s = Some x \<and> li_fence x = Some g \<and> f \<le> g)) \<and>
      (\<forall>i f. pending_fence (ls_rep s i) = Some f \<longrightarrow> f \<notin> snd ` set (ls_terms s)) \<and>
      (\<forall>i j f. pending_fence (ls_rep s i) = Some f \<and> pending_fence (ls_rep s j) = Some f \<longrightarrow> i = j) \<and>
      sorted_wrt (<) (map snd (ls_terms s)))"

lemma fence_inv_drop:
  assumes "fence_inv s" "pending_fence p = None" "map_option li_fence it = map_option li_fence (ls_item s)"
  shows "fence_inv (s\<lparr>ls_item := it, ls_rep := (ls_rep s)(i := p)\<rparr>)"
  using assms unfolding fence_inv_def Let_def by (cases it; cases "ls_item s") (auto split: if_splits)

lemma fence_inv_commit:
  assumes "fence_inv s" "it = lock_apply (AcquireUpdate me till) (ls_item s)"
  shows "fence_inv (s\<lparr>ls_item := Some it, ls_rep := (ls_rep s)(i := RAcquiring t (li_fence it))\<rparr>)"
proof -
  obtain f where f: "li_fence it = Some f" using assms(2) by (simp add: Let_def)
  have below: "g < f" if "g \<in> snd ` set (ls_terms s) \<or> (\<exists>j. pending_fence (ls_rep s j) = Some g)" for g
    using assms that f unfolding fence_inv_def Let_def by (fastforce split: option.splits)
  have sorted: "sorted_wrt (<) (map snd (ls_terms s))" using assms(1) by (simp add: fence_inv_def Let_def)
  have uniq: "pending_fence (ls_rep s j) = Some g \<Longrightarrow> pending_fence (ls_rep s k) = Some g \<Longrightarrow> j = k"
    and apart: "pending_fence (ls_rep s j) = Some g \<Longrightarrow> g \<notin> snd ` set (ls_terms s)" for j k g
    using assms(1) by (auto simp: fence_inv_def Let_def)
  show ?thesis
    unfolding fence_inv_def Let_def
    using below f sorted uniq apart by (auto split: if_splits intro: less_imp_le dest: order.strict_implies_not_eq)
qed

lemma fence_inv_elect:
  assumes "fence_inv s" "ls_rep s i = RAcquiring t (Some f)" "owns cfg (ls_item s) i f t"
  shows "fence_inv (s\<lparr>ls_rep := (ls_rep s)(i := RLeading f b t None), ls_terms := ls_terms s @ [(i, f)]\<rparr>)"
proof -
  obtain x where x: "ls_item s = Some x" "li_fence x = Some f" using assms(3) by (auto simp: owns_def)
  have pend: "pending_fence (ls_rep s i) = Some f" using assms(2) by simp
  have le: "g \<le> f" if "g \<in> snd ` set (ls_terms s) \<or> (\<exists>j. pending_fence (ls_rep s j) = Some g)" for g
    using assms(1) that x unfolding fence_inv_def Let_def by fastforce
  have new: "f \<notin> snd ` set (ls_terms s)" and sorted: "sorted_wrt (<) (map snd (ls_terms s))"
    and uniq: "pending_fence (ls_rep s j) = Some g \<Longrightarrow> pending_fence (ls_rep s k) = Some g \<Longrightarrow> j = k"
    and apart: "pending_fence (ls_rep s j) = Some g \<Longrightarrow> g \<notin> snd ` set (ls_terms s)" for j k g
    using assms(1) pend by (auto simp: fence_inv_def Let_def)
  have lt: "g < f" if "g \<in> snd ` set (ls_terms s)" for g using le [of g] new that by (cases "g = f") auto
  show ?thesis
    unfolding fence_inv_def Let_def
    using le lt sorted uniq apart pend x by (auto simp: sorted_wrt_append split: if_splits)
qed

lemma fence_inv_step:
  assumes "lock_step cfg L s s'" "lock_inv cfg L s" "fence_inv s"
  shows "fence_inv s'"
  using assms(1)
proof (cases rule: lock_step.cases)
  case (acquire_commit i t g it)
  then show ?thesis using fence_inv_commit [OF assms(3)] by blast
next
  case (acquire_ok i t f)
  then show ?thesis using fence_inv_elect [OF assms(3)] lock_invD(3) [OF assms(2), of i f t] by simp
next
  case (renew_commit i f b r t c it)
  then have "map_option li_fence (Some it) = map_option li_fence (ls_item s)" by (cases "ls_item s") (auto simp: Let_def)
  with renew_commit show ?thesis using fence_inv_drop [OF assms(3), of _ "Some it" i] by simp
next
  case (pass t)
  then show ?thesis using assms(3) by (simp add: fence_inv_def)
qed (use fence_inv_drop [OF assms(3), of _ "ls_item s"] in simp_all)

lemma lock_reach_inv:
  assumes "lock_reach cfg L (lock_init t0 it) s" "lease_safe cfg L" "clock_ok cfg t0"
  shows "lock_inv cfg L s \<and> fence_inv s"
  using assms(1)
proof (induction rule: lock_reach.induct)
  case start
  then show ?case using assms(3) by (simp add: lock_init_def lock_inv_def fence_inv_def Let_def)
next
  case (step s s')
  then show ?case using lock_inv_step fence_inv_step assms(2) by blast
qed

section \<open>Properties\<close>


definition two_replicas :: "nat \<Rightarrow> lock_config" where
  "two_replicas i = \<lparr>lc_identity = itoa i, lc_lease = 15 * Second, lc_renewDeadline = 10 * Second, lc_retry = 2 * Second\<rparr>"

lemma two_replicas_safe: "lease_safe two_replicas (5 * Second)" "clock_ok two_replicas unix_epoch"
  by (auto simp: lease_safe_def two_replicas_def Second_def inj_def clock_ok_def in_int64_def intro: itoa_inj)


end
