(* ===== verification/Source_Io.thy ===== *)
theory Source_Io
  imports Registry Go_Text Go_Time
begin

text \<open>
  What the vendor sources share of the outside world. A request is sent by \<open>nt_do\<close>, which
  acts on the world and answers with an error or a response whose body is what can be read
  of it before it ends or fails; \<open>nt_json\<close> reads the first JSON value of a text, \<open>nt_url\<close> is a
  URL with its query replaced, \<open>nt_sha\<close> the digest of the fingerprint. They are parameters of
  every definition that uses them and nothing is assumed of them. Decoding a JSON value
  into the fields of a struct is written out: names match up to case, later fields
  overwrite earlier ones, null leaves a field as it is, and a value of the wrong type is
  an error.
\<close>

section \<open>HTTP\<close>

record http_request =
  rq_Method :: string
  rq_URL :: string
  rq_Header :: "(string, string) fmap"
  rq_Body :: string

record http_response =
  rs_StatusCode :: int
  rs_Header :: "(string, string) fmap"
  rs_Body :: string

section \<open>JSON values\<close>

text \<open>A number is its literal; an object keeps its fields in the order of the text.\<close>

datatype json = JNull | JBool bool | JNum string | JStr string | JArr "json list" | JObj "(string \<times> json) list"

record 'w net =
  nt_do :: "'w \<Rightarrow> http_request \<Rightarrow> (string + http_response) \<times> 'w"
  nt_json :: "string \<Rightarrow> json option"
  nt_url :: "string \<Rightarrow> string \<Rightarrow> string option"
  nt_sha :: "string \<Rightarrow> string"

text \<open>The value of a number's literal, rounded to a float64; too large a value is an error.\<close>

definition exponent_val :: "string \<Rightarrow> int option" where
  "exponent_val s =
     (if s = [] then Some 0
      else case s of
        c # r \<Rightarrow> (if c \<noteq> CHR ''e'' \<and> c \<noteq> CHR ''E'' then None
                  else let neg = (r \<noteq> [] \<and> hd r = CHR ''-'');
                           ds = (if r \<noteq> [] \<and> (hd r = CHR ''-'' \<or> hd r = CHR ''+'') then tl r else r)
                       in map_option (\<lambda>n. if neg then - int n else int n) (parse_nat ds)))"

definition pow10 :: "int \<Rightarrow> rat" where
  "pow10 e = (if 0 \<le> e then 10 ^ nat e else 1 / 10 ^ nat (- e))"

definition number_rat :: "string \<Rightarrow> rat option" where
  "number_rat s =
     (let neg = (s \<noteq> [] \<and> hd s = CHR ''-''); t = (if neg then tl s else s);
          whole = takeWhile is_dec t; t1 = dropWhile is_dec t;
          dot = (t1 \<noteq> [] \<and> hd t1 = CHR ''.'');
          part = (if dot then takeWhile is_dec (tl t1) else []);
          t2 = (if dot then dropWhile is_dec (tl t1) else t1)
      in case (parse_nat (whole @ part), exponent_val t2) of
           (Some m, Some e) \<Rightarrow> Some ((if neg then - 1 else 1) * of_nat m * pow10 (e - int (length part)))
         | _ \<Rightarrow> None)"

definition number_float :: "string \<Rightarrow> float64 option" where
  "number_float s =
     (case number_rat s of
        None \<Rightarrow> None
      | Some q \<Rightarrow> (case round64 q of Fin v \<Rightarrow> Some (Fin v) | _ \<Rightarrow> None))"

section \<open>Decoding into fields\<close>

fun dec_string :: "json \<Rightarrow> string \<Rightarrow> string option" where
  "dec_string JNull old = Some old"
| "dec_string (JStr s) old = Some s"
| "dec_string _ old = None"

fun dec_bool :: "json \<Rightarrow> bool \<Rightarrow> bool option" where
  "dec_bool JNull old = Some old"
| "dec_bool (JBool b) old = Some b"
| "dec_bool _ old = None"

fun dec_float :: "json \<Rightarrow> float64 \<Rightarrow> float64 option" where
  "dec_float JNull old = Some old"
| "dec_float (JNum s) old = number_float s"
| "dec_float _ old = None"

text \<open>An int field takes a literal without fraction or exponent, in range.\<close>

fun dec_int :: "json \<Rightarrow> int \<Rightarrow> int option" where
  "dec_int JNull old = Some old"
| "dec_int (JNum s) old = ParseInt s"
| "dec_int _ old = None"

fun dec_all :: "(json \<Rightarrow> 'a option) \<Rightarrow> json list \<Rightarrow> 'a list option" where
  "dec_all d [] = Some []"
| "dec_all d (j # js) =
     (case d j of None \<Rightarrow> None | Some x \<Rightarrow> (case dec_all d js of None \<Rightarrow> None | Some xs \<Rightarrow> Some (x # xs)))"

fun dec_list :: "(json \<Rightarrow> 'a option) \<Rightarrow> json \<Rightarrow> 'a list \<Rightarrow> 'a list option" where
  "dec_list d JNull old = Some []"
| "dec_list d (JArr js) old = dec_all d js"
| "dec_list d _ old = None"

text \<open>A field of a struct: every entry of that name is decoded over the value so far.\<close>

fun dec_field :: "(json \<Rightarrow> 'a \<Rightarrow> 'a option) \<Rightarrow> string \<Rightarrow> (string \<times> json) list \<Rightarrow> 'a \<Rightarrow> 'a option" where
  "dec_field d name [] old = Some old"
| "dec_field d name ((k, j) # kvs) old =
     (if ToLower k = name
      then (case d j old of None \<Rightarrow> None | Some v \<Rightarrow> dec_field d name kvs v)
      else dec_field d name kvs old)"

text \<open>A struct: an object, or null, which leaves the zero value.\<close>

fun json_fields :: "json \<Rightarrow> (string \<times> json) list option" where
  "json_fields JNull = Some []"
| "json_fields (JObj kvs) = Some kvs"
| "json_fields _ = None"

text \<open>An object read into a map of raw values: the last entry of a key stays.\<close>

definition raw_map :: "(string \<times> json) list \<Rightarrow> (string, json) fmap" where
  "raw_map kvs = fold (\<lambda>(k, j) m. fmupd k j m) kvs fmempty"

fun dec_raw_map :: "json \<Rightarrow> (string, json) fmap option" where
  "dec_raw_map JNull = Some fmempty"
| "dec_raw_map (JObj kvs) = Some (raw_map kvs)"
| "dec_raw_map _ = None"

section \<open>Settings\<close>

text \<open>A settings map applied key by key; the first error ends it.\<close>

fun apply_each :: "(string \<Rightarrow> string \<Rightarrow> 'a \<Rightarrow> string + 'a) \<Rightarrow> (string, string) fmap \<Rightarrow> string list \<Rightarrow> 'a \<Rightarrow> string + 'a" where
  "apply_each f m [] g = Inr g"
| "apply_each f m (k # ks) g = (case f k (map_get m k) g of Inl e \<Rightarrow> Inl e | Inr g1 \<Rightarrow> apply_each f m ks g1)"

definition set_with :: "string + 'a \<Rightarrow> ('a \<Rightarrow> 'b) \<Rightarrow> string + 'b" where
  "set_with r f = (case r of Inl e \<Rightarrow> Inl e | Inr v \<Rightarrow> Inr (f v))"

section \<open>Requests\<close>

definition get_request :: "string \<Rightarrow> string \<Rightarrow> string \<Rightarrow> http_request" where
  "get_request url hdr val = \<lparr>rq_Method = ''GET'', rq_URL = url, rq_Header = fmupd hdr val fmempty, rq_Body = ''''\<rparr>"

definition StatusOK :: int where "StatusOK = 200"
definition StatusNotFound :: int where "StatusNotFound = 404"

text \<open>
  Send a request and decode a 200 answer whose body is read up to a cap; any other status
  is returned with the zero value.
\<close>

definition fetch_json ::
  "'w net \<Rightarrow> nat \<Rightarrow> (json \<Rightarrow> 'a option) \<Rightarrow> 'a \<Rightarrow> http_request \<Rightarrow> 'w \<Rightarrow> (string + 'a \<times> int) \<times> 'w" where
  "fetch_json net cap d zero rq w =
     (case nt_do net w rq of
        (Inl e, w1) \<Rightarrow> (Inl e, w1)
      | (Inr r, w1) \<Rightarrow>
          (if rs_StatusCode r \<noteq> StatusOK then (Inr (zero, rs_StatusCode r), w1)
           else case Option.bind (nt_json net (take cap (rs_Body r))) d of
             None \<Rightarrow> (Inl ''decode'', w1)
           | Some v \<Rightarrow> (Inr (v, StatusOK), w1)))"

section \<open>Facts\<close>

lemma dec_all_length: "dec_all d js = Some xs \<Longrightarrow> length xs = length js"
  by (induction js arbitrary: xs) (auto split: option.splits)

lemma fetch_json_ok:
  "fetch_json net cap d zero rq w = (Inr (v, c), w1) \<Longrightarrow> c = StatusOK \<Longrightarrow>
    \<exists>r j. nt_do net w rq = (Inr r, w1) \<and> nt_json net (take cap (rs_Body r)) = Some j \<and> d j = Some v"
  by (auto simp: fetch_json_def split: prod.splits sum.splits if_splits option.splits bind_splits)

lemma apply_each_inv:
  "apply_each f m ks g = Inr g1 \<Longrightarrow> (\<And>k v a b. f k v a = Inr b \<Longrightarrow> P a \<Longrightarrow> P b) \<Longrightarrow> P g \<Longrightarrow> P g1"
  by (induction ks arbitrary: g) (auto split: sum.splits)

lemma set_with_Inr: "set_with r f = Inr b \<Longrightarrow> \<exists>v. r = Inr v \<and> b = f v"
  by (auto simp: set_with_def split: sum.splits)

lemma raw_map_snoc: "raw_map (kvs @ [(k, j)]) = fmupd k j (raw_map kvs)"
  by (simp add: raw_map_def)

lemma raw_map_lookup: "fmlookup (raw_map kvs) k = map_of (rev kvs) k"
proof (induction kvs rule: rev_induct)
  case Nil
  then show ?case by (simp add: raw_map_def)
next
  case (snoc x kvs)
  then show ?case by (cases x) (simp add: raw_map_snoc)
qed

end
