(* ===== verification/Portkey_Derive.thy ===== *)
theory Portkey_Derive
  imports Source_Io Coalesce
begin

text \<open>
  The stateless and the remembering part of the Portkey analytics loop:
  \<^verbatim>\<open>internal/source/portkey/derive.go\<close> turns the graph answers of one pass into the settled,
  forward-only samples, and \<^verbatim>\<open>revision.go\<close> remembers what was emitted so that a bucket that
  changes after it settled is noticed. \<^verbatim>\<open>sort.Slice\<close> need not be stable: points that compare
  equal have the same time, and two of them make \<open>derive\<close> fail whatever their order.
\<close>

section \<open>Graph answers\<close>

record data_point =
  dp_Timestamp :: string
  dp_Total :: float64
  dp_TotalRequestUnits :: float64
  dp_TotalResponseUnits :: float64
  dp_Avg :: float64
  dp_P50 :: float64
  dp_P90 :: float64
  dp_P99 :: float64

record graph_response =
  gr_DataPoints :: "data_point list"
  gr_IsQuotaExceeded :: bool
  gr_Object :: string

definition zero_graph :: graph_response where
  "zero_graph = \<lparr>gr_DataPoints = [], gr_IsQuotaExceeded = False, gr_Object = ''''\<rparr>"

definition dec_point :: "json \<Rightarrow> data_point option" where
  "dec_point j =
     (case json_fields j of
        None \<Rightarrow> None
      | Some kvs \<Rightarrow>
          (case (dec_field dec_string ''timestamp'' kvs '''', dec_field dec_float ''total'' kvs (Fin 0),
                 dec_field dec_float ''total_request_units'' kvs (Fin 0), dec_field dec_float ''total_response_units'' kvs (Fin 0)) of
             (Some ts, Some tot, Some req, Some res) \<Rightarrow>
               (case (dec_field dec_float ''avg'' kvs (Fin 0), dec_field dec_float ''p50'' kvs (Fin 0),
                      dec_field dec_float ''p90'' kvs (Fin 0), dec_field dec_float ''p99'' kvs (Fin 0)) of
                  (Some a, Some p50, Some p90, Some p99) \<Rightarrow>
                    Some \<lparr>dp_Timestamp = ts, dp_Total = tot, dp_TotalRequestUnits = req, dp_TotalResponseUnits = res,
                          dp_Avg = a, dp_P50 = p50, dp_P90 = p90, dp_P99 = p99\<rparr>
                | _ \<Rightarrow> None)
           | _ \<Rightarrow> None))"

definition dec_graph :: "json \<Rightarrow> graph_response option" where
  "dec_graph j =
     (case json_fields j of
        None \<Rightarrow> None
      | Some kvs \<Rightarrow>
          (case (dec_field (dec_list dec_point) ''data_points'' kvs [], dec_field dec_bool ''is_quota_exceeded'' kvs False,
                 dec_field dec_string ''object'' kvs '''') of
             (Some ps, Some q, Some ob) \<Rightarrow> Some \<lparr>gr_DataPoints = ps, gr_IsQuotaExceeded = q, gr_Object = ob\<rparr>
           | _ \<Rightarrow> None))"

section \<open>Names and values\<close>

definition metricSuffix :: "(string, string) fmap" where
  "metricSuffix = fmap_of_list
     [(''requests'', ''requests''), (''cost'', ''cost_usd''), (''tokens'', ''tokens''),
      (''latency'', ''latency_seconds''), (''errors'', ''errors''), (''users'', ''users'')]"

definition latencyStats :: "string list" where
  "latencyStats = [''p50'', ''p90'', ''p99'', ''avg'']"

definition tokenTypes :: "(string \<times> (data_point \<Rightarrow> float64)) list" where
  "tokenTypes = [(''total'', dp_Total), (''input'', dp_TotalRequestUnits), (''output'', dp_TotalResponseUnits)]"

definition msPerSecond :: rat where "msPerSecond = 1000"

definition quantile :: "data_point \<Rightarrow> string \<Rightarrow> float64" where
  "quantile dp q =
     (if q = ''p50'' then dp_P50 dp else if q = ''p90'' then dp_P90 dp
      else if q = ''p99'' then dp_P99 dp else if q = ''avg'' then dp_Avg dp else Fin 0)"

definition nameFor :: "string \<Rightarrow> string \<Rightarrow> string" where
  "nameFor pfx graph = pfx @ ''_'' @ map_get metricSuffix graph"

definition splitCSV :: "string \<Rightarrow> string list" where
  "splitCSV s = filter (\<lambda>t. t \<noteq> []) (map TrimSpace (split_on CHR '','' s))"

definition cleanAPIKeyIDs :: "string \<Rightarrow> string" where
  "cleanAPIKeyIDs s = join_with '','' (filter (\<lambda>t. t \<noteq> []) (map TrimSpace (split_on CHR '','' s)))"

section \<open>derive\<close>

fun parse_points :: "data_point list \<Rightarrow> collect_error + (instant \<times> data_point) list" where
  "parse_points [] = Inr []"
| "parse_points (dp # dps) =
     (case ParseRFC3339 (dp_Timestamp dp) of
        None \<Rightarrow> Inl (CollectFailed (''portkey: bad timestamp '' @ dp_Timestamp dp))
      | Some t \<Rightarrow> (case parse_points dps of Inl e \<Rightarrow> Inl e | Inr pts \<Rightarrow> Inr ((t, dp) # pts)))"

definition before :: "instant \<times> data_point \<Rightarrow> instant \<times> data_point \<Rightarrow> bool" where
  "before p q \<longleftrightarrow> fst p < fst q"

text \<open>The granularity guard: every step a positive multiple of the bucket width.\<close>

fun steps_ok :: "duration \<Rightarrow> (instant \<times> data_point) list \<Rightarrow> bool" where
  "steps_ok gran (p # q # pts) \<longleftrightarrow>
     (let step = time_Sub (fst q) (fst p) in 0 < step \<and> rem step gran = 0) \<and> steps_ok gran (q # pts)"
| "steps_ok gran pts \<longleftrightarrow> True"

definition bucket_end :: "duration \<Rightarrow> bool \<Rightarrow> instant \<Rightarrow> instant" where
  "bucket_end gran startSemantics t = (if startSemantics then time_Add t gran else t)"

text \<open>The samples of one bucket: a gauge per latency statistic or token type, else one of the total.\<close>

definition point_samples :: "string \<Rightarrow> string \<Rightarrow> instant \<Rightarrow> data_point \<Rightarrow> sample list" where
  "point_samples pfx g bend dp =
     (if g = ''latency'' then
        map (\<lambda>q. gauge (nameFor pfx g) (fmap_of_list [(''quantile'', q)]) (f_div_const (quantile dp q) msPerSecond) bend) latencyStats
      else if g = ''tokens'' then
        map (\<lambda>(label, pick). gauge (nameFor pfx g) (fmap_of_list [(''token_type'', label)]) (pick dp) bend) tokenTypes
      else [gauge (nameFor pfx g) fmempty (dp_Total dp) bend])"

definition emit_points :: "string \<Rightarrow> string \<Rightarrow> instant \<Rightarrow> instant \<Rightarrow> duration \<Rightarrow> bool \<Rightarrow> (instant \<times> data_point) list \<Rightarrow> sample list" where
  "emit_points pfx g since cutoff gran startSemantics pts =
     concat (map (\<lambda>(t, dp). let bend = bucket_end gran startSemantics t in
                    if \<not> since < bend \<or> cutoff < bend then [] else point_samples pfx g bend dp) pts)"

definition derive_graph ::
  "string \<Rightarrow> string \<Rightarrow> instant \<Rightarrow> instant \<Rightarrow> duration \<Rightarrow> bool \<Rightarrow> graph_response \<Rightarrow> collect_error + sample list" where
  "derive_graph pfx g since cutoff gran startSemantics r =
     (case parse_points (gr_DataPoints r) of
        Inl e \<Rightarrow> Inl e
      | Inr ps \<Rightarrow>
          (let pts = stable_sort before ps in
           if \<not> steps_ok gran pts then Inl ErrGranularityUnexpected
           else Inr (emit_points pfx g since cutoff gran startSemantics pts)))"

fun derive_graphs ::
  "(string, graph_response) fmap \<Rightarrow> string \<Rightarrow> instant \<Rightarrow> instant \<Rightarrow> duration \<Rightarrow> bool \<Rightarrow> string list \<Rightarrow> collect_error + sample list" where
  "derive_graphs resp pfx since cutoff gran startSemantics [] = Inr []"
| "derive_graphs resp pfx since cutoff gran startSemantics (g # gs) =
     (case derive_graph pfx g since cutoff gran startSemantics (the (fmlookup resp g)) of
        Inl e \<Rightarrow> Inl e
      | Inr out \<Rightarrow>
          (case derive_graphs resp pfx since cutoff gran startSemantics gs of Inl e \<Rightarrow> Inl e | Inr rest \<Rightarrow> Inr (out @ rest)))"

definition derive ::
  "(string, graph_response) fmap \<Rightarrow> string \<Rightarrow> instant \<Rightarrow> instant \<Rightarrow> duration \<Rightarrow> duration \<Rightarrow> bool \<Rightarrow> collect_error + sample list" where
  "derive resp pfx since now settle gran startSemantics =
     derive_graphs resp pfx since (time_Add now (- settle)) gran startSemantics (sorted_keys resp)"

section \<open>What derive returns\<close>

lemma parse_points_ok:
  "parse_points dps = Inr pts \<longleftrightarrow>
     map snd pts = dps \<and> (\<forall>p\<in>set pts. ParseRFC3339 (dp_Timestamp (snd p)) = Some (fst p))"
proof (induction dps arbitrary: pts)
  case (Cons dp dps)
  show ?case
  proof (cases pts)
    case (Cons p ps)
    then show ?thesis using Cons.IH [of ps] by (cases p) (auto split: option.splits sum.splits)
  qed (auto split: option.splits sum.splits)
qed auto

lemma parse_points_fails: "parse_points dps = Inl e \<Longrightarrow> \<exists>dp\<in>set dps. ParseRFC3339 (dp_Timestamp dp) = None"
  by (induction dps) (auto split: option.splits sum.splits)

lemma parse_points_not_granularity: "parse_points dps \<noteq> Inl ErrGranularityUnexpected"
  by (induction dps) (auto split: option.splits sum.splits)

lemma strict_weak_before: "strict_weak before"
  by (auto simp: strict_weak_def before_def)

lemma steps_ok_sorted: "steps_ok gran pts \<Longrightarrow> sorted_wrt before pts"
proof (induction gran pts rule: steps_ok.induct)
  case (1 gran p q pts)
  then have "before p q" by (simp add: Let_def time_Sub_def before_def)
  moreover have "sorted_wrt before (q # pts)" using 1 by simp
  ultimately show ?case using strict_weakD(2) [OF strict_weak_before] by auto
qed auto

text \<open>Distinct times that differ by multiples of the width, within the range of a duration, pass the guard.\<close>

lemma steps_ok_regular:
  assumes "sorted_wrt (\<lambda>x y. \<not> before y x) pts" "distinct (map fst pts)" "0 < gran"
    and "\<forall>p\<in>set pts. \<forall>q\<in>set pts. gran dvd fst q - fst p \<and> in_int64 (fst q - fst p)"
  shows "steps_ok gran pts"
  using assms
proof (induction gran pts rule: steps_ok.induct)
  case (1 gran p q pts)
  then have lt: "fst p < fst q" "gran dvd fst q - fst p" "in_int64 (fst q - fst p)" by (auto simp: before_def)
  then have "rem (fst q - fst p) gran = 0" using "1.prems"(3) by (auto simp: rem_def quot_def dvd_def)
  with lt have "let step = time_Sub (fst q) (fst p) in 0 < step \<and> rem step gran = 0"
    by (simp add: Let_def time_Sub_def sat64_id)
  moreover have "steps_ok gran (q # pts)" using "1.IH" "1.prems" by auto
  ultimately show ?case by simp
qed auto

lemma steps_bad_pair:
  "\<not> steps_ok gran pts \<Longrightarrow> \<exists>i. Suc i < length pts \<and>
     (let step = time_Sub (fst (pts ! Suc i)) (fst (pts ! i)) in step \<le> 0 \<or> rem step gran \<noteq> 0)"
proof (induction gran pts rule: steps_ok.induct)
  case (1 gran p q pts)
  show ?case
  proof (cases "let step = time_Sub (fst q) (fst p) in 0 < step \<and> rem step gran = 0")
    case True
    then obtain i where "Suc i < length (q # pts)"
      "let step = time_Sub (fst ((q # pts) ! Suc i)) (fst ((q # pts) ! i)) in step \<le> 0 \<or> rem step gran \<noteq> 0"
      using 1 by auto
    then show ?thesis by (intro exI [of _ "Suc i"]) simp
  next
    case False
    then show ?thesis by (intro exI [of _ 0]) (auto simp: Let_def)
  qed
qed auto

lemma derive_graphs_ok:
  "derive_graphs resp pfx since cutoff gran ss gs = Inr out \<longleftrightarrow>
     (\<forall>g\<in>set gs. \<exists>o1. derive_graph pfx g since cutoff gran ss (the (fmlookup resp g)) = Inr o1) \<and>
     out = concat (map (\<lambda>g. projr (derive_graph pfx g since cutoff gran ss (the (fmlookup resp g)))) gs)"
proof (induction gs arbitrary: out)
  case (Cons g gs)
  show ?case
  proof (cases "derive_graphs resp pfx since cutoff gran ss gs")
    case (Inl e)
    then show ?thesis using Cons.IH by (auto split: sum.splits)
  next
    case (Inr rest)
    then show ?thesis using Cons.IH [of rest] by (auto split: sum.splits)
  qed
qed auto

lemma derive_graphs_error:
  "derive_graphs resp pfx since cutoff gran ss gs = Inl e \<Longrightarrow>
     \<exists>g\<in>set gs. derive_graph pfx g since cutoff gran ss (the (fmlookup resp g)) = Inl e"
  by (induction gs) (auto split: sum.splits)

lemma derive_graph_ok:
  assumes "derive_graph pfx g since cutoff gran ss r = Inr out"
  obtains pts where "sorted_wrt before pts" "mset (map snd pts) = mset (gr_DataPoints r)"
    "\<forall>p\<in>set pts. ParseRFC3339 (dp_Timestamp (snd p)) = Some (fst p)"
    "out = emit_points pfx g since cutoff gran ss pts"
proof -
  obtain ps where ps: "parse_points (gr_DataPoints r) = Inr ps" "steps_ok gran (stable_sort before ps)"
    "out = emit_points pfx g since cutoff gran ss (stable_sort before ps)"
    using assms by (auto simp: derive_graph_def Let_def split: sum.splits if_splits)
  have parsed: "map snd ps = gr_DataPoints r" "\<forall>p\<in>set ps. ParseRFC3339 (dp_Timestamp (snd p)) = Some (fst p)"
    using ps(1) by (simp_all add: parse_points_ok)
  have "mset (map snd (stable_sort before ps)) = mset (map snd ps)" by simp
  then show ?thesis using that [of "stable_sort before ps"] ps steps_ok_sorted [OF ps(2)] parsed by simp
qed

text \<open>The identity of a point: its series and its time.\<close>

definition point_id :: "sample \<Rightarrow> string \<times> labels \<times> instant" where
  "point_id s = (smp_Name s, smp_Labels s, smp_Timestamp s)"

lemma in_emit_points:
  "s \<in> set (emit_points pfx g since cutoff gran ss pts) \<longleftrightarrow>
     (\<exists>p\<in>set pts. since < bucket_end gran ss (fst p) \<and> bucket_end gran ss (fst p) \<le> cutoff \<and>
        s \<in> set (point_samples pfx g (bucket_end gran ss (fst p)) (snd p)))"
proof -
  have "s \<in> set (emit_points pfx g since cutoff gran ss pts) \<longleftrightarrow>
    (\<exists>p\<in>set pts. s \<in> set (let bend = bucket_end gran ss (fst p) in
        if \<not> since < bend \<or> cutoff < bend then [] else point_samples pfx g bend (snd p)))"
    by (simp add: emit_points_def case_prod_beta)
  then show ?thesis by (auto simp: Let_def)
qed

lemma point_samples_id:
  "s \<in> set (point_samples pfx g bend dp) \<Longrightarrow> smp_Name s = nameFor pfx g \<and> smp_Timestamp s = bend"
  by (auto simp: point_samples_def gauge_def split: if_splits)

lemma single_label_inj: "fmupd k v fmempty = fmupd k w fmempty \<longleftrightarrow> v = w"
proof
  assume "fmupd k v fmempty = fmupd k w fmempty"
  then have "fmlookup (fmupd k v fmempty) k = fmlookup (fmupd k w fmempty) k" by simp
  then show "v = w" by simp
qed simp

lemma point_samples_distinct: "distinct (map point_id (point_samples pfx g bend dp))"
  by (simp add: point_samples_def point_id_def gauge_def latencyStats_def tokenTypes_def single_label_inj)

lemma emit_points_distinct:
  assumes "sorted_wrt before pts"
  shows "distinct (map point_id (emit_points pfx g since cutoff gran ss pts))"
proof -
  have inj: "p = q" if "p \<in> set pts" "q \<in> set pts" "fst p = fst q" for p q
    using assms that by (induction pts) (auto simp: before_def)
  have "distinct pts" using assms by (induction pts) (auto simp: before_def)
  then show ?thesis unfolding emit_points_def
  proof (rule distinct_map_concat)
    fix x y a b
    assume "x \<in> set pts" "y \<in> set pts" "point_id a = point_id b"
      and "a \<in> set (case x of (t, dp) \<Rightarrow> let bend = bucket_end gran ss t in
             if \<not> since < bend \<or> cutoff < bend then [] else point_samples pfx g bend dp)"
      and "b \<in> set (case y of (t, dp) \<Rightarrow> let bend = bucket_end gran ss t in
             if \<not> since < bend \<or> cutoff < bend then [] else point_samples pfx g bend dp)"
    then have "bucket_end gran ss (fst x) = bucket_end gran ss (fst y)" "x \<in> set pts" "y \<in> set pts"
      by (auto simp: Let_def point_id_def dest!: point_samples_id split: prod.splits if_splits)
    then show "x = y" using inj by (auto simp: bucket_end_def time_Add_def split: if_splits)
  qed (auto simp: Let_def point_samples_distinct split: prod.splits)
qed

lemma nameFor_inj:
  assumes "g \<in> fset (fmdom metricSuffix)" "h \<in> fset (fmdom metricSuffix)" "nameFor pfx g = nameFor pfx h"
  shows "g = h"
proof -
  have dom: "fset (fmdom metricSuffix) = {''requests'', ''cost'', ''tokens'', ''latency'', ''errors'', ''users''}"
    by (auto simp: metricSuffix_def)
  have "map_get metricSuffix g = map_get metricSuffix h" using assms(3) by (simp add: nameFor_def)
  then show ?thesis using assms(1,2) unfolding dom by (auto simp: metricSuffix_def map_get_def fmlookup_of_list)
qed

text \<open>A successful \<open>derive\<close> graph by graph, on the sorted points of each.\<close>

lemma derive_ok:
  assumes "derive resp pfx since now settle gran ss = Inr out"
  shows "\<exists>P. out = concat (map (\<lambda>g. emit_points pfx g since (time_Add now (- settle)) gran ss (P g)) (sorted_keys resp)) \<and>
    (\<forall>g r. fmlookup resp g = Some r \<longrightarrow> sorted_wrt before (P g) \<and> mset (map snd (P g)) = mset (gr_DataPoints r) \<and>
       (\<forall>p\<in>set (P g). ParseRFC3339 (dp_Timestamp (snd p)) = Some (fst p)))"
proof -
  define D where "D g = derive_graph pfx g since (time_Add now (- settle)) gran ss (the (fmlookup resp g))" for g
  have ok: "\<forall>g\<in>set (sorted_keys resp). \<exists>o1. D g = Inr o1" and out: "out = concat (map (\<lambda>g. projr (D g)) (sorted_keys resp))"
    using assms unfolding derive_def derive_graphs_ok D_def by auto
  have "\<forall>g\<in>set (sorted_keys resp). \<exists>pts. sorted_wrt before pts \<and> mset (map snd pts) = mset (gr_DataPoints (the (fmlookup resp g))) \<and>
      (\<forall>p\<in>set pts. ParseRFC3339 (dp_Timestamp (snd p)) = Some (fst p)) \<and>
      projr (D g) = emit_points pfx g since (time_Add now (- settle)) gran ss pts"
    using ok unfolding D_def by (metis derive_graph_ok sum.sel(2))
  then obtain P where P: "\<And>g. g \<in> set (sorted_keys resp) \<Longrightarrow> sorted_wrt before (P g) \<and>
      mset (map snd (P g)) = mset (gr_DataPoints (the (fmlookup resp g))) \<and>
      (\<forall>p\<in>set (P g). ParseRFC3339 (dp_Timestamp (snd p)) = Some (fst p)) \<and>
      projr (D g) = emit_points pfx g since (time_Add now (- settle)) gran ss (P g)" by metis
  have "out = concat (map (\<lambda>g. emit_points pfx g since (time_Add now (- settle)) gran ss (P g)) (sorted_keys resp))"
    unfolding out by (intro arg_cong [of _ _ concat] map_cong) (use P in auto)
  moreover have "sorted_wrt before (P g) \<and> mset (map snd (P g)) = mset (gr_DataPoints r) \<and>
       (\<forall>p\<in>set (P g). ParseRFC3339 (dp_Timestamp (snd p)) = Some (fst p))" if "fmlookup resp g = Some r" for g r
    using P [of g] that fmdomI [OF that] by simp
  ultimately show ?thesis by blast
qed

text \<open>
  Points a healthy answer has: readable and distinct bucket times, apart by multiples of the
  width. Omitted empty buckets are allowed, in any order.
\<close>

definition point_time :: "data_point \<Rightarrow> instant option" where
  "point_time dp = ParseRFC3339 (dp_Timestamp dp)"

definition regular_points :: "duration \<Rightarrow> data_point list \<Rightarrow> bool" where
  "regular_points gran dps \<longleftrightarrow> distinct (map point_time dps) \<and> None \<notin> set (map point_time dps) \<and>
     (\<forall>dp\<in>set dps. \<forall>dq\<in>set dps. gran dvd the (point_time dq) - the (point_time dp) \<and>
        in_int64 (the (point_time dq) - the (point_time dp)))"

lemma derive_graph_regular:
  assumes "regular_points gran (gr_DataPoints r)" "0 < gran"
  shows "\<exists>out. derive_graph pfx g since cutoff gran ss r = Inr out"
proof -
  define ps where "ps = map (\<lambda>dp. (the (point_time dp), dp)) (gr_DataPoints r)"
  have some: "point_time dp = Some (the (point_time dp))" if "dp \<in> set (gr_DataPoints r)" for dp
    using assms(1) that unfolding regular_points_def by (cases "point_time dp") (auto simp: rev_image_eqI)
  have parsed: "parse_points (gr_DataPoints r) = Inr ps"
    unfolding parse_points_ok using some by (auto simp: ps_def point_time_def o_def)
  have inj: "inj_on (\<lambda>dp. the (point_time dp)) (set (gr_DataPoints r))"
    using assms(1) some unfolding regular_points_def distinct_map inj_on_def by metis
  have "distinct (map fst ps)"
    using assms(1) inj by (simp add: ps_def o_def distinct_map regular_points_def)
  then have "distinct (map fst (stable_sort before ps))"
    using mset_eq_imp_distinct_iff [of "map fst (stable_sort before ps)" "map fst ps"] by simp
  moreover have "\<forall>p\<in>set (stable_sort before ps). \<forall>q\<in>set (stable_sort before ps). gran dvd fst q - fst p \<and> in_int64 (fst q - fst p)"
    using assms(1) by (simp add: ps_def regular_points_def)
  ultimately have "steps_ok gran (stable_sort before ps)"
    using assms(2) sorted_stable_sort [OF strict_weak_before, of ps] by (intro steps_ok_regular)
  then show ?thesis using parsed by (simp add: derive_graph_def)
qed

text \<open>An error of the granularity guard names two points of one graph with a wrong step.\<close>

lemma derive_graph_granularity:
  assumes "derive_graph pfx g since cutoff gran ss r = Inl ErrGranularityUnexpected"
  shows "\<not> regular_points gran (gr_DataPoints r) \<or> gran \<le> 0"
  using derive_graph_regular [of gran r pfx g since cutoff ss] assms by (cases "0 < gran") auto

lemma derive_members:
  assumes "derive resp pfx since now settle gran ss = Inr out"
  shows "s \<in> set out \<longleftrightarrow> (\<exists>g r dp t. fmlookup resp g = Some r \<and> dp \<in> set (gr_DataPoints r) \<and> point_time dp = Some t \<and>
         since < bucket_end gran ss t \<and> bucket_end gran ss t \<le> now - settle \<and>
         s \<in> set (point_samples pfx g (bucket_end gran ss t) dp))"
proof -
  obtain P where out: "out = concat (map (\<lambda>g. emit_points pfx g since (time_Add now (- settle)) gran ss (P g)) (sorted_keys resp))"
    and P: "\<And>g r. fmlookup resp g = Some r \<Longrightarrow> sorted_wrt before (P g) \<and> mset (map snd (P g)) = mset (gr_DataPoints r) \<and>
       (\<forall>p\<in>set (P g). ParseRFC3339 (dp_Timestamp (snd p)) = Some (fst p))" using derive_ok [OF assms] by blast
  have P_set: "set (P g) = {(t, dp). dp \<in> set (gr_DataPoints r) \<and> point_time dp = Some t}" if r: "fmlookup resp g = Some r" for g r
  proof -
    have dps: "set (gr_DataPoints r) = snd ` set (P g)" using P [OF r] by (metis list.set_map mset_eq_setD)
    have "point_time (snd p) = Some (fst p)" if "p \<in> set (P g)" for p using P [OF r] that by (auto simp: point_time_def)
    then show ?thesis unfolding dps by force
  qed
  have "s \<in> set out \<longleftrightarrow> (\<exists>g r. fmlookup resp g = Some r \<and> s \<in> set (emit_points pfx g since (now - settle) gran ss (P g)))"
    unfolding out by (auto simp: time_Add_def fmlookup_dom_iff)
  also have "\<dots> \<longleftrightarrow> (\<exists>g r. fmlookup resp g = Some r \<and> (\<exists>dp t. (t, dp) \<in> set (P g) \<and> since < bucket_end gran ss t \<and>
      bucket_end gran ss t \<le> now - settle \<and> s \<in> set (point_samples pfx g (bucket_end gran ss t) dp)))"
    unfolding in_emit_points by force
  also have "\<dots> \<longleftrightarrow> (\<exists>g r dp t. fmlookup resp g = Some r \<and> dp \<in> set (gr_DataPoints r) \<and> point_time dp = Some t \<and>
         since < bucket_end gran ss t \<and> bucket_end gran ss t \<le> now - settle \<and>
         s \<in> set (point_samples pfx g (bucket_end gran ss t) dp))"
    using P_set by blast
  finally show ?thesis .
qed

lemma derive_distinct:
  assumes "derive resp pfx since now settle gran ss = Inr out" "fmdom resp |\<subseteq>| fmdom metricSuffix"
  shows "distinct (map point_id out)"
proof -
  obtain P where out: "out = concat (map (\<lambda>g. emit_points pfx g since (time_Add now (- settle)) gran ss (P g)) (sorted_keys resp))"
    and P: "\<And>g r. fmlookup resp g = Some r \<Longrightarrow> sorted_wrt before (P g) \<and> mset (map snd (P g)) = mset (gr_DataPoints r) \<and>
       (\<forall>p\<in>set (P g). ParseRFC3339 (dp_Timestamp (snd p)) = Some (fst p))" using derive_ok [OF assms(1)] by blast
  show ?thesis unfolding out
  proof (rule distinct_map_concat)
    fix g h a b
    assume gh: "g \<in> set (sorted_keys resp)" "h \<in> set (sorted_keys resp)" "point_id a = point_id b"
      "a \<in> set (emit_points pfx g since (time_Add now (- settle)) gran ss (P g))"
      "b \<in> set (emit_points pfx h since (time_Add now (- settle)) gran ss (P h))"
    then have "nameFor pfx g = nameFor pfx h" by (auto simp: in_emit_points point_id_def dest!: point_samples_id)
    moreover have "g \<in> fset (fmdom metricSuffix)" "h \<in> fset (fmdom metricSuffix)" using gh(1,2) assms(2) by auto
    ultimately show "g = h" using nameFor_inj by blast
  next
    fix g
    assume "g \<in> set (sorted_keys resp)"
    then obtain r where "fmlookup resp g = Some r" by (auto simp: fmlookup_dom_iff)
    then show "distinct (map point_id (emit_points pfx g since (time_Add now (- settle)) gran ss (P g)))"
      using P emit_points_distinct by blast
  qed simp
qed

lemma derive_regular:
  "(\<And>g r. fmlookup resp g = Some r \<Longrightarrow> regular_points gran (gr_DataPoints r)) \<Longrightarrow> 0 < gran \<Longrightarrow>
    \<exists>out. derive resp pfx since now settle gran ss = Inr out"
  unfolding derive_def derive_graphs_ok using derive_graph_regular by (auto simp: fmlookup_dom_iff)

lemma derive_granularity:
  assumes "derive resp pfx since now settle gran ss = Inl ErrGranularityUnexpected" "0 < gran"
  shows "\<exists>g r. fmlookup resp g = Some r \<and> \<not> regular_points gran (gr_DataPoints r)"
proof -
  obtain g where "g \<in> set (sorted_keys resp)"
    "derive_graph pfx g since (time_Add now (- settle)) gran ss (the (fmlookup resp g)) = Inl ErrGranularityUnexpected"
    using assms(1) unfolding derive_def using derive_graphs_error by blast
  then show ?thesis using derive_graph_granularity [of pfx g] assms(2) by (fastforce simp: fmlookup_dom_iff)
qed

section \<open>Properties of derive\<close>

text \<open>C8: derive is exact. For supported graphs it returns a sample exactly for the buckets
  that end after the lower bound and are settled, one gauge per statistic of the bucket, and
  no two of them are the same point of the same series. Every healthy answer is accepted,
  reordered and with empty buckets left out or not; a granularity error is raised only for
  an answer that is not healthy.\<close>

theorem derive_exact:
  assumes "fmdom resp |\<subseteq>| fmdom metricSuffix" "0 < gran"
  shows "(\<forall>out. derive resp pfx since now settle gran ss = Inr out \<longrightarrow>
      (\<forall>s. s \<in> set out \<longleftrightarrow> (\<exists>g r dp t. fmlookup resp g = Some r \<and> dp \<in> set (gr_DataPoints r) \<and> point_time dp = Some t \<and>
         since < bucket_end gran ss t \<and> bucket_end gran ss t \<le> now - settle \<and>
         s \<in> set (point_samples pfx g (bucket_end gran ss t) dp))) \<and>
      distinct (map point_id out)) \<and>
    ((\<forall>g r. fmlookup resp g = Some r \<longrightarrow> regular_points gran (gr_DataPoints r)) \<longrightarrow>
       (\<exists>out. derive resp pfx since now settle gran ss = Inr out)) \<and>
    (derive resp pfx since now settle gran ss = Inl ErrGranularityUnexpected \<longrightarrow>
       (\<exists>g r. fmlookup resp g = Some r \<and> \<not> regular_points gran (gr_DataPoints r)))"
proof (intro conjI impI allI)
  show "s \<in> set out \<longleftrightarrow> (\<exists>g r dp t. fmlookup resp g = Some r \<and> dp \<in> set (gr_DataPoints r) \<and> point_time dp = Some t \<and>
         since < bucket_end gran ss t \<and> bucket_end gran ss t \<le> now - settle \<and>
         s \<in> set (point_samples pfx g (bucket_end gran ss t) dp))" if "derive resp pfx since now settle gran ss = Inr out" for out s
    by (rule derive_members [OF that])
next
  show "distinct (map point_id out)" if "derive resp pfx since now settle gran ss = Inr out" for out
    by (rule derive_distinct [OF that assms(1)])
next
  assume "\<forall>g r. fmlookup resp g = Some r \<longrightarrow> regular_points gran (gr_DataPoints r)"
  then show "\<exists>out. derive resp pfx since now settle gran ss = Inr out" by (intro derive_regular [OF _ assms(2)]) simp
next
  assume "derive resp pfx since now settle gran ss = Inl ErrGranularityUnexpected"
  then show "\<exists>g r. fmlookup resp g = Some r \<and> \<not> regular_points gran (gr_DataPoints r)"
    by (rule derive_granularity [OF _ assms(2)])
qed

definition two_minutes :: graph_response where
  "two_minutes = \<lparr>gr_DataPoints =
     [\<lparr>dp_Timestamp = ''2026-06-19T10:02:00Z'', dp_Total = Fin 7, dp_TotalRequestUnits = Fin 0, dp_TotalResponseUnits = Fin 0,
       dp_Avg = Fin 0, dp_P50 = Fin 0, dp_P90 = Fin 0, dp_P99 = Fin 0\<rparr>,
      \<lparr>dp_Timestamp = ''2026-06-19T10:00:00Z'', dp_Total = Fin 5, dp_TotalRequestUnits = Fin 0, dp_TotalResponseUnits = Fin 0,
       dp_Avg = Fin 0, dp_P50 = Fin 0, dp_P90 = Fin 0, dp_P99 = Fin 0\<rparr>],
     gr_IsQuotaExceeded = False, gr_Object = ''''\<rparr>"

definition ten_oclock :: instant where "ten_oclock = 63917460000 * Second"

lemma two_minutes_times: "map point_time (gr_DataPoints two_minutes) = [Some (ten_oclock + 2 * Minute), Some ten_oclock]"
  by code_simp

theorem derive_exact_witness:
  "\<exists>out. derive (fmupd ''requests'' two_minutes fmempty) ''p'' ten_oclock (ten_oclock + Hour) (5 * Minute) Minute True = Inr out \<and>
     distinct (map point_id out)"
proof -
  define resp where "resp = fmupd ''requests'' two_minutes fmempty"
  have dom: "fmdom resp |\<subseteq>| fmdom metricSuffix" by (simp add: resp_def metricSuffix_def)
  have "regular_points Minute (gr_DataPoints r)" if "fmlookup resp g = Some r" for g r
    using that two_minutes_times
    by (auto simp: resp_def regular_points_def two_minutes_def Minute_def in_int64_def split: if_splits)
  then show ?thesis
    using derive_exact [OF dom, of Minute "''p''" ten_oclock "ten_oclock + Hour" "5 * Minute" True]
    unfolding resp_def [symmetric] by (auto simp: Minute_def)
qed

end
