(* ===== verification/Go_Net.thy ===== *)
theory Go_Net
  imports Prelude
begin

text \<open>
  Internet addresses as package \<open>net\<close> classifies them. An address is its 16-byte value, an
  IPv4 address being the value below \<^verbatim>\<open>::ffff:0:0/96\<close>. Reading an address or the host of a
  URL from text, and resolving a name, are parameters (\<open>net_names\<close>).
\<close>

type_synonym ip = int

record net_names =
  nn_Hostname :: "string \<Rightarrow> string option"
  nn_ParseIP :: "string \<Rightarrow> ip option"

definition v4_base :: int where "v4_base = 65535 * 2 ^ 32"

definition v4 :: "int \<Rightarrow> int \<Rightarrow> int \<Rightarrow> int \<Rightarrow> ip" where
  "v4 a b c d = v4_base + a * 2 ^ 24 + b * 2 ^ 16 + c * 2 ^ 8 + d"

definition is_v4 :: "ip \<Rightarrow> bool" where
  "is_v4 x \<longleftrightarrow> v4_base \<le> x \<and> x < v4_base + 2 ^ 32"

text \<open>The addresses that share the first \<open>n\<close> of 128 bits with \<open>net\<close>.\<close>

definition in_prefix :: "ip \<Rightarrow> nat \<Rightarrow> ip \<Rightarrow> bool" where
  "in_prefix net n x \<longleftrightarrow> x div 2 ^ (128 - n) = net div 2 ^ (128 - n)"

definition v6_loopback :: ip where "v6_loopback = 1"

definition IsLoopback :: "ip \<Rightarrow> bool" where
  "IsLoopback x \<longleftrightarrow> (if is_v4 x then in_prefix (v4 127 0 0 0) 104 x else x = v6_loopback)"

definition IsPrivate :: "ip \<Rightarrow> bool" where
  "IsPrivate x \<longleftrightarrow>
     (if is_v4 x then in_prefix (v4 10 0 0 0) 104 x \<or> in_prefix (v4 172 16 0 0) 108 x \<or> in_prefix (v4 192 168 0 0) 112 x
      else in_prefix (252 * 2 ^ 120) 7 x)"

definition IsLinkLocalUnicast :: "ip \<Rightarrow> bool" where
  "IsLinkLocalUnicast x \<longleftrightarrow>
     (if is_v4 x then in_prefix (v4 169 254 0 0) 112 x else in_prefix (65152 * 2 ^ 112) 10 x)"

text \<open>An IPv6 link-local multicast address has first byte ff and scope 2, whatever its flags.\<close>

definition IsLinkLocalMulticast :: "ip \<Rightarrow> bool" where
  "IsLinkLocalMulticast x \<longleftrightarrow>
     (if is_v4 x then in_prefix (v4 224 0 0 0) 120 x
      else x div 2 ^ 120 = 255 \<and> x div 2 ^ 112 mod 16 = 2)"

definition IsUnspecified :: "ip \<Rightarrow> bool" where
  "IsUnspecified x \<longleftrightarrow> x = v4 0 0 0 0 \<or> x = 0"

lemma in_prefix_iff:
  assumes "n \<le> 128" "2 ^ (128 - n) dvd net"
  shows "in_prefix net n x \<longleftrightarrow> net \<le> x \<and> x < net + 2 ^ (128 - n)"
proof -
  obtain k where k: "net = 2 ^ (128 - n) * k" using assms(2) by (rule dvdE)
  define m :: int where "m = 2 ^ (128 - n)"
  have "0 < m" by (simp add: m_def)
  have split: "x = m * (x div m) + x mod m" "0 \<le> x mod m" "x mod m < m" using \<open>0 < m\<close> by simp_all
  have "x div m = k" if "m * k \<le> x" "x < m * k + m" using that by (intro int_div_pos_eq [of _ _ _ "x - m * k"]) auto
  moreover have "m * k \<le> x \<and> x < m * k + m" if "x div m = k" using split that by auto
  ultimately have "x div m = k \<longleftrightarrow> m * k \<le> x \<and> x < m * k + m" by blast
  then show ?thesis using \<open>0 < m\<close> unfolding in_prefix_def k m_def [symmetric] by simp
qed

lemma v4_range: "0 \<le> a \<Longrightarrow> a < 256 \<Longrightarrow> 0 \<le> b \<Longrightarrow> b < 256 \<Longrightarrow> 0 \<le> c \<Longrightarrow> c < 256 \<Longrightarrow> 0 \<le> d \<Longrightarrow> d < 256 \<Longrightarrow> is_v4 (v4 a b c d)"
  by (simp add: is_v4_def v4_def)

end
