(* ===== verification/Config.thy ===== *)
theory Config
  imports Go_Text Go_Net
begin

text \<open>
  Configuration (\<^verbatim>\<open>internal/config/config.go\<close>): the YAML structs as records, the resolution of
  secrets (\<open>LoadBytes\<close>), the defaults it applies and \<open>Validate\<close>. The YAML library is given by
  three functions (read a text into a node tree, write a tree, decode a text into the
  structs), and so are the environment, the file system and the host name and address
  parsers of \<open>net/url\<close> and \<open>net\<close>. Maps are visited in ascending key order; the source visits
  them in any order, which only permutes the list of errors.
\<close>

section \<open>Structs\<close>

record otlp_conn =
  oc_Endpoint :: string
  oc_InstanceID :: string
  oc_Token :: string
  oc_AllowInsecure :: bool

record otlp_target =
  ot_OTLP :: otlp_conn
  ot_MetricInterval :: duration

record emit_config =
  em_Telemetry :: otlp_target
  em_Self :: "otlp_target option"

record identity_config =
  id_ServiceNamespace :: string
  id_DeploymentEnvironment :: string

record dynamodb_config =
  dc_Table :: string
  dc_Region :: string
  dc_Endpoint :: string
  dc_LockName :: string
  dc_KeyPrefix :: string
  dc_LeaseDuration :: duration
  dc_RenewDeadline :: duration
  dc_RetryPeriod :: duration

record ha_config =
  ha_Coordinator :: string
  ha_Checkpoint :: string
  ha_DynamoDB :: dynamodb_config

record queue_config =
  qc_MaxBatches :: int
  qc_MaxBatchBytes :: int
  qc_EmitWorkers :: int

record governance_config =
  gv_PerMetricCardinalityBudget :: int
  gv_MaxDPM :: int
  gv_MaxCatchupPerTick :: int
  gv_MaxStreamLabelKeys :: int
  gv_AllowLabelKeys :: "string list"

record log_config =
  lg_Format :: string
  lg_Level :: string

record profiling_push =
  pp_Endpoint :: string
  pp_InstanceID :: string
  pp_Token :: string

record profiling_config =
  pf_Enabled :: bool
  pf_Mode :: string
  pf_PullAddr :: string
  pf_Push :: profiling_push

record selfobs_config =
  so_Profiling :: profiling_config
  so_TracingEnabled :: bool

record auth_config =
  au_Header :: string
  au_Value :: string

record rate_limit_config =
  rl_RPS :: float64
  rl_Burst :: int

record http_config =
  hc_UserAgent :: string
  hc_AllowHosts :: "string list"
  hc_AllowPrivate :: bool

record loop_config =
  lp_Enabled :: bool
  lp_Cadence :: duration
  lp_Window :: duration
  lp_BucketSettle :: duration
  lp_BootstrapLookback :: duration
  lp_MaxBackfill :: duration
  lp_MetricPrefix :: string
  lp_Graphs :: "string list"
  lp_Settings :: "(string, string) fmap"

record api_key_use_case =
  ak_Label :: string
  ak_APIKeyIDs :: "string list"

record source_config =
  sc_Type :: string
  sc_Enabled :: bool
  sc_BaseURL :: string
  sc_SourceInstance :: string
  sc_Auth :: auth_config
  sc_RateLimit :: rate_limit_config
  sc_HTTP :: http_config
  sc_Loops :: "(string, loop_config) fmap"
  sc_APIKeyUseCases :: "api_key_use_case list"

record config =
  cf_Emit :: emit_config
  cf_Identity :: identity_config
  cf_HA :: ha_config
  cf_Queue :: queue_config
  cf_Governance :: governance_config
  cf_Log :: log_config
  cf_Selfobs :: selfobs_config
  cf_Sources :: "source_config list"

definition ProductIdentity :: "identity_config \<Rightarrow> (string, string) fmap" where
  "ProductIdentity ic = fmap_of_list
     [(''service.name'', ''genai-otel-bridge''), (''service.namespace'', id_ServiceNamespace ic),
      (''deployment.environment.name'', id_DeploymentEnvironment ic)]"

definition Duration_UnmarshalYAML :: "string \<Rightarrow> string + duration" where
  "Duration_UnmarshalYAML v =
     (case ParseDuration v of None \<Rightarrow> Inl (''config: invalid duration '' @ v) | Some d \<Rightarrow> Inr d)"

section \<open>Defaults\<close>

definition maxWindow :: duration where "maxWindow = 55 * Minute"
definition minCadence :: duration where "minCadence = 10 * Second"
definition defaultPerMetricCardinalityBudget :: int where "defaultPerMetricCardinalityBudget = 10000"
definition defaultMaxDPM :: int where "defaultMaxDPM = 1"
definition defaultMaxCatchupPerTick :: int where "defaultMaxCatchupPerTick = 1"
definition DefaultMaxStreamLabelKeys :: int where "DefaultMaxStreamLabelKeys = 15"
definition defaultDynamoDBLockName :: string where "defaultDynamoDBLockName = ''genai-otel-bridge-leader''"
definition defaultDynamoDBLeaseDuration :: duration where "defaultDynamoDBLeaseDuration = 15 * Second"
definition defaultDynamoDBRenewDeadline :: duration where "defaultDynamoDBRenewDeadline = 10 * Second"
definition defaultDynamoDBRetryPeriod :: duration where "defaultDynamoDBRetryPeriod = 2 * Second"
definition defaultRateLimitRPS :: float64 where "defaultRateLimitRPS = Fin 1"
definition defaultRateLimitBurst :: int where "defaultRateLimitBurst = 3"
definition defaultQueueMaxBatches :: int where "defaultQueueMaxBatches = 256"
definition defaultQueueMaxBatchBytes :: int where "defaultQueueMaxBatchBytes = 2 ^ 20"
definition defaultBucketSettle :: duration where "defaultBucketSettle = 10 * Minute"

definition or_default :: "'a \<Rightarrow> 'a \<Rightarrow> 'a \<Rightarrow> 'a" where
  "or_default unset d x = (if x = unset then d else x)"

definition default_governance :: "governance_config \<Rightarrow> governance_config" where
  "default_governance g = g\<lparr>
     gv_PerMetricCardinalityBudget := or_default 0 defaultPerMetricCardinalityBudget (gv_PerMetricCardinalityBudget g),
     gv_MaxDPM := or_default 0 defaultMaxDPM (gv_MaxDPM g),
     gv_MaxCatchupPerTick := or_default 0 defaultMaxCatchupPerTick (gv_MaxCatchupPerTick g),
     gv_MaxStreamLabelKeys := or_default 0 DefaultMaxStreamLabelKeys (gv_MaxStreamLabelKeys g)\<rparr>"

definition default_queue :: "queue_config \<Rightarrow> queue_config" where
  "default_queue q = q\<lparr>
     qc_MaxBatches := or_default 0 defaultQueueMaxBatches (qc_MaxBatches q),
     qc_MaxBatchBytes := or_default 0 defaultQueueMaxBatchBytes (qc_MaxBatchBytes q)\<rparr>"

definition default_profiling :: "profiling_config \<Rightarrow> profiling_config" where
  "default_profiling p =
     (if \<not> pf_Enabled p then p
      else let m = or_default '''' ''pull'' (pf_Mode p)
           in p\<lparr>pf_Mode := m, pf_PullAddr := (if m = ''pull'' \<and> pf_PullAddr p = '''' then '':6060'' else pf_PullAddr p)\<rparr>)"

definition default_ha :: "ha_config \<Rightarrow> ha_config" where
  "default_ha h =
     (if ha_Coordinator h \<noteq> ''dynamodb'' \<and> ha_Checkpoint h \<noteq> ''dynamodb'' then h
      else let d = ha_DynamoDB h in h\<lparr>ha_DynamoDB := d\<lparr>
        dc_LockName := or_default '''' defaultDynamoDBLockName (dc_LockName d),
        dc_LeaseDuration := or_default 0 defaultDynamoDBLeaseDuration (dc_LeaseDuration d),
        dc_RenewDeadline := or_default 0 defaultDynamoDBRenewDeadline (dc_RenewDeadline d),
        dc_RetryPeriod := or_default 0 defaultDynamoDBRetryPeriod (dc_RetryPeriod d)\<rparr>\<rparr>)"

definition default_loop :: "loop_config \<Rightarrow> loop_config" where
  "default_loop lp = lp\<lparr>lp_BucketSettle := or_default 0 defaultBucketSettle (lp_BucketSettle lp)\<rparr>"

definition default_source :: "source_config \<Rightarrow> source_config" where
  "default_source s = s\<lparr>
     sc_RateLimit := \<lparr>rl_RPS = or_default (Fin 0) defaultRateLimitRPS (rl_RPS (sc_RateLimit s)),
                      rl_Burst = or_default 0 defaultRateLimitBurst (rl_Burst (sc_RateLimit s))\<rparr>,
     sc_Loops := fmmap default_loop (sc_Loops s)\<rparr>"

definition apply_defaults :: "config \<Rightarrow> config" where
  "apply_defaults c = c\<lparr>
     cf_Governance := default_governance (cf_Governance c),
     cf_Queue := default_queue (cf_Queue c),
     cf_Selfobs := (cf_Selfobs c)\<lparr>so_Profiling := default_profiling (so_Profiling (cf_Selfobs c))\<rparr>,
     cf_HA := default_ha (cf_HA c),
     cf_Sources := map default_source (cf_Sources c)\<rparr>"

section \<open>Secrets\<close>

definition name_start :: "char \<Rightarrow> bool" where
  "name_start c \<longleftrightarrow> (is_alnum c \<and> \<not> is_dec c) \<or> c = CHR ''_''"

definition name_char :: "char \<Rightarrow> bool" where
  "name_char c \<longleftrightarrow> is_alnum c \<or> c = CHR ''_''"

text \<open>A reference at the start of a text: its name and what follows it.\<close>

definition env_ref :: "string \<Rightarrow> (string \<times> string) option" where
  "env_ref s =
     (let body = drop 2 s; name = takeWhile name_char body; rest = dropWhile name_char body
      in if prefix ''${'' s \<and> name \<noteq> [] \<and> name_start (hd name) \<and> rest \<noteq> [] \<and> hd rest = CHR ''}''
         then Some (name, tl rest) else None)"

lemma env_ref_shorter: "env_ref s = Some (k, r) \<Longrightarrow> length r < length s"
proof -
  assume a: "env_ref s = Some (k, r)"
  then have "r = tl (dropWhile name_char (drop 2 s))" "dropWhile name_char (drop 2 s) \<noteq> []"
    by (auto simp: env_ref_def Let_def split: if_splits)
  moreover have "length (dropWhile name_char (drop 2 s)) \<le> length s"
    using length_dropWhile_le [of name_char "drop 2 s"] by simp
  ultimately show ?thesis by (cases "dropWhile name_char (drop 2 s)") auto
qed

definition placeholder :: "nat \<Rightarrow> string" where
  "placeholder i = ''genai-otel-bridgeXsecretX'' @ itoa i @ ''Xgenai-otel-bridge''"

text \<open>Inl is the first variable that is unset or empty.\<close>

function injectEnvPlaceholders ::
  "(string \<Rightarrow> string) \<Rightarrow> nat \<Rightarrow> string \<Rightarrow> string + string \<times> (string \<times> string) list" where
  "injectEnvPlaceholders env i s =
     (case env_ref s of
        Some (key, rest) \<Rightarrow>
          (if env key = '''' then Inl key
           else case injectEnvPlaceholders env (Suc i) rest of
             Inl e \<Rightarrow> Inl e
           | Inr (out, ph) \<Rightarrow> Inr (placeholder i @ out, (placeholder i, env key) # ph))
      | None \<Rightarrow>
          (case s of
             [] \<Rightarrow> Inr ([], [])
           | c # cs \<Rightarrow>
               (case injectEnvPlaceholders env i cs of Inl e \<Rightarrow> Inl e | Inr (out, ph) \<Rightarrow> Inr (c # out, ph))))"
  by pat_completeness auto
termination by (relation "measure (\<lambda>(env, i, s). length s)") (auto dest: env_ref_shorter)

declare injectEnvPlaceholders.simps [simp del]

definition redactSecretValues :: "(string \<times> string) list \<Rightarrow> string \<Rightarrow> string" where
  "redactSecretValues ph msg =
     fold (\<lambda>(tok, v) m. if 3 < length v then ReplaceAll v ''[redacted]'' m else m) ph msg"

datatype yaml_node = YColl "yaml_node list" | YScalar string | YAlias string

definition resolve_scalar :: "(string \<Rightarrow> string option) \<Rightarrow> (string \<times> string) list \<Rightarrow> string \<Rightarrow> string + string" where
  "resolve_scalar readFile ph v =
     (let val = fold (\<lambda>(tok, secret) s. if Contains s tok then ReplaceAll tok secret s else s) ph v
      in if HasPrefix val ''file:''
         then (let p = TrimSpace (drop 5 val) in
               case readFile p of
                 None \<Rightarrow> Inl (''config: file secret '' @ p)
               | Some b \<Rightarrow> Inr (TrimSpace b))
         else Inr val)"

text \<open>An alias node refers to a node that is resolved where it stands.\<close>

fun resolveSecretsNode :: "(string \<Rightarrow> string option) \<Rightarrow> (string \<times> string) list \<Rightarrow> yaml_node \<Rightarrow> string + yaml_node"
  and resolveSecretsNodes :: "(string \<Rightarrow> string option) \<Rightarrow> (string \<times> string) list \<Rightarrow> yaml_node list \<Rightarrow> string + yaml_node list" where
  "resolveSecretsNode rf ph (YColl ns) = (case resolveSecretsNodes rf ph ns of Inl e \<Rightarrow> Inl e | Inr ms \<Rightarrow> Inr (YColl ms))"
| "resolveSecretsNode rf ph (YScalar v) = (case resolve_scalar rf ph v of Inl e \<Rightarrow> Inl e | Inr w \<Rightarrow> Inr (YScalar w))"
| "resolveSecretsNode rf ph (YAlias a) = Inr (YAlias a)"
| "resolveSecretsNodes rf ph [] = Inr []"
| "resolveSecretsNodes rf ph (n # ns) =
     (case resolveSecretsNode rf ph n of
        Inl e \<Rightarrow> Inl e
      | Inr m \<Rightarrow> (case resolveSecretsNodes rf ph ns of Inl e \<Rightarrow> Inl e | Inr ms \<Rightarrow> Inr (m # ms)))"

text \<open>The environment of a load: variables (empty when unset), files, and the YAML library.\<close>

record load_env =
  le_getenv :: "string \<Rightarrow> string"
  le_readFile :: "string \<Rightarrow> string option"
  le_unmarshal :: "string \<Rightarrow> string + yaml_node"
  le_marshal :: "yaml_node \<Rightarrow> string + string"
  le_decode :: "string \<Rightarrow> string + config"

definition LoadBytes :: "load_env \<Rightarrow> string \<Rightarrow> string + config" where
  "LoadBytes E raw =
     (case injectEnvPlaceholders (le_getenv E) 0 raw of
        Inl key \<Rightarrow> Inl (''config: required env '' @ key @ '' is unset'')
      | Inr (subst, ph) \<Rightarrow>
          (case le_unmarshal E subst of
             Inl e \<Rightarrow> Inl (''config: parse: '' @ e)
           | Inr tree \<Rightarrow>
               (case resolveSecretsNode (le_readFile E) ph tree of
                  Inl e \<Rightarrow> Inl e
                | Inr tree1 \<Rightarrow>
                    (case le_marshal E tree1 of
                       Inl e \<Rightarrow> Inl (redactSecretValues ph (''config: re-marshal after secret resolution: '' @ e))
                     | Inr resolved \<Rightarrow>
                         (case le_decode E resolved of
                            Inl e \<Rightarrow> Inl (redactSecretValues ph (''config: parse: '' @ e))
                          | Inr cfg \<Rightarrow> Inr (apply_defaults cfg))))))"

definition Load :: "load_env \<Rightarrow> string \<Rightarrow> string + config" where
  "Load E path = (case le_readFile E path of None \<Rightarrow> Inl (''config: read '' @ path) | Some raw \<Rightarrow> LoadBytes E raw)"

section \<open>Endpoints\<close>

definition insecureURL :: "string \<Rightarrow> bool" where
  "insecureURL u \<longleftrightarrow> \<not> HasPrefix u ''https://''"

definition loopbackURL :: "net_names \<Rightarrow> string \<Rightarrow> bool" where
  "loopbackURL N s \<longleftrightarrow>
     (case nn_Hostname N s of
        None \<Rightarrow> False
      | Some host \<Rightarrow> host = ''localhost'' \<or> (case nn_ParseIP N host of None \<Rightarrow> False | Some ip \<Rightarrow> IsLoopback ip))"

definition ipLiteralIsPublic :: "net_names \<Rightarrow> string \<Rightarrow> bool" where
  "ipLiteralIsPublic N s \<longleftrightarrow>
     (case nn_Hostname N s of
        None \<Rightarrow> False
      | Some host \<Rightarrow>
          (case nn_ParseIP N host of
             None \<Rightarrow> False
           | Some ip \<Rightarrow> \<not> IsLoopback ip \<and> \<not> IsPrivate ip \<and> \<not> IsLinkLocalUnicast ip \<and> \<not> IsLinkLocalMulticast ip))"

definition err :: "bool \<Rightarrow> string \<Rightarrow> string list" where
  "err bad msg = (if bad then [msg] else [])"

definition validateEmitEndpoint :: "net_names \<Rightarrow> string \<Rightarrow> otlp_conn \<Rightarrow> string list" where
  "validateEmitEndpoint N field c =
     (let ep = oc_Endpoint c in
      if ep = '''' \<or> \<not> insecureURL ep \<or> loopbackURL N ep then []
      else if \<not> oc_AllowInsecure c then [field @ ''.endpoint must be https://'']
      else err (oc_Token c \<noteq> '''' \<or> oc_InstanceID c \<noteq> '''') (field @ ''.allow_insecure with instance_id/token set'') @
           err (ipLiteralIsPublic N ep) (field @ ''.allow_insecure for a public address''))"

section \<open>Validate\<close>

definition validate_governance :: "config \<Rightarrow> string list" where
  "validate_governance c =
     (let g = cf_Governance c in
      err (oc_Endpoint (ot_OTLP (em_Telemetry (cf_Emit c))) = '''') ''emit.telemetry.otlp.endpoint required'' @
      err (qc_EmitWorkers (cf_Queue c) \<noteq> 1) ''queue.emit_workers must be 1'' @
      err (gv_PerMetricCardinalityBudget g < 0) ''governance.per_metric_cardinality_budget must be >= 0'' @
      err (gv_MaxDPM g < 0) ''governance.max_dpm must be >= 0'' @
      err (gv_MaxCatchupPerTick g < 0) ''governance.max_catchup_per_tick must be >= 0'' @
      err (gv_MaxStreamLabelKeys g < 0) ''governance.max_stream_label_keys must be >= 0'' @
      err (lg_Format (cf_Log c) \<notin> {'''', ''logfmt'', ''json''}) ''log.format must be logfmt|json'' @
      err (lg_Level (cf_Log c) \<notin> {'''', ''debug'', ''info'', ''warn'', ''error''}) ''log.level must be debug|info|warn|error'')"

definition validate_ha :: "ha_config \<Rightarrow> string list" where
  "validate_ha h =
     (let d = ha_DynamoDB h in
      err (ha_Coordinator h \<notin> {''lease'', ''none'', ''dynamodb''}) ''ha.coordinator must be lease|none|dynamodb'' @
      err (ha_Checkpoint h \<notin> {''configmap'', ''file'', ''dynamodb''}) ''ha.checkpoint must be configmap|file|dynamodb'' @
      err (ha_Coordinator h = ''lease'' \<and> ha_Checkpoint h = ''file'') ''ha.checkpoint=file is unsafe with ha.coordinator=lease'' @
      err (ha_Coordinator h = ''dynamodb'' \<and> ha_Checkpoint h \<noteq> ''dynamodb'') ''ha.coordinator=dynamodb requires ha.checkpoint=dynamodb'' @
      err ((ha_Coordinator h = ''dynamodb'' \<or> ha_Checkpoint h = ''dynamodb'') \<and> dc_Table d = '''') ''ha.dynamodb.table is required'' @
      (if ha_Coordinator h = ''dynamodb'' then
         err (dc_LeaseDuration d < 0 \<or> dc_RenewDeadline d < 0 \<or> dc_RetryPeriod d < 0) ''ha.dynamodb durations must each be >= 0'' @
         err (dc_LeaseDuration d \<le> dc_RenewDeadline d) ''ha.dynamodb.lease_duration must be > renew_deadline'' @
         err (dc_RetryPeriod d \<le> 0) ''ha.dynamodb.retry_period must be > 0'' @
         err (dc_RenewDeadline d \<le> dc_RetryPeriod d) ''ha.dynamodb.retry_period must be < renew_deadline''
       else []))"

definition validate_self :: "net_names \<Rightarrow> config \<Rightarrow> string list" where
  "validate_self N c =
     validateEmitEndpoint N ''emit.telemetry.otlp'' (ot_OTLP (em_Telemetry (cf_Emit c))) @
     err (ot_MetricInterval (em_Telemetry (cf_Emit c)) \<noteq> 0) ''emit.telemetry.metric_interval is not honoured'' @
     (case em_Self (cf_Emit c) of
        None \<Rightarrow> []
      | Some t \<Rightarrow>
          (let maxDPM = (if gv_MaxDPM (cf_Governance c) < 1 then 1 else gv_MaxDPM (cf_Governance c));
               floor = quot Minute maxDPM; mi = ot_MetricInterval t
           in err (oc_Endpoint (ot_OTLP t) = '''') ''emit.self.otlp.endpoint is required'' @
              validateEmitEndpoint N ''emit.self.otlp'' (ot_OTLP t) @
              err (mi \<noteq> 0 \<and> mi < floor) ''emit.self.metric_interval violates the DPM constraint''))"

definition validate_profiling :: "net_names \<Rightarrow> profiling_config \<Rightarrow> string list" where
  "validate_profiling N p =
     (let q = pf_Push p in
      if \<not> pf_Enabled p then []
      else if pf_Mode p = '''' \<or> pf_Mode p = ''pull'' then
        err (pp_Endpoint q \<noteq> '''' \<or> pp_InstanceID q \<noteq> '''' \<or> pp_Token q \<noteq> '''') ''selfobs.profiling.push.* set but mode is pull''
      else if pf_Mode p = ''push'' then
        (if pp_Endpoint q = '''' then [''selfobs.profiling.push.endpoint required when mode: push'']
         else err (insecureURL (pp_Endpoint q) \<and> \<not> loopbackURL N (pp_Endpoint q)) ''selfobs.profiling.push.endpoint must be https://'') @
        err (pp_InstanceID q = '''' \<or> pp_Token q = '''') ''selfobs.profiling.push.instance_id and token required when mode: push'' @
        err (pf_PullAddr p \<noteq> '''') ''selfobs.profiling.pull.addr set but mode is push''
      else [''selfobs.profiling.mode must be pull|push''])"

text \<open>The least window: the widest gap between two jittered ticks, plus the settle time.\<close>

definition window_floor :: "loop_config \<Rightarrow> duration" where
  "window_floor lp = wrap64 (f_to_int (f_mul (f_of_int (lp_Cadence lp)) (round64 (12 / 10))) + lp_BucketSettle lp)"

definition validate_loop :: "string \<Rightarrow> string \<Rightarrow> loop_config \<Rightarrow> string list" where
  "validate_loop inst name lp =
     (let loc = inst @ ''/'' @ name in
      if \<not> lp_Enabled lp then []
      else
        err (lp_Cadence lp < 0) (loc @ '': cadence must be >= 0'') @
        err (lp_Window lp < 0) (loc @ '': window must be >= 0'') @
        err (lp_BucketSettle lp < 0) (loc @ '': bucket_settle must be >= 0'') @
        err (lp_BootstrapLookback lp < 0) (loc @ '': bootstrap_lookback must be >= 0'') @
        err (lp_MaxBackfill lp < 0) (loc @ '': max_backfill must be >= 0'') @
        err (lp_Cadence lp < minCadence) (loc @ '': cadence < floor'') @
        (if lp_Window lp = 0 then []
         else err (maxWindow < lp_Window lp) (loc @ '': window would flip bucket granularity'') @
              err (lp_Window lp < window_floor lp) (loc @ '': window < cadence*(1+2*jitter)+settle'') @
              err (0 < lp_MaxBackfill lp \<and> lp_MaxBackfill lp < lp_BootstrapLookback lp) (loc @ '': bootstrap_lookback > max_backfill'')))"

definition validate_source :: "net_names \<Rightarrow> string set \<Rightarrow> string set \<Rightarrow> source_config \<Rightarrow> string list" where
  "validate_source N known seenInstance s =
     (let inst = sc_SourceInstance s in
      err (sc_Type s \<notin> known) (''unknown source type '' @ sc_Type s) @
      err (inst = '''') (''source '' @ sc_Type s @ '': source_instance required'') @
      err (inst \<in> seenInstance) (''duplicate source_instance '' @ inst) @
      err (Contains inst ''/'') (''source_instance '' @ inst @ '' must not contain the delimiter'') @
      err (sc_BaseURL s = '''' \<or>
           (insecureURL (sc_BaseURL s) \<and> \<not> loopbackURL N (sc_BaseURL s) \<and> \<not> hc_AllowPrivate (sc_HTTP s)))
          (''source '' @ inst @ '': base_url must be a non-empty https:// URL'') @
      err (au_Header (sc_Auth s) = '''' \<or> au_Value (sc_Auth s) = '''') (''source '' @ inst @ '': auth.header and auth.value are required'') @
      err (f_le (rl_RPS (sc_RateLimit s)) (Fin 0)) (''source '' @ inst @ '': rate_limit.rps must be > 0'') @
      err (rl_Burst (sc_RateLimit s) < 1) (''source '' @ inst @ '': rate_limit.burst must be >= 1'') @
      concat (map (\<lambda>name. validate_loop inst name (the (fmlookup (sc_Loops s) name))) (sorted_keys (sc_Loops s))))"

fun validate_sources :: "net_names \<Rightarrow> string set \<Rightarrow> string set \<Rightarrow> source_config list \<Rightarrow> string list" where
  "validate_sources N known seen [] = []"
| "validate_sources N known seen (s # ss) =
     (if \<not> sc_Enabled s then validate_sources N known seen ss
      else validate_source N known seen s @ validate_sources N known (insert (sc_SourceInstance s) seen) ss)"

definition Validate :: "net_names \<Rightarrow> string set \<Rightarrow> config \<Rightarrow> string list" where
  "Validate N known c =
     validate_governance c @ validate_ha (cf_HA c) @ validate_self N c @
     validate_profiling N (so_Profiling (cf_Selfobs c)) @ validate_sources N known {} (cf_Sources c)"

section \<open>Enabled loops\<close>

text \<open>The loop a source finds under a name, and its construction; shared by the constructors of the sources.\<close>

definition loop_enabled :: "source_config \<Rightarrow> string \<Rightarrow> loop_config option" where
  "loop_enabled sc name = (case fmlookup (sc_Loops sc) name of None \<Rightarrow> None | Some lp \<Rightarrow> if lp_Enabled lp then Some lp else None)"

definition opt_loop :: "loop_config option \<Rightarrow> (loop_config \<Rightarrow> string + 'a) \<Rightarrow> string + 'a list" where
  "opt_loop lp mk = (case lp of None \<Rightarrow> Inr [] | Some c \<Rightarrow> (case mk c of Inl e \<Rightarrow> Inl e | Inr l \<Rightarrow> Inr [l]))"

definition or_else :: "bool \<Rightarrow> 'a \<Rightarrow> 'a \<Rightarrow> 'a" where
  "or_else unset dflt v = (if unset then dflt else v)"

section \<open>Facts\<close>

lemma err_Nil [simp]: "err b m = [] \<longleftrightarrow> \<not> b"
  by (simp add: err_def)

lemma or_default_idem [simp]: "or_default u d (or_default u d x) = or_default u d x"
  by (simp add: or_default_def)

lemma or_default_nonzero: "d \<noteq> u \<Longrightarrow> or_default u d x \<noteq> u"
  by (simp add: or_default_def)

lemma apply_defaults_idem: "apply_defaults (apply_defaults c) = apply_defaults c"
proof -
  have "default_governance (default_governance g) = default_governance g" for g by (simp add: default_governance_def)
  moreover have "default_queue (default_queue q) = default_queue q" for q by (simp add: default_queue_def)
  moreover have "default_profiling (default_profiling p) = default_profiling p" for p
    by (simp add: default_profiling_def or_default_def Let_def)
  moreover have "default_ha (default_ha h) = default_ha h" for h by (simp add: default_ha_def Let_def)
  moreover have "default_loop \<circ> default_loop = default_loop" by (rule ext) (simp add: default_loop_def)
  then have "default_source (default_source s) = default_source s" for s
    by (simp add: default_source_def fmap.map_comp)
  ultimately show ?thesis by (simp add: apply_defaults_def comp_def)
qed

lemma LoadBytes_defaults: "LoadBytes E raw = Inr c \<Longrightarrow> \<exists>c0. c = apply_defaults c0"
  by (auto simp: LoadBytes_def split: sum.splits prod.splits)

lemma validate_sources_ok:
  assumes "validate_sources N known seen ss = []"
  shows "(\<forall>s\<in>set ss. sc_Enabled s \<longrightarrow> validate_source N known {} s = []) \<and>
    distinct (map sc_SourceInstance (filter sc_Enabled ss)) \<and>
    sc_SourceInstance ` set (filter sc_Enabled ss) \<inter> seen = {}"
  using assms
proof (induction ss arbitrary: seen)
  case (Cons s ss)
  show ?case
  proof (cases "sc_Enabled s")
    case True
    then have here: "validate_source N known seen s = []"
      and rest: "validate_sources N known (insert (sc_SourceInstance s) seen) ss = []" using Cons.prems by auto
    have "validate_source N known {} s = []" "sc_SourceInstance s \<notin> seen"
      using here by (auto simp: validate_source_def Let_def)
    then show ?thesis using Cons.IH [OF rest] True by auto
  next
    case False
    then show ?thesis using Cons by auto
  qed
qed simp

lemma Contains_slash: "\<not> Contains s ''/'' \<Longrightarrow> CHR ''/'' \<notin> set s"
  by (induction s) auto

lemma positive_after_default: "0 < d \<Longrightarrow> 0 \<le> or_default 0 d x \<Longrightarrow> 0 < or_default 0 d x" for d :: int
  by (auto simp: or_default_def)

lemma validated_source:
  assumes "validate_source N known {} (default_source s) = []"
  shows "f_gt (rl_RPS (sc_RateLimit (default_source s))) (Fin 0) \<or> rl_RPS (sc_RateLimit (default_source s)) = FNaN"
    and "1 \<le> rl_Burst (sc_RateLimit (default_source s))"
    and "CHR ''/'' \<notin> set (sc_SourceInstance s)" "sc_SourceInstance s \<noteq> ''''" "sc_Type s \<in> known"
    and "\<And>name lp. fmlookup (sc_Loops (default_source s)) name = Some lp \<Longrightarrow> validate_loop (sc_SourceInstance s) name lp = []"
proof -
  have le: "f_gt r (Fin 0) \<or> r = FNaN" if "\<not> f_le r (Fin 0)" for r
    using that f_lt_total [of r "Fin 0"] by (auto simp: f_le_def f_gt_def f_eq_def)
  show "f_gt (rl_RPS (sc_RateLimit (default_source s))) (Fin 0) \<or> rl_RPS (sc_RateLimit (default_source s)) = FNaN"
    by (rule le) (use assms in \<open>simp add: validate_source_def Let_def\<close>)
  show "1 \<le> rl_Burst (sc_RateLimit (default_source s))" using assms by (simp add: validate_source_def Let_def)
  show "CHR ''/'' \<notin> set (sc_SourceInstance s)"
    by (rule Contains_slash) (use assms in \<open>simp add: validate_source_def Let_def default_source_def\<close>)
  show "sc_SourceInstance s \<noteq> ''''" "sc_Type s \<in> known"
    using assms by (simp_all add: validate_source_def Let_def default_source_def)
  show "validate_loop (sc_SourceInstance s) name lp = []" if "fmlookup (sc_Loops (default_source s)) name = Some lp" for name lp
  proof -
    have "\<forall>n\<in>set (sorted_keys (sc_Loops (default_source s))).
        validate_loop (sc_SourceInstance (default_source s)) n (the (fmlookup (sc_Loops (default_source s)) n)) = []"
      using assms by (simp add: validate_source_def Let_def)
    moreover have "name \<in> set (sorted_keys (sc_Loops (default_source s)))" using fmdomI [OF that] by simp
    ultimately show ?thesis using that by (auto simp: default_source_def)
  qed
qed

lemma validated_loop:
  assumes "validate_loop inst name lp = []" "lp_Enabled lp" "lp_BucketSettle lp \<noteq> 0"
  shows "minCadence \<le> lp_Cadence lp \<and> 0 < lp_BucketSettle lp \<and> 0 \<le> lp_MaxBackfill lp \<and>
    (lp_Window lp = 0 \<or> (0 < lp_Window lp \<and> lp_Window lp \<le> maxWindow \<and> window_floor lp \<le> lp_Window lp))"
  using assms by (simp add: validate_loop_def Let_def minCadence_def split: if_splits)

text \<open>
  A secret that is part of a longer one, visited first, leaves the rest of the longer one
  in the message.
\<close>

lemma redaction_leaves_fragment:
  "redactSecretValues [(placeholder 0, ''abcd''), (placeholder 1, ''abcdefgh'')] ''bad abcdefgh'' = ''bad [redacted]efgh''"
  by code_simp

section \<open>Properties\<close>


text \<open>A minimal configuration that loads and validates.\<close>

definition no_push :: profiling_push where
  "no_push = \<lparr>pp_Endpoint = '''', pp_InstanceID = '''', pp_Token = ''''\<rparr>"

definition plain_config :: config where
  "plain_config =
     \<lparr>cf_Emit = \<lparr>em_Telemetry = \<lparr>ot_OTLP = \<lparr>oc_Endpoint = ''https://o'', oc_InstanceID = ''1'', oc_Token = ''t'', oc_AllowInsecure = False\<rparr>,
                                ot_MetricInterval = 0\<rparr>, em_Self = None\<rparr>,
      cf_Identity = \<lparr>id_ServiceNamespace = '''', id_DeploymentEnvironment = ''''\<rparr>,
      cf_HA = \<lparr>ha_Coordinator = ''dynamodb'', ha_Checkpoint = ''dynamodb'', ha_DynamoDB =
        \<lparr>dc_Table = ''t'', dc_Region = '''', dc_Endpoint = '''', dc_LockName = '''', dc_KeyPrefix = '''',
         dc_LeaseDuration = 0, dc_RenewDeadline = 0, dc_RetryPeriod = 0\<rparr>\<rparr>,
      cf_Queue = \<lparr>qc_MaxBatches = 0, qc_MaxBatchBytes = 0, qc_EmitWorkers = 1\<rparr>,
      cf_Governance = \<lparr>gv_PerMetricCardinalityBudget = 0, gv_MaxDPM = 0, gv_MaxCatchupPerTick = 0, gv_MaxStreamLabelKeys = 0,
                       gv_AllowLabelKeys = []\<rparr>,
      cf_Log = \<lparr>lg_Format = '''', lg_Level = ''''\<rparr>,
      cf_Selfobs = \<lparr>so_Profiling = \<lparr>pf_Enabled = False, pf_Mode = '''', pf_PullAddr = '''', pf_Push = no_push\<rparr>, so_TracingEnabled = False\<rparr>,
      cf_Sources = []\<rparr>"

definition plain_env :: load_env where
  "plain_env = \<lparr>le_getenv = (\<lambda>_. ''''), le_readFile = (\<lambda>_. None), le_unmarshal = (\<lambda>s. Inr (YScalar s)),
     le_marshal = (\<lambda>_. Inr ''''), le_decode = (\<lambda>_. Inr plain_config)\<rparr>"

definition no_names :: net_names where
  "no_names = \<lparr>nn_Hostname = (\<lambda>_. None), nn_ParseIP = (\<lambda>_. None)\<rparr>"

lemma plain_loads: "LoadBytes plain_env ''a'' = Inr (apply_defaults plain_config)"
  by (simp add: LoadBytes_def plain_env_def injectEnvPlaceholders.simps env_ref_def resolve_scalar_def HasPrefix_def)

lemma plain_validates: "Validate no_names {} (apply_defaults plain_config) = []"
  by (simp add: Validate_def validate_governance_def validate_ha_def validate_self_def validateEmitEndpoint_def
      validate_profiling_def apply_defaults_def plain_config_def default_governance_def default_queue_def default_profiling_def
      default_ha_def or_default_def insecureURL_def HasPrefix_def Let_def defaultPerMetricCardinalityBudget_def defaultMaxDPM_def
      defaultMaxCatchupPerTick_def DefaultMaxStreamLabelKeys_def defaultDynamoDBLeaseDuration_def
      defaultDynamoDBRenewDeadline_def defaultDynamoDBRetryPeriod_def Second_def)




end
