(* ===== verification/Portkey_Usecase.thy ===== *)
theory Portkey_Usecase
  imports Portkey_Derive Config
begin

text \<open>
  Use cases of API keys (\<^verbatim>\<open>internal/source/portkey/usecase.go\<close>): a configured label becomes a
  slug, its keys a filter, and the samples of its pass carry the slug. Letters outside ASCII
  count as separators; the two of them that \<open>strings.ToLower\<close> maps to an ASCII letter are left
  out.
\<close>

definition useCaseLabelKey :: string where "useCaseLabelKey = ''api_key_use_case''"

definition slug_char :: "char \<Rightarrow> bool" where
  "slug_char c \<longleftrightarrow> (let n = of_char c :: nat in (97 \<le> n \<and> n \<le> 122) \<or> (48 \<le> n \<and> n \<le> 57))"

fun slug_chars :: "bool \<Rightarrow> string \<Rightarrow> string" where
  "slug_chars prevUnderscore [] = []"
| "slug_chars prevUnderscore (r # rs) =
     (if slug_char r then r # slug_chars False rs
      else if \<not> prevUnderscore then CHR ''_'' # slug_chars True rs
      else slug_chars True rs)"

definition slugifyUseCase :: "string \<Rightarrow> string + string" where
  "slugifyUseCase label =
     (let slug = trim_char CHR ''_'' (slug_chars False (ToLower label))
      in if slug = '''' then Inl (''portkey: api_key_use_cases label '' @ label @ '' is empty after normalisation'') else Inr slug)"

record resolved_use_case =
  ru_slug :: string
  ru_apiKeyIDsCSV :: string

fun claim_ids :: "string set \<Rightarrow> string list \<Rightarrow> string set option" where
  "claim_ids seen [] = Some seen"
| "claim_ids seen (u # us) = (if u \<in> seen then None else claim_ids (insert u seen) us)"

fun resolve_entries :: "string set \<Rightarrow> string set \<Rightarrow> api_key_use_case list \<Rightarrow> string + resolved_use_case list" where
  "resolve_entries seenSlug seenUUID [] = Inr []"
| "resolve_entries seenSlug seenUUID (uc # ucs) =
     (case slugifyUseCase (ak_Label uc) of
        Inl e \<Rightarrow> Inl e
      | Inr slug \<Rightarrow>
          (let csv = cleanAPIKeyIDs (join_with '','' (ak_APIKeyIDs uc)) in
           if csv = '''' then Inl (''portkey: api_key_use_cases entry '' @ ak_Label uc @ '' has no api_key_ids'')
           else if slug \<in> seenSlug then Inl (''portkey: api_key_use_cases labels both normalise to '' @ slug)
           else case claim_ids seenUUID (split_on CHR '','' csv) of
             None \<Rightarrow> Inl ''portkey: api_key_use_cases api_key_id appears twice''
           | Some seen \<Rightarrow>
               (case resolve_entries (insert slug seenSlug) seen ucs of
                  Inl e \<Rightarrow> Inl e
                | Inr out \<Rightarrow> Inr (\<lparr>ru_slug = slug, ru_apiKeyIDsCSV = csv\<rparr> # out))))"

definition double_filter :: "loop_config \<Rightarrow> bool" where
  "double_filter lp \<longleftrightarrow> lp_Enabled lp \<and> cleanAPIKeyIDs (map_get (lp_Settings lp) ''api_key_ids'') \<noteq> ''''"

definition resolveUseCases :: "source_config \<Rightarrow> string + resolved_use_case list" where
  "resolveUseCases cfg =
     (if sc_APIKeyUseCases cfg = [] then Inr []
      else case find (\<lambda>name. double_filter (the (fmlookup (sc_Loops cfg) name))) (sorted_keys (sc_Loops cfg)) of
        Some name \<Rightarrow> Inl (''portkey: api_key_use_cases is set, so enabled loop '' @ name @ '' must not also set settings.api_key_ids'')
      | None \<Rightarrow> resolve_entries {} {} (sc_APIKeyUseCases cfg))"

definition stampUseCase :: "sample list \<Rightarrow> string \<Rightarrow> sample list" where
  "stampUseCase samples slug =
     (if slug = '''' then samples
      else map (\<lambda>s. s\<lparr>smp_Labels := fmupd useCaseLabelKey slug (smp_Labels s)\<rparr>) samples)"

definition stampUseCaseRecord :: "log_record \<Rightarrow> string \<Rightarrow> log_record" where
  "stampUseCaseRecord lr slug =
     (if slug = '''' then lr else lr\<lparr>lr_RecordAttributes := fmupd useCaseLabelKey slug (lr_RecordAttributes lr)\<rparr>)"

definition AllowedLabelKeys :: "string list" where
  "AllowedLabelKeys = [''quantile'', ''token_type'', ''ai_model'', ''ai_org'', ''response_status_code'',
     ''metadata_key'', ''metadata_value'', ''prompt'', useCaseLabelKey]"

section \<open>Slugs\<close>

lemma set_slug_chars: "c \<in> set (slug_chars b s) \<Longrightarrow> slug_char c \<or> c = CHR ''_''"
  by (induction b s rule: slug_chars.induct) (auto split: if_splits)

lemma set_trim_char: "set (trim_char c s) \<subseteq> set s"
  by (auto simp: trim_char_def dest!: set_dropWhileD)

lemma slug_valid:
  assumes "slugifyUseCase l = Inr slug"
  shows "slug \<noteq> '''' \<and> (\<forall>c\<in>set slug. slug_char c \<or> c = CHR ''_'') \<and> hd slug \<noteq> CHR ''_'' \<and> last slug \<noteq> CHR ''_''"
proof -
  define t where "t = slug_chars False (ToLower l)"
  define u where "u = dropWhile ((=) CHR ''_'') t"
  define v where "v = dropWhile ((=) CHR ''_'') (rev u)"
  have slug: "slug = rev v" "slug \<noteq> ''''"
    using assms by (auto simp: slugifyUseCase_def trim_char_def t_def u_def v_def Let_def split: if_splits)
  have "\<forall>c\<in>set slug. slug_char c \<or> c = CHR ''_''"
  proof
    fix c
    assume "c \<in> set slug"
    then have "c \<in> set t" using slug(1) by (auto simp: v_def u_def dest!: set_dropWhileD)
    then show "slug_char c \<or> c = CHR ''_''" unfolding t_def by (rule set_slug_chars)
  qed
  moreover have "last slug \<noteq> CHR ''_''"
    using slug hd_dropWhile [of "(=) CHR ''_''" "rev u"] by (simp add: last_rev v_def)
  moreover have "hd slug \<noteq> CHR ''_''"
  proof -
    have "suffix v (rev u)" by (simp add: v_def suffix_dropWhile)
    then obtain w where "u = slug @ w" using slug by (metis rev_append rev_rev_ident suffix_def)
    then have "hd u = hd slug" "u \<noteq> []" using slug by auto
    then show ?thesis using hd_dropWhile [of "(=) CHR ''_''" t] by (simp add: u_def)
  qed
  ultimately show ?thesis using slug by blast
qed

section \<open>Resolution\<close>

abbreviation ids_of :: "resolved_use_case \<Rightarrow> string list" where
  "ids_of r \<equiv> split_on CHR '','' (ru_apiKeyIDsCSV r)"

lemma claim_ids_ok: "claim_ids seen ids = Some out \<longleftrightarrow> distinct ids \<and> set ids \<inter> seen = {} \<and> out = seen \<union> set ids"
  by (induction seen ids rule: claim_ids.induct) auto

lemma resolve_entries_ok:
  assumes "resolve_entries seenSlug seenUUID ucs = Inr out"
  shows "length out = length ucs \<and>
    (\<forall>i<length ucs. slugifyUseCase (ak_Label (ucs ! i)) = Inr (ru_slug (out ! i)) \<and>
       ru_apiKeyIDsCSV (out ! i) = cleanAPIKeyIDs (join_with '','' (ak_APIKeyIDs (ucs ! i))) \<and> ru_apiKeyIDsCSV (out ! i) \<noteq> '''') \<and>
    distinct (map ru_slug out) \<and> ru_slug ` set out \<inter> seenSlug = {} \<and>
    distinct (concat (map ids_of out)) \<and> set (concat (map ids_of out)) \<inter> seenUUID = {}"
  using assms
proof (induction seenSlug seenUUID ucs arbitrary: out rule: resolve_entries.induct)
  case (2 seenSlug seenUUID uc ucs)
  define csv where "csv = cleanAPIKeyIDs (join_with '','' (ak_APIKeyIDs uc))"
  from "2.prems" obtain slug seen out' where
    slug: "slugifyUseCase (ak_Label uc) = Inr slug" and
    csv: "csv \<noteq> ''''" "slug \<notin> seenSlug" and
    seen: "claim_ids seenUUID (split_on CHR '','' csv) = Some seen" and
    rest: "resolve_entries (insert slug seenSlug) seen ucs = Inr out'" and
    out: "out = \<lparr>ru_slug = slug, ru_apiKeyIDsCSV = csv\<rparr> # out'"
    by (auto simp: csv_def Let_def split: sum.splits if_splits option.splits)
  note IH = "2.IH" [OF slug refl, folded csv_def, OF csv seen rest]
  have ids: "distinct (split_on CHR '','' csv)" "set (split_on CHR '','' csv) \<inter> seenUUID = {}" "seen = seenUUID \<union> set (split_on CHR '','' csv)"
    using seen by (auto simp: claim_ids_ok)
  have "\<forall>i<length (uc # ucs). slugifyUseCase (ak_Label ((uc # ucs) ! i)) = Inr (ru_slug (out ! i)) \<and>
       ru_apiKeyIDsCSV (out ! i) = cleanAPIKeyIDs (join_with '','' (ak_APIKeyIDs ((uc # ucs) ! i))) \<and> ru_apiKeyIDsCSV (out ! i) \<noteq> ''''"
    using IH slug csv by (auto simp: out csv_def less_Suc_eq_0_disj)
  then show ?case using IH ids csv out by auto
qed simp

text \<open>C38: use cases partition the keys. When the configured use cases resolve, there is one per
  entry, in order; their slugs are non-empty words of lower-case letters, digits and inner
  underscores, no two alike; each has a filter of at least one key, and no key is in two
  filters or twice in one, so no request is counted twice.\<close>

theorem use_cases_disjoint:
  assumes "resolveUseCases cfg = Inr out" "sc_APIKeyUseCases cfg \<noteq> []"
  shows "length out = length (sc_APIKeyUseCases cfg) \<and> distinct (map ru_slug out) \<and>
    (\<forall>r\<in>set out. ru_slug r \<noteq> '''' \<and> (\<forall>c\<in>set (ru_slug r). slug_char c \<or> c = CHR ''_'') \<and>
       hd (ru_slug r) \<noteq> CHR ''_'' \<and> last (ru_slug r) \<noteq> CHR ''_'' \<and> ru_apiKeyIDsCSV r \<noteq> '''') \<and>
    distinct (concat (map (\<lambda>r. split_on CHR '','' (ru_apiKeyIDsCSV r)) out)) \<and>
    (\<forall>name lp. fmlookup (sc_Loops cfg) name = Some lp \<longrightarrow> \<not> double_filter lp)"
proof -
  have e: "resolve_entries {} {} (sc_APIKeyUseCases cfg) = Inr out"
    "find (\<lambda>name. double_filter (the (fmlookup (sc_Loops cfg) name))) (sorted_keys (sc_Loops cfg)) = None"
    using assms by (auto simp: resolveUseCases_def split: option.splits)
  note R = resolve_entries_ok [OF e(1)]
  have "ru_slug r \<noteq> '''' \<and> (\<forall>c\<in>set (ru_slug r). slug_char c \<or> c = CHR ''_'') \<and>
       hd (ru_slug r) \<noteq> CHR ''_'' \<and> last (ru_slug r) \<noteq> CHR ''_'' \<and> ru_apiKeyIDsCSV r \<noteq> ''''" if r: "r \<in> set out" for r
  proof -
    obtain i where i: "i < length out" "r = out ! i" using r by (metis in_set_conv_nth)
    then have "slugifyUseCase (ak_Label (sc_APIKeyUseCases cfg ! i)) = Inr (ru_slug r)" "ru_apiKeyIDsCSV r \<noteq> ''''" using R by auto
    then show ?thesis using slug_valid by blast
  qed
  moreover have "\<not> double_filter lp" if "fmlookup (sc_Loops cfg) name = Some lp" for name lp
    using e(2) that fmdomI [OF that] by (auto simp: find_None_iff)
  ultimately show ?thesis using R by blast
qed

definition two_cases :: source_config where
  "two_cases = \<lparr>sc_Type = ''portkey'', sc_Enabled = True, sc_BaseURL = '''', sc_SourceInstance = ''i'',
     sc_Auth = \<lparr>au_Header = ''h'', au_Value = ''v''\<rparr>, sc_RateLimit = \<lparr>rl_RPS = Fin 1, rl_Burst = 3\<rparr>,
     sc_HTTP = \<lparr>hc_UserAgent = '''', hc_AllowHosts = [], hc_AllowPrivate = False\<rparr>, sc_Loops = fmempty,
     sc_APIKeyUseCases = [\<lparr>ak_Label = ''Data  Gen!'', ak_APIKeyIDs = [''k1'', '' k2'']\<rparr>, \<lparr>ak_Label = ''b'', ak_APIKeyIDs = [''k3'']\<rparr>]\<rparr>"

lemma two_cases_resolved:
  "resolveUseCases two_cases = Inr [\<lparr>ru_slug = ''data_gen'', ru_apiKeyIDsCSV = ''k1,k2''\<rparr>, \<lparr>ru_slug = ''b'', ru_apiKeyIDsCSV = ''k3''\<rparr>]"
proof -
  have "resolve_entries {} {} (sc_APIKeyUseCases two_cases) =
      Inr [\<lparr>ru_slug = ''data_gen'', ru_apiKeyIDsCSV = ''k1,k2''\<rparr>, \<lparr>ru_slug = ''b'', ru_apiKeyIDsCSV = ''k3''\<rparr>]" by code_simp
  then show ?thesis by (simp add: resolveUseCases_def two_cases_def)
qed

theorem use_cases_disjoint_witness:
  "resolveUseCases two_cases = Inr [\<lparr>ru_slug = ''data_gen'', ru_apiKeyIDsCSV = ''k1,k2''\<rparr>, \<lparr>ru_slug = ''b'', ru_apiKeyIDsCSV = ''k3''\<rparr>] \<and>
   distinct (concat (map (\<lambda>r. split_on CHR '','' (ru_apiKeyIDsCSV r))
     [\<lparr>ru_slug = ''data_gen'', ru_apiKeyIDsCSV = ''k1,k2''\<rparr>, \<lparr>ru_slug = ''b'', ru_apiKeyIDsCSV = ''k3''\<rparr>]))"
  using use_cases_disjoint [OF two_cases_resolved] two_cases_resolved by (simp add: two_cases_def)

end
