(* ===== verification/Portkey_Scope.thy ===== *)
theory Portkey_Scope
  imports Portkey_Usecase
begin

text \<open>
  The check that an API key sees exactly one workspace (\<^verbatim>\<open>internal/source/portkey/scope.go\<close>),
  over the rows of the groups endpoint (\<^verbatim>\<open>groups_derive.go\<close>). Every operation returns its
  result, the hook calls it made and the world.
\<close>

section \<open>Rows of the groups endpoints\<close>

record groups_response =
  gs_Object :: string
  gs_Total :: int
  gs_IsQuotaExceeded :: bool
  gs_Data :: "(string, json) fmap list"

definition zero_groups :: groups_response where
  "zero_groups = \<lparr>gs_Object = '''', gs_Total = 0, gs_IsQuotaExceeded = False, gs_Data = []\<rparr>"

definition dec_groups :: "json \<Rightarrow> groups_response option" where
  "dec_groups j =
     (case json_fields j of
        None \<Rightarrow> None
      | Some kvs \<Rightarrow>
          (case (dec_field dec_string ''object'' kvs '''', dec_field dec_int ''total'' kvs 0,
                 dec_field dec_bool ''is_quota_exceeded'' kvs False, dec_field (dec_list dec_raw_map) ''data'' kvs []) of
             (Some ob, Some t, Some q, Some rows) \<Rightarrow>
               Some \<lparr>gs_Object = ob, gs_Total = t, gs_IsQuotaExceeded = q, gs_Data = rows\<rparr>
           | _ \<Rightarrow> None))"

definition maxResponseBytes :: nat where "maxResponseBytes = 2 ^ 20"

section \<open>The probe\<close>

definition scopeProbeWindow :: duration where "scopeProbeWindow = 7 * 24 * Hour"

datatype scope_result = ScopeMatched | ScopeMismatch | ScopeUndeterminable

text \<open>The text of a row's field, empty when it is absent or not a string.\<close>

definition row_string :: "(string, json) fmap \<Rightarrow> string \<Rightarrow> string" where
  "row_string row k =
     (case fmlookup row k of
        None \<Rightarrow> ''''
      | Some j \<Rightarrow> (case dec_string j '''' of None \<Rightarrow> '''' | Some s \<Rightarrow> s))"

definition workspaces :: "(string, json) fmap list \<Rightarrow> string list" where
  "workspaces rows = remdups (filter (\<lambda>ws. ws \<noteq> '''') (map (\<lambda>row. row_string row ''workspace'') rows))"

record key_access =
  ka_baseURL :: string
  ka_authHdr :: string
  ka_authVal :: string
  ka_loop :: string
  ka_sourceInstance :: string

definition probe_query :: "instant \<Rightarrow> (string, string) fmap" where
  "probe_query now = fmap_of_list
     [(''time_of_generation_min'', FormatRFC3339 (time_Add now (- scopeProbeWindow))),
      (''time_of_generation_max'', FormatRFC3339 now), (''page_size'', ''100''), (''current_page'', ''0'')]"

definition checkWorkspaceScope ::
  "'w net \<Rightarrow> deps \<Rightarrow> key_access \<Rightarrow> string \<Rightarrow> instant \<Rightarrow> 'w \<Rightarrow> (string + scope_result \<times> string) \<times> source_event list \<times> 'w" where
  "checkWorkspaceScope net d ka expected now w =
     (case nt_url net (ka_baseURL ka @ ''/analytics/groups/workspace'') (values_Encode (probe_query now)) of
        None \<Rightarrow> (Inl ''url'', [], w)
      | Some url \<Rightarrow>
          (case fetch_json net maxResponseBytes dec_groups zero_groups (get_request url (ka_authHdr ka) (ka_authVal ka)) w of
             (Inl e, w1) \<Rightarrow> (Inl e, [], w1)
           | (Inr (gr, code), w1) \<Rightarrow>
               (if code \<noteq> StatusOK
                then (Inl (''workspace scope probe: status '' @ FormatInt code),
                      (if IsAuthStatus code then fire d (AuthError (ka_loop ka) (ka_sourceInstance ka)) else []), w1)
                else let seen = workspaces (gs_Data gr) in
                  if seen = [] then (Inr (ScopeUndeterminable, ''no workspace rows in the probe window''), [], w1)
                  else if length seen = 1 \<and> expected \<in> set seen then (Inr (ScopeMatched, expected), [], w1)
                  else (Inr (ScopeMismatch, join_with '','' (sort seen)), [], w1))))"

definition verifyScopeForCollect ::
  "'w net \<Rightarrow> deps \<Rightarrow> key_access \<Rightarrow> string \<Rightarrow> instant \<Rightarrow> 'w \<Rightarrow> (collect_error + bool) \<times> source_event list \<times> 'w" where
  "verifyScopeForCollect net d ka expected now w =
     (case checkWorkspaceScope net d ka expected now w of
        (Inl e, evs, w1) \<Rightarrow> (Inl (CollectFailed (''portkey '' @ ka_loop ka @ '': workspace scope probe failed: '' @ e)), evs, w1)
      | (Inr (ScopeMatched, detail), evs, w1) \<Rightarrow> (Inr True, evs, w1)
      | (Inr (ScopeUndeterminable, detail), evs, w1) \<Rightarrow> (Inr False, evs, w1)
      | (Inr (ScopeMismatch, detail), evs, w1) \<Rightarrow>
          (Inl (CollectFailed (''portkey '' @ ka_loop ka @ '': API key analytics scope is '' @ detail @ '' but expected_workspace='' @ expected)),
           evs @ fire d (Capability (ka_loop ka) ''workspace_scope'' ''permission-denied''), w1))"

text \<open>The first step of a key-scoped loop's \<open>Collect\<close>: probe once until it has matched.\<close>

definition scope_gate ::
  "'w net \<Rightarrow> deps \<Rightarrow> key_access \<Rightarrow> string \<Rightarrow> bool \<Rightarrow> instant \<Rightarrow> 'w \<Rightarrow> (collect_error + bool) \<times> source_event list \<times> 'w" where
  "scope_gate net d ka expected verified now w =
     (if expected \<noteq> '''' \<and> \<not> verified then verifyScopeForCollect net d ka expected now w else (Inr verified, [], w))"

section \<open>What a passed probe shows\<close>

lemma set_workspaces: "set (workspaces rows) = {ws. ws \<noteq> '''' \<and> (\<exists>row\<in>set rows. row_string row ''workspace'' = ws)}"
  by (auto simp: workspaces_def)

lemma distinct_workspaces: "distinct (workspaces rows)"
  by (simp add: workspaces_def)

lemma single_workspace: "length (workspaces rows) = 1 \<and> x \<in> set (workspaces rows) \<longleftrightarrow> set (workspaces rows) = {x}"
proof
  assume "length (workspaces rows) = 1 \<and> x \<in> set (workspaces rows)"
  then show "set (workspaces rows) = {x}" by (auto simp: length_Suc_conv)
next
  assume "set (workspaces rows) = {x}"
  then show "length (workspaces rows) = 1 \<and> x \<in> set (workspaces rows)"
    using distinct_card [OF distinct_workspaces, of rows] by simp
qed

lemma checkWorkspaceScope_ok:
  assumes "checkWorkspaceScope net d ka expected now w = (Inr (res, detail), evs, w1)"
  shows "\<exists>url r j gr. nt_url net (ka_baseURL ka @ ''/analytics/groups/workspace'') (values_Encode (probe_query now)) = Some url \<and>
    nt_do net w (get_request url (ka_authHdr ka) (ka_authVal ka)) = (Inr r, w1) \<and>
    nt_json net (take maxResponseBytes (rs_Body r)) = Some j \<and> dec_groups j = Some gr \<and>
    res = (if workspaces (gs_Data gr) = [] then ScopeUndeterminable
           else if set (workspaces (gs_Data gr)) = {expected} then ScopeMatched else ScopeMismatch)"
proof -
  obtain url gr where u: "nt_url net (ka_baseURL ka @ ''/analytics/groups/workspace'') (values_Encode (probe_query now)) = Some url"
    and f: "fetch_json net maxResponseBytes dec_groups zero_groups (get_request url (ka_authHdr ka) (ka_authVal ka)) w = (Inr (gr, StatusOK), w1)"
    and r: "res = (if workspaces (gs_Data gr) = [] then ScopeUndeterminable
           else if length (workspaces (gs_Data gr)) = 1 \<and> expected \<in> set (workspaces (gs_Data gr)) then ScopeMatched else ScopeMismatch)"
    using assms by (auto simp: checkWorkspaceScope_def Let_def split: option.splits prod.splits sum.splits if_splits)
  show ?thesis using fetch_json_ok [OF f refl] u r unfolding single_workspace by blast
qed

text \<open>C37: the workspace gate. Collecting goes on with the scope verified only if it already was,
  or the rows the probe read name exactly the expected workspace; it goes on unverified only
  if nothing is expected, or no row of the probe named a workspace. Rows that name any other
  workspace end the collection with an error.\<close>

theorem scope_gate_exact:
  assumes "scope_gate net d ka expected verified now w = (Inr ok, evs, w1)" "expected \<noteq> ''''" "\<not> verified"
  shows "\<exists>url r j gr. nt_do net w (get_request url (ka_authHdr ka) (ka_authVal ka)) = (Inr r, w1) \<and>
    nt_json net (take maxResponseBytes (rs_Body r)) = Some j \<and> dec_groups j = Some gr \<and>
    (ok \<longleftrightarrow> (\<exists>row\<in>set (gs_Data gr). row_string row ''workspace'' = expected)) \<and>
    (\<forall>row\<in>set (gs_Data gr). row_string row ''workspace'' \<in> {'''', expected})"
proof -
  obtain res detail where c: "checkWorkspaceScope net d ka expected now w = (Inr (res, detail), evs, w1)"
    "ok = (res = ScopeMatched)" "res \<noteq> ScopeMismatch"
    using assms by (auto simp: scope_gate_def verifyScopeForCollect_def split: prod.splits sum.splits scope_result.splits)
  obtain url r j gr where g: "nt_do net w (get_request url (ka_authHdr ka) (ka_authVal ka)) = (Inr r, w1)"
    "nt_json net (take maxResponseBytes (rs_Body r)) = Some j" "dec_groups j = Some gr"
    "res = (if workspaces (gs_Data gr) = [] then ScopeUndeterminable
           else if set (workspaces (gs_Data gr)) = {expected} then ScopeMatched else ScopeMismatch)"
    using checkWorkspaceScope_ok [OF c(1)] by blast
  have cases: "set (workspaces (gs_Data gr)) = {} \<and> \<not> ok \<or> set (workspaces (gs_Data gr)) = {expected} \<and> ok"
    using c(2,3) g(4) by (auto split: if_splits)
  then have "ok \<longleftrightarrow> (\<exists>row\<in>set (gs_Data gr). row_string row ''workspace'' = expected)"
    and "\<forall>row\<in>set (gs_Data gr). row_string row ''workspace'' \<in> {'''', expected}"
    using assms(2) unfolding set_workspaces by auto
  then show ?thesis using g(1-3) by blast
qed

text \<open>A service that answers the probe with one row.\<close>

definition one_row_net :: "unit net" where
  "one_row_net = \<lparr>nt_do = (\<lambda>w rq. (Inr \<lparr>rs_StatusCode = 200, rs_Header = fmempty, rs_Body = ''''\<rparr>, w)),
     nt_json = (\<lambda>_. Some (JObj [(''data'', JArr [JObj [(''workspace'', JStr ''ws'')]])])),
     nt_url = (\<lambda>u q. Some u), nt_sha = (\<lambda>s. s)\<rparr>"

definition one_key :: key_access where
  "one_key = \<lparr>ka_baseURL = '''', ka_authHdr = ''h'', ka_authVal = ''v'', ka_loop = ''analytics'', ka_sourceInstance = ''i''\<rparr>"

lemma one_row_matches: "scope_gate one_row_net no_hooks one_key ''ws'' False ten_oclock () = (Inr True, [], ())"
  by (simp add: scope_gate_def verifyScopeForCollect_def checkWorkspaceScope_def one_row_net_def fetch_json_def
      dec_groups_def raw_map_def workspaces_def row_string_def Let_def StatusOK_def ToLower_def ascii_lower_def)

theorem scope_gate_exact_witness:
  "scope_gate one_row_net no_hooks one_key ''ws'' False ten_oclock () = (Inr True, [], ()) \<and>
   (\<exists>gr :: groups_response. \<exists>row\<in>set (gs_Data gr). row_string row ''workspace'' = ''ws'')"
proof -
  have "''ws'' \<noteq> ''''" "\<not> False" by simp_all
  from scope_gate_exact [OF one_row_matches this] show ?thesis using one_row_matches by blast
qed

end
