(* ===== verification/Portkey_Revision.thy ===== *)
theory Portkey_Revision
  imports Portkey_Derive
begin

text \<open>
  The memory of emitted buckets (\<^verbatim>\<open>internal/source/portkey/revision.go\<close>): a bounded map from
  (series, bucket end) to the value last seen, which tells a bucket that changed after it
  settled from a new one. It only signals; nothing is emitted again.
\<close>

record revision_history =
  rh_band :: duration
  rh_seen :: "(string, float64) fmap"
  rh_when :: "(string, instant) fmap"

definition newRevisionHistory :: "duration \<Rightarrow> revision_history" where
  "newRevisionHistory band = \<lparr>rh_band = band, rh_seen = fmempty, rh_when = fmempty\<rparr>"

definition revisionKey :: "sample \<Rightarrow> string" where
  "revisionKey s =
     len_prefixed (smp_Name s) @ len_prefixed (smp_Unit s) @
     concat (map (\<lambda>k. len_prefixed k @ len_prefixed (map_get (smp_Labels s) k)) (sorted_keys (smp_Labels s))) @
     CHR ''@'' # FormatInt (UnixNano (smp_Timestamp s))"

definition evict :: "revision_history \<Rightarrow> instant \<Rightarrow> revision_history" where
  "evict h now =
     (let cutoff = time_Add now (- rh_band h);
          old = (\<lambda>k. case fmlookup (rh_when h) k of Some t \<Rightarrow> t < cutoff | None \<Rightarrow> False)
      in h\<lparr>rh_when := fmfilter (\<lambda>k. \<not> old k) (rh_when h), rh_seen := fmfilter (\<lambda>k. \<not> old k) (rh_seen h)\<rparr>)"

fun observe_all :: "revision_history \<Rightarrow> sample list \<Rightarrow> instant list \<times> revision_history" where
  "observe_all h [] = ([], h)"
| "observe_all h (s # ss) =
     (let k = revisionKey s;
          rev = (case fmlookup (rh_seen h) k of Some prev \<Rightarrow> f_ne prev (smp_Value s) | None \<Rightarrow> False);
          h1 = h\<lparr>rh_seen := fmupd k (smp_Value s) (rh_seen h), rh_when := fmupd k (smp_Timestamp s) (rh_when h)\<rparr>;
          (rest, h2) = observe_all h1 ss
      in ((if rev then smp_Timestamp s # rest else rest), h2))"

definition observe :: "revision_history \<Rightarrow> sample list \<Rightarrow> instant \<Rightarrow> instant list \<times> revision_history" where
  "observe h samples now = (case observe_all h samples of (revised, h1) \<Rightarrow> (revised, evict h1 now))"

definition history_len :: "revision_history \<Rightarrow> nat" where
  "history_len h = fcard (fmdom (rh_seen h))"

section \<open>Keys\<close>

lemma hd_len_prefixed: "hd (len_prefixed s @ r) \<noteq> CHR ''@''"
proof -
  obtain d where "d < 10" "hd (itoa (length s)) = digit_char d" using itoa_hd_digit by blast
  moreover have "digit_char d \<noteq> CHR ''@''" if "d < 10" for d using digit_char_range [OF that] that by auto
  ultimately show ?thesis by (simp add: len_prefixed_def hd_append)
qed

lemma len_prefixed_all_then_at:
  "len_prefixed_all xs @ CHR ''@'' # r = len_prefixed_all ys @ CHR ''@'' # q \<Longrightarrow> xs = ys \<and> r = q"
proof (induction xs arbitrary: ys)
  case Nil
  then show ?case
    using hd_len_prefixed by (cases ys) (auto simp: len_prefixed_all_def, metis hd_len_prefixed list.sel(1))
next
  case (Cons x xs)
  show ?case
  proof (cases ys)
    case Nil
    with Cons.prems have "hd (len_prefixed x @ len_prefixed_all xs @ CHR ''@'' # r) = CHR ''@''"
      by (simp add: len_prefixed_all_def)
    then show ?thesis using hd_len_prefixed by blast
  next
    case (Cons y zs)
    with Cons.prems have "len_prefixed x @ (len_prefixed_all xs @ CHR ''@'' # r) = len_prefixed y @ (len_prefixed_all zs @ CHR ''@'' # q)"
      by (simp add: len_prefixed_all_def)
    then have "x = y" "len_prefixed_all xs @ CHR ''@'' # r = len_prefixed_all zs @ CHR ''@'' # q"
      using len_prefixed_append_inj by blast+
    then show ?thesis using Cons.IH Cons by blast
  qed
qed

lemma FormatInt_inj: "in_int64 i \<Longrightarrow> in_int64 j \<Longrightarrow> FormatInt i = FormatInt j \<longleftrightarrow> i = j"
  using ParseInt_FormatInt by (metis option.inject)

lemma revisionKey_eq_iff:
  "revisionKey s = revisionKey t \<longleftrightarrow>
     smp_Name s = smp_Name t \<and> smp_Unit s = smp_Unit t \<and> smp_Labels s = smp_Labels t \<and>
     UnixNano (smp_Timestamp s) = UnixNano (smp_Timestamp t)"
proof -
  have key: "revisionKey s = len_prefixed_all (smp_Name s # smp_Unit s # label_components (smp_Labels s)) @
      CHR ''@'' # FormatInt (UnixNano (smp_Timestamp s))" for s
    by (simp add: revisionKey_def len_prefixed_all_def label_components_def concat_pairs)
  show ?thesis
    unfolding key using len_prefixed_all_then_at label_components_inj FormatInt_inj in_int64_wrap64
    by (metis UnixNano_def list.inject)
qed

section \<open>What is remembered\<close>

definition history_ok :: "revision_history \<Rightarrow> bool" where
  "history_ok h \<longleftrightarrow> fmdom (rh_seen h) = fmdom (rh_when h)"

definition remember :: "sample \<Rightarrow> revision_history \<Rightarrow> revision_history" where
  "remember s h = h\<lparr>rh_seen := fmupd (revisionKey s) (smp_Value s) (rh_seen h), rh_when := fmupd (revisionKey s) (smp_Timestamp s) (rh_when h)\<rparr>"

definition changed :: "revision_history \<Rightarrow> sample \<Rightarrow> bool" where
  "changed h s \<longleftrightarrow> (\<exists>prev. fmlookup (rh_seen h) (revisionKey s) = Some prev \<and> f_ne prev (smp_Value s))"

lemma observe_all_Cons:
  "observe_all h (s # ss) =
     ((if changed h s then smp_Timestamp s # fst (observe_all (remember s h) ss) else fst (observe_all (remember s h) ss)),
      snd (observe_all (remember s h) ss))"
  by (auto simp: Let_def changed_def remember_def split: prod.splits option.splits)

lemma snd_observe_all: "snd (observe_all h ss) = fold remember ss h"
  by (induction ss arbitrary: h) (simp_all add: observe_all_Cons del: observe_all.simps(2))

lemma fold_remember_ok: "history_ok h \<Longrightarrow> history_ok (fold remember ss h) \<and> rh_band (fold remember ss h) = rh_band h"
  by (induction ss arbitrary: h) (auto simp: history_ok_def remember_def)

lemma fold_remember_other:
  "k \<notin> revisionKey ` set ss \<Longrightarrow>
     fmlookup (rh_seen (fold remember ss h)) k = fmlookup (rh_seen h) k \<and>
     fmlookup (rh_when (fold remember ss h)) k = fmlookup (rh_when h) k"
  by (induction ss arbitrary: h) (auto simp: remember_def)

lemma fold_remember_in:
  "distinct (map revisionKey ss) \<Longrightarrow> s \<in> set ss \<Longrightarrow>
     fmlookup (rh_seen (fold remember ss h)) (revisionKey s) = Some (smp_Value s) \<and>
     fmlookup (rh_when (fold remember ss h)) (revisionKey s) = Some (smp_Timestamp s)"
  by (induction ss arbitrary: h) (auto simp: fold_remember_other, simp_all add: remember_def)

lemma observe_revised:
  "distinct (map revisionKey ss) \<Longrightarrow> fst (observe_all h ss) = map smp_Timestamp (filter (changed h) ss)"
proof (induction ss arbitrary: h)
  case (Cons s ss)
  have "changed (remember s h) t = changed h t" if "t \<in> set ss" for t
    using that Cons.prems by (auto simp: changed_def remember_def)
  then have "filter (changed (remember s h)) ss = filter (changed h) ss" by (intro filter_cong) auto
  then show ?case using Cons by (simp add: observe_all_Cons del: observe_all.simps(2))
qed simp

lemma evict_lookup:
  assumes "history_ok h"
  shows "fmlookup (rh_when (evict h now)) k = (case fmlookup (rh_when h) k of
            Some t \<Rightarrow> if t < now - rh_band h then None else Some t | None \<Rightarrow> None)"
    and "fmlookup (rh_seen (evict h now)) k = (case fmlookup (rh_when h) k of
            Some t \<Rightarrow> if t < now - rh_band h then None else fmlookup (rh_seen h) k | None \<Rightarrow> None)"
proof -
  have "fmlookup (rh_seen h) k = None" if "fmlookup (rh_when h) k = None"
    using assms that unfolding history_ok_def by (metis fmdom_notD fmdom_notI)
  then show "fmlookup (rh_when (evict h now)) k = (case fmlookup (rh_when h) k of
            Some t \<Rightarrow> if t < now - rh_band h then None else Some t | None \<Rightarrow> None)"
    and "fmlookup (rh_seen (evict h now)) k = (case fmlookup (rh_when h) k of
            Some t \<Rightarrow> if t < now - rh_band h then None else fmlookup (rh_seen h) k | None \<Rightarrow> None)"
    by (auto simp: evict_def Let_def time_Add_def split: option.splits)
qed

lemma evict_ok: "history_ok h \<Longrightarrow> history_ok (evict h now)"
  by (auto simp: history_ok_def evict_def Let_def)

text \<open>C36: revisions are found exactly. For samples that are different points, observe reports
  the bucket ends of exactly those whose remembered value differs, in order; afterwards the
  history holds the latest value of every observed and every earlier point within the band,
  nothing older than the band, and observing the same samples again reports nothing.\<close>

theorem revision_exact:
  assumes "history_ok h" "distinct (map revisionKey samples)" "\<forall>s\<in>set samples. smp_Value s \<noteq> FNaN"
    and "observe h samples now = (revised, h')"
  shows "revised = map smp_Timestamp (filter (changed h) samples) \<and> history_ok h' \<and> rh_band h' = rh_band h \<and>
    (\<forall>k t. fmlookup (rh_when h') k = Some t \<longrightarrow> now - rh_band h \<le> t) \<and>
    (\<forall>s\<in>set samples. now - rh_band h \<le> smp_Timestamp s \<longrightarrow> fmlookup (rh_seen h') (revisionKey s) = Some (smp_Value s)) \<and>
    (\<forall>k t. k \<notin> revisionKey ` set samples \<longrightarrow> fmlookup (rh_when h) k = Some t \<longrightarrow> now - rh_band h \<le> t \<longrightarrow>
       fmlookup (rh_seen h') k = fmlookup (rh_seen h) k) \<and>
    fst (observe h' samples later) = []"
proof -
  define h1 where "h1 = fold remember samples h"
  have h': "h' = evict h1 now" and r: "revised = fst (observe_all h samples)"
    using assms(4) snd_observe_all [of h samples] by (auto simp: observe_def h1_def split: prod.splits)
  have h1: "history_ok h1" "rh_band h1 = rh_band h" using fold_remember_ok [OF assms(1)] by (auto simp: h1_def)
  note look = evict_lookup [OF h1(1), of now, folded h'] and keep = fold_remember_in [OF assms(2), of _ h, folded h1_def]
  have "\<not> changed h' s" if "s \<in> set samples" for s
    using keep [OF that] look(2) [of "revisionKey s"] assms(3) that
    by (auto simp: changed_def f_ne_def f_eq_def split: if_splits)
  then have "filter (changed h') samples = []" by (simp add: filter_empty_conv)
  then have again: "fst (observe h' samples later) = []"
    using observe_revised [OF assms(2), of h'] by (simp add: observe_def case_prod_beta)
  have band: "now - rh_band h \<le> t" if "fmlookup (rh_when h') k = Some t" for k t
    using that h1(2) unfolding look(1) by (auto split: option.splits if_splits)
  have latest: "fmlookup (rh_seen h') (revisionKey s) = Some (smp_Value s)"
    if "s \<in> set samples" "now - rh_band h \<le> smp_Timestamp s" for s
    using keep [OF that(1)] that(2) h1(2) unfolding look(2) by simp
  have others: "fmlookup (rh_seen h') k = fmlookup (rh_seen h) k"
    if "k \<notin> revisionKey ` set samples" "fmlookup (rh_when h) k = Some t" "now - rh_band h \<le> t" for k t
    using fold_remember_other [OF that(1), of h, folded h1_def] that h1(2) unfolding look(2) by simp
  have "history_ok h'" using h1 evict_ok by (simp add: h')
  moreover have "rh_band h' = rh_band h" using h1 by (simp add: h' evict_def Let_def)
  ultimately show ?thesis using r observe_revised [OF assms(2)] again band latest others by blast
qed

text \<open>A bucket of ten minutes ago seen as 5, then as 6, then as 6 again.\<close>

definition seen_as :: "rat \<Rightarrow> sample" where
  "seen_as v = gauge ''p_requests'' fmempty (Fin v) ten_oclock"

theorem revision_exact_witness:
  "fst (observe (snd (observe (newRevisionHistory (30 * Minute)) [seen_as 5] ten_oclock)) [seen_as 6] ten_oclock) = [ten_oclock]"
proof -
  have ok: "history_ok (newRevisionHistory (30 * Minute))" by (simp add: history_ok_def newRevisionHistory_def)
  have v: "\<forall>s\<in>set [seen_as x]. smp_Value s \<noteq> FNaN" "distinct (map revisionKey [seen_as x])" for x
    by (simp_all add: seen_as_def gauge_def)
  obtain r1 h1 where o1: "observe (newRevisionHistory (30 * Minute)) [seen_as 5] ten_oclock = (r1, h1)" by fastforce
  obtain r2 h2 where o2: "observe h1 [seen_as 6] ten_oclock = (r2, h2)" by fastforce
  note R1 = revision_exact [OF ok v(2) v(1) o1]
  have key: "revisionKey (seen_as 6) = revisionKey (seen_as 5)" by (simp add: seen_as_def gauge_def revisionKey_def)
  have "fmlookup (rh_seen h1) (revisionKey (seen_as 5)) = Some (Fin 5)"
    using R1 by (auto simp: newRevisionHistory_def seen_as_def gauge_def Minute_def)
  then have "changed h1 (seen_as 6)" unfolding changed_def key by (simp add: f_ne_def f_eq_def seen_as_def gauge_def)
  moreover have "r2 = map smp_Timestamp (filter (changed h1) [seen_as 6])" using revision_exact [OF _ v(2) v(1) o2] R1 by blast
  ultimately show ?thesis using o1 o2 by (simp add: seen_as_def gauge_def)
qed

end
