(* ===== verification/Portkey_Analytics.thy ===== *)
theory Portkey_Analytics
  imports Portkey_Scope Portkey_Revision
begin

text \<open>
  The Portkey analytics loop (\<^verbatim>\<open>internal/source/portkey/portkey.go\<close>): its construction, the
  window of one \<open>Collect\<close>, the passes over the graphs and the batch. The loop's mutable fields
  (the verified scope and the histories) are part of its record. The clock is an argument.
\<close>

definition granularity :: duration where "granularity = Minute"

record analytics_loop =
  al_access :: key_access
  al_deps :: deps
  al_prefix :: string
  al_graphs :: "string list"
  al_window :: duration
  al_settle :: duration
  al_bootstrap :: duration
  al_maxBackfill :: duration
  al_cadence :: duration
  al_startSemantics :: bool
  al_expectedWorkspace :: string
  al_scopeVerified :: bool
  al_passes :: "resolved_use_case list"
  al_histories :: "(string, revision_history) fmap"
  al_band :: duration

section \<open>Construction\<close>

definition detectionBand :: "duration \<Rightarrow> duration" where
  "detectionBand settle = (let band = wrap64 (2 * settle) in if band < Minute then Minute else band)"

definition newAnalyticsLoop ::
  "source_config \<Rightarrow> loop_config \<Rightarrow> deps \<Rightarrow> resolved_use_case list \<Rightarrow> string + analytics_loop" where
  "newAnalyticsLoop cfg lpCfg d ucs =
     (let pfx = (if lp_MetricPrefix lpCfg = '''' then ''portkey_api'' else lp_MetricPrefix lpCfg);
          graphs = sort (lp_Graphs lpCfg);
          window = lp_Window lpCfg; settle = lp_BucketSettle lpCfg;
          band = detectionBand settle;
          passes = (if ucs = [] then [\<lparr>ru_slug = '''', ru_apiKeyIDsCSV = cleanAPIKeyIDs (map_get (lp_Settings lpCfg) ''api_key_ids'')\<rparr>]
                    else ucs)
      in if graphs = [] then Inl ''portkey: analytics loop enabled but no graphs configured''
         else case find (\<lambda>g. fmlookup metricSuffix g = None) graphs of
           Some g \<Rightarrow> Inl (''portkey: unknown graph '' @ g)
         | None \<Rightarrow>
             if window \<le> 0 then Inl ''portkey: analytics loop requires a positive window''
             else if lp_BootstrapLookback lpCfg \<le> settle then Inl ''portkey: analytics loop requires bootstrap_lookback > bucket_settle''
             else if lp_MaxBackfill lpCfg \<le> settle then Inl ''portkey: analytics loop requires max_backfill > bucket_settle''
             else Inr \<lparr>al_access = \<lparr>ka_baseURL = sc_BaseURL cfg, ka_authHdr = au_Header (sc_Auth cfg), ka_authVal = au_Value (sc_Auth cfg),
                                     ka_loop = ''analytics'', ka_sourceInstance = sc_SourceInstance cfg\<rparr>,
                       al_deps = d, al_prefix = pfx, al_graphs = graphs, al_window = window, al_settle = settle,
                       al_bootstrap = lp_BootstrapLookback lpCfg, al_maxBackfill = lp_MaxBackfill lpCfg, al_cadence = lp_Cadence lpCfg,
                       al_startSemantics = True, al_expectedWorkspace = TrimSpace (map_get (lp_Settings lpCfg) ''expected_workspace''),
                       al_scopeVerified = False, al_passes = passes,
                       al_histories = fold (\<lambda>p m. fmupd (ru_slug p) (newRevisionHistory band) m) passes fmempty, al_band = band\<rparr>)"

definition al_SeriesNames :: "analytics_loop \<Rightarrow> string list" where
  "al_SeriesNames l = map (nameFor (al_prefix l)) (al_graphs l)"

definition al_Key :: "'w net \<Rightarrow> analytics_loop \<Rightarrow> checkpoint_key" where
  "al_Key net l = \<lparr>ck_SourceInstance = ka_sourceInstance (al_access l), ck_Loop = ''analytics'',
     ck_OutputFingerprint = Fingerprint (nt_sha net) (al_SeriesNames l) (''prefix='' @ al_prefix l)\<rparr>"

section \<open>The window\<close>

definition al_start :: "analytics_loop \<Rightarrow> watermark \<Rightarrow> instant \<Rightarrow> instant" where
  "al_start l since now =
     (let start = (if IsZero (wm_Time since) then time_Add now (- al_bootstrap l) else wm_Time since);
          floor = time_Add now (- al_maxBackfill l)
      in if start < floor then floor else start)"

definition al_until :: "analytics_loop \<Rightarrow> instant \<Rightarrow> instant \<Rightarrow> instant" where
  "al_until l start now =
     (let u0 = time_Add now (- al_settle l);
          u1 = (if al_window l < time_Sub u0 start then time_Add start (al_window l) else u0)
      in if 55 * Minute < time_Sub u1 start then time_Add start (55 * Minute) else u1)"

definition al_fetchStart :: "analytics_loop \<Rightarrow> instant \<Rightarrow> instant \<Rightarrow> instant \<Rightarrow> instant" where
  "al_fetchStart l start until now =
     (if \<not> 0 < al_band l then start
      else let f0 = time_Add start (- al_band l);
               floor = time_Add now (- al_maxBackfill l);
               f1 = (if f0 < floor then floor else f0);
               minFetch = time_Add until (- (55 * Minute))
           in if f1 < minFetch then minFetch else f1)"

section \<open>One pass\<close>

definition graph_url :: "analytics_loop \<Rightarrow> string \<Rightarrow> instant \<Rightarrow> instant \<Rightarrow> string \<Rightarrow> string" where
  "graph_url l graph start until apiKeyIDs =
     ka_baseURL (al_access l) @ ''/analytics/graphs/'' @ graph @ ''?time_of_generation_min='' @ FormatRFC3339 start @
     ''&time_of_generation_max='' @ FormatRFC3339 until @
     (if apiKeyIDs \<noteq> '''' then ''&api_key_ids='' @ QueryEscape apiKeyIDs else '''')"

definition al_fetch ::
  "'w net \<Rightarrow> analytics_loop \<Rightarrow> string \<Rightarrow> instant \<Rightarrow> instant \<Rightarrow> string \<Rightarrow> 'w \<Rightarrow> (string + graph_response \<times> int) \<times> 'w" where
  "al_fetch net l graph start until apiKeyIDs w =
     fetch_json net maxResponseBytes dec_graph zero_graph
       (get_request (graph_url l graph start until apiKeyIDs) (ka_authHdr (al_access l)) (ka_authVal (al_access l))) w"

fun fetch_graphs ::
  "'w net \<Rightarrow> analytics_loop \<Rightarrow> string \<Rightarrow> instant \<Rightarrow> instant \<Rightarrow> string list \<Rightarrow> (string, graph_response) fmap \<Rightarrow> 'w \<Rightarrow>
     (collect_error + (string, graph_response) fmap) \<times> source_event list \<times> 'w" where
  "fetch_graphs net l csv fetchStart until [] resp w = (Inr resp, [], w)"
| "fetch_graphs net l csv fetchStart until (g # gs) resp w =
     (case al_fetch net l g fetchStart until csv w of
        (Inl e, w1) \<Rightarrow> (Inl (CollectFailed (''portkey: fetch '' @ g @ '': '' @ e)), [], w1)
      | (Inr (r, code), w1) \<Rightarrow>
          (if code = StatusNotFound then
             (case fetch_graphs net l csv fetchStart until gs resp w1 of
                (res, evs, w2) \<Rightarrow> (res, fire (al_deps l) (Capability ''analytics'' g ''transient-404'') @ evs, w2))
           else if code \<noteq> StatusOK then
             (Inl (CollectFailed (''portkey: '' @ g @ '' status '' @ FormatInt code)),
              (if IsAuthStatus code then fire (al_deps l) (AuthError ''analytics'' (ka_sourceInstance (al_access l))) else []), w1)
           else if gr_IsQuotaExceeded r then (Inl ErrQuotaExceeded, [], w1)
           else fetch_graphs net l csv fetchStart until gs (fmupd g r resp) w1))"

definition detect ::
  "analytics_loop \<Rightarrow> string \<Rightarrow> (string, graph_response) fmap \<Rightarrow> instant \<Rightarrow> instant \<Rightarrow> instant \<Rightarrow> analytics_loop \<times> source_event list" where
  "detect l slug resp until fetchStart now =
     (case fmlookup (al_histories l) slug of
        None \<Rightarrow> (l, [])
      | Some h \<Rightarrow>
          (case derive resp (al_prefix l) fetchStart now (al_settle l) granularity (al_startSemantics l) of
             Inl _ \<Rightarrow> (l, [])
           | Inr settled \<Rightarrow>
               (case observe h settled until of
                  (revised, h1) \<Rightarrow>
                    (l\<lparr>al_histories := fmupd slug h1 (al_histories l)\<rparr>,
                     concat (map (\<lambda>bend. fire (al_deps l) (BucketRevised ''analytics'' (time_Sub now bend))) revised)))))"

definition collectPass ::
  "'w net \<Rightarrow> analytics_loop \<Rightarrow> resolved_use_case \<Rightarrow> instant \<Rightarrow> instant \<Rightarrow> instant \<Rightarrow> instant \<Rightarrow> 'w \<Rightarrow>
     (collect_error + sample list) \<times> analytics_loop \<times> source_event list \<times> 'w" where
  "collectPass net l p start until fetchStart now w =
     (case fetch_graphs net l (ru_apiKeyIDsCSV p) fetchStart until (al_graphs l) fmempty w of
        (Inl e, evs, w1) \<Rightarrow> (Inl e, l, evs, w1)
      | (Inr resp, evs, w1) \<Rightarrow>
          (if resp = fmempty
           then (Inl (CollectFailed ''portkey: all configured graphs returned 404''), l, evs, w1)
           else case derive resp (al_prefix l) start now (al_settle l) granularity (al_startSemantics l) of
             Inl e \<Rightarrow> (Inl e, l, evs, w1)
           | Inr samples \<Rightarrow>
               (case detect l (ru_slug p) resp until fetchStart now of
                  (l1, revs) \<Rightarrow> (Inr (stampUseCase samples (ru_slug p)), l1, evs @ revs, w1))))"

fun collect_passes ::
  "'w net \<Rightarrow> analytics_loop \<Rightarrow> resolved_use_case list \<Rightarrow> instant \<Rightarrow> instant \<Rightarrow> instant \<Rightarrow> instant \<Rightarrow> 'w \<Rightarrow>
     (collect_error + sample list) \<times> analytics_loop \<times> source_event list \<times> 'w" where
  "collect_passes net l [] start until fetchStart now w = (Inr [], l, [], w)"
| "collect_passes net l (p # ps) start until fetchStart now w =
     (case collectPass net l p start until fetchStart now w of
        (Inl e, l1, evs, w1) \<Rightarrow> (Inl e, l1, evs, w1)
      | (Inr s, l1, evs, w1) \<Rightarrow>
          (case collect_passes net l1 ps start until fetchStart now w1 of
             (Inl e, l2, evs2, w2) \<Rightarrow> (Inl e, l2, evs @ evs2, w2)
           | (Inr ss, l2, evs2, w2) \<Rightarrow> (Inr (s @ ss), l2, evs @ evs2, w2)))"

section \<open>Collect\<close>

definition al_Collect ::
  "'w net \<Rightarrow> instant \<Rightarrow> analytics_loop \<Rightarrow> watermark \<Rightarrow> 'w \<Rightarrow> (collect_error + batch) \<times> analytics_loop \<times> source_event list \<times> 'w" where
  "al_Collect net now l since w =
     (case scope_gate net (al_deps l) (al_access l) (al_expectedWorkspace l) (al_scopeVerified l) now w of
        (Inl e, evs, w1) \<Rightarrow> (Inl e, l, evs, w1)
      | (Inr ok, evs, w1) \<Rightarrow>
          (let l1 = l\<lparr>al_scopeVerified := ok\<rparr>;
               start = al_start l since now; until = al_until l start now
           in if \<not> start < until
              then (Inr \<lparr>bt_Key = al_Key net l, bt_Samples = [], bt_Logs = [], bt_Watermark = since\<rparr>, l1, evs, w1)
              else case collect_passes net l1 (al_passes l) start until (al_fetchStart l start until now) now w1 of
                (Inl e, l2, evs2, w2) \<Rightarrow> (Inl e, l2, evs @ evs2, w2)
              | (Inr all_samples, l2, evs2, w2) \<Rightarrow>
                  (Inr \<lparr>bt_Key = al_Key net l, bt_Samples = all_samples, bt_Logs = [], bt_Watermark = since\<lparr>wm_Time := until\<rparr>\<rparr>,
                   l2, evs @ evs2, w2)))"

section \<open>The window's bounds\<close>

text \<open>What construction guarantees, durations being int64 values.\<close>

definition al_ok :: "analytics_loop \<Rightarrow> bool" where
  "al_ok l \<longleftrightarrow> 0 < al_window l \<and> al_window l < 2 ^ 63 - 1 \<and> al_settle l < al_bootstrap l \<and> al_settle l < al_maxBackfill l \<and>
     set (al_graphs l) \<subseteq> fset (fmdom metricSuffix)"

lemma newAnalyticsLoop_ok:
  assumes "newAnalyticsLoop cfg lp d ucs = Inr l" "lp_Window lp < 2 ^ 63 - 1"
  shows "al_ok l \<and> al_passes l \<noteq> [] \<and> al_graphs l \<noteq> []"
proof -
  have "find (\<lambda>g. fmlookup metricSuffix g = None) (sort (lp_Graphs lp)) = None"
    using assms(1) by (auto simp: newAnalyticsLoop_def Let_def split: if_splits option.splits)
  then have "\<forall>g\<in>set (lp_Graphs lp). fmlookup metricSuffix g \<noteq> None" by (auto simp: find_None_iff)
  then have "set (lp_Graphs lp) \<subseteq> fset (fmdom metricSuffix)" by (auto intro: fmdomI)
  then show ?thesis
    using assms by (auto simp: newAnalyticsLoop_def Let_def al_ok_def split: if_splits option.splits)
qed

lemma al_until_bounds:
  assumes "al_ok l"
  shows "al_until l start now \<le> now - al_settle l"
    and "start < al_until l start now \<Longrightarrow> al_until l start now - start \<le> al_window l \<and> al_until l start now - start \<le> 55 * Minute"
    and "start < now - al_settle l \<Longrightarrow> start < al_until l start now"
proof -
  have gt: "al_window l < sat64 x \<longleftrightarrow> al_window l < x" "55 * Minute < sat64 x \<longleftrightarrow> 55 * Minute < x" for x
    using assms by (auto simp: al_ok_def Minute_def in_int64_def intro!: sat64_gt_iff)
  define u where "u = (if al_window l < now - al_settle l - start then start + al_window l else now - al_settle l)"
  have until: "al_until l start now = (if 55 * Minute < u - start then start + 55 * Minute else u)"
    by (simp add: al_until_def Let_def time_Sub_def time_Add_def gt u_def)
  have u: "u \<le> now - al_settle l" "start < u \<Longrightarrow> u - start \<le> al_window l" "start < now - al_settle l \<Longrightarrow> start < u"
    using assms by (auto simp: u_def al_ok_def)
  show "al_until l start now \<le> now - al_settle l" using u(1) by (auto simp: until)
  show "al_until l start now - start \<le> al_window l \<and> al_until l start now - start \<le> 55 * Minute" if "start < al_until l start now"
    using that u(2) by (auto simp: until split: if_splits)
  show "start < al_until l start now" if "start < now - al_settle l"
    using u(3) that by (auto simp: until Minute_def)
qed

lemma al_start_before:
  assumes "al_ok l"
  shows "al_start l since now < now - al_settle l \<longleftrightarrow> IsZero (wm_Time since) \<or> wm_Time since < now - al_settle l"
    and "\<not> IsZero (wm_Time since) \<Longrightarrow> al_start l since now = max (wm_Time since) (now - al_maxBackfill l)"
  using assms by (auto simp: al_start_def Let_def time_Add_def al_ok_def)

text \<open>The widened request stays within the one-minute regime and reaches back no later than the window.\<close>

lemma al_fetchStart_bounds:
  assumes "al_ok l" "start < al_until l start now" "now - al_maxBackfill l \<le> start"
  shows "al_fetchStart l start (al_until l start now) now \<le> start"
    and "al_until l start now - al_fetchStart l start (al_until l start now) now \<le> 55 * Minute"
  using al_until_bounds(2) [OF assms(1,2)] assms(3)
  by (auto simp: al_fetchStart_def Let_def time_Add_def split: if_splits)

section \<open>The samples of a batch\<close>

lemma fetch_graphs_dom:
  "fetch_graphs net l csv a b gs resp w = (Inr out, evs, w1) \<Longrightarrow> fset (fmdom out) \<subseteq> fset (fmdom resp) \<union> set gs"
  by (induction net l csv a b gs resp w arbitrary: evs rule: fetch_graphs.induct)
    (fastforce split: prod.splits sum.splits if_splits)+

lemma detect_frame: "detect l slug resp until fs now = (l1, evs) \<Longrightarrow> l1 = l\<lparr>al_histories := al_histories l1\<rparr>"
  by (auto simp: detect_def split: option.splits sum.splits prod.splits)

lemma collectPass_ok:
  assumes "collectPass net l p start until fs now w = (Inr s, l1, evs, w1)"
  shows "l1 = l\<lparr>al_histories := al_histories l1\<rparr>"
    and "\<exists>resp out evs1. fetch_graphs net l (ru_apiKeyIDsCSV p) fs until (al_graphs l) fmempty w = (Inr resp, evs1, w1) \<and>
      derive resp (al_prefix l) start now (al_settle l) granularity (al_startSemantics l) = Inr out \<and> s = stampUseCase out (ru_slug p)"
  using assms detect_frame [of l "ru_slug p"]
  by (auto simp: collectPass_def split: prod.splits sum.splits if_splits)

text \<open>A sample of the loop: a declared series, allowed labels, a bucket of the window.\<close>

definition al_sample_ok :: "analytics_loop \<Rightarrow> instant \<Rightarrow> instant \<Rightarrow> sample \<Rightarrow> bool" where
  "al_sample_ok l start now s \<longleftrightarrow>
     smp_Name s \<in> set (al_SeriesNames l) \<and> fset (fmdom (smp_Labels s)) \<subseteq> set AllowedLabelKeys \<and>
     start < smp_Timestamp s \<and> smp_Timestamp s \<le> now - al_settle l"

lemma point_samples_labels:
  "s \<in> set (point_samples pfx g bend dp) \<Longrightarrow> fset (fmdom (smp_Labels s)) \<subseteq> {''quantile'', ''token_type''}"
  by (auto simp: point_samples_def gauge_def split: if_splits)

lemma derived_ok:
  assumes "derive resp (al_prefix l) start now (al_settle l) gran ss = Inr out" "s \<in> set (stampUseCase out slug)"
    and "fset (fmdom resp) \<subseteq> set (al_graphs l)"
  shows "al_sample_ok l start now s"
proof -
  obtain s0 where s0: "s0 \<in> set out" "s = s0 \<or> s = s0\<lparr>smp_Labels := fmupd useCaseLabelKey slug (smp_Labels s0)\<rparr>"
    using assms(2) by (auto simp: stampUseCase_def split: if_splits)
  obtain g r dp t where g: "fmlookup resp g = Some r" "start < bucket_end gran ss t" "bucket_end gran ss t \<le> now - al_settle l"
    "s0 \<in> set (point_samples (al_prefix l) g (bucket_end gran ss t) dp)"
    using derive_members [OF assms(1), of s0] s0(1) by blast
  have "g \<in> set (al_graphs l)" using assms(3) fmdomI [OF g(1)] by auto
  then have "smp_Name s0 \<in> set (al_SeriesNames l)" "smp_Timestamp s0 = bucket_end gran ss t"
    using point_samples_id [OF g(4)] by (auto simp: al_SeriesNames_def)
  then show ?thesis
    using s0(2) g(2,3) point_samples_labels [OF g(4)] by (auto simp: al_sample_ok_def AllowedLabelKeys_def)
qed

lemma collect_passes_ok:
  "collect_passes net l ps start until fs now w = (Inr all_s, l1, evs, w1) \<Longrightarrow> s \<in> set all_s \<Longrightarrow> al_sample_ok l start now s"
proof (induction net l ps start until fs now w arbitrary: all_s evs w1 l1 rule: collect_passes.induct)
  case (2 net l p ps start until fs now w)
  from "2.prems"(1) obtain s1 l2 e1 w2 s2 e2 where
    p: "collectPass net l p start until fs now w = (Inr s1, l2, e1, w2)" and
    ps: "collect_passes net l2 ps start until fs now w2 = (Inr s2, l1, e2, w1)" and out: "all_s = s1 @ s2"
    by (auto split: prod.splits sum.splits)
  obtain resp out1 e3 where r: "fetch_graphs net l (ru_apiKeyIDsCSV p) fs until (al_graphs l) fmempty w = (Inr resp, e3, w2)"
    "derive resp (al_prefix l) start now (al_settle l) granularity (al_startSemantics l) = Inr out1" "s1 = stampUseCase out1 (ru_slug p)"
    using collectPass_ok(2) [OF p] by blast
  have "fset (fmdom resp) \<subseteq> set (al_graphs l)" using fetch_graphs_dom [OF r(1)] by simp
  then have first: "al_sample_ok l start now s" if "s \<in> set s1" using derived_ok [OF r(2)] that r(3) by blast
  have same: "al_sample_ok l2 start now s = al_sample_ok l start now s"
    using arg_cong [OF collectPass_ok(1) [OF p], of "\<lambda>l. (al_prefix l, al_graphs l, al_settle l)"]
    by (simp add: al_sample_ok_def al_SeriesNames_def)
  show ?case
    using "2.prems"(2) out first same "2.IH" [OF p [symmetric] refl refl refl ps] by auto
qed auto

text \<open>
  The upper bound of \<open>derive\<close> is the settle cutoff, not the end of the window: in a catch-up
  window a bucket that ends between the two is emitted now and again by the next
  collection, which starts at the end of this window.
\<close>

lemma straddling_bucket_twice:
  assumes "derive r1 pfx start now settle gran ss = Inr out1" "derive r2 pfx until now2 settle gran ss = Inr out2"
    and "fmlookup r1 g = Some a" "fmlookup r2 g = Some a" "dp \<in> set (gr_DataPoints a)" "point_time dp = Some t"
    and "start \<le> until" "until < bucket_end gran ss t" "bucket_end gran ss t \<le> now - settle" "now \<le> now2"
    and "s \<in> set (point_samples pfx g (bucket_end gran ss t) dp)"
  shows "s \<in> set out1 \<and> s \<in> set out2"
proof -
  have "start < bucket_end gran ss t" "bucket_end gran ss t \<le> now2 - settle" using assms(7-10) by auto
  then show ?thesis using derive_members [OF assms(1)] derive_members [OF assms(2)] assms(3-6,8,9,11) by blast
qed

section \<open>Properties\<close>

text \<open>C9: the analytics window. A successful collection never moves the watermark back and never
  past the settle cutoff; when the frontier is behind the cutoff it advances, by at most the
  window and at most 55 minutes from where it starts, and it starts at the frontier or, when
  that is older than the backfill limit, at the limit. The request that feeds it begins no
  later than the window and spans at most 55 minutes, so the answer keeps its one-minute
  buckets. Every sample is of a declared series, carries only allowed labels and belongs to a
  settled bucket that ends after the start.\<close>

theorem analytics_window:
  assumes "newAnalyticsLoop cfg lp d ucs = Inr l0" "lp_Window lp < 2 ^ 63 - 1"
    and "l = l0\<lparr>al_scopeVerified := v, al_histories := h\<rparr>"
    and "al_Collect net now l since w = (Inr b, l', evs, w')"
  shows "wm_Time (bt_Watermark b) \<le> max (wm_Time since) (now - al_settle l) \<and>
    wm_Cursor (bt_Watermark b) = wm_Cursor since \<and> wm_Epoch (bt_Watermark b) = wm_Epoch since \<and>
    (if IsZero (wm_Time since) \<or> wm_Time since < now - al_settle l
     then al_start l since now < wm_Time (bt_Watermark b) \<and> wm_Time (bt_Watermark b) \<le> now - al_settle l \<and>
          wm_Time (bt_Watermark b) - al_start l since now \<le> min (al_window l) (55 * Minute) \<and>
          (\<not> IsZero (wm_Time since) \<longrightarrow> al_start l since now = max (wm_Time since) (now - al_maxBackfill l)) \<and>
          al_fetchStart l (al_start l since now) (wm_Time (bt_Watermark b)) now \<le> al_start l since now \<and>
          wm_Time (bt_Watermark b) - al_fetchStart l (al_start l since now) (wm_Time (bt_Watermark b)) now \<le> 55 * Minute
     else bt_Watermark b = since \<and> bt_Samples b = []) \<and>
    (\<forall>s\<in>set (bt_Samples b). al_sample_ok l (al_start l since now) now s)"
proof -
  have ok: "al_ok l" using newAnalyticsLoop_ok [OF assms(1,2)] by (auto simp: assms(3) al_ok_def)
  define start where "start = al_start l since now"
  define until where "until = al_until l start now"
  have upper: "until \<le> now - al_settle l" and behind: "start < until \<longleftrightarrow> IsZero (wm_Time since) \<or> wm_Time since < now - al_settle l"
    using al_until_bounds(1,3) [OF ok, where start = start and now = now] al_start_before(1) [OF ok, of since now]
    unfolding until_def start_def by auto
  have floor: "now - al_maxBackfill l \<le> start" by (auto simp: start_def al_start_def Let_def time_Add_def)
  show ?thesis
  proof (cases "start < until")
    case False
    then have "bt_Watermark b = since" "bt_Samples b = []"
      using assms(4) by (auto simp: al_Collect_def Let_def start_def until_def split: prod.splits sum.splits)
    then show ?thesis using False behind by auto
  next
    case True
    then obtain all_s l2 e2 l1 w1 where p: "collect_passes net l1 (al_passes l) start until (al_fetchStart l start until now) now w1 = (Inr all_s, l2, e2, w')"
      and b: "bt_Samples b = all_s" "bt_Watermark b = since\<lparr>wm_Time := until\<rparr>" and l1: "\<exists>ok. l1 = l\<lparr>al_scopeVerified := ok\<rparr>"
      using assms(4) by (fastforce simp: al_Collect_def Let_def start_def until_def split: prod.splits sum.splits)
    have "al_sample_ok l1 start now s = al_sample_ok l start now s" for s
      using l1 by (auto simp: al_sample_ok_def al_SeriesNames_def)
    then have samples: "\<forall>s\<in>set (bt_Samples b). al_sample_ok l start now s" using collect_passes_ok [OF p] b(1) by blast
    note w = al_until_bounds(2) [OF ok, of start now, folded until_def, OF True]
    note f = al_fetchStart_bounds [OF ok, of start now, folded until_def, OF True floor]
    show ?thesis unfolding start_def [symmetric]
      using True behind upper b(2) samples w f al_start_before(2) [OF ok, of since now, folded start_def] by auto
  qed
qed

text \<open>A service whose requests graph has two settled minutes.\<close>

definition ten_loop_cfg :: loop_config where
  "ten_loop_cfg = \<lparr>lp_Enabled = True, lp_Cadence = Minute, lp_Window = 50 * Minute, lp_BucketSettle = 10 * Minute,
     lp_BootstrapLookback = 50 * Minute, lp_MaxBackfill = 90 * Minute, lp_MetricPrefix = '''', lp_Graphs = [''requests''],
     lp_Settings = fmempty\<rparr>"

definition quiet_net :: "unit net" where
  "quiet_net = \<lparr>nt_do = (\<lambda>w rq. (Inr \<lparr>rs_StatusCode = 200, rs_Header = fmempty, rs_Body = ''''\<rparr>, w)),
     nt_json = (\<lambda>_. Some (JObj [])), nt_url = (\<lambda>u q. Some u), nt_sha = (\<lambda>s. s)\<rparr>"

theorem analytics_window_witness:
  "\<exists>l b l'. newAnalyticsLoop two_cases ten_loop_cfg no_hooks [] = Inr l \<and>
     al_Collect quiet_net (ten_oclock + Hour) l zero_watermark () = (Inr b, l', [], ()) \<and>
     wm_Time (bt_Watermark b) \<le> ten_oclock + 50 * Minute \<and> ten_oclock + 10 * Minute < wm_Time (bt_Watermark b)"
proof -
  obtain l where l: "newAnalyticsLoop two_cases ten_loop_cfg no_hooks [] = Inr l"
    by (simp add: newAnalyticsLoop_def ten_loop_cfg_def metricSuffix_def Minute_def Let_def)
  have f: "al_settle l = 10 * Minute" "al_bootstrap l = 50 * Minute" "al_maxBackfill l = 90 * Minute" "al_expectedWorkspace l = ''''"
    "al_graphs l = [''requests'']" "al_passes l = [\<lparr>ru_slug = '''', ru_apiKeyIDsCSV = ''''\<rparr>]" "al_startSemantics l" "al_deps l = no_hooks"
    using l by (auto simp: newAnalyticsLoop_def ten_loop_cfg_def metricSuffix_def Minute_def Let_def map_get_def TrimSpace_def cleanAPIKeyIDs_def)
  have fetch: "fetch_graphs quiet_net l0 csv a c [''requests''] fmempty () = (Inr (fmupd ''requests'' zero_graph fmempty), [], ())" for l0 csv a c
    by (simp add: al_fetch_def fetch_json_def quiet_net_def dec_graph_def zero_graph_def StatusOK_def StatusNotFound_def)
  have der: "derive (fmupd ''requests'' zero_graph fmempty) pfx a n s g ss = Inr []" for pfx a n s g ss
    by (simp add: derive_def derive_graph_def zero_graph_def stable_sort_def emit_points_def)
  have pass: "\<exists>l1. collect_passes quiet_net l0 [\<lparr>ru_slug = '''', ru_apiKeyIDsCSV = ''''\<rparr>] a c e n () = (Inr [], l1, [], ())"
    if "al_graphs l0 = [''requests'']" for l0 a c e n
    using that fetch [of l0 "''''" e c] der
    by (auto simp: collectPass_def stampUseCase_def detect_def observe_def simp del: fetch_graphs.simps split: option.splits)
  define start where "start = al_start l zero_watermark (ten_oclock + Hour)"
  define until where "until = al_until l start (ten_oclock + Hour)"
  define fetch_from where "fetch_from = al_fetchStart l start until (ten_oclock + Hour)"
  have "al_graphs (l\<lparr>al_scopeVerified := al_scopeVerified l\<rparr>) = [''requests'']" using f by simp
  from pass [OF this, of start until fetch_from "ten_oclock + Hour"] obtain l2 where
    "collect_passes quiet_net (l\<lparr>al_scopeVerified := al_scopeVerified l\<rparr>) (al_passes l) start until fetch_from (ten_oclock + Hour) () = (Inr [], l2, [], ())"
    unfolding f(6) by blast
  then obtain b l' where c: "al_Collect quiet_net (ten_oclock + Hour) l zero_watermark () = (Inr b, l', [], ())"
    using f(4) unfolding start_def until_def fetch_from_def
    by (cases "al_start l zero_watermark (ten_oclock + Hour) < al_until l (al_start l zero_watermark (ten_oclock + Hour)) (ten_oclock + Hour)")
      (simp_all add: al_Collect_def scope_gate_def Let_def del: collect_passes.simps)
  have "lp_Window ten_loop_cfg < 2 ^ 63 - 1" "l = l\<lparr>al_scopeVerified := al_scopeVerified l, al_histories := al_histories l\<rparr>"
    by (simp_all add: ten_loop_cfg_def Minute_def)
  from analytics_window [OF l this c] have "wm_Time (bt_Watermark b) \<le> ten_oclock + 50 * Minute" "ten_oclock + 10 * Minute < wm_Time (bt_Watermark b)"
    using f by (simp_all add: zero_watermark_def IsZero_def zero_time_def al_start_def Let_def time_Add_def ten_oclock_def Minute_def Hour_def Second_def)
  then show ?thesis using l c by blast
qed

end
