(* ===== verification/Portkey_Groups.thy ===== *)
theory Portkey_Groups
  imports Portkey_Scope
begin

text \<open>
  The Portkey groups loop (\<^verbatim>\<open>internal/source/portkey/groups.go\<close>, \<^verbatim>\<open>groups_derive.go\<close>): a snapshot of
  totals per model, metadata value and prompt. Settings are visited in ascending key order;
  the source visits them in any order, which only chooses the error that is returned. The
  page loop runs at most as many rounds as its own page cap, which is its fuel.
\<close>

section \<open>Settings\<close>

record groups_settings =
  gs_windowSpan :: duration
  gs_settle :: duration
  gs_pageSize :: int
  gs_maxGroups :: int
  gs_metadataKeys :: "string list"
  gs_emitCost :: bool
  gs_emitPrompts :: bool
  gs_expectedWS :: string
  gs_apiKeyIDs :: string

definition defaultGroupsSettings :: groups_settings where
  "defaultGroupsSettings = \<lparr>gs_windowSpan = Hour, gs_settle = 10 * Minute, gs_pageSize = 1000, gs_maxGroups = 10000,
     gs_metadataKeys = [], gs_emitCost = True, gs_emitPrompts = True, gs_expectedWS = '''', gs_apiKeyIDs = ''''\<rparr>"

definition groups_setting :: "string \<Rightarrow> string \<Rightarrow> groups_settings \<Rightarrow> string + groups_settings" where
  "groups_setting k v g =
     (if k = ''window_span'' then
        (case ParseDuration v of
           None \<Rightarrow> Inl ''portkey groups: window_span''
         | Some d \<Rightarrow> if d \<le> 0 then Inl ''portkey groups: window_span must be positive'' else Inr (g\<lparr>gs_windowSpan := d\<rparr>))
      else if k = ''settle'' then
        (case ParseDuration v of
           None \<Rightarrow> Inl ''portkey groups: settle''
         | Some d \<Rightarrow> if d < 0 then Inl ''portkey groups: settle must be >= 0'' else Inr (g\<lparr>gs_settle := d\<rparr>))
      else if k = ''page_size'' then
        (case ParseInt v of
           None \<Rightarrow> Inl ''portkey groups: page_size''
         | Some n \<Rightarrow> if n \<le> 0 then Inl ''portkey groups: page_size must be positive'' else Inr (g\<lparr>gs_pageSize := n\<rparr>))
      else if k = ''max_groups'' then
        (case ParseInt v of
           None \<Rightarrow> Inl ''portkey groups: max_groups''
         | Some n \<Rightarrow> if n \<le> 0 then Inl ''portkey groups: max_groups must be positive'' else Inr (g\<lparr>gs_maxGroups := n\<rparr>))
      else if k = ''metadata_keys'' then Inr (g\<lparr>gs_metadataKeys := splitCSV v\<rparr>)
      else if k = ''emit_cost'' then
        (case ParseBool v of None \<Rightarrow> Inl ''portkey groups: emit_cost'' | Some b \<Rightarrow> Inr (g\<lparr>gs_emitCost := b\<rparr>))
      else if k = ''emit_prompts'' then
        (case ParseBool v of None \<Rightarrow> Inl ''portkey groups: emit_prompts'' | Some b \<Rightarrow> Inr (g\<lparr>gs_emitPrompts := b\<rparr>))
      else if k = ''expected_workspace'' then Inr (g\<lparr>gs_expectedWS := TrimSpace v\<rparr>)
      else if k = ''api_key_ids'' then Inr (g\<lparr>gs_apiKeyIDs := cleanAPIKeyIDs v\<rparr>)
      else Inr g)"

definition applyGroupsSettings :: "groups_settings \<Rightarrow> (string, string) fmap \<Rightarrow> string + groups_settings" where
  "applyGroupsSettings g s =
     (case apply_each groups_setting s (sorted_keys s) g of
        Inl e \<Rightarrow> Inl e
      | Inr g1 \<Rightarrow> if gs_windowSpan g1 \<le> gs_settle g1 then Inl ''portkey groups: settle must be < window_span'' else Inr g1)"

section \<open>The loop\<close>

record groups_loop =
  gl_access :: key_access
  gl_deps :: deps
  gl_prefix :: string
  gl_cadence :: duration
  gl_windowSpan :: duration
  gl_settle :: duration
  gl_pageSize :: int
  gl_maxGroups :: int
  gl_metadataKeys :: "string list"
  gl_emitCost :: bool
  gl_emitPrompts :: bool
  gl_expectedWorkspace :: string
  gl_passes :: "resolved_use_case list"
  gl_scopeVerified :: bool

definition newGroupsLoop :: "source_config \<Rightarrow> loop_config \<Rightarrow> deps \<Rightarrow> resolved_use_case list \<Rightarrow> string + groups_loop" where
  "newGroupsLoop cfg lpCfg d ucs =
     (case applyGroupsSettings defaultGroupsSettings (lp_Settings lpCfg) of
        Inl e \<Rightarrow> Inl e
      | Inr g \<Rightarrow> Inr
          \<lparr>gl_access = \<lparr>ka_baseURL = sc_BaseURL cfg, ka_authHdr = au_Header (sc_Auth cfg), ka_authVal = au_Value (sc_Auth cfg),
                        ka_loop = ''groups'', ka_sourceInstance = sc_SourceInstance cfg\<rparr>,
           gl_deps = d, gl_prefix = (if lp_MetricPrefix lpCfg = '''' then ''portkey_api'' else lp_MetricPrefix lpCfg),
           gl_cadence = (if lp_Cadence lpCfg \<le> 0 then 5 * Minute else lp_Cadence lpCfg),
           gl_windowSpan = gs_windowSpan g, gl_settle = gs_settle g, gl_pageSize = gs_pageSize g, gl_maxGroups = gs_maxGroups g,
           gl_metadataKeys = gs_metadataKeys g, gl_emitCost = gs_emitCost g, gl_emitPrompts = gs_emitPrompts g,
           gl_expectedWorkspace = gs_expectedWS g,
           gl_passes = (if ucs = [] then [\<lparr>ru_slug = '''', ru_apiKeyIDsCSV = gs_apiKeyIDs g\<rparr>] else ucs), gl_scopeVerified = False\<rparr>)"

definition groupMetricName :: "string \<Rightarrow> string \<Rightarrow> string \<Rightarrow> string" where
  "groupMetricName pfx metric dimn = pfx @ ''_'' @ metric @ ''_by_'' @ dimn"

definition gl_SeriesNames :: "groups_loop \<Rightarrow> string list" where
  "gl_SeriesNames l =
     [groupMetricName (gl_prefix l) ''requests'' ''model''] @
     (if gl_emitCost l then [groupMetricName (gl_prefix l) ''cost_usd'' ''model''] else []) @
     (if gl_metadataKeys l \<noteq> [] then
        [groupMetricName (gl_prefix l) ''requests'' ''metadata''] @
        (if gl_emitCost l then [groupMetricName (gl_prefix l) ''cost_usd'' ''metadata''] else [])
      else []) @
     (if gl_emitPrompts l then [groupMetricName (gl_prefix l) ''requests'' ''prompt''] else [])"

definition gl_Key :: "'w net \<Rightarrow> groups_loop \<Rightarrow> checkpoint_key" where
  "gl_Key net l = \<lparr>ck_SourceInstance = ka_sourceInstance (gl_access l), ck_Loop = ''groups'',
     ck_OutputFingerprint = Fingerprint (nt_sha net) (gl_SeriesNames l) (''prefix='' @ gl_prefix l)\<rparr>"

record groups_endpoint =
  ge_urlPath :: string
  ge_label :: string
  ge_dim :: string
  ge_dimField :: string
  ge_valueLabelKey :: string
  ge_baseLabels :: labels
  ge_emitCost :: bool

definition endpoints :: "groups_loop \<Rightarrow> groups_endpoint list" where
  "endpoints l =
     [\<lparr>ge_urlPath = ''ai-models'', ge_label = ''ai-models'', ge_dim = ''model'', ge_dimField = ''ai_model'',
       ge_valueLabelKey = ''ai_model'', ge_baseLabels = fmempty, ge_emitCost = gl_emitCost l\<rparr>] @
     map (\<lambda>k. \<lparr>ge_urlPath = ''metadata/'' @ PathEscape k, ge_label = ''metadata/'' @ k, ge_dim = ''metadata'',
               ge_dimField = ''metadata_value'', ge_valueLabelKey = ''metadata_value'',
               ge_baseLabels = fmupd ''metadata_key'' k fmempty, ge_emitCost = gl_emitCost l\<rparr>) (gl_metadataKeys l) @
     (if gl_emitPrompts l then
        [\<lparr>ge_urlPath = ''prompt'', ge_label = ''prompt'', ge_dim = ''prompt'', ge_dimField = ''prompt'',
          ge_valueLabelKey = ''prompt'', ge_baseLabels = fmempty, ge_emitCost = False\<rparr>]
      else [])"

section \<open>Rows\<close>

record group_row =
  gw_dimValue :: string
  gw_requests :: float64
  gw_cost :: float64
  gw_hasCost :: bool

definition parse_row :: "string \<Rightarrow> (string, json) fmap \<Rightarrow> group_row option" where
  "parse_row dimField raw =
     (case fmlookup raw ''requests'' of
        None \<Rightarrow> None
      | Some rq \<Rightarrow>
          (case dec_float rq (Fin 0) of
             None \<Rightarrow> None
           | Some n \<Rightarrow>
               (case fmlookup raw ''cost'' of
                  None \<Rightarrow> Some \<lparr>gw_dimValue = row_string raw dimField, gw_requests = n, gw_cost = Fin 0, gw_hasCost = False\<rparr>
                | Some cj \<Rightarrow>
                    (case dec_float cj (Fin 0) of
                       None \<Rightarrow> None
                     | Some c \<Rightarrow> Some \<lparr>gw_dimValue = row_string raw dimField, gw_requests = n, gw_cost = c, gw_hasCost = True\<rparr>))))"

fun parseGroupRows :: "string \<Rightarrow> (string, json) fmap list \<Rightarrow> group_row list option" where
  "parseGroupRows dimField [] = Some []"
| "parseGroupRows dimField (raw # rows) =
     (case parse_row dimField raw of
        None \<Rightarrow> None
      | Some r \<Rightarrow> (case parseGroupRows dimField rows of None \<Rightarrow> None | Some rs \<Rightarrow> Some (r # rs)))"

definition row_samples :: "string \<Rightarrow> string \<Rightarrow> labels \<Rightarrow> string \<Rightarrow> bool \<Rightarrow> instant \<Rightarrow> group_row \<Rightarrow> sample list" where
  "row_samples pfx dimn baseLabels valueLabelKey emitCost at_time r =
     (let ls = fmupd valueLabelKey (gw_dimValue r) baseLabels in
      gauge (groupMetricName pfx ''requests'' dimn) ls (gw_requests r) at_time #
      (if emitCost \<and> gw_hasCost r
       then [gauge (groupMetricName pfx ''cost_usd'' dimn) ls (f_div_const (gw_cost r) 100) at_time] else []))"

definition deriveGroups :: "group_row list \<Rightarrow> string \<Rightarrow> string \<Rightarrow> labels \<Rightarrow> string \<Rightarrow> bool \<Rightarrow> instant \<Rightarrow> sample list" where
  "deriveGroups rows pfx dimn baseLabels valueLabelKey emitCost at_time =
     concat (map (row_samples pfx dimn baseLabels valueLabelKey emitCost at_time) rows)"

section \<open>Pages\<close>

definition page_query :: "groups_loop \<Rightarrow> instant \<Rightarrow> instant \<Rightarrow> nat \<Rightarrow> string \<Rightarrow> (string, string) fmap" where
  "page_query l from_time until page apiKeyIDs =
     (let q = fmap_of_list
        [(''time_of_generation_min'', FormatRFC3339 from_time), (''time_of_generation_max'', FormatRFC3339 until),
         (''page_size'', FormatInt (gl_pageSize l)), (''current_page'', itoa page)]
      in if apiKeyIDs \<noteq> '''' then fmupd ''api_key_ids'' apiKeyIDs q else q)"

definition fetchPage ::
  "'w net \<Rightarrow> groups_loop \<Rightarrow> string \<Rightarrow> instant \<Rightarrow> instant \<Rightarrow> nat \<Rightarrow> string \<Rightarrow> 'w \<Rightarrow> (string + groups_response \<times> int) \<times> 'w" where
  "fetchPage net l path from_time until page apiKeyIDs w =
     (case nt_url net (ka_baseURL (gl_access l) @ ''/analytics/groups/'' @ path) (values_Encode (page_query l from_time until page apiKeyIDs)) of
        None \<Rightarrow> (Inl ''url'', w)
      | Some url \<Rightarrow>
          fetch_json net maxResponseBytes dec_groups zero_groups (get_request url (ka_authHdr (gl_access l)) (ka_authVal (gl_access l))) w)"

definition maxPages :: "groups_loop \<Rightarrow> int" where
  "maxPages l = max (quot (wrap64 (wrap64 (gl_maxGroups l + gl_pageSize l) - 1)) (gl_pageSize l)) 1"

text \<open>The rows of one page added to the rows so far: the rows, the number dropped, and whether the cap was reached.\<close>

fun add_rows :: "int \<Rightarrow> group_row list \<Rightarrow> nat \<Rightarrow> group_row list \<Rightarrow> group_row list \<times> nat \<times> bool" where
  "add_rows maxGroups rows dropped [] = (rows, dropped, False)"
| "add_rows maxGroups rows dropped (r # rs) =
     (if gw_dimValue r \<in> gw_dimValue ` set rows then add_rows maxGroups rows (Suc dropped) rs
      else if maxGroups \<le> int (length rows) + 1 then (rows @ [r], dropped, True)
      else add_rows maxGroups (rows @ [r]) dropped rs)"

fun page_loop ::
  "'w net \<Rightarrow> groups_loop \<Rightarrow> groups_endpoint \<Rightarrow> instant \<Rightarrow> instant \<Rightarrow> string \<Rightarrow> nat \<Rightarrow> nat \<Rightarrow> group_row list \<Rightarrow> nat \<Rightarrow> 'w \<Rightarrow>
     (group_row list \<times> nat) option \<times> source_event list \<times> 'w" where
  "page_loop net l ep from_time until csv 0 page rows dropped w = (Some (rows, dropped), [], w)"
| "page_loop net l ep from_time until csv (Suc fuel) page rows dropped w =
     (case fetchPage net l (ge_urlPath ep) from_time until page csv w of
        (Inl e, w1) \<Rightarrow> (None, [], w1)
      | (Inr (resp, code), w1) \<Rightarrow>
          (if code = StatusNotFound then (None, fire (gl_deps l) (Capability ''groups'' (ge_label ep) ''transient-404''), w1)
           else if code \<noteq> StatusOK then
             (None, (if IsAuthStatus code then fire (gl_deps l) (AuthError ''groups'' (ka_sourceInstance (gl_access l))) else []), w1)
           else if gs_IsQuotaExceeded resp then (None, [], w1)
           else case parseGroupRows (ge_dimField ep) (gs_Data resp) of
             None \<Rightarrow> (None, [], w1)
           | Some pageRows \<Rightarrow>
               (case add_rows (gl_maxGroups l) rows dropped pageRows of
                  (rows1, dropped1, capped) \<Rightarrow>
                    (if capped then (Some (rows1, dropped1), [], w1)
                     else if int (length pageRows) = 0 \<or> int (length pageRows) < gl_pageSize l then (Some (rows1, dropped1), [], w1)
                     else if maxPages l \<le> int page + 1 then (Some (rows1, dropped1), [], w1)
                     else page_loop net l ep from_time until csv fuel (Suc page) rows1 dropped1 w1))))"

definition collectEndpoint ::
  "'w net \<Rightarrow> groups_loop \<Rightarrow> groups_endpoint \<Rightarrow> instant \<Rightarrow> instant \<Rightarrow> string \<Rightarrow> 'w \<Rightarrow> group_row list option \<times> source_event list \<times> 'w" where
  "collectEndpoint net l ep from_time until csv w =
     (case page_loop net l ep from_time until csv (nat (maxPages l)) 0 [] 0 w of
        (None, evs, w1) \<Rightarrow> (None, evs, w1)
      | (Some (rows, dropped), evs, w1) \<Rightarrow>
          (Some rows, evs @ (if 0 < dropped then fire (gl_deps l) (DataIncomplete ''groups'' ''duplicate_dimension'') else []), w1))"

section \<open>Collect\<close>

fun collect_endpoints ::
  "'w net \<Rightarrow> groups_loop \<Rightarrow> instant \<Rightarrow> instant \<Rightarrow> instant \<Rightarrow> (resolved_use_case \<times> groups_endpoint) list \<Rightarrow> 'w \<Rightarrow>
     sample list \<times> nat \<times> source_event list \<times> 'w" where
  "collect_endpoints net l from_time until stamp [] w = ([], 0, [], w)"
| "collect_endpoints net l from_time until stamp ((p, ep) # rest) w =
     (case collectEndpoint net l ep from_time until (ru_apiKeyIDsCSV p) w of
        (None, evs, w1) \<Rightarrow>
          (case collect_endpoints net l from_time until stamp rest w1 of
             (samples, skipped, evs2, w2) \<Rightarrow> (samples, Suc skipped, evs @ evs2, w2))
      | (Some rows, evs, w1) \<Rightarrow>
          (case collect_endpoints net l from_time until stamp rest w1 of
             (samples, skipped, evs2, w2) \<Rightarrow>
               (stampUseCase (deriveGroups rows (gl_prefix l) (ge_dim ep) (ge_baseLabels ep) (ge_valueLabelKey ep) (ge_emitCost ep) stamp)
                  (ru_slug p) @ samples, skipped, evs @ evs2, w2)))"

definition gl_Collect ::
  "'w net \<Rightarrow> instant \<Rightarrow> groups_loop \<Rightarrow> watermark \<Rightarrow> 'w \<Rightarrow> (collect_error + batch) \<times> groups_loop \<times> source_event list \<times> 'w" where
  "gl_Collect net now l since w =
     (case scope_gate net (gl_deps l) (gl_access l) (gl_expectedWorkspace l) (gl_scopeVerified l) now w of
        (Inl e, evs, w1) \<Rightarrow> (Inl e, l, evs, w1)
      | (Inr ok, evs, w1) \<Rightarrow>
          (let l1 = l\<lparr>gl_scopeVerified := ok\<rparr>;
               until = time_Add now (- gl_settle l); from_time = time_Add now (- gl_windowSpan l);
               stamp = time_Truncate until Minute;
               jobs = concat (map (\<lambda>p. map (\<lambda>ep. (p, ep)) (endpoints l)) (gl_passes l))
           in case collect_endpoints net l1 from_time until stamp jobs w1 of
                (samples, skipped, evs2, w2) \<Rightarrow>
                  (if skipped = length jobs
                   then (Inl (CollectFailed ''portkey groups: all endpoint fetch(es) failed this poll''), l1, evs @ evs2, w2)
                   else (Inr \<lparr>bt_Key = gl_Key net l, bt_Samples = samples, bt_Logs = [], bt_Watermark = since\<lparr>wm_Time := now\<rparr>\<rparr>,
                         l1, evs @ evs2, w2))))"

section \<open>Pages end\<close>

text \<open>The fuel is the page cap: more of it changes nothing.\<close>

lemma page_loop_fuel:
  "0 < fuel \<Longrightarrow> nat (maxPages l) \<le> page + fuel \<Longrightarrow>
    page_loop net l ep a b csv (fuel + k) page rows dropped w = page_loop net l ep a b csv fuel page rows dropped w"
proof (induction fuel arbitrary: page rows dropped w)
  case (Suc fuel)
  have "page_loop net l ep a b csv (fuel + k) (Suc page) r d w1 = page_loop net l ep a b csv fuel (Suc page) r d w1"
    if "\<not> maxPages l \<le> int page + 1" for r d w1
    using Suc that by (intro Suc.IH) auto
  then show ?case by (simp split: prod.splits sum.splits option.splits)
qed simp

definition rows_ok :: "int \<Rightarrow> group_row list \<Rightarrow> bool" where
  "rows_ok m rows \<longleftrightarrow> distinct (map gw_dimValue rows) \<and> int (length rows) \<le> m"

lemma add_rows_ok:
  "add_rows m rows d rs = (rows1, d1, capped) \<Longrightarrow> distinct (map gw_dimValue rows) \<Longrightarrow> int (length rows) < m \<Longrightarrow>
    rows_ok m rows1 \<and> (\<not> capped \<longrightarrow> int (length rows1) < m) \<and> set rows1 \<subseteq> set rows \<union> set rs \<and>
    (\<not> capped \<longrightarrow> d1 + length rows1 = d + length rows + length rs)"
proof (induction m rows d rs rule: add_rows.induct)
  case (2 m rows d r rs)
  show ?case
  proof (cases "gw_dimValue r \<in> gw_dimValue ` set rows")
    case True
    then show ?thesis using 2 by auto
  next
    case new: False
    show ?thesis
    proof (cases "m \<le> int (length rows) + 1")
      case True
      then show ?thesis using 2 new by (auto simp: rows_ok_def)
    next
      case False
      then show ?thesis using "2.IH"(2) [OF new False] "2.prems" new by auto
    qed
  qed
qed (auto simp: rows_ok_def)

lemma page_loop_rows:
  "page_loop net l ep a b csv fuel page rows dropped w = (Some (out, d), evs, w1) \<Longrightarrow>
    distinct (map gw_dimValue rows) \<Longrightarrow> int (length rows) < gl_maxGroups l \<Longrightarrow> rows_ok (gl_maxGroups l) out"
proof (induction fuel arbitrary: page rows dropped w evs)
  case (Suc fuel)
  from Suc.prems(1) obtain resp code w2 pageRows rows1 d1 capped where
    add: "add_rows (gl_maxGroups l) rows dropped pageRows = (rows1, d1, capped)" and
    rest: "out = rows1 \<or> (\<not> capped \<and> (\<exists>evs2. page_loop net l ep a b csv fuel (Suc page) rows1 d1 w2 = (Some (out, d), evs2, w1)))"
    by (fastforce split: prod.splits sum.splits option.splits if_splits)
  note A = add_rows_ok [OF add Suc.prems(2,3)]
  then have "distinct (map gw_dimValue rows1)" by (simp add: rows_ok_def)
  then show ?case using rest A Suc.IH by blast
qed (auto simp: rows_ok_def)

lemma collectEndpoint_rows:
  assumes "collectEndpoint net l ep a b csv w = (Some rows, evs, w1)" "0 < gl_maxGroups l"
  shows "rows_ok (gl_maxGroups l) rows"
  using assms page_loop_rows [of net l ep a b csv "nat (maxPages l)" 0 "[]" 0 w rows]
  by (auto simp: collectEndpoint_def split: prod.splits option.splits)

section \<open>The samples of a snapshot\<close>

definition dim_labels :: "groups_endpoint \<Rightarrow> string \<Rightarrow> string \<Rightarrow> labels" where
  "dim_labels ep v slug =
     (let ls = fmupd (ge_valueLabelKey ep) v (ge_baseLabels ep) in if slug = '''' then ls else fmupd useCaseLabelKey slug ls)"

lemma stamped_sample:
  assumes "s \<in> set (stampUseCase (deriveGroups rows pfx (ge_dim ep) (ge_baseLabels ep) (ge_valueLabelKey ep) (ge_emitCost ep) stamp) slug)"
  shows "\<exists>r\<in>set rows. smp_Labels s = dim_labels ep (gw_dimValue r) slug \<and> smp_Timestamp s = stamp \<and>
    (smp_Name s = groupMetricName pfx ''requests'' (ge_dim ep) \<or> ge_emitCost ep \<and> smp_Name s = groupMetricName pfx ''cost_usd'' (ge_dim ep))"
  using assms by (auto simp: stampUseCase_def deriveGroups_def row_samples_def dim_labels_def gauge_def Let_def split: if_splits)

lemma endpoint_declared:
  assumes "ep \<in> set (endpoints l)"
  shows "groupMetricName (gl_prefix l) ''requests'' (ge_dim ep) \<in> set (gl_SeriesNames l)"
    and "ge_emitCost ep \<Longrightarrow> groupMetricName (gl_prefix l) ''cost_usd'' (ge_dim ep) \<in> set (gl_SeriesNames l)"
    and "fset (fmdom (dim_labels ep v slug)) \<subseteq> set AllowedLabelKeys"
  using assms by (auto simp: endpoints_def gl_SeriesNames_def dim_labels_def AllowedLabelKeys_def Let_def split: if_splits)

lemma length_row_samples: "length (row_samples p d b v e t r) \<le> 2"
  by (simp add: row_samples_def Let_def)

lemma length_deriveGroups: "length (deriveGroups rows p d b v e t) \<le> 2 * length rows"
proof (induction rows)
  case (Cons r rows)
  then show ?case using length_row_samples [of p d b v e t r] by (simp add: deriveGroups_def)
qed (simp add: deriveGroups_def)

lemma collect_endpoints_ok:
  assumes "collect_endpoints net l a b stamp jobs w = (samples, skipped, evs, w1)" "0 < gl_maxGroups l"
    and "snd ` set jobs \<subseteq> set (endpoints l)"
  shows "skipped \<le> length jobs \<and> int (length samples) \<le> 2 * gl_maxGroups l * int (length jobs - skipped) \<and>
    (\<forall>s\<in>set samples. smp_Name s \<in> set (gl_SeriesNames l) \<and> fset (fmdom (smp_Labels s)) \<subseteq> set AllowedLabelKeys \<and> smp_Timestamp s = stamp)"
  using assms
proof (induction jobs arbitrary: samples skipped evs w w1)
  case (Cons job rest)
  obtain p ep where job: "job = (p, ep)" by fastforce
  obtain ro ev1 w2 where c: "collectEndpoint net l ep a b (ru_apiKeyIDsCSV p) w = (ro, ev1, w2)" by (metis prod_cases3)
  obtain sa sk ev2 w3 where r: "collect_endpoints net l a b stamp rest w2 = (sa, sk, ev2, w3)" by (metis prod_cases4)
  show ?case
  proof (cases ro)
    case None
    then have "samples = sa" "skipped = Suc sk" using Cons.prems(1) c r job by auto
    then show ?thesis using Cons.IH [OF r] Cons.prems by auto
  next
    case (Some rows)
    define out where "out = stampUseCase (deriveGroups rows (gl_prefix l) (ge_dim ep) (ge_baseLabels ep) (ge_valueLabelKey ep) (ge_emitCost ep) stamp) (ru_slug p)"
    have res: "samples = out @ sa" "skipped = sk" using Cons.prems(1) c r job Some by (auto simp: out_def)
    have IH: "sk \<le> length rest \<and> int (length sa) \<le> 2 * gl_maxGroups l * int (length rest - sk) \<and>
      (\<forall>s\<in>set sa. smp_Name s \<in> set (gl_SeriesNames l) \<and> fset (fmdom (smp_Labels s)) \<subseteq> set AllowedLabelKeys \<and> smp_Timestamp s = stamp)"
      using Cons.IH [OF r] Cons.prems by auto
    have ep: "ep \<in> set (endpoints l)" using Cons.prems(3) job by auto
    have "rows_ok (gl_maxGroups l) rows" by (rule collectEndpoint_rows [OF c [unfolded Some] Cons.prems(2)])
    then have len: "int (length out) \<le> 2 * gl_maxGroups l"
      using length_deriveGroups [of rows "gl_prefix l" "ge_dim ep" "ge_baseLabels ep" "ge_valueLabelKey ep" "ge_emitCost ep" stamp]
      by (auto simp: out_def stampUseCase_def rows_ok_def)
    have here: "smp_Name s \<in> set (gl_SeriesNames l) \<and> fset (fmdom (smp_Labels s)) \<subseteq> set AllowedLabelKeys \<and> smp_Timestamp s = stamp"
      if mem: "s \<in> set out" for s
    proof -
      obtain r :: group_row where "smp_Labels s = dim_labels ep (gw_dimValue r) (ru_slug p)" "smp_Timestamp s = stamp"
        "smp_Name s = groupMetricName (gl_prefix l) ''requests'' (ge_dim ep) \<or>
         ge_emitCost ep \<and> smp_Name s = groupMetricName (gl_prefix l) ''cost_usd'' (ge_dim ep)"
        using stamped_sample [OF mem [unfolded out_def]] by blast
      then show ?thesis using endpoint_declared [OF ep] by auto
    qed
    have "int (length samples) \<le> 2 * gl_maxGroups l * int (length (job # rest) - sk)"
    proof -
      have "length (job # rest) - sk = Suc (length rest - sk)" using IH by (simp add: Suc_diff_le)
      then have "2 * gl_maxGroups l * int (length (job # rest) - sk) = 2 * gl_maxGroups l + 2 * gl_maxGroups l * int (length rest - sk)"
        by (simp add: distrib_left)
      moreover have "int (length samples) = int (length out) + int (length sa)" by (simp add: res)
      ultimately show ?thesis using len IH by linarith
    qed
    then show ?thesis using IH res here by auto
  qed
qed simp

section \<open>Settings that were accepted\<close>

definition settings_ok :: "groups_settings \<Rightarrow> bool" where
  "settings_ok g \<longleftrightarrow> 0 < gs_windowSpan g \<and> 0 \<le> gs_settle g \<and> 0 < gs_pageSize g \<and> 0 < gs_maxGroups g"

lemma groups_setting_ok: "groups_setting k v g = Inr g1 \<Longrightarrow> settings_ok g \<Longrightarrow> settings_ok g1"
  by (auto simp: groups_setting_def settings_ok_def split: if_splits option.splits)

lemma applyGroupsSettings_ok:
  assumes "applyGroupsSettings defaultGroupsSettings s = Inr g"
  shows "settings_ok g \<and> gs_settle g < gs_windowSpan g"
proof -
  have each: "apply_each groups_setting s (sorted_keys s) defaultGroupsSettings = Inr g" and lt: "gs_settle g < gs_windowSpan g"
    using assms by (auto simp: applyGroupsSettings_def split: sum.splits if_splits)
  have "settings_ok defaultGroupsSettings" by (simp add: settings_ok_def defaultGroupsSettings_def Hour_def Minute_def)
  then show ?thesis using apply_each_inv [OF each, of settings_ok] groups_setting_ok lt by blast
qed

section \<open>Properties\<close>

text \<open>C34: a groups snapshot stays within what was declared. Whatever the service answers, with
  any number of pages, a successful collection holds at most two samples per row and the
  configured number of rows per endpoint and pass; each sample is of a declared series,
  carries only allowed labels and the same whole minute at or before the end of the query
  window, which is not inverted; and the watermark moves to the time of the collection.\<close>

theorem groups_snapshot:
  assumes "newGroupsLoop cfg lp d ucs = Inr l0" "l = l0\<lparr>gl_scopeVerified := v\<rparr>"
    and "gl_Collect net now l since w = (Inr b, l', evs, w')"
  shows "(\<forall>s\<in>set (bt_Samples b). smp_Name s \<in> set (gl_SeriesNames l) \<and> fset (fmdom (smp_Labels s)) \<subseteq> set AllowedLabelKeys \<and>
       smp_Timestamp s = time_Truncate (now - gl_settle l) Minute) \<and>
    time_Truncate (now - gl_settle l) Minute mod Minute = 0 \<and> time_Truncate (now - gl_settle l) Minute \<le> now - gl_settle l \<and>
    now - gl_windowSpan l < now - gl_settle l \<and>
    int (length (bt_Samples b)) \<le> 2 * gl_maxGroups l * int (length (gl_passes l) * length (endpoints l)) \<and>
    bt_Watermark b = since\<lparr>wm_Time := now\<rparr> \<and> bt_Logs b = []"
proof -
  obtain g where g: "applyGroupsSettings defaultGroupsSettings (lp_Settings lp) = Inr g" "gl_maxGroups l = gs_maxGroups g"
    "gl_settle l = gs_settle g" "gl_windowSpan l = gs_windowSpan g"
    using assms(1,2) by (auto simp: newGroupsLoop_def split: sum.splits)
  have max: "0 < gl_maxGroups l" "gl_settle l < gl_windowSpan l"
    using applyGroupsSettings_ok [OF g(1)] g(2-4) by (auto simp: settings_ok_def)
  define jobs where "jobs = concat (map (\<lambda>p. map (\<lambda>ep. (p, ep)) (endpoints l)) (gl_passes l))"
  have jobs: "length jobs = length (gl_passes l) * length (endpoints l)"
    by (simp add: jobs_def length_concat comp_def sum_list_triv)
  obtain ok w1 sk ev2 where c: "collect_endpoints net (l\<lparr>gl_scopeVerified := ok\<rparr>) (now - gl_windowSpan l) (now - gl_settle l)
      (time_Truncate (now - gl_settle l) Minute) jobs w1 = (bt_Samples b, sk, ev2, w')"
    and b: "bt_Watermark b = since\<lparr>wm_Time := now\<rparr>" "bt_Logs b = []"
    using assms(3) by (auto simp: gl_Collect_def Let_def jobs_def time_Add_def split: prod.splits sum.splits if_splits)
  have same: "endpoints (l\<lparr>gl_scopeVerified := ok\<rparr>) = endpoints l" "gl_SeriesNames (l\<lparr>gl_scopeVerified := ok\<rparr>) = gl_SeriesNames l"
    by (simp_all add: endpoints_def gl_SeriesNames_def)
  have "snd ` set jobs \<subseteq> set (endpoints (l\<lparr>gl_scopeVerified := ok\<rparr>))" unfolding same by (auto simp: jobs_def)
  with collect_endpoints_ok [OF c] max(1) have out: "int (length (bt_Samples b)) \<le> 2 * gl_maxGroups l * int (length jobs - sk)"
    "\<forall>s\<in>set (bt_Samples b). smp_Name s \<in> set (gl_SeriesNames l) \<and> fset (fmdom (smp_Labels s)) \<subseteq> set AllowedLabelKeys \<and>
       smp_Timestamp s = time_Truncate (now - gl_settle l) Minute" by (auto simp: same)
  have "2 * gl_maxGroups l * int (length jobs - sk) \<le> 2 * gl_maxGroups l * int (length jobs)"
    using max(1) by (intro mult_left_mono) auto
  then have "int (length (bt_Samples b)) \<le> 2 * gl_maxGroups l * int (length (gl_passes l) * length (endpoints l))"
    using out(1) unfolding jobs by linarith
  moreover have "time_Truncate t Minute mod Minute = 0" "time_Truncate t Minute \<le> t" for t
    by (auto simp: time_Truncate_def Minute_def minus_mod_eq_mult_div)
  ultimately show ?thesis using out(2) b max(2) by simp
qed

text \<open>A service with one model row.\<close>

definition model_net :: "unit net" where
  "model_net = \<lparr>nt_do = (\<lambda>w rq. (Inr \<lparr>rs_StatusCode = 200, rs_Header = fmempty, rs_Body = ''''\<rparr>, w)),
     nt_json = (\<lambda>_. Some (JObj [(''data'', JArr [JObj [(''ai_model'', JStr ''m''), (''requests'', JNum ''3'')]])])),
     nt_url = (\<lambda>u q. Some u), nt_sha = (\<lambda>s. s)\<rparr>"

definition plain_groups :: groups_loop where
  "plain_groups = projr (newGroupsLoop two_cases (loop_config.make True Minute 0 0 0 0 '''' [] fmempty) no_hooks [])"

lemma plain_groups_built: "newGroupsLoop two_cases (loop_config.make True Minute 0 0 0 0 '''' [] fmempty) no_hooks [] = Inr plain_groups"
  by (simp add: plain_groups_def newGroupsLoop_def applyGroupsSettings_def defaultGroupsSettings_def loop_config.defs Hour_def Minute_def)

lemma plain_groups_fields:
  "gl_maxGroups plain_groups = 10000" "gl_pageSize plain_groups = 1000" "gl_expectedWorkspace plain_groups = ''''"
  "gl_metadataKeys plain_groups = []" "gl_emitPrompts plain_groups" "gl_scopeVerified plain_groups = False"
  "gl_passes plain_groups = [\<lparr>ru_slug = [], ru_apiKeyIDsCSV = []\<rparr>]"
  by (simp_all add: plain_groups_def newGroupsLoop_def applyGroupsSettings_def defaultGroupsSettings_def loop_config.defs Hour_def Minute_def)

lemma model_row:
  "collectEndpoint model_net (plain_groups\<lparr>gl_scopeVerified := v\<rparr>) ep a b csv () =
     (Some [\<lparr>gw_dimValue = row_string (raw_map [(''ai_model'', JStr ''m''), (''requests'', JNum ''3'')]) (ge_dimField ep),
             gw_requests = Fin 3, gw_cost = Fin 0, gw_hasCost = False\<rparr>], [], ())"
proof -
  have pages: "maxPages (plain_groups\<lparr>gl_scopeVerified := v\<rparr>) = 10" "gl_maxGroups (plain_groups\<lparr>gl_scopeVerified := v\<rparr>) = 10000"
    "gl_pageSize (plain_groups\<lparr>gl_scopeVerified := v\<rparr>) = 1000"
    by (simp_all add: plain_groups_fields maxPages_def wrap64_def quot_def)
  have three: "number_float ''3'' = Some (Fin 3)" by code_simp
  have fetch: "fetchPage model_net (plain_groups\<lparr>gl_scopeVerified := v\<rparr>) path a b page csv () =
      (Inr (\<lparr>gs_Object = '''', gs_Total = 0, gs_IsQuotaExceeded = False, gs_Data = [raw_map [(''ai_model'', JStr ''m''), (''requests'', JNum ''3'')]]\<rparr>, StatusOK), ())"
    for path page
    by (simp add: fetchPage_def fetch_json_def model_net_def dec_groups_def StatusOK_def ToLower_def ascii_lower_def)
  have one: "page_loop model_net (plain_groups\<lparr>gl_scopeVerified := v\<rparr>) ep a b csv (Suc n) 0 [] 0 () =
      (Some ([\<lparr>gw_dimValue = row_string (raw_map [(''ai_model'', JStr ''m''), (''requests'', JNum ''3'')]) (ge_dimField ep),
             gw_requests = Fin 3, gw_cost = Fin 0, gw_hasCost = False\<rparr>], 0), [], ())" for n
    by (simp add: fetch pages parse_row_def three StatusOK_def StatusNotFound_def raw_map_def)
  have nine: "nat (maxPages (plain_groups\<lparr>gl_scopeVerified := v\<rparr>)) = Suc 9" using pages(1) by simp
  show ?thesis unfolding collectEndpoint_def nine one by simp
qed

theorem groups_snapshot_witness:
  "\<exists>b l' evs. gl_Collect model_net ten_oclock plain_groups zero_watermark () = (Inr b, l', evs, ()) \<and>
     bt_Watermark b = zero_watermark\<lparr>wm_Time := ten_oclock\<rparr> \<and> int (length (bt_Samples b)) \<le> 2 * 10000 * 2"
proof -
  have fields: "gl_expectedWorkspace plain_groups = ''''" "gl_maxGroups plain_groups = 10000" "gl_metadataKeys plain_groups = []"
    "gl_emitPrompts plain_groups" "length (gl_passes plain_groups) = 1" "gl_scopeVerified plain_groups = False"
    by (simp_all add: plain_groups_fields)
  have eps: "length (endpoints plain_groups) = 2" using fields by (simp add: endpoints_def)
  have "fst (snd (collect_endpoints model_net (plain_groups\<lparr>gl_scopeVerified := v\<rparr>) a b stamp jobs ())) = 0" for v a b stamp jobs
    by (induction jobs) (auto simp: model_row split: prod.splits)
  then obtain b l' evs where c: "gl_Collect model_net ten_oclock plain_groups zero_watermark () = (Inr b, l', evs, ())"
    using fields eps
    by (cases "gl_passes plain_groups")
      (auto simp: gl_Collect_def scope_gate_def Let_def endpoints_def case_prod_beta model_row split: prod.splits)
  have "plain_groups = plain_groups\<lparr>gl_scopeVerified := gl_scopeVerified plain_groups\<rparr>" by simp
  from groups_snapshot [OF plain_groups_built this c] show ?thesis using c fields eps by auto
qed

end
