(* ===== verification/Go_Json.thy ===== *)
theory Go_Json
  imports Source_Io
begin

text \<open>
  JSON text as \<^verbatim>\<open>encoding/json\<close> writes and reads it: \<open>json_text\<close> is \<^verbatim>\<open>json.Marshal\<close> on a value
  (compact, HTML-safe escapes), \<open>parse_text\<close> is the reading half of \<^verbatim>\<open>json.Unmarshal\<close>. Strings
  are the UTF-8 bytes of their text. A reader's fuel is the length of its input, and every
  recursive call is on a shorter rest.
\<close>

section \<open>Writing\<close>

definition hex_low :: "nat \<Rightarrow> char" where
  "hex_low n = (if n < 10 then char_of (48 + n) else char_of (87 + n))"

definition u_escape :: "nat \<Rightarrow> string" where
  "u_escape n = [CHR 0x5C, CHR ''u'', hex_low (n div 4096), hex_low (n div 256 mod 16), hex_low (n div 16 mod 16), hex_low (n mod 16)]"

definition escape_char :: "char \<Rightarrow> string" where
  "escape_char c =
     (let n = of_char c :: nat in
      if n = 34 then [CHR 0x5C, c]
      else if n = 92 then [CHR 0x5C, c]
      else if n = 8 then [CHR 0x5C, CHR ''b'']
      else if n = 12 then [CHR 0x5C, CHR ''f'']
      else if n = 10 then [CHR 0x5C, CHR ''n'']
      else if n = 13 then [CHR 0x5C, CHR ''r'']
      else if n = 9 then [CHR 0x5C, CHR ''t'']
      else if n < 32 \<or> n = 60 \<or> n = 62 \<or> n = 38 then u_escape n
      else [c])"

definition line_sep :: string where "line_sep = [CHR 0xE2, CHR 0x80, CHR 0xA8]"
definition para_sep :: string where "para_sep = [CHR 0xE2, CHR 0x80, CHR 0xA9]"

fun escape :: "string \<Rightarrow> string" where
  "escape [] = []"
| "escape (c # s) =
     (if prefix line_sep (c # s) then u_escape 0x2028 @ escape (drop 2 s)
      else if prefix para_sep (c # s) then u_escape 0x2029 @ escape (drop 2 s)
      else escape_char c @ escape s)"

definition quote :: "string \<Rightarrow> string" where
  "quote s = CHR 0x22 # escape s @ [CHR 0x22]"

fun json_text :: "json \<Rightarrow> string" where
  "json_text JNull = ''null''"
| "json_text (JBool b) = (if b then ''true'' else ''false'')"
| "json_text (JNum n) = n"
| "json_text (JStr s) = quote s"
| "json_text (JArr js) = ''['' @ join_with '','' (map json_text js) @ '']''"
| "json_text (JObj kvs) = ''{'' @ join_with '','' (map (\<lambda>(k, j). quote k @ '':'' @ json_text j) kvs) @ ''}''"

section \<open>Reading\<close>

definition json_space :: "char \<Rightarrow> bool" where
  "json_space c \<longleftrightarrow> c \<in> {CHR '' '', CHR 0x09, CHR 0x0A, CHR 0x0D}"

definition skip_ws :: "string \<Rightarrow> string" where
  "skip_ws s = dropWhile json_space s"

definition hex_digit_val :: "char \<Rightarrow> nat option" where
  "hex_digit_val c =
     (let n = of_char c in
      if 48 \<le> n \<and> n \<le> 57 then Some (n - 48)
      else if 97 \<le> n \<and> n \<le> 102 then Some (n - 87)
      else if 65 \<le> n \<and> n \<le> 70 then Some (n - 55)
      else None)"

fun hex4 :: "string \<Rightarrow> (nat \<times> string) option" where
  "hex4 (a # b # c # d # s) =
     (case (hex_digit_val a, hex_digit_val b, hex_digit_val c, hex_digit_val d) of
        (Some w, Some x, Some y, Some z) \<Rightarrow> Some (4096 * w + 256 * x + 16 * y + z, s)
      | _ \<Rightarrow> None)"
| "hex4 _ = None"

definition utf8 :: "nat \<Rightarrow> string" where
  "utf8 n =
     (if n < 0x80 then [char_of n]
      else if n < 0x800 then [char_of (0xC0 + n div 64), char_of (0x80 + n mod 64)]
      else if n < 0x10000 then [char_of (0xE0 + n div 4096), char_of (0x80 + n div 64 mod 64), char_of (0x80 + n mod 64)]
      else [char_of (0xF0 + n div 262144), char_of (0x80 + n div 4096 mod 64), char_of (0x80 + n div 64 mod 64), char_of (0x80 + n mod 64)])"

text \<open>An escaped code unit; a surrogate that has no partner reads as U+FFFD.\<close>

definition code_unit :: "nat \<Rightarrow> string \<Rightarrow> string \<times> string" where
  "code_unit n s =
     (if n < 0xD800 \<or> 0xE000 \<le> n then (utf8 n, s)
      else case s of
        b # u # s1 \<Rightarrow>
          (case hex4 s1 of
             Some (m, s2) \<Rightarrow>
               (if b = CHR 0x5C \<and> u = CHR ''u'' \<and> n < 0xDC00 \<and> 0xDC00 \<le> m \<and> m < 0xE000
                then (utf8 ((n - 0xD800) * 1024 + (m - 0xDC00) + 0x10000), s2)
                else (utf8 0xFFFD, s))
           | None \<Rightarrow> (utf8 0xFFFD, s))
      | _ \<Rightarrow> (utf8 0xFFFD, s))"

definition short_escape :: "char \<Rightarrow> char option" where
  "short_escape e =
     (if e = CHR 0x22 \<or> e = CHR 0x5C \<or> e = CHR ''/'' then Some e
      else if e = CHR ''b'' then Some (CHR 0x08)
      else if e = CHR ''f'' then Some (CHR 0x0C)
      else if e = CHR ''n'' then Some (CHR 0x0A)
      else if e = CHR ''r'' then Some (CHR 0x0D)
      else if e = CHR ''t'' then Some (CHR 0x09)
      else None)"

definition put :: "string \<Rightarrow> (string \<times> string) option \<Rightarrow> (string \<times> string) option" where
  "put b r = map_option (apfst (\<lambda>s. b @ s)) r"

text \<open>The rest of a string after its opening quote: its bytes and what follows the closing quote.\<close>

fun parse_str :: "nat \<Rightarrow> string \<Rightarrow> (string \<times> string) option" where
  "parse_str 0 s = None"
| "parse_str (Suc n) s =
     (case s of
        [] \<Rightarrow> None
      | c # s1 \<Rightarrow>
          (if c = CHR 0x22 then Some ([], s1)
           else if (of_char c :: nat) < 32 then None
           else if c \<noteq> CHR 0x5C then put [c] (parse_str n s1)
           else (case s1 of
                   [] \<Rightarrow> None
                 | e # s2 \<Rightarrow>
                     (if e = CHR ''u''
                      then (case hex4 s2 of
                              None \<Rightarrow> None
                            | Some (m, s3) \<Rightarrow> (case code_unit m s3 of (b, s4) \<Rightarrow> put b (parse_str n s4)))
                      else (case short_escape e of None \<Rightarrow> None | Some d \<Rightarrow> put [d] (parse_str n s2))))))"

definition num_char :: "char \<Rightarrow> bool" where
  "num_char c \<longleftrightarrow> is_dec c \<or> c \<in> {CHR ''-'', CHR ''+'', CHR ''.'', CHR ''e'', CHR ''E''}"

definition digits1 :: "string \<Rightarrow> bool" where
  "digits1 s \<longleftrightarrow> s \<noteq> [] \<and> list_all is_dec s"

definition valid_number :: "string \<Rightarrow> bool" where
  "valid_number s0 =
     (let s = (if s0 \<noteq> [] \<and> hd s0 = CHR ''-'' then tl s0 else s0);
          whole = takeWhile is_dec s; s1 = dropWhile is_dec s;
          dot = (s1 \<noteq> [] \<and> hd s1 = CHR ''.'');
          part = (if dot then takeWhile is_dec (tl s1) else []);
          s2 = (if dot then dropWhile is_dec (tl s1) else s1);
          ex = (s2 \<noteq> [] \<and> (hd s2 = CHR ''e'' \<or> hd s2 = CHR ''E''));
          s3 = (if ex then tl s2 else s2);
          s4 = (if ex \<and> s3 \<noteq> [] \<and> (hd s3 = CHR ''+'' \<or> hd s3 = CHR ''-'') then tl s3 else s3)
      in whole \<noteq> [] \<and> (hd whole = CHR ''0'' \<longrightarrow> tl whole = []) \<and> (dot \<longrightarrow> part \<noteq> []) \<and>
         (if ex then digits1 s4 else s2 = []))"

definition parse_lit :: "string \<Rightarrow> json \<Rightarrow> string \<Rightarrow> (json \<times> string) option" where
  "parse_lit w j s = (if prefix w s then Some (j, drop (length w) s) else None)"

definition parse_num :: "string \<Rightarrow> (json \<times> string) option" where
  "parse_num s =
     (let lit = takeWhile num_char s in if valid_number lit then Some (JNum lit, dropWhile num_char s) else None)"

definition expect :: "char \<Rightarrow> string \<Rightarrow> string option" where
  "expect c s = (case skip_ws s of [] \<Rightarrow> None | x # r \<Rightarrow> if x = c then Some r else None)"

fun parse_json :: "nat \<Rightarrow> string \<Rightarrow> (json \<times> string) option"
  and parse_elems :: "nat \<Rightarrow> string \<Rightarrow> (json list \<times> string) option"
  and parse_members :: "nat \<Rightarrow> string \<Rightarrow> ((string \<times> json) list \<times> string) option" where
  "parse_json 0 s = None"
| "parse_json (Suc n) s =
     (case skip_ws s of
        [] \<Rightarrow> None
      | c # s1 \<Rightarrow>
          (if c = CHR 0x22 then map_option (apfst JStr) (parse_str n s1)
           else if c = CHR ''['' then
             (case expect CHR '']'' s1 of Some r \<Rightarrow> Some (JArr [], r) | None \<Rightarrow> map_option (apfst JArr) (parse_elems n s1))
           else if c = CHR ''{'' then
             (case expect CHR ''}'' s1 of Some r \<Rightarrow> Some (JObj [], r) | None \<Rightarrow> map_option (apfst JObj) (parse_members n s1))
           else if c = CHR ''n'' then parse_lit ''null'' JNull (c # s1)
           else if c = CHR ''t'' then parse_lit ''true'' (JBool True) (c # s1)
           else if c = CHR ''f'' then parse_lit ''false'' (JBool False) (c # s1)
           else parse_num (c # s1)))"
| "parse_elems 0 s = None"
| "parse_elems (Suc n) s =
     (case parse_json n s of
        None \<Rightarrow> None
      | Some (j, r) \<Rightarrow>
          (case expect CHR '']'' r of
             Some r1 \<Rightarrow> Some ([j], r1)
           | None \<Rightarrow> (case expect CHR '','' r of None \<Rightarrow> None | Some r1 \<Rightarrow> map_option (apfst ((#) j)) (parse_elems n r1))))"
| "parse_members 0 s = None"
| "parse_members (Suc n) s =
     (case expect CHR 0x22 s of
        None \<Rightarrow> None
      | Some s1 \<Rightarrow>
          (case parse_str n s1 of
             None \<Rightarrow> None
           | Some (k, s2) \<Rightarrow>
               (case expect CHR '':'' s2 of
                  None \<Rightarrow> None
                | Some s3 \<Rightarrow>
                    (case parse_json n s3 of
                       None \<Rightarrow> None
                     | Some (j, r) \<Rightarrow>
                         (case expect CHR ''}'' r of
                            Some r1 \<Rightarrow> Some ([(k, j)], r1)
                          | None \<Rightarrow>
                              (case expect CHR '','' r of
                                 None \<Rightarrow> None
                               | Some r1 \<Rightarrow> map_option (apfst ((#) (k, j))) (parse_members n r1)))))))"

definition parse_text :: "string \<Rightarrow> json option" where
  "parse_text s =
     (case parse_json (Suc (length s)) s of
        None \<Rightarrow> None
      | Some (j, r) \<Rightarrow> if skip_ws r = [] then Some j else None)"

section \<open>Reading back what was written\<close>

lemma hex_digit_low [simp]: "n < 16 \<Longrightarrow> hex_digit_val (hex_low n) = Some n"
  by (auto simp: hex_digit_val_def hex_low_def Let_def)

lemma hex4_escape:
  assumes "n < 65536"
  shows "hex4 (drop 2 (u_escape n) @ s) = Some (n, s)"
proof -
  have "n div 4096 < 16" using assms by (simp add: less_mult_imp_div_less)
  moreover have "4096 * (n div 4096) + 256 * (n div 256 mod 16) + 16 * (n div 16 mod 16) + n mod 16 = n"
  proof -
    define a where "a = n div 16"
    define b where "b = a div 16"
    have quots: "n div 256 = b" "n div 4096 = b div 16" by (simp_all add: a_def b_def div_mult2_eq [symmetric])
    have "n = 16 * a + n mod 16" "a = 16 * b + a mod 16" "b = 16 * (b div 16) + b mod 16" by (simp_all add: a_def b_def)
    then have "n = 16 * (16 * (16 * (b div 16) + b mod 16) + a mod 16) + n mod 16" by presburger
    then show ?thesis unfolding quots a_def [symmetric] by (simp only: distrib_left mult.assoc [symmetric])
  qed
  ultimately show ?thesis by (simp add: u_escape_def)
qed

lemma parse_str_u_escape:
  assumes "n < 65536" "n < 0xD800 \<or> 0xE000 \<le> n"
  shows "parse_str (Suc m) (u_escape n @ t) = put (utf8 n) (parse_str m t)"
proof -
  have split: "u_escape n @ t = CHR 0x5C # CHR ''u'' # (drop 2 (u_escape n) @ t)" by (simp add: u_escape_def)
  show ?thesis unfolding split using hex4_escape [OF assms(1), of t] assms(2) by (simp add: code_unit_def)
qed

lemma low_chars:
  "char_of (34 :: nat) = CHR 0x22" "char_of (92 :: nat) = CHR 0x5C" "char_of (8 :: nat) = CHR 0x08" "char_of (12 :: nat) = CHR 0x0C"
  "char_of (10 :: nat) = CHR 0x0A" "char_of (13 :: nat) = CHR 0x0D" "char_of (9 :: nat) = CHR 0x09"
  "char_of (226 :: nat) = CHR 0xE2" "char_of (128 :: nat) = CHR 0x80" "char_of (168 :: nat) = CHR 0xA8" "char_of (169 :: nat) = CHR 0xA9"
  by code_simp+

lemma parse_str_char: "parse_str (Suc m) (escape_char c @ t) = put [c] (parse_str m t)"
proof -
  define n where "n = (of_char c :: nat)"
  have c: "c = char_of n" and n: "n < 256" by (simp_all add: n_def)
  consider "n = 34 \<or> n = 92" | "n = 8 \<or> n = 12 \<or> n = 10 \<or> n = 13 \<or> n = 9"
    | "n \<noteq> 34" "n \<noteq> 92" "\<not> (n = 8 \<or> n = 12 \<or> n = 10 \<or> n = 13 \<or> n = 9)" "n < 32 \<or> n = 60 \<or> n = 62 \<or> n = 38"
    | "n \<noteq> 34" "n \<noteq> 92" "32 \<le> n" "n \<noteq> 60" "n \<noteq> 62" "n \<noteq> 38" by linarith
  then show ?thesis
  proof cases
    case 1
    then have "c = CHR 0x22 \<or> c = CHR 0x5C" unfolding c using low_chars by metis
    then show ?thesis by (auto simp: escape_char_def short_escape_def)
  next
    case 2
    then have "c \<in> {CHR 0x08, CHR 0x0C, CHR 0x0A, CHR 0x0D, CHR 0x09}" unfolding c using low_chars by (metis insert_iff)
    then show ?thesis by (auto simp: escape_char_def short_escape_def)
  next
    case 3
    then have "escape_char c = u_escape n" by (simp add: escape_char_def n_def)
    moreover have "utf8 n = [c]" using 3 c by (auto simp: utf8_def)
    ultimately show ?thesis using parse_str_u_escape [of n m t] n by simp
  next
    case 4
    then have "escape_char c = [c]" by (simp add: escape_char_def n_def)
    moreover have "c \<noteq> CHR 0x22" "c \<noteq> CHR 0x5C" using 4(1,2) unfolding n_def by auto
    ultimately show ?thesis using 4(3) by (simp add: n_def)
  qed
qed

lemma utf8_separators: "utf8 0x2028 = line_sep" "utf8 0x2029 = para_sep"
  by (simp_all add: utf8_def line_sep_def para_sep_def low_chars)

lemma escape_char_ne: "escape_char c \<noteq> []"
  by (simp add: escape_char_def u_escape_def Let_def)

lemma length_escape_char: "1 \<le> length (escape_char c)"
  using escape_char_ne [of c] by (cases "escape_char c") auto

lemma prefix_three: "prefix [a, b, c] (x # s) \<Longrightarrow> x # s = [a, b, c] @ drop 2 s"
  by (auto simp: prefix_def)

lemma parse_str_escape:
  "length (escape s) < n \<Longrightarrow> parse_str n (escape s @ CHR 0x22 # r) = Some (s, r)"
proof (induction s arbitrary: n rule: escape.induct)
  case 1
  then show ?case by (cases n) auto
next
  case (2 c s)
  from "2.prems" obtain m where n: "n = Suc m" by (cases n) auto
  consider (line) "prefix line_sep (c # s)" | (para) "\<not> prefix line_sep (c # s)" "prefix para_sep (c # s)"
    | (char) "\<not> prefix line_sep (c # s)" "\<not> prefix para_sep (c # s)" by blast
  then show ?case
  proof cases
    case line
    then have ih: "parse_str m (escape (drop 2 s) @ CHR 0x22 # r) = Some (drop 2 s, r)"
      using "2.IH"(1) [OF line, of m] "2.prems" n by (simp add: u_escape_def)
    have e: "escape (c # s) = u_escape 0x2028 @ escape (drop 2 s)" using line by simp
    have "parse_str n (escape (c # s) @ CHR 0x22 # r) = put (utf8 0x2028) (parse_str m (escape (drop 2 s) @ CHR 0x22 # r))"
      unfolding n e append_assoc by (rule parse_str_u_escape) simp_all
    also have "\<dots> = Some (line_sep @ drop 2 s, r)" by (simp only: ih put_def utf8_separators) simp
    also have "line_sep @ drop 2 s = c # s" using prefix_three [OF line [unfolded line_sep_def]] unfolding line_sep_def by simp
    finally show ?thesis .
  next
    case para
    then have ih: "parse_str m (escape (drop 2 s) @ CHR 0x22 # r) = Some (drop 2 s, r)"
      using "2.IH"(2) [OF para, of m] "2.prems" n by (simp add: u_escape_def)
    have e: "escape (c # s) = u_escape 0x2029 @ escape (drop 2 s)" using para by simp
    have "parse_str n (escape (c # s) @ CHR 0x22 # r) = put (utf8 0x2029) (parse_str m (escape (drop 2 s) @ CHR 0x22 # r))"
      unfolding n e append_assoc by (rule parse_str_u_escape) simp_all
    also have "\<dots> = Some (para_sep @ drop 2 s, r)" by (simp only: ih put_def utf8_separators) simp
    also have "para_sep @ drop 2 s = c # s" using prefix_three [OF para(2) [unfolded para_sep_def]] unfolding para_sep_def by simp
    finally show ?thesis .
  next
    case char
    then have "parse_str m (escape s @ CHR 0x22 # r) = Some (s, r)"
      using "2.IH"(3) [OF char, of m] "2.prems" n length_escape_char [of c] by simp
    then show ?thesis using char parse_str_char [of m c "escape s @ CHR 0x22 # r"] by (simp add: n put_def)
  qed
qed

fun json_ok :: "json \<Rightarrow> bool" where
  "json_ok (JNum n) = (valid_number n \<and> list_all num_char n)"
| "json_ok (JArr js) = (\<forall>j\<in>set js. json_ok j)"
| "json_ok (JObj kvs) = (\<forall>p\<in>set kvs. json_ok (snd p))"
| "json_ok _ = True"

definition num_end :: "string \<Rightarrow> bool" where
  "num_end r \<longleftrightarrow> r = [] \<or> \<not> num_char (hd r)"

lemma expect_hit [simp]: "\<not> json_space c \<Longrightarrow> expect c (c # r) = Some r"
  by (simp add: expect_def skip_ws_def)

lemma expect_miss: "\<not> json_space x \<Longrightarrow> x \<noteq> c \<Longrightarrow> expect c (x # r) = None"
  by (simp add: expect_def skip_ws_def)

lemma punct_space [simp]:
  "\<not> json_space (CHR '','')" "\<not> json_space (CHR '']'')" "\<not> json_space (CHR ''}'')" "\<not> json_space (CHR '':'')"
  "\<not> json_space (CHR 0x22)" "\<not> json_space (CHR ''['')" "\<not> json_space (CHR ''{'')"
  by (simp_all add: json_space_def)

lemma punct_num [simp]: "num_end (CHR '','' # r)" "num_end (CHR '']'' # r)" "num_end (CHR ''}'' # r)" "num_end []"
  by (simp_all add: num_end_def num_char_def is_dec_def digit_val_def)

text \<open>The first character of a value's text.\<close>

definition start_char :: "char \<Rightarrow> bool" where
  "start_char c \<longleftrightarrow> is_dec c \<or> c \<in> {CHR ''-'', CHR 0x22, CHR ''['', CHR ''{'', CHR ''n'', CHR ''t'', CHR ''f''}"

lemma dec_not_special:
  "is_dec c \<Longrightarrow> \<not> json_space c \<and> c \<notin> {CHR '']'', CHR ''}'', CHR '','', CHR 0x22, CHR ''['', CHR ''{'', CHR ''n'', CHR ''t'', CHR ''f''}"
  by (auto simp: is_dec_def digit_val_def json_space_def)

lemma start_char_not: "start_char c \<Longrightarrow> \<not> json_space c \<and> c \<noteq> CHR '']'' \<and> c \<noteq> CHR ''}'' \<and> c \<noteq> CHR '',''"
  using dec_not_special [of c] by (auto simp: start_char_def json_space_def)

lemma valid_number_start:
  assumes "valid_number s"
  shows "\<exists>c r. s = c # r \<and> (is_dec c \<or> c = CHR ''-'')"
proof (cases s)
  case Nil
  then show ?thesis using assms by (simp add: valid_number_def)
next
  case (Cons c r)
  have "is_dec c \<or> c = CHR ''-''"
    by (rule ccontr) (use assms Cons in \<open>simp add: valid_number_def Let_def\<close>)
  then show ?thesis using Cons by auto
qed

lemma json_text_start: "json_ok j \<Longrightarrow> \<exists>c r. json_text j = c # r \<and> start_char c"
  using valid_number_start by (cases j) (simp_all add: start_char_def quote_def, blast)

lemma parse_num_text:
  assumes "valid_number s" "list_all num_char s" "num_end r"
  shows "parse_num (s @ r) = Some (JNum s, r)"
proof -
  have "takeWhile num_char (s @ r) = s" "dropWhile num_char (s @ r) = r"
    using assms(2,3) by (cases r; simp add: num_end_def list_all_iff takeWhile_append2 dropWhile_append2)+
  then show ?thesis using assms(1) by (simp add: parse_num_def)
qed

lemma parse_elems_text:
  assumes "js \<noteq> []" "\<And>j n r. j \<in> set js \<Longrightarrow> num_end r \<Longrightarrow> length (json_text j) < n \<Longrightarrow> parse_json n (json_text j @ r) = Some (j, r)"
    and "length (join_with '','' (map json_text js)) + 1 < n" "\<forall>j\<in>set js. json_ok j"
  shows "parse_elems n (join_with '','' (map json_text js) @ CHR '']'' # r) = Some (js, r)"
  using assms
proof (induction js arbitrary: n rule: list_nonempty_induct)
  case (single j)
  then obtain m where n: "n = Suc m" by (cases n) auto
  have "parse_json m (json_text j @ CHR '']'' # r) = Some (j, CHR '']'' # r)"
    by (rule single.prems(1)) (use single.prems n in simp_all)
  then show ?case by (simp add: n)
next
  case (cons j js)
  then obtain m where n: "n = Suc m" by (cases n) auto
  have start: "json_text j \<noteq> []" using json_text_start [of j] cons.prems(3) by auto
  obtain k ks where js: "js = k # ks" using cons.hyps by (cases js) auto
  have split: "join_with '','' (map json_text (j # js)) = json_text j @ CHR '','' # join_with '','' (map json_text js)"
    by (simp add: js)
  have "parse_json m (json_text j @ CHR '','' # (join_with '','' (map json_text js) @ CHR '']'' # r)) =
      Some (j, CHR '','' # (join_with '','' (map json_text js) @ CHR '']'' # r))"
    by (rule cons.prems(1)) (use cons.prems(2) split n in simp_all)
  moreover have "parse_elems m (join_with '','' (map json_text js) @ CHR '']'' # r) = Some (js, r)"
  proof (rule cons.IH)
    have "length (json_text j) \<ge> 1" using start by (cases "json_text j") auto
    then show "length (join_with '','' (map json_text js)) + 1 < m" using cons.prems(2) unfolding split n by simp
  qed (use cons.prems in auto)
  ultimately show ?case unfolding n split by (simp add: expect_miss)
qed

abbreviation member_text :: "string \<times> json \<Rightarrow> string" where
  "member_text \<equiv> \<lambda>(k, j). quote k @ '':'' @ json_text j"

lemma parse_member:
  assumes "num_end r" "length (member_text (k, j)) < Suc m" "json_ok j"
    and "\<And>n. length (json_text j) < n \<Longrightarrow> parse_json n (json_text j @ r) = Some (j, r)"
  shows "parse_members (Suc m) (member_text (k, j) @ r) =
    (case expect CHR ''}'' r of Some r1 \<Rightarrow> Some ([(k, j)], r1)
     | None \<Rightarrow> (case expect CHR '','' r of None \<Rightarrow> None | Some r1 \<Rightarrow> map_option (apfst ((#) (k, j))) (parse_members m r1)))"
proof -
  have "parse_str m (escape k @ CHR 0x22 # (CHR '':'' # json_text j @ r)) = Some (k, CHR '':'' # json_text j @ r)"
    by (rule parse_str_escape) (use assms(2) in \<open>simp add: quote_def\<close>)
  moreover have "parse_json m (json_text j @ r) = Some (j, r)" by (rule assms(4)) (use assms(2) in \<open>simp add: quote_def\<close>)
  ultimately show ?thesis by (simp add: quote_def)
qed

lemma parse_members_text:
  assumes "kvs \<noteq> []" "\<And>p n r. p \<in> set kvs \<Longrightarrow> num_end r \<Longrightarrow> length (json_text (snd p)) < n \<Longrightarrow>
      parse_json n (json_text (snd p) @ r) = Some (snd p, r)"
    and "length (join_with '','' (map member_text kvs)) + 1 < n" "\<forall>p\<in>set kvs. json_ok (snd p)"
  shows "parse_members n (join_with '','' (map member_text kvs) @ CHR ''}'' # r) = Some (kvs, r)"
  using assms
proof (induction kvs arbitrary: n rule: list_nonempty_induct)
  case (single p)
  obtain k j where p: "p = (k, j)" by (cases p)
  from single obtain m where n: "n = Suc m" by (cases n) auto
  have "parse_members (Suc m) (member_text (k, j) @ CHR ''}'' # r) = Some ([(k, j)], r)"
  proof (subst parse_member)
    show "length (json_text j) < n' \<Longrightarrow> parse_json n' (json_text j @ CHR ''}'' # r) = Some (j, CHR ''}'' # r)" for n'
      using single.prems(1) [of p "CHR ''}'' # r" n'] by (simp add: p)
  qed (use single.prems p n in simp_all)
  then show ?case by (simp add: n p)
next
  case (cons p kvs)
  obtain k j where p: "p = (k, j)" by (cases p)
  from cons obtain m where n: "n = Suc m" by (cases n) auto
  have split: "join_with '','' (map member_text (p # kvs)) = member_text (k, j) @ CHR '','' # join_with '','' (map member_text kvs)"
    using cons.hyps by (cases kvs) (simp_all add: p)
  let ?r = "CHR '','' # (join_with '','' (map member_text kvs) @ CHR ''}'' # r)"
  have len: "length (member_text (k, j)) + 1 + length (join_with '','' (map member_text kvs)) < m"
    using cons.prems(2) unfolding split n by simp
  have tail: "parse_members m (join_with '','' (map member_text kvs) @ CHR ''}'' # r) = Some (kvs, r)"
    by (rule cons.IH) (use cons.prems len in auto)
  have "parse_members (Suc m) (member_text (k, j) @ ?r) = Some ((k, j) # kvs, r)"
  proof (subst parse_member)
    show "length (json_text j) < n' \<Longrightarrow> parse_json n' (json_text j @ ?r) = Some (j, ?r)" for n'
      using cons.prems(1) [of p ?r n'] by (simp add: p)
  qed (use cons.prems(3) p len tail in \<open>simp_all add: expect_miss\<close>)
  then show ?case unfolding n split by (simp add: p del: parse_members.simps)
qed

lemma parse_json_text:
  "json_ok j \<Longrightarrow> num_end r \<Longrightarrow> length (json_text j) < n \<Longrightarrow> parse_json n (json_text j @ r) = Some (j, r)"
proof (induction j arbitrary: n r rule: json_text.induct)
  case (3 num)
  then obtain m where n: "n = Suc m" by (cases n) auto
  obtain c t where num: "num = c # t" and c: "is_dec c \<or> c = CHR ''-''"
    using "3.prems"(1) valid_number_start [of num] by auto
  have "\<not> json_space c \<and> c \<notin> {CHR 0x22, CHR ''['', CHR ''{'', CHR ''n'', CHR ''t'', CHR ''f''}"
    using c dec_not_special [of c] by (elim disjE) (simp, simp add: json_space_def)
  then show ?case using parse_num_text [of num r] "3.prems" by (simp add: n num skip_ws_def)
next
  case (4 s)
  then obtain m where n: "n = Suc m" by (cases n) auto
  have "parse_str m (escape s @ CHR 0x22 # r) = Some (s, r)" by (rule parse_str_escape) (use 4 n in \<open>simp add: quote_def\<close>)
  then show ?case by (simp add: n quote_def skip_ws_def)
next
  case (5 js)
  then obtain m where n: "n = Suc m" by (cases n) auto
  show ?case
  proof (cases "js = []")
    case True
    then show ?thesis by (simp add: n skip_ws_def)
  next
    case False
    then obtain j ks where js: "js = j # ks" by (cases js) auto
    obtain c t where "json_text j = c # t" "start_char c" using json_text_start [of j] "5.prems"(1) js by auto
    then obtain t' where t': "join_with '','' (map json_text js) = c # t'" and c: "start_char c" by (cases ks) (auto simp: js)
    have "parse_elems m (join_with '','' (map json_text js) @ CHR '']'' # r) = Some (js, r)"
      by (rule parse_elems_text) (use False "5.IH" "5.prems" n in auto)
    then show ?thesis unfolding n t' using start_char_not [OF c]
      by (simp add: t' skip_ws_def expect_miss del: parse_elems.simps)
  qed
next
  case (6 kvs)
  then obtain m where n: "n = Suc m" by (cases n) auto
  show ?case
  proof (cases "kvs = []")
    case True
    then show ?thesis by (simp add: n skip_ws_def)
  next
    case False
    then obtain k j ks where kvs: "kvs = (k, j) # ks" by (cases kvs) auto
    have t': "join_with '','' (map member_text kvs) = CHR 0x22 # tl (join_with '','' (map member_text kvs))"
      by (cases ks) (simp_all add: kvs quote_def)
    have "parse_members m (join_with '','' (map member_text kvs) @ CHR ''}'' # r) = Some (kvs, r)"
      by (rule parse_members_text) (use False "6.IH" "6.prems" n in auto)
    moreover have "expect CHR ''}'' (join_with '','' (map member_text kvs) @ CHR ''}'' # r) = None"
      by (subst t') (simp add: expect_miss)
    ultimately show ?thesis unfolding n by (simp add: skip_ws_def del: parse_members.simps)
  qed
next
  case 1
  then obtain m where "n = Suc m" by (cases n) auto
  then show ?case by (simp add: skip_ws_def json_space_def parse_lit_def)
next
  case (2 b)
  then obtain m where "n = Suc m" by (cases n) auto
  then show ?case by (cases b) (simp_all add: skip_ws_def json_space_def parse_lit_def)
qed

lemma parse_text_round: "json_ok j \<Longrightarrow> parse_text (json_text j) = Some j"
  using parse_json_text [of j "[]" "Suc (length (json_text j))"] by (simp add: parse_text_def skip_ws_def del: parse_json.simps)

lemma digit_char_dec: "d < 10 \<Longrightarrow> is_dec (digit_char d)"
  by (simp add: is_dec_def digit_char_def digit_val_def)

lemma itoa_digits_dec: "list_all is_dec (itoa n)"
  using itoa_digits digit_char_dec by (fastforce simp: list_all_iff)

lemma itoa_no_leading_zero: "0 < n \<Longrightarrow> hd (itoa n) \<noteq> CHR ''0''"
proof (induction n rule: itoa.induct)
  case (1 n)
  have char: "char_of (48 :: nat) = CHR ''0''" by code_simp
  have zero: "digit_char d = CHR ''0'' \<longleftrightarrow> d = 0" if "d < 10" for d
    using that by (auto simp: digit_char_def char dest: arg_cong [of _ _ "of_char :: char \<Rightarrow> nat"])
  show ?case
  proof (cases "n < 10")
    case True
    then show ?thesis using 1 zero by (simp add: itoa.simps [of n])
  next
    case False
    then have "0 < n div 10" by simp
    then show ?thesis using 1 False by (simp add: itoa.simps [of n] hd_append)
  qed
qed

lemma valid_number_FormatInt: "valid_number (FormatInt i) \<and> list_all num_char (FormatInt i)"
proof -
  have whole: "takeWhile is_dec (itoa n) = itoa n" "dropWhile is_dec (itoa n) = []" "Ball (set (itoa n)) is_dec" for n
    using itoa_digits_dec [of n] by (simp_all add: list_all_iff takeWhile_eq_all_conv)
  have lead: "hd (itoa n) = CHR ''0'' \<longrightarrow> tl (itoa n) = []" for n
    using itoa_no_leading_zero [of n] by (cases "n = 0") (auto simp: itoa.simps [of 0])
  have "hd (itoa n) \<noteq> CHR ''-''" for n using itoa_hd_not_sign by blast
  then have "valid_number (itoa n)" "valid_number (CHR ''-'' # itoa n)" for n
    by (simp_all add: valid_number_def Let_def whole lead)
  moreover have "list_all num_char (itoa n)" for n using itoa_digits_dec [of n] by (auto simp: list_all_iff num_char_def)
  ultimately show ?thesis by (simp add: FormatInt_def num_char_def)
qed

end
