(* ===== verification/Source_Scalar.thy ===== *)
theory Source_Scalar
  imports Go_Json
begin

text \<open>
  What the two log strips share: \<^verbatim>\<open>strconv.FormatFloat(f, 'f', -1, 64)\<close>, the rendering of a
  JSON scalar, hexadecimal text, and splitting a record's fields between the two tiers of a
  log record by allow-lists. A float64 of the model has no signed zero, so the sign of a
  number that rounds to zero is read off its literal.
\<close>

section \<open>The shortest decimal of a float64\<close>

definition dec_exponent :: "rat \<Rightarrow> int" where
  "dec_exponent q =
     (case quotient_of q of (n, d) \<Rightarrow>
        let e = int (length (itoa (nat n))) - int (length (itoa (nat d)))
        in if pow10 e \<le> q then e else e - 1)"

text \<open>
  The nearest decimal of \<open>n\<close> significant digits that reads back as \<open>q\<close>, for the least such
  \<open>n\<close>; with it the number of decimal places. Seventeen digits always do; past them \<open>q\<close>
  itself is taken, so that what is written reads back as \<open>q\<close> in any case.
\<close>

fun shortest :: "nat \<Rightarrow> nat \<Rightarrow> rat \<Rightarrow> int \<Rightarrow> rat \<times> nat" where
  "shortest 0 n q e = (q, nat (int n - e))"
| "shortest (Suc fuel) n q e =
     (let s = pow10 (e + 1 - int n); m = \<lfloor>q / s\<rfloor>;
          lo = of_int m * s; hi = of_int (m + 1) * s; places = nat (int n - 1 - e)
      in if round64 lo = Fin q \<and> (round64 hi \<noteq> Fin q \<or> q - lo \<le> hi - q) then (lo, places)
         else if round64 hi = Fin q then (hi, places)
         else shortest fuel (Suc n) q e)"

fun pad_digits_to :: "nat \<Rightarrow> nat \<Rightarrow> string" where
  "pad_digits_to 0 n = []"
| "pad_digits_to (Suc w) n = pad_digits_to w (n div 10) @ [digit_char (n mod 10)]"

definition plain_decimal :: "rat \<Rightarrow> nat \<Rightarrow> string" where
  "plain_decimal v places =
     (let n = nat \<lfloor>v * 10 ^ places\<rfloor>;
          part = rev (dropWhile (\<lambda>c. c = CHR ''0'') (rev (pad_digits_to places (n mod 10 ^ places))))
      in itoa (n div 10 ^ places) @ (if part = [] then [] else CHR ''.'' # part))"

fun FormatFloat :: "float64 \<Rightarrow> string" where
  "FormatFloat FNaN = ''NaN''"
| "FormatFloat (FInf neg) = (if neg then ''-Inf'' else ''+Inf'')"
| "FormatFloat (Fin q) =
     (if q = 0 then ''0''
      else (if q < 0 then ''-'' else '''') @
           (case shortest 17 1 \<bar>q\<bar> (dec_exponent \<bar>q\<bar>) of (v, places) \<Rightarrow> plain_decimal v places))"

definition FormatBool :: "bool \<Rightarrow> string" where
  "FormatBool b = (if b then ''true'' else ''false'')"

definition format_number :: "string \<Rightarrow> string option" where
  "format_number lit =
     (case number_float lit of
        None \<Rightarrow> None
      | Some f \<Rightarrow> Some (if f = Fin 0 \<and> HasPrefix lit ''-'' then ''-0'' else FormatFloat f))"

fun json_scalar :: "json \<Rightarrow> string option" where
  "json_scalar (JStr s) = Some s"
| "json_scalar (JNum n) = format_number n"
| "json_scalar (JBool b) = Some (FormatBool b)"
| "json_scalar _ = None"

section \<open>Hexadecimal text\<close>

fun hex_decode :: "string \<Rightarrow> string option" where
  "hex_decode [] = Some []"
| "hex_decode [c] = None"
| "hex_decode (a # b # s) =
     (case (hex_digit_val a, hex_digit_val b, hex_decode s) of
        (Some x, Some y, Some r) \<Rightarrow> Some (char_of (16 * x + y) # r)
      | _ \<Rightarrow> None)"

fun hex_encode :: "string \<Rightarrow> string" where
  "hex_encode [] = []"
| "hex_encode (c # s) = (let n = of_char c in hex_low (n div 16) # hex_low (n mod 16) # hex_encode s)"

section \<open>Allow-lists\<close>

text \<open>
  The field of a record under a name, rendered where it can be.
\<close>

definition field_value :: "(json \<Rightarrow> string option) \<Rightarrow> (string, json) fmap \<Rightarrow> string \<Rightarrow> string option" where
  "field_value render raw k = Option.bind (fmlookup raw k) render"

text \<open>A log record with only a time.\<close>

definition empty_record :: "instant \<Rightarrow> log_record" where
  "empty_record ts = \<lparr>lr_Timestamp = ts, lr_Body = '''', lr_Severity = '''', lr_IndexedAttributes = fmempty,
     lr_RecordAttributes = fmempty, lr_TraceID = ''''\<rparr>"

section \<open>Cursors\<close>

text \<open>Fields of a cursor that are left out when they are zero.\<close>

definition opt_str :: "string \<Rightarrow> string \<Rightarrow> (string \<times> json) list" where
  "opt_str k v = (if v = '''' then [] else [(k, JStr v)])"

definition opt_int :: "string \<Rightarrow> int \<Rightarrow> (string \<times> json) list" where
  "opt_int k v = (if v = 0 then [] else [(k, JNum (FormatInt v))])"

section \<open>Facts\<close>

lemma length_hex_decode: "hex_decode s = Some b \<Longrightarrow> length s = 2 * length b"
  by (induction s arbitrary: b rule: hex_decode.induct) (auto split: option.splits prod.splits)

lemma hex_round: "hex_decode (hex_encode s) = Some s"
proof (induction s)
  case (Cons c s)
  have "(of_char c :: nat) < 256" by simp
  then have "(of_char c :: nat) div 16 < 16" "(of_char c :: nat) mod 16 < 16" by (simp_all add: less_mult_imp_div_less)
  with Cons show ?case by (simp add: Let_def hex_digit_low)
qed simp

lemma field_value_empty [simp]: "field_value r fmempty k = None"
  by (simp add: field_value_def)

lemma field_value_absent: "k \<notin> set (sorted_keys raw) \<Longrightarrow> field_value r raw k = None"
  by (simp add: field_value_def sorted_keys_def fmdom_notD)

lemma empty_record_fields: "lr_Timestamp (empty_record ts) = ts" "lr_Body (empty_record ts) = ''''" "lr_TraceID (empty_record ts) = ''''"
  by (simp_all add: empty_record_def)

lemma dec_field_append:
  "dec_field d name (xs @ ys) old = (case dec_field d name xs old of None \<Rightarrow> None | Some v \<Rightarrow> dec_field d name ys v)"
  by (induction xs arbitrary: old) (auto split: option.splits if_splits)

lemma dec_field_opt_str: "dec_field dec_string name (opt_str k v) '''' = Some (if ToLower k = name then v else '''')"
  by (simp add: opt_str_def)

lemma dec_field_opt_int: "in_int64 v \<Longrightarrow> dec_field dec_int name (opt_int k v) 0 = Some (if ToLower k = name then v else 0)"
  by (simp add: opt_int_def ParseInt_FormatInt)

lemma dec_field_other: "ToLower k \<noteq> name \<Longrightarrow> dec_field d name (opt_str k v) old = Some old" "ToLower k \<noteq> name \<Longrightarrow> dec_field d name (opt_int k i) old = Some old"
  by (simp_all add: opt_str_def opt_int_def)

lemma shortest_reads_back: "round64 q = Fin q \<Longrightarrow> shortest fuel n q e = (v, p) \<Longrightarrow> round64 v = Fin q"
  by (induction fuel n q e rule: shortest.induct) (auto simp: Let_def split: if_splits)

end
