(* ===== verification/Portkey_Strip.thy ===== *)
theory Portkey_Strip
  imports Source_Scalar Guard Portkey_Usecase
begin

text \<open>
  The client-side strip of the Portkey log export (\<^verbatim>\<open>internal/source/portkey/logs_strip.go\<close>): the
  field policy and its builders, \<open>strip\<close>, the metadata lift, trace ids and timestamps. A raw
  record is the map of its fields; fields are visited in ascending order, which cannot be
  observed. A nil attribute map and an empty one are the same map.
\<close>

section \<open>The policy\<close>

record field_policy =
  fp_indexed :: "string fset"
  fp_record :: "string fset"
  fp_useCase :: string
  fp_metadataRecord :: "string fset"
  fp_metadataTraceID :: string
  fp_traceIDField :: string

definition policy_of :: "string fset \<Rightarrow> string fset \<Rightarrow> field_policy" where
  "policy_of ix rc = \<lparr>fp_indexed = ix, fp_record = rc, fp_useCase = '''', fp_metadataRecord = {||},
     fp_metadataTraceID = '''', fp_traceIDField = ''''\<rparr>"

definition defaultLogFieldPolicy :: field_policy where
  "defaultLogFieldPolicy = policy_of (fset_of_list [''ai_org'', ''ai_model'', ''response_status_code''])
     (fset_of_list [''id'', ''trace_id'', ''created_at'', ''response_time'', ''total_units'', ''req_units'', ''res_units'',
       ''cost'', ''prompt_slug'', ''prompt_version_id'', ''prompt_id''])"

definition withExtraRecordFields :: "field_policy \<Rightarrow> string list \<Rightarrow> field_policy" where
  "withExtraRecordFields p extra =
     (if extra = [] then p else policy_of (fp_indexed p) (fp_record p |\<union>| fset_of_list extra))"

definition withExtraIndexedFields :: "field_policy \<Rightarrow> string list \<Rightarrow> field_policy" where
  "withExtraIndexedFields p extra =
     (if extra = [] then p else policy_of (fp_indexed p |\<union>| fset_of_list extra) (fp_record p))"

definition withMetadataFields :: "field_policy \<Rightarrow> string list \<Rightarrow> string \<Rightarrow> field_policy" where
  "withMetadataFields p rec traceID =
     (if rec = [] \<and> traceID = '''' then p
      else (policy_of (fp_indexed p) (fp_record p))
        \<lparr>fp_metadataRecord := fset_of_list rec |\<union>| (if traceID \<noteq> '''' then {|traceID|} else {||}),
         fp_metadataTraceID := traceID\<rparr>)"

definition withTraceIDField :: "field_policy \<Rightarrow> string \<Rightarrow> field_policy" where
  "withTraceIDField p fld =
     (if fld = '''' then p
      else \<lparr>fp_indexed = fp_indexed p, fp_record = finsert fld (fp_record p), fp_useCase = '''',
            fp_metadataRecord = fp_metadataRecord p, fp_metadataTraceID = fp_metadataTraceID p, fp_traceIDField = fld\<rparr>)"

definition traceIDAttrKey :: "field_policy \<Rightarrow> string" where
  "traceIDAttrKey p = (if fp_metadataTraceID p \<noteq> '''' then fp_metadataTraceID p else fp_traceIDField p)"

text \<open>Fields that are never let through (\<^verbatim>\<open>logs_settings.go\<close>).\<close>

definition contentRequestKeys :: "string list" where
  "contentRequestKeys = [''prompt'', ''request'', ''response'', ''messages'', ''inputs'', ''outputs'', ''metadata'', ''portkeyHeaders'']"

definition hardDeniedLogFields :: "string list" where
  "hardDeniedLogFields = AbsoluteNeverDenyKeys @ contentRequestKeys"

section \<open>Values\<close>

definition scalarToString :: "json \<Rightarrow> string option" where
  "scalarToString raw = json_scalar raw"

definition parseTraceID :: "string \<Rightarrow> string option" where
  "parseTraceID s =
     (let h = ReplaceAll ''-'' '''' s in
      if length h \<noteq> 32 then None
      else case hex_decode h of
        None \<Rightarrow> None
      | Some b \<Rightarrow> if b = replicate 16 (CHR 0x00) then None else Some b)"

text \<open>
  The layout \<^verbatim>\<open>Mon Jan 02 2006 15:04:05 GMT-0700\<close>. Names match up to case, a blank matches a
  run of blanks (or the end of the text), a fraction of the seconds is accepted, and the
  name of the day is not compared with the date.
\<close>

definition shortDayNames :: "string list" where
  "shortDayNames = [''Sun'', ''Mon'', ''Tue'', ''Wed'', ''Thu'', ''Fri'', ''Sat'']"

definition shortMonthNames :: "string list" where
  "shortMonthNames = [''Jan'', ''Feb'', ''Mar'', ''Apr'', ''May'', ''Jun'', ''Jul'', ''Aug'', ''Sep'', ''Oct'', ''Nov'', ''Dec'']"

definition take_name :: "string list \<Rightarrow> string \<Rightarrow> (nat \<times> string) option" where
  "take_name names s =
     map_option (\<lambda>i. (i, drop 3 s))
       (find (\<lambda>i. 3 \<le> length s \<and> ToLower (take 3 s) = ToLower (names ! i)) [0..<length names])"

definition take_blank :: "string \<Rightarrow> string option" where
  "take_blank s = (if s \<noteq> [] \<and> hd s \<noteq> CHR '' '' then None else Some (dropWhile (\<lambda>c. c = CHR '' '') s))"

definition take_gmt :: "string \<Rightarrow> string option" where
  "take_gmt s = (case take_blank s of None \<Rightarrow> None | Some s1 \<Rightarrow> if prefix ''GMT'' s1 then Some (drop 3 s1) else None)"

definition take_num_zone :: "string \<Rightarrow> int option" where
  "take_num_zone s =
     (if length s \<noteq> 5 \<or> \<not> (hd s = CHR ''+'' \<or> hd s = CHR ''-'') then None
      else case (take_num 2 (tl s), take_num 2 (drop 3 s)) of
        (Some (h, _), Some (m, _)) \<Rightarrow>
          (if h \<le> 24 \<and> m \<le> 60 then Some ((if hd s = CHR ''-'' then - 1 else 1) * (h * 3600 + m * 60)) else None)
      | _ \<Rightarrow> None)"

definition take_js_date :: "string \<Rightarrow> (int \<times> int \<times> int \<times> string) option" where
  "take_js_date s0 =
     (case take_name shortDayNames s0 of None \<Rightarrow> None | Some (_, s1) \<Rightarrow>
      case Option.bind (take_blank s1) (take_name shortMonthNames) of None \<Rightarrow> None | Some (m, s2) \<Rightarrow>
      case Option.bind (take_blank s2) (take_num 2) of None \<Rightarrow> None | Some (d, s3) \<Rightarrow>
      case Option.bind (take_blank s3) (take_num 4) of None \<Rightarrow> None | Some (y, s4) \<Rightarrow> Some (y, int m + 1, d, s4))"

definition take_clock :: "string \<Rightarrow> (int \<times> int \<times> int \<times> int \<times> string) option" where
  "take_clock s0 =
     (case take_hour s0 of None \<Rightarrow> None | Some (h, s1) \<Rightarrow>
      case take_field colon s1 of None \<Rightarrow> None | Some (mi, s2) \<Rightarrow>
      case take_field colon s2 of None \<Rightarrow> None | Some (sec, s3) \<Rightarrow>
      case take_frac s3 of (ns, s4) \<Rightarrow> Some (h, mi, sec, ns, s4))"

definition ParseJSDate :: "string \<Rightarrow> instant option" where
  "ParseJSDate s0 =
     (case take_js_date s0 of None \<Rightarrow> None | Some (y, m, d, s1) \<Rightarrow>
      case Option.bind (take_blank s1) take_clock of None \<Rightarrow> None | Some (h, mi, sec, ns, s2) \<Rightarrow>
      case Option.bind (take_gmt s2) take_num_zone of None \<Rightarrow> None | Some off \<Rightarrow>
        if date_ok y m d \<and> h < 24 \<and> mi < 60 \<and> sec < 60
        then Some (instant_of y m d h mi sec ns - off * Second) else None)"

text \<open>The text before the first \<^verbatim>\<open> (\<close>.\<close>

fun cut_zone_name :: "string \<Rightarrow> string" where
  "cut_zone_name [] = []"
| "cut_zone_name (c # s) = (if prefix '' ('' (c # s) then [] else c # cut_zone_name s)"

definition parseExportTime :: "json \<Rightarrow> instant option" where
  "parseExportTime raw =
     (case dec_string raw '''' of
        None \<Rightarrow> None
      | Some s \<Rightarrow>
          (if s = '''' then None
           else case ParseRFC3339 s of Some t \<Rightarrow> Some t | None \<Rightarrow> ParseJSDate (cut_zone_name s)))"

section \<open>strip\<close>

definition strip_field :: "field_policy \<Rightarrow> (string, json) fmap \<Rightarrow> string \<Rightarrow> log_record \<Rightarrow> log_record" where
  "strip_field p raw k lr =
     (if \<not> (k |\<in>| fp_indexed p \<or> k |\<in>| fp_record p) then lr
      else case field_value scalarToString raw k of
        None \<Rightarrow> lr
      | Some s \<Rightarrow>
          (let lr1 = (if k |\<in>| fp_indexed p then lr\<lparr>lr_IndexedAttributes := fmupd k s (lr_IndexedAttributes lr)\<rparr>
                      else lr\<lparr>lr_RecordAttributes := fmupd k s (lr_RecordAttributes lr)\<rparr>)
           in if fp_traceIDField p \<noteq> '''' \<and> k = fp_traceIDField p
              then (case parseTraceID s of None \<Rightarrow> lr1 | Some tid \<Rightarrow> lr1\<lparr>lr_TraceID := tid\<rparr>)
              else lr1))"

definition lift_key :: "field_policy \<Rightarrow> (string, json) fmap \<Rightarrow> string \<Rightarrow> log_record \<Rightarrow> log_record" where
  "lift_key p meta k lr =
     (if k \<in> set hardDeniedLogFields then lr
      else case field_value scalarToString meta k of
        None \<Rightarrow> lr
      | Some s \<Rightarrow>
          (let lr1 = (if k |\<in>| fmdom (lr_RecordAttributes lr) then lr
                      else lr\<lparr>lr_RecordAttributes := fmupd k s (lr_RecordAttributes lr)\<rparr>)
           in if k = fp_metadataTraceID p
              then (case parseTraceID s of None \<Rightarrow> lr1 | Some tid \<Rightarrow> lr1\<lparr>lr_TraceID := tid\<rparr>)
              else lr1))"

definition liftMetadata :: "field_policy \<Rightarrow> json option \<Rightarrow> log_record \<Rightarrow> log_record" where
  "liftMetadata p metaRaw lr =
     (if fp_metadataRecord p = {||} then lr
      else case Option.bind metaRaw dec_raw_map of
        None \<Rightarrow> lr
      | Some meta \<Rightarrow> fold (lift_key p meta) (sorted_list_of_fset (fp_metadataRecord p)) lr)"

definition stampSource :: "log_record \<Rightarrow> log_record" where
  "stampSource lr = lr\<lparr>lr_RecordAttributes := fmupd ''source'' ''portkey'' (lr_RecordAttributes lr)\<rparr>"

definition strip :: "field_policy \<Rightarrow> (string, json) fmap \<Rightarrow> instant \<Rightarrow> log_record" where
  "strip p raw fallbackTS =
     (let lr1 = fold (strip_field p raw) (sorted_keys raw) (empty_record fallbackTS);
          lr2 = liftMetadata p (fmlookup raw ''metadata'') lr1;
          lr3 = (case Option.bind (fmlookup raw ''created_at'') parseExportTime of
                   None \<Rightarrow> lr2 | Some ts \<Rightarrow> lr2\<lparr>lr_Timestamp := ts\<rparr>)
      in stampUseCaseRecord (stampSource lr3) (fp_useCase p))"

section \<open>What strip computes\<close>

lemma parseTraceID_length: "parseTraceID s = Some b \<Longrightarrow> length b = 16 \<and> b \<noteq> replicate 16 (CHR 0x00)"
  by (auto simp: parseTraceID_def Let_def dest: length_hex_decode split: option.splits if_splits)

lemma ReplaceAll_absent: "c \<notin> set s \<Longrightarrow> ReplaceAll [c] r s = s"
  by (induction s) (auto simp: ReplaceAll.simps)

lemma ReplaceAll_hit: "ReplaceAll [c] r (c # s) = r @ ReplaceAll [c] r s"
  by (simp add: ReplaceAll.simps [of _ _ "c # s"])

lemma ReplaceAll_skip: "c \<notin> set u \<Longrightarrow> ReplaceAll [c] r (u @ s) = u @ ReplaceAll [c] r s"
proof (induction u)
  case (Cons x u)
  then show ?case by (auto simp: ReplaceAll.simps [of _ _ "x # (u @ s)"])
qed simp

lemma hex_encode_no_dash: "CHR ''-'' \<notin> set (hex_encode b)"
proof -
  have digit: "hex_low n \<noteq> CHR ''-''" if "n < 16" for n
    using hex_digit_low [OF that] by (auto simp: hex_digit_val_def)
  have "(of_char c :: nat) div 16 < 16" "(of_char c :: nat) mod 16 < 16" for c
    by (simp_all add: less_mult_imp_div_less)
  then show ?thesis using digit [symmetric] by (induction b) (auto simp: Let_def)
qed

lemma length_hex_encode [simp]: "length (hex_encode b) = 2 * length b"
  by (induction b) (auto simp: Let_def)

lemma hex_encode_append: "hex_encode (a @ b) = hex_encode a @ hex_encode b"
  by (induction a) (auto simp: Let_def)

text \<open>The five groups of a UUID's text are read as its sixteen bytes.\<close>

lemma parseTraceID_uuid:
  assumes "length (a @ b @ c @ d @ e) = 16" "a @ b @ c @ d @ e \<noteq> replicate 16 (CHR 0x00)"
  shows "parseTraceID (hex_encode a @ ''-'' @ hex_encode b @ ''-'' @ hex_encode c @ ''-'' @ hex_encode d @ ''-'' @ hex_encode e) =
    Some (a @ b @ c @ d @ e)"
proof -
  have "ReplaceAll ''-'' '''' (hex_encode a @ ''-'' @ hex_encode b @ ''-'' @ hex_encode c @ ''-'' @ hex_encode d @ ''-'' @ hex_encode e) =
      hex_encode (a @ b @ c @ d @ e)"
    by (simp add: ReplaceAll_skip ReplaceAll_hit ReplaceAll_absent hex_encode_no_dash hex_encode_append)
  then show ?thesis using assms hex_round [of "a @ b @ c @ d @ e"] by (simp add: parseTraceID_def)
qed

lemma strip_field_frame [simp]:
  "lr_Body (strip_field p raw k lr) = lr_Body lr" "lr_Severity (strip_field p raw k lr) = lr_Severity lr"
  "lr_Timestamp (strip_field p raw k lr) = lr_Timestamp lr"
  by (auto simp: strip_field_def Let_def split: option.splits)

lemma lift_key_frame [simp]:
  "lr_Body (lift_key p meta k lr) = lr_Body lr" "lr_Severity (lift_key p meta k lr) = lr_Severity lr"
  "lr_Timestamp (lift_key p meta k lr) = lr_Timestamp lr" "lr_IndexedAttributes (lift_key p meta k lr) = lr_IndexedAttributes lr"
  by (auto simp: lift_key_def Let_def split: option.splits)

lemma fold_strip_frame:
  "lr_Body (fold (strip_field p raw) ks lr) = lr_Body lr" "lr_Severity (fold (strip_field p raw) ks lr) = lr_Severity lr"
  "lr_Timestamp (fold (strip_field p raw) ks lr) = lr_Timestamp lr"
  by (induction ks arbitrary: lr) auto

lemma fold_lift_frame:
  "lr_Body (fold (lift_key p meta) ks lr) = lr_Body lr" "lr_Severity (fold (lift_key p meta) ks lr) = lr_Severity lr"
  "lr_Timestamp (fold (lift_key p meta) ks lr) = lr_Timestamp lr"
  "lr_IndexedAttributes (fold (lift_key p meta) ks lr) = lr_IndexedAttributes lr"
  by (induction ks arbitrary: lr) auto

text \<open>The two tiers after the loop over the fields.\<close>

definition indexed_value :: "field_policy \<Rightarrow> (string, json) fmap \<Rightarrow> string \<Rightarrow> string option" where
  "indexed_value p raw k = (if k |\<in>| fp_indexed p then field_value scalarToString raw k else None)"

definition record_value :: "field_policy \<Rightarrow> (string, json) fmap \<Rightarrow> string \<Rightarrow> string option" where
  "record_value p raw k = (if k |\<in>| fp_record p \<and> k |\<notin>| fp_indexed p then field_value scalarToString raw k else None)"

definition over :: "'a option \<Rightarrow> 'a option \<Rightarrow> 'a option" where
  "over new old = (case new of None \<Rightarrow> old | Some v \<Rightarrow> Some v)"

lemma fold_strip_tiers:
  "fmlookup (lr_IndexedAttributes (fold (strip_field p raw) ks lr)) k =
     over (if k \<in> set ks then indexed_value p raw k else None) (fmlookup (lr_IndexedAttributes lr) k)"
  "fmlookup (lr_RecordAttributes (fold (strip_field p raw) ks lr)) k =
     over (if k \<in> set ks then record_value p raw k else None) (fmlookup (lr_RecordAttributes lr) k)"
  by (induction ks arbitrary: lr)
    (auto simp: over_def strip_field_def indexed_value_def record_value_def Let_def split: option.splits if_splits)

lemma fold_lift_record:
  "fmlookup (lr_RecordAttributes (fold (lift_key p meta) ks lr)) k =
     over (fmlookup (lr_RecordAttributes lr) k)
       (if k \<in> set ks \<and> k \<notin> set hardDeniedLogFields then field_value scalarToString meta k else None)"
  by (induction ks arbitrary: lr)
    (auto simp: over_def lift_key_def Let_def fmdom_notI fmlookup_dom_iff split: option.splits if_splits)

definition field_trace :: "field_policy \<Rightarrow> (string, json) fmap \<Rightarrow> string option" where
  "field_trace p raw =
     (let f = fp_traceIDField p in
      if f \<noteq> '''' \<and> (f |\<in>| fp_indexed p \<or> f |\<in>| fp_record p)
      then Option.bind (field_value scalarToString raw f) parseTraceID else None)"

definition meta_trace :: "field_policy \<Rightarrow> (string, json) fmap \<Rightarrow> string option" where
  "meta_trace p meta =
     (let f = fp_metadataTraceID p in
      if f |\<in>| fp_metadataRecord p \<and> f \<notin> set hardDeniedLogFields
      then Option.bind (field_value scalarToString meta f) parseTraceID else None)"

lemma fold_strip_trace:
  "lr_TraceID (fold (strip_field p raw) ks lr) =
     (case (if fp_traceIDField p \<in> set ks then field_trace p raw else None) of None \<Rightarrow> lr_TraceID lr | Some t \<Rightarrow> t)"
  by (induction ks arbitrary: lr) (auto simp: strip_field_def field_trace_def Let_def split: option.splits if_splits)

lemma fold_lift_trace:
  "lr_TraceID (fold (lift_key p meta) ks lr) =
     (case (if fp_metadataTraceID p \<in> set ks \<and> fp_metadataTraceID p \<notin> set hardDeniedLogFields
            then Option.bind (field_value scalarToString meta (fp_metadataTraceID p)) parseTraceID else None) of
        None \<Rightarrow> lr_TraceID lr | Some t \<Rightarrow> t)"
  by (induction ks arbitrary: lr) (auto simp: lift_key_def Let_def split: option.splits if_splits)

definition metadata_of :: "(string, json) fmap \<Rightarrow> (string, json) fmap" where
  "metadata_of raw = (case Option.bind (fmlookup raw ''metadata'') dec_raw_map of None \<Rightarrow> fmempty | Some m \<Rightarrow> m)"

definition lifted_value :: "field_policy \<Rightarrow> (string, json) fmap \<Rightarrow> string \<Rightarrow> string option" where
  "lifted_value p meta k =
     (if k |\<in>| fp_metadataRecord p \<and> k \<notin> set hardDeniedLogFields then field_value scalarToString meta k else None)"

lemma liftMetadata_exact:
  "fmlookup (lr_RecordAttributes (liftMetadata p (fmlookup raw ''metadata'') lr)) k =
     over (fmlookup (lr_RecordAttributes lr) k) (lifted_value p (metadata_of raw) k)"
  "lr_TraceID (liftMetadata p (fmlookup raw ''metadata'') lr) =
     (case meta_trace p (metadata_of raw) of None \<Rightarrow> lr_TraceID lr | Some t \<Rightarrow> t)"
  "lr_IndexedAttributes (liftMetadata p m lr) = lr_IndexedAttributes lr"
  "lr_Body (liftMetadata p m lr) = lr_Body lr" "lr_Severity (liftMetadata p m lr) = lr_Severity lr"
  "lr_Timestamp (liftMetadata p m lr) = lr_Timestamp lr"
  by (auto simp: liftMetadata_def metadata_of_def lifted_value_def meta_trace_def over_def fold_lift_record fold_lift_trace fold_lift_frame
        Let_def split: option.splits)

text \<open>
  Every attribute of the result is a stamp, the scalar of an allow-listed field, or the
  scalar of a named metadata sub-key that is not on the hard deny list.
\<close>

lemma strip_exact:
  "fmlookup (lr_IndexedAttributes (strip p raw ts)) k = indexed_value p raw k"
  "fmlookup (lr_RecordAttributes (strip p raw ts)) k =
     (if k = useCaseLabelKey \<and> fp_useCase p \<noteq> '''' then Some (fp_useCase p)
      else if k = ''source'' then Some ''portkey''
      else over (record_value p raw k) (lifted_value p (metadata_of raw) k))"
  "lr_TraceID (strip p raw ts) =
     (case over (meta_trace p (metadata_of raw)) (field_trace p raw) of None \<Rightarrow> '''' | Some t \<Rightarrow> t)"
  "lr_Timestamp (strip p raw ts) =
     (case Option.bind (fmlookup raw ''created_at'') parseExportTime of None \<Rightarrow> ts | Some t \<Rightarrow> t)"
  "lr_Body (strip p raw ts) = ''''" "lr_Severity (strip p raw ts) = ''''"
proof -
  have gone: "k \<notin> set (sorted_keys raw) \<Longrightarrow> indexed_value p raw k = None \<and> record_value p raw k = None" for k
    by (simp add: indexed_value_def record_value_def field_value_absent)
  have trace: "fp_traceIDField p \<notin> set (sorted_keys raw) \<Longrightarrow> field_trace p raw = None"
    by (simp add: field_trace_def field_value_absent Let_def)
  show "fmlookup (lr_IndexedAttributes (strip p raw ts)) k = indexed_value p raw k"
    using gone [of k]
    by (auto simp: strip_def Let_def stampSource_def stampUseCaseRecord_def liftMetadata_exact fold_strip_tiers over_def empty_record_def
          split: option.splits)
  show "fmlookup (lr_RecordAttributes (strip p raw ts)) k =
     (if k = useCaseLabelKey \<and> fp_useCase p \<noteq> '''' then Some (fp_useCase p)
      else if k = ''source'' then Some ''portkey''
      else over (record_value p raw k) (lifted_value p (metadata_of raw) k))"
    using gone [of k]
    by (auto simp: strip_def Let_def stampSource_def stampUseCaseRecord_def liftMetadata_exact fold_strip_tiers over_def empty_record_def
          split: option.splits if_splits)
  show "lr_TraceID (strip p raw ts) =
     (case over (meta_trace p (metadata_of raw)) (field_trace p raw) of None \<Rightarrow> '''' | Some t \<Rightarrow> t)"
    using trace
    by (auto simp: strip_def Let_def stampSource_def stampUseCaseRecord_def liftMetadata_exact fold_strip_trace over_def empty_record_def
          split: option.splits if_splits)
  show "lr_Timestamp (strip p raw ts) =
     (case Option.bind (fmlookup raw ''created_at'') parseExportTime of None \<Rightarrow> ts | Some t \<Rightarrow> t)"
    "lr_Body (strip p raw ts) = ''''" "lr_Severity (strip p raw ts) = ''''"
    by (auto simp: strip_def Let_def stampSource_def stampUseCaseRecord_def liftMetadata_exact fold_strip_frame empty_record_def
          split: option.splits)
qed

text \<open>Two records that agree on what the policy lets through give the same log record.\<close>

definition same_view :: "field_policy \<Rightarrow> (string, json) fmap \<Rightarrow> (string, json) fmap \<Rightarrow> bool" where
  "same_view p raw raw' \<longleftrightarrow>
     (\<forall>k. k |\<in>| fp_indexed p |\<union>| fp_record p |\<union>| {|''created_at''|} \<longrightarrow> fmlookup raw k = fmlookup raw' k) \<and>
     (\<forall>k. k |\<in>| fp_metadataRecord p \<longrightarrow> k \<notin> set hardDeniedLogFields \<longrightarrow>
        fmlookup (metadata_of raw) k = fmlookup (metadata_of raw') k)"

lemma strip_same_view:
  assumes "same_view p raw raw'"
  shows "strip p raw ts = strip p raw' ts"
proof -
  have same: "indexed_value p raw = indexed_value p raw'" "record_value p raw = record_value p raw'"
    "lifted_value p (metadata_of raw) = lifted_value p (metadata_of raw')" "field_trace p raw = field_trace p raw'"
    "meta_trace p (metadata_of raw) = meta_trace p (metadata_of raw')"
    "fmlookup raw ''created_at'' = fmlookup raw' ''created_at''"
    using assms
    by (auto simp: same_view_def indexed_value_def record_value_def lifted_value_def field_trace_def meta_trace_def field_value_def Let_def
          intro!: ext)
  have "lr_IndexedAttributes (strip p raw ts) = lr_IndexedAttributes (strip p raw' ts)"
    "lr_RecordAttributes (strip p raw ts) = lr_RecordAttributes (strip p raw' ts)"
    by (auto intro!: fmap_ext simp: strip_exact same)
  then show ?thesis by (intro log_record.equality) (simp_all add: strip_exact same)
qed

end
