(* ===== verification/Portkey_Logs_Settings.thy ===== *)
theory Portkey_Logs_Settings
  imports Portkey_Strip Portkey_Scope
begin

text \<open>
  The settings of the Portkey log export and the construction of its loops
  (\<^verbatim>\<open>internal/source/portkey/logs_settings.go\<close>). The settings map is applied in ascending key
  order; the source visits it in any order, which only chooses the error that is returned.
\<close>

section \<open>Settings\<close>

definition portkeyPageSizeMax :: int where "portkeyPageSizeMax = 50000"

record logs_settings =
  ls_window :: duration
  ls_settle :: duration
  ls_maxBackfill :: duration
  ls_pageSize :: int
  ls_maxPagesPerWindow :: int
  ls_chunkMaxRecords :: int
  ls_jobPollTimeout :: duration
  ls_downloadTimeout :: duration
  ls_requestedData :: "string list"
  ls_extraRecordFields :: "string list"
  ls_extraIndexedFields :: "string list"
  ls_signedURLAllowHosts :: "string list"
  ls_workspaceID :: string
  ls_metadataRecordFields :: "string list"
  ls_metadataTraceIDField :: string
  ls_traceIDField :: string

definition defaultRequestedData :: "string list" where
  "defaultRequestedData =
     sort (sorted_list_of_fset (fp_indexed defaultLogFieldPolicy) @ sorted_list_of_fset (fp_record defaultLogFieldPolicy))"

definition defaultLogsSettings :: logs_settings where
  "defaultLogsSettings =
     \<lparr>ls_window = Hour, ls_settle = 10 * Minute, ls_maxBackfill = 24 * Hour, ls_pageSize = portkeyPageSizeMax,
      ls_maxPagesPerWindow = 50, ls_chunkMaxRecords = 5000, ls_jobPollTimeout = 30 * Minute, ls_downloadTimeout = 5 * Minute,
      ls_requestedData = defaultRequestedData, ls_extraRecordFields = [''cache_status''], ls_extraIndexedFields = [],
      ls_signedURLAllowHosts = [], ls_workspaceID = '''', ls_metadataRecordFields = [], ls_metadataTraceIDField = '''',
      ls_traceIDField = ''''\<rparr>"

definition parsePositiveDuration :: "string \<Rightarrow> string \<Rightarrow> string + duration" where
  "parsePositiveDuration name v =
     (case ParseDuration v of
        None \<Rightarrow> Inl (''portkey logs_export: '' @ name)
      | Some d \<Rightarrow> if d \<le> 0 then Inl (''portkey logs_export: '' @ name @ '' must be positive'') else Inr d)"

definition parseNonNegDuration :: "string \<Rightarrow> string \<Rightarrow> string + duration" where
  "parseNonNegDuration name v =
     (case ParseDuration v of
        None \<Rightarrow> Inl (''portkey logs_export: '' @ name)
      | Some d \<Rightarrow> if d < 0 then Inl (''portkey logs_export: '' @ name @ '' must be >= 0'') else Inr d)"

definition parsePositiveInt :: "string \<Rightarrow> string \<Rightarrow> string + int" where
  "parsePositiveInt name v =
     (case ParseInt v of
        None \<Rightarrow> Inl (''portkey logs_export: '' @ name)
      | Some n \<Rightarrow> if n \<le> 0 then Inl (''portkey logs_export: '' @ name @ '' must be positive'') else Inr n)"

definition logs_setting :: "string \<Rightarrow> string \<Rightarrow> logs_settings \<Rightarrow> string + logs_settings" where
  "logs_setting k v ls =
     (if k = ''window'' then set_with (parsePositiveDuration k v) (\<lambda>d. ls\<lparr>ls_window := d\<rparr>)
      else if k = ''settle'' then set_with (parseNonNegDuration k v) (\<lambda>d. ls\<lparr>ls_settle := d\<rparr>)
      else if k = ''max_backfill'' then set_with (parsePositiveDuration k v) (\<lambda>d. ls\<lparr>ls_maxBackfill := d\<rparr>)
      else if k = ''job_poll_timeout'' then set_with (parsePositiveDuration k v) (\<lambda>d. ls\<lparr>ls_jobPollTimeout := d\<rparr>)
      else if k = ''download_timeout'' then set_with (parsePositiveDuration k v) (\<lambda>d. ls\<lparr>ls_downloadTimeout := d\<rparr>)
      else if k = ''page_size'' then set_with (parsePositiveInt k v) (\<lambda>n. ls\<lparr>ls_pageSize := n\<rparr>)
      else if k = ''max_pages_per_window'' then set_with (parsePositiveInt k v) (\<lambda>n. ls\<lparr>ls_maxPagesPerWindow := n\<rparr>)
      else if k = ''chunk_max_records'' then set_with (parsePositiveInt k v) (\<lambda>n. ls\<lparr>ls_chunkMaxRecords := n\<rparr>)
      else if k = ''requested_data'' then Inr (ls\<lparr>ls_requestedData := splitCSV v\<rparr>)
      else if k = ''extra_record_fields'' then Inr (ls\<lparr>ls_extraRecordFields := splitCSV v\<rparr>)
      else if k = ''extra_indexed_fields'' then Inr (ls\<lparr>ls_extraIndexedFields := splitCSV v\<rparr>)
      else if k = ''metadata_record_fields'' then Inr (ls\<lparr>ls_metadataRecordFields := splitCSV v\<rparr>)
      else if k = ''metadata_trace_id_field'' then Inr (ls\<lparr>ls_metadataTraceIDField := v\<rparr>)
      else if k = ''trace_id_field'' then Inr (ls\<lparr>ls_traceIDField := v\<rparr>)
      else if k = ''signed_url_allow_hosts'' then Inr (ls\<lparr>ls_signedURLAllowHosts := splitCSV v\<rparr>)
      else if k = ''workspace_id'' then Inr (ls\<lparr>ls_workspaceID := v\<rparr>)
      else Inr ls)"

definition first_denied :: "string list \<Rightarrow> string list \<Rightarrow> bool" where
  "first_denied deny fs \<longleftrightarrow> list_ex (\<lambda>f. f \<in> set deny) fs"

definition validateLogsSettings :: "logs_settings \<Rightarrow> string option" where
  "validateLogsSettings ls =
     (let mt = ls_metadataTraceIDField ls; tf = ls_traceIDField ls in
      if ls_window ls \<le> 0 then Some ''portkey logs_export: window must be positive''
      else if portkeyPageSizeMax < ls_pageSize ls then Some ''portkey logs_export: page_size exceeds Portkey max''
      else if ls_chunkMaxRecords ls \<le> 0 then Some ''portkey logs_export: chunk_max_records must be positive''
      else if ls_workspaceID ls = '''' then Some ''portkey logs_export: workspace_id is required''
      else if ls_signedURLAllowHosts ls = [] then Some ''portkey logs_export: signed_url_allow_hosts is required''
      else if first_denied contentRequestKeys (ls_requestedData ls) then Some ''portkey logs_export: requested_data must not name content/PII field''
      else if first_denied hardDeniedLogFields (ls_extraRecordFields ls) then Some ''portkey logs_export: extra_record_fields cannot include a hard-denied field''
      else if first_denied hardDeniedLogFields (ls_extraIndexedFields ls) then Some ''portkey logs_export: extra_indexed_fields cannot include a hard-denied field''
      else if first_denied hardDeniedLogFields (ls_metadataRecordFields ls) then Some ''portkey logs_export: metadata_record_fields cannot include a hard-denied field''
      else if mt \<noteq> '''' \<and> mt \<in> set hardDeniedLogFields then Some ''portkey logs_export: metadata_trace_id_field cannot be a hard-denied field''
      else if mt \<noteq> '''' \<and> Contains mt '','' then Some ''portkey logs_export: metadata_trace_id_field must name a single metadata sub-key''
      else if tf \<noteq> '''' \<and> tf \<in> set hardDeniedLogFields then Some ''portkey logs_export: trace_id_field cannot be a hard-denied field''
      else if tf \<noteq> '''' \<and> Contains tf '','' then Some ''portkey logs_export: trace_id_field must name a single top-level export field''
      else if tf \<noteq> '''' \<and> mt \<noteq> '''' then Some ''portkey logs_export: trace_id_field and metadata_trace_id_field are mutually exclusive''
      else None)"

definition applyLogsSettings :: "logs_settings \<Rightarrow> (string, string) fmap \<Rightarrow> string + logs_settings" where
  "applyLogsSettings ls s =
     (case apply_each logs_setting s (sorted_keys s) ls of
        Inl e \<Rightarrow> Inl e
      | Inr ls1 \<Rightarrow> (case validateLogsSettings ls1 of Some e \<Rightarrow> Inl e | None \<Rightarrow> Inr ls1))"

definition mergeSortedUnique :: "string list list \<Rightarrow> string list" where
  "mergeSortedUnique ls = sorted_list_of_set (set (filter (\<lambda>s. s \<noteq> '''') (concat ls)))"

section \<open>The loop\<close>

text \<open>The client of the signed-URL downloads is configured here; how it reaches a host is httpx.\<close>

record download_client =
  dc_UserAgent :: string
  dc_Timeout :: duration
  dc_AllowHosts :: "string list"
  dc_AllowPrivate :: bool
  dc_RateLimit :: rate_limit_config

record logs_export_loop =
  lx_access :: key_access
  lx_deps :: deps
  lx_dlClient :: download_client
  lx_workspaceID :: string
  lx_cadence :: duration
  lx_window :: duration
  lx_settle :: duration
  lx_maxBackfill :: duration
  lx_pageSize :: int
  lx_maxPagesPerWindow :: int
  lx_chunkMaxRecords :: int
  lx_downloadMaxBytes :: int
  lx_maxLineBytes :: int
  lx_allowPrivate :: bool
  lx_jobPollTimeout :: duration
  lx_requestedData :: "string list"
  lx_signedURLAllowHosts :: "string list"
  lx_policy :: field_policy
  lx_useCase :: string
  lx_apiKeyIDs :: string

definition logs_policy :: "logs_settings \<Rightarrow> string \<Rightarrow> field_policy" where
  "logs_policy ls slug =
     (withTraceIDField
        (withMetadataFields
           (withExtraIndexedFields (withExtraRecordFields defaultLogFieldPolicy (ls_extraRecordFields ls)) (ls_extraIndexedFields ls))
           (ls_metadataRecordFields ls) (ls_metadataTraceIDField ls))
        (ls_traceIDField ls))\<lparr>fp_useCase := slug\<rparr>"

definition newLogsExportLoop ::
  "source_config \<Rightarrow> loop_config \<Rightarrow> deps \<Rightarrow> resolved_use_case \<Rightarrow> string + logs_export_loop" where
  "newLogsExportLoop cfg lpCfg d uc =
     (if lp_Window lpCfg \<noteq> 0 then Inl ''portkey logs_export: loops.logs_export.window must be unset/0''
      else case applyLogsSettings defaultLogsSettings (lp_Settings lpCfg) of
        Inl e \<Rightarrow> Inl e
      | Inr ls \<Rightarrow> Inr
          \<lparr>lx_access = \<lparr>ka_baseURL = sc_BaseURL cfg, ka_authHdr = au_Header (sc_Auth cfg), ka_authVal = au_Value (sc_Auth cfg),
                        ka_loop = ''logs_export'', ka_sourceInstance = sc_SourceInstance cfg\<rparr>,
           lx_deps = d,
           lx_dlClient = \<lparr>dc_UserAgent = (if hc_UserAgent (sc_HTTP cfg) = '''' then ''genai-otel-bridge/0.1'' else hc_UserAgent (sc_HTTP cfg)),
                          dc_Timeout = ls_downloadTimeout ls, dc_AllowHosts = ls_signedURLAllowHosts ls,
                          dc_AllowPrivate = hc_AllowPrivate (sc_HTTP cfg), dc_RateLimit = sc_RateLimit cfg\<rparr>,
           lx_workspaceID = ls_workspaceID ls,
           lx_cadence = (if lp_Cadence lpCfg \<le> 0 then Minute else lp_Cadence lpCfg),
           lx_window = ls_window ls, lx_settle = ls_settle ls, lx_maxBackfill = ls_maxBackfill ls,
           lx_pageSize = ls_pageSize ls, lx_maxPagesPerWindow = ls_maxPagesPerWindow ls, lx_chunkMaxRecords = ls_chunkMaxRecords ls,
           lx_downloadMaxBytes = 0, lx_maxLineBytes = 0, lx_allowPrivate = hc_AllowPrivate (sc_HTTP cfg),
           lx_jobPollTimeout = ls_jobPollTimeout ls,
           lx_requestedData = mergeSortedUnique [ls_requestedData ls, ls_extraRecordFields ls, ls_extraIndexedFields ls, [ls_traceIDField ls]],
           lx_signedURLAllowHosts = ls_signedURLAllowHosts ls,
           lx_policy = logs_policy ls (ru_slug uc), lx_useCase = ru_slug uc, lx_apiKeyIDs = ru_apiKeyIDsCSV uc\<rparr>)"

definition IndexedKeys :: "logs_export_loop \<Rightarrow> string list" where
  "IndexedKeys l = sorted_list_of_fset (fp_indexed (lx_policy l))"

definition lx_SeriesNames :: "logs_export_loop \<Rightarrow> string list" where
  "lx_SeriesNames l = []"

definition lx_naming :: "logs_export_loop \<Rightarrow> string" where
  "lx_naming l = ''logs_export'' @ (if lx_useCase l \<noteq> '''' then '',api_key_use_case='' @ lx_useCase l else '''')"

definition lx_Key :: "'w net \<Rightarrow> logs_export_loop \<Rightarrow> checkpoint_key" where
  "lx_Key net l = \<lparr>ck_SourceInstance = ka_sourceInstance (lx_access l), ck_Loop = ''logs_export'',
     ck_OutputFingerprint = Fingerprint (nt_sha net) (IndexedKeys l) (lx_naming l)\<rparr>"

section \<open>What accepted settings give\<close>

definition logs_settings_ok :: "logs_settings \<Rightarrow> bool" where
  "logs_settings_ok ls \<longleftrightarrow> 0 < ls_window ls \<and> 0 \<le> ls_settle ls \<and> 0 < ls_maxBackfill ls \<and> 0 < ls_pageSize ls \<and>
     0 < ls_maxPagesPerWindow ls \<and> 0 < ls_chunkMaxRecords ls \<and> 0 < ls_jobPollTimeout ls \<and> 0 < ls_downloadTimeout ls"

lemma parse_positive:
  "parsePositiveDuration k v = Inr d \<Longrightarrow> 0 < d" "parseNonNegDuration k v = Inr d \<Longrightarrow> 0 \<le> d"
  "parsePositiveInt k v = Inr n \<Longrightarrow> 0 < n"
  by (auto simp: parsePositiveDuration_def parseNonNegDuration_def parsePositiveInt_def split: option.splits if_splits)

lemma logs_setting_ok: "logs_setting k v ls = Inr ls1 \<Longrightarrow> logs_settings_ok ls \<Longrightarrow> logs_settings_ok ls1"
  unfolding logs_setting_def
  by (auto simp: logs_settings_ok_def dest!: set_with_Inr parse_positive split: if_splits)

lemma applyLogsSettings_ok:
  assumes "applyLogsSettings defaultLogsSettings s = Inr ls"
  shows "logs_settings_ok ls" "validateLogsSettings ls = None"
proof -
  have each: "apply_each logs_setting s (sorted_keys s) defaultLogsSettings = Inr ls" and val: "validateLogsSettings ls = None"
    using assms by (auto simp: applyLogsSettings_def split: sum.splits option.splits)
  have "logs_settings_ok defaultLogsSettings"
    by (simp add: logs_settings_ok_def defaultLogsSettings_def portkeyPageSizeMax_def Minute_def Hour_def)
  then show "logs_settings_ok ls" using apply_each_inv [OF each, of logs_settings_ok] logs_setting_ok by blast
  show "validateLogsSettings ls = None" by (rule val)
qed

lemma validated:
  assumes "validateLogsSettings ls = None"
  shows "ls_pageSize ls \<le> portkeyPageSizeMax" "ls_workspaceID ls \<noteq> ''''" "ls_signedURLAllowHosts ls \<noteq> []"
    and "set (ls_requestedData ls) \<inter> set contentRequestKeys = {}"
    and "set (ls_extraRecordFields ls @ ls_extraIndexedFields ls @ ls_metadataRecordFields ls) \<inter> set hardDeniedLogFields = {}"
    and "ls_metadataTraceIDField ls \<noteq> '''' \<longrightarrow> ls_metadataTraceIDField ls \<notin> set hardDeniedLogFields"
    and "ls_traceIDField ls \<noteq> '''' \<longrightarrow> ls_traceIDField ls \<notin> set hardDeniedLogFields \<and> ls_metadataTraceIDField ls = ''''"
  using assms by (auto simp: validateLogsSettings_def first_denied_def list_ex_iff Let_def split: if_splits)

lemma policy_fields:
  "fp_indexed (logs_policy ls slug) = fp_indexed defaultLogFieldPolicy |\<union>| fset_of_list (ls_extraIndexedFields ls)"
  "fset (fp_record (logs_policy ls slug)) =
     fset (fp_record defaultLogFieldPolicy) \<union> set (ls_extraRecordFields ls) \<union> (if ls_traceIDField ls = '''' then {} else {ls_traceIDField ls})"
  "fset (fp_metadataRecord (logs_policy ls slug)) =
     set (ls_metadataRecordFields ls) \<union> (if ls_metadataTraceIDField ls = '''' then {} else {ls_metadataTraceIDField ls})"
  "fp_useCase (logs_policy ls slug) = slug" "fp_traceIDField (logs_policy ls slug) = ls_traceIDField ls"
  "fp_metadataTraceID (logs_policy ls slug) = ls_metadataTraceIDField ls"
  by (auto simp: logs_policy_def withTraceIDField_def withMetadataFields_def withExtraIndexedFields_def withExtraRecordFields_def
        policy_of_def defaultLogFieldPolicy_def fset_of_list.rep_eq)

lemma default_fields_allowed:
  "fset (fp_indexed defaultLogFieldPolicy) \<inter> set hardDeniedLogFields = {}"
  "fset (fp_record defaultLogFieldPolicy) \<inter> set hardDeniedLogFields = {}"
  by (simp_all add: defaultLogFieldPolicy_def policy_of_def hardDeniedLogFields_def AbsoluteNeverDenyKeys_def contentRequestKeys_def fset_of_list.rep_eq)

definition policy_clean :: "field_policy \<Rightarrow> bool" where
  "policy_clean p \<longleftrightarrow> (\<forall>k\<in>fset (fp_indexed p) \<union> fset (fp_record p). k \<notin> set hardDeniedLogFields)"

lemma logs_policy_clean: "validateLogsSettings ls = None \<Longrightarrow> policy_clean (logs_policy ls slug)"
  using validated(5,7) [of ls] default_fields_allowed
  by (auto simp: policy_clean_def policy_fields fset_of_list.rep_eq split: if_splits)

lemma strip_keys_clean:
  assumes "policy_clean p" "k |\<in>| fmdom (lr_IndexedAttributes (strip p raw ts)) |\<union>| fmdom (lr_RecordAttributes (strip p raw ts))"
  shows "k \<notin> set hardDeniedLogFields"
proof -
  have "useCaseLabelKey \<notin> set hardDeniedLogFields" "''source'' \<notin> set hardDeniedLogFields"
    by (simp_all add: useCaseLabelKey_def hardDeniedLogFields_def AbsoluteNeverDenyKeys_def contentRequestKeys_def)
  then show ?thesis using assms
    by (auto simp: fmlookup_dom_iff strip_exact indexed_value_def record_value_def lifted_value_def over_def policy_clean_def
          split: if_splits option.splits)
qed

lemma strip_indexed_origin:
  "fmlookup (lr_IndexedAttributes (strip p raw ts)) k = Some v \<Longrightarrow> k |\<in>| fp_indexed p \<and> field_value scalarToString raw k = Some v"
  by (simp add: strip_exact indexed_value_def split: if_splits)

lemma strip_record_origin:
  "fmlookup (lr_RecordAttributes (strip p raw ts)) k = Some v \<Longrightarrow>
    (k, v) = (''source'', ''portkey'') \<or> (k, v) = (useCaseLabelKey, fp_useCase p) \<or>
    (k |\<in>| fp_record p \<and> field_value scalarToString raw k = Some v) \<or>
    (k |\<in>| fp_metadataRecord p \<and> field_value scalarToString (metadata_of raw) k = Some v)"
  by (simp add: strip_exact record_value_def lifted_value_def over_def split: if_splits option.splits)

lemma newLogsExportLoop_settings:
  assumes "newLogsExportLoop cfg lp d uc = Inr l"
  obtains ls where "logs_settings_ok ls" "validateLogsSettings ls = None" "lx_policy l = logs_policy ls (ru_slug uc)"
    "lx_window l = ls_window ls" "lx_settle l = ls_settle ls" "lx_maxBackfill l = ls_maxBackfill ls" "lx_pageSize l = ls_pageSize ls"
    "lx_maxPagesPerWindow l = ls_maxPagesPerWindow ls" "lx_chunkMaxRecords l = ls_chunkMaxRecords ls"
    "lx_requestedData l = mergeSortedUnique [ls_requestedData ls, ls_extraRecordFields ls, ls_extraIndexedFields ls, [ls_traceIDField ls]]"
    "lx_signedURLAllowHosts l = ls_signedURLAllowHosts ls" "lx_useCase l = ru_slug uc"
    "dc_AllowHosts (lx_dlClient l) = ls_signedURLAllowHosts ls"
proof (cases "applyLogsSettings defaultLogsSettings (lp_Settings lp)")
  case (Inl e)
  then show ?thesis using assms by (simp add: newLogsExportLoop_def split: if_splits)
next
  case (Inr ls)
  show ?thesis
    by (rule that [of ls])
      (use assms Inr applyLogsSettings_ok [OF Inr] in \<open>auto simp: newLogsExportLoop_def split: if_splits\<close>)
qed

section \<open>Properties\<close>

text \<open>C10: the log export never lets content out. Whatever settings the constructor accepted and
  whatever record the vendor sent: the log record has no body; no attribute bears a name of
  the hard deny list, and each one is the source stamp, the use-case stamp, the scalar of an
  allow-listed top-level field or the scalar of an operator-named metadata sub-key; and two
  records that agree on those fields give the same log record, so nothing else of the
  record can be observed in what is emitted. The request does not ask for a content field.\<close>

theorem log_strip_content_free:
  assumes "newLogsExportLoop cfg lp d uc = Inr l"
  shows "lr_Body (strip (lx_policy l) raw ts) = '''' \<and>
    (\<forall>m\<in>{lr_IndexedAttributes (strip (lx_policy l) raw ts), lr_RecordAttributes (strip (lx_policy l) raw ts)}.
       \<forall>k v. fmlookup m k = Some v \<longrightarrow> k \<notin> set hardDeniedLogFields \<and>
         ((k, v) = (''source'', ''portkey'') \<or> (k, v) = (useCaseLabelKey, ru_slug uc) \<or>
          (k |\<in>| fp_indexed (lx_policy l) |\<union>| fp_record (lx_policy l) \<and> field_value scalarToString raw k = Some v) \<or>
          (k |\<in>| fp_metadataRecord (lx_policy l) \<and> field_value scalarToString (metadata_of raw) k = Some v))) \<and>
    (\<forall>raw'. same_view (lx_policy l) raw raw' \<longrightarrow> strip (lx_policy l) raw ts = strip (lx_policy l) raw' ts) \<and>
    set (lx_requestedData l) \<inter> set contentRequestKeys = {}"
proof -
  obtain ls where ls: "validateLogsSettings ls = None" "lx_policy l = logs_policy ls (ru_slug uc)"
    "lx_requestedData l = mergeSortedUnique [ls_requestedData ls, ls_extraRecordFields ls, ls_extraIndexedFields ls, [ls_traceIDField ls]]"
    using newLogsExportLoop_settings [OF assms] by metis
  have clean: "k \<notin> set hardDeniedLogFields" if "k |\<in>| fmdom (lr_IndexedAttributes (strip (lx_policy l) raw ts)) |\<union>| fmdom (lr_RecordAttributes (strip (lx_policy l) raw ts))" for k
    using strip_keys_clean [OF logs_policy_clean [OF ls(1)]] that unfolding ls(2) by blast
  have "set (lx_requestedData l) \<subseteq> set (ls_requestedData ls) \<union> set (ls_extraRecordFields ls) \<union> set (ls_extraIndexedFields ls) \<union>
      (if ls_traceIDField ls = '''' then {} else {ls_traceIDField ls})"
    unfolding ls(3) by (auto simp: mergeSortedUnique_def)
  moreover have "set contentRequestKeys \<subseteq> set hardDeniedLogFields" by (simp add: hardDeniedLogFields_def)
  ultimately have req: "set (lx_requestedData l) \<inter> set contentRequestKeys = {}"
    using validated(4,5,7) [OF ls(1)] by (auto split: if_splits)
  have uc: "fp_useCase (lx_policy l) = ru_slug uc" by (simp add: ls(2) policy_fields)
  have attrs: "k \<notin> set hardDeniedLogFields \<and>
      ((k, v) = (''source'', ''portkey'') \<or> (k, v) = (useCaseLabelKey, ru_slug uc) \<or>
       (k |\<in>| fp_indexed (lx_policy l) |\<union>| fp_record (lx_policy l) \<and> field_value scalarToString raw k = Some v) \<or>
       (k |\<in>| fp_metadataRecord (lx_policy l) \<and> field_value scalarToString (metadata_of raw) k = Some v))"
    if "fmlookup (lr_IndexedAttributes (strip (lx_policy l) raw ts)) k = Some v \<or> fmlookup (lr_RecordAttributes (strip (lx_policy l) raw ts)) k = Some v" for k v
    using that clean [of k] strip_indexed_origin [of "lx_policy l" raw ts k v] strip_record_origin [of "lx_policy l" raw ts k v]
    unfolding uc by (auto dest: fmdomI)
  show ?thesis using attrs strip_same_view req by (simp add: strip_exact(5)) blast
qed

text \<open>The least settings that are accepted.\<close>

definition export_settings :: "(string, string) fmap" where
  "export_settings = fmupd ''signed_url_allow_hosts'' ''s3'' (fmupd ''workspace_id'' ''w'' fmempty)"

definition export_cfg :: loop_config where
  "export_cfg = \<lparr>lp_Enabled = True, lp_Cadence = Minute, lp_Window = 0, lp_BucketSettle = 0, lp_BootstrapLookback = 0, lp_MaxBackfill = 0,
     lp_MetricPrefix = '''', lp_Graphs = [], lp_Settings = export_settings\<rparr>"

definition no_use_case :: resolved_use_case where
  "no_use_case = \<lparr>ru_slug = '''', ru_apiKeyIDsCSV = ''''\<rparr>"

lemma export_settings_accepted:
  "applyLogsSettings defaultLogsSettings export_settings =
     Inr (defaultLogsSettings\<lparr>ls_signedURLAllowHosts := [''s3''], ls_workspaceID := ''w''\<rparr>)"
proof -
  have keys: "sorted_keys export_settings = [''signed_url_allow_hosts'', ''workspace_id'']"
    by (simp add: export_settings_def sorted_keys_def sorted_list_of_fset.rep_eq less_char_def)
  have csv: "splitCSV ''s3'' = [''s3'']" by code_simp
  have req: "set defaultRequestedData = fset (fp_indexed defaultLogFieldPolicy) \<union> fset (fp_record defaultLogFieldPolicy)"
    by (simp add: defaultRequestedData_def sorted_list_of_fset.rep_eq)
  have "\<not> first_denied contentRequestKeys defaultRequestedData"
    unfolding first_denied_def list_ex_iff req
    by (simp add: defaultLogFieldPolicy_def policy_of_def contentRequestKeys_def fset_of_list.rep_eq)
  moreover have "\<not> first_denied hardDeniedLogFields [''cache_status'']"
    by (simp add: first_denied_def hardDeniedLogFields_def AbsoluteNeverDenyKeys_def contentRequestKeys_def)
  ultimately show ?thesis
    unfolding applyLogsSettings_def keys
    by (simp add: logs_setting_def export_settings_def map_get_def csv validateLogsSettings_def defaultLogsSettings_def portkeyPageSizeMax_def
          first_denied_def [of _ "[]"] Hour_def)
qed

definition one_export :: logs_export_loop where
  "one_export = projr (newLogsExportLoop two_cases export_cfg no_hooks no_use_case)"

lemma one_export_built: "newLogsExportLoop two_cases export_cfg no_hooks no_use_case = Inr one_export"
  by (simp add: one_export_def newLogsExportLoop_def export_cfg_def export_settings_accepted)

theorem log_strip_content_free_witness:
  "strip (lx_policy one_export) (fmap_of_list [(''ai_model'', JStr ''m''), (''prompt'', JStr ''secret'')]) 0 =
     strip (lx_policy one_export) (fmap_of_list [(''ai_model'', JStr ''m'')]) 0 \<and>
   fmlookup (lr_IndexedAttributes (strip (lx_policy one_export) (fmap_of_list [(''ai_model'', JStr ''m'')]) 0)) ''ai_model'' = Some ''m''"
proof -
  let ?ls = "defaultLogsSettings\<lparr>ls_signedURLAllowHosts := [''s3''], ls_workspaceID := ''w''\<rparr>"
  have pol: "lx_policy one_export = logs_policy ?ls ''''"
    by (simp add: one_export_def newLogsExportLoop_def export_cfg_def export_settings_accepted no_use_case_def)
  have "''prompt'' \<notin> fset (fp_indexed (logs_policy ?ls '''')) \<union> fset (fp_record (logs_policy ?ls '''')) \<and>
      fset (fp_metadataRecord (logs_policy ?ls '''')) = {} \<and> ''ai_model'' |\<in>| fp_indexed (logs_policy ?ls '''')"
    by (simp add: policy_fields defaultLogsSettings_def defaultLogFieldPolicy_def policy_of_def fset_of_list.rep_eq)
  then have view: "same_view (lx_policy one_export) (fmap_of_list [(''ai_model'', JStr ''m''), (''prompt'', JStr ''secret'')])
      (fmap_of_list [(''ai_model'', JStr ''m'')])" and ix: "''ai_model'' |\<in>| fp_indexed (lx_policy one_export)"
    unfolding pol by (auto simp: same_view_def)
  show ?thesis
    using log_strip_content_free [OF one_export_built, of "fmap_of_list [(''ai_model'', JStr ''m''), (''prompt'', JStr ''secret'')]" 0] view ix
    by (auto simp: strip_exact indexed_value_def field_value_def scalarToString_def)
qed

text \<open>
  The check of the opt-in fields compares whole names, the guard also refuses every name
  that extends one of the content prefixes: such a field is accepted here and then costs
  every record that bears it.
\<close>

lemma prefixed_field_accepted_then_dropped:
  assumes "k = ''gen_ai.prompt.0.role''" "ls_extraRecordFields ls = [k]" "fmlookup raw k = Some (JStr v)"
    and "k |\<notin>| fp_indexed (logs_policy ls slug)" "k \<noteq> useCaseLabelKey"
  shows "\<not> first_denied hardDeniedLogFields (ls_extraRecordFields ls) \<and>
    fst (guard_okLog g ''logs_export'' (strip (logs_policy ls slug) raw ts)) = False"
proof -
  have floor: "IsContentFloorKey k" by (simp add: assms(1) IsContentFloorKey_def genAIContentPrefixes_def HasPrefix_def)
  have "k |\<in>| fp_record (logs_policy ls slug)" by (simp add: policy_fields assms(2))
  then have "fmlookup (lr_RecordAttributes (strip (logs_policy ls slug) raw ts)) k = Some v"
    using assms(3-5) by (simp add: strip_exact record_value_def field_value_def scalarToString_def over_def assms(1))
  then have "k \<in> set (sorted_keys (lr_RecordAttributes (strip (logs_policy ls slug) raw ts)))"
    by (auto simp: sorted_keys_def sorted_list_of_fset.rep_eq fmlookup_dom_iff)
  moreover have "\<not> first_denied hardDeniedLogFields (ls_extraRecordFields ls)"
    by (simp add: assms(1,2) first_denied_def hardDeniedLogFields_def AbsoluteNeverDenyKeys_def contentRequestKeys_def)
  ultimately show ?thesis using floor by (auto simp: guard_okLog_def)
qed

end
