(* ===== verification/Portkey_Logs_Download.thy ===== *)
theory Portkey_Logs_Download
  imports Portkey_Logs_Settings
begin

text \<open>
  The signed-URL download of the Portkey log export (\<^verbatim>\<open>internal/source/portkey/logs_download.go\<close>):
  the host gate, the line reader over a buffer of 64 KiB, and \<open>downloadChunk\<close>. The download
  client answers with an error or with a status, headers and the bytes of the body; the
  body ends, or fails with an error after those bytes. How far the buffered reader has read
  beyond what was consumed depends on the network and comes with the answer.
\<close>

section \<open>The outside\<close>

record download =
  dw_response :: http_response
  dw_err :: "string option"
  dw_ahead :: nat

text \<open>\<open>le_url\<close> is \<^verbatim>\<open>url.Parse\<close>: the scheme and the host name of a URL that parses.\<close>

record 'w logs_env =
  le_net :: "'w net"
  le_url :: "string \<Rightarrow> (string \<times> string) option"
  le_get :: "'w \<Rightarrow> http_request \<Rightarrow> (string + download) \<times> 'w"

section \<open>The host gate\<close>

definition validateSignedURLHost :: "'w logs_env \<Rightarrow> logs_export_loop \<Rightarrow> string \<Rightarrow> string option" where
  "validateSignedURLHost env l signedURL =
     (case le_url env signedURL of
        None \<Rightarrow> Some ''parse signed url''
      | Some (scheme, hostname) \<Rightarrow>
          (if ToLower hostname = '''' then Some ''signed url has no host''
           else if ToLower scheme \<noteq> ''https'' \<and> \<not> lx_allowPrivate l then Some ''signed-url scheme is not https''
           else if list_ex (\<lambda>h. ToLower h = ToLower hostname) (lx_signedURLAllowHosts l) then None
           else Some ''signed-url host not in signed_url_allow_hosts''))"

section \<open>Lines\<close>

definition lineReadBufBytes :: nat where "lineReadBufBytes = 65536"
definition maxLogLineBytes :: nat where "maxLogLineBytes = 2 ^ 20"
definition defaultDownloadMaxBytes :: nat where "defaultDownloadMaxBytes = 512 * 2 ^ 20"

definition newline :: char where "newline = CHR 0x0A"

text \<open>\<^verbatim>\<open>bufio.Reader.ReadSlice\<close>: up to a newline, a full buffer, or what is left at the end.\<close>

datatype slice_end = SliceDelim | SliceFull | SliceEnd

definition read_slice :: "string \<Rightarrow> string \<times> slice_end \<times> string" where
  "read_slice s =
     (let w = takeWhile (\<lambda>c. c \<noteq> newline) (take lineReadBufBytes s) in
      if length w < lineReadBufBytes \<and> length w < length s then (take (Suc (length w)) s, SliceDelim, drop (Suc (length w)) s)
      else if lineReadBufBytes \<le> length s then (take lineReadBufBytes s, SliceFull, drop lineReadBufBytes s)
      else (s, SliceEnd, []))"

datatype read_result = RLine string bool | REof | RErr string

function read_frags :: "nat \<Rightarrow> string option \<Rightarrow> string \<Rightarrow> nat \<Rightarrow> bool \<Rightarrow> nat \<Rightarrow> string \<Rightarrow> read_result \<times> nat \<times> string" where
  "read_frags limit fault buf seen tooLong consumed s =
     (case read_slice s of (frag, e, rest) \<Rightarrow>
        (let consumed1 = consumed + length frag;
             chunk = (if e = SliceDelim then butlast frag else frag);
             seen1 = seen + length chunk;
             tooLong1 = (tooLong \<or> limit < seen1);
             buf1 = (if tooLong1 then [] else buf @ chunk)
         in case e of
              SliceFull \<Rightarrow> read_frags limit fault buf1 seen1 tooLong1 consumed1 rest
            | SliceDelim \<Rightarrow> (RLine buf1 tooLong1, consumed1, rest)
            | SliceEnd \<Rightarrow>
                (case fault of
                   Some m \<Rightarrow> (RErr m, consumed1, rest)
                 | None \<Rightarrow> if seen1 = 0 then (REof, consumed1, rest) else (RLine buf1 tooLong1, consumed1, rest))))"
  by auto

termination
  by (relation "measure (\<lambda>(_, _, _, _, _, _, s). length s)")
    (auto simp: read_slice_def Let_def lineReadBufBytes_def split: if_splits)

declare read_frags.simps [simp del]

definition readLine :: "nat \<Rightarrow> string option \<Rightarrow> string \<Rightarrow> read_result \<times> nat \<times> string" where
  "readLine limit fault s = read_frags limit fault [] 0 False 0 s"

section \<open>downloadChunk\<close>

definition incomplete :: "logs_export_loop \<Rightarrow> string \<Rightarrow> source_event list" where
  "incomplete l reason = fire (lx_deps l) (DataIncomplete ''logs_export'' reason)"

text \<open>What one line gives: a record or nothing, and what is counted.\<close>

definition process_line :: "logs_export_loop \<Rightarrow> instant \<Rightarrow> string \<Rightarrow> bool \<Rightarrow> log_record list \<times> source_event list" where
  "process_line l fallbackTS line tooLong =
     (if tooLong then ([], incomplete l ''line_oversize'')
      else case Option.bind (parse_text line) dec_raw_map of
        None \<Rightarrow> ([], incomplete l ''line_unparseable'')
      | Some raw \<Rightarrow>
          (let rec = strip (lx_policy l) raw fallbackTS; f = traceIDAttrKey (lx_policy l)
           in ([rec], if f \<noteq> '''' \<and> lr_TraceID rec = '''' \<and> map_get (lr_RecordAttributes rec) f \<noteq> ''''
                      then incomplete l ''trace_id_unparsed'' else [])))"

datatype skip_result = Skipped nat string | SkipEof nat | SkipErr string

fun skip_lines :: "nat \<Rightarrow> string option \<Rightarrow> nat \<Rightarrow> nat \<Rightarrow> string \<Rightarrow> skip_result" where
  "skip_lines limit fault 0 consumed s = Skipped consumed s"
| "skip_lines limit fault (Suc n) consumed s =
     (case readLine limit fault s of
        (REof, c, _) \<Rightarrow> SkipEof (consumed + c)
      | (RErr m, _, _) \<Rightarrow> SkipErr m
      | (RLine _ _, c, rest) \<Rightarrow> skip_lines limit fault n (consumed + c) rest)"

fun take_lines ::
  "logs_export_loop \<Rightarrow> instant \<Rightarrow> nat \<Rightarrow> string option \<Rightarrow> nat \<Rightarrow> nat \<Rightarrow> string \<Rightarrow>
     (string + log_record list \<times> nat \<times> nat) \<times> source_event list" where
  "take_lines l fb limit fault 0 consumed s = (Inr ([], 0, consumed), [])"
| "take_lines l fb limit fault (Suc n) consumed s =
     (case readLine limit fault s of
        (REof, _, _) \<Rightarrow> (Inr ([], 0, consumed), [])
      | (RErr m, _, _) \<Rightarrow> (Inl m, [])
      | (RLine line tooLong, c, rest) \<Rightarrow>
          (case process_line l fb line tooLong of (recs, evs) \<Rightarrow>
             (case take_lines l fb limit fault n (consumed + c) rest of
                (Inl m, evs2) \<Rightarrow> (Inl m, evs @ evs2)
              | (Inr (recs2, k, consumed2), evs2) \<Rightarrow> (Inr (recs @ recs2, Suc k, consumed2), evs @ evs2))))"

definition contentRangeStart :: "string \<Rightarrow> int option" where
  "contentRangeStart h0 =
     (let h = TrimSpace h0; p = ''bytes ''; rest = drop (length p) h; dash = takeWhile (\<lambda>c. c \<noteq> CHR ''-'') rest in
      if \<not> HasPrefix h p then None
      else if dash = rest \<or> dash = [] then None
      else case ParseInt (TrimSpace dash) of None \<Rightarrow> None | Some n \<Rightarrow> if n < 0 then None else Some n)"

definition StatusPartialContent :: int where "StatusPartialContent = 206"

definition chunk_request :: "string \<Rightarrow> int \<Rightarrow> http_request" where
  "chunk_request signedURL byteOffset =
     \<lparr>rq_Method = ''GET'', rq_URL = signedURL,
      rq_Header = (if 0 < byteOffset then fmupd ''Range'' (''bytes='' @ FormatInt byteOffset @ ''-'') fmempty else fmempty), rq_Body = ''''\<rparr>"

text \<open>Whether the answer is the rest of the object from the offset; \<open>Inl\<close> refuses it.\<close>

definition rangeHonored :: "http_response \<Rightarrow> int \<Rightarrow> string + bool" where
  "rangeHonored resp byteOffset =
     (if rs_StatusCode resp = StatusOK then Inr False
      else if rs_StatusCode resp = StatusPartialContent then
        (if 0 < byteOffset \<and> contentRangeStart (map_get (rs_Header resp) ''Content-Range'') = Some byteOffset then Inr True
         else Inl ''portkey logs_export: signed-url returned 206 with unexpected Content-Range'')
      else Inl (''portkey logs_export: signed-url download status '' @ FormatInt (rs_StatusCode resp)))"

definition max_bytes :: "logs_export_loop \<Rightarrow> nat" where
  "max_bytes l = (if lx_downloadMaxBytes l \<le> 0 then defaultDownloadMaxBytes else nat (lx_downloadMaxBytes l))"

definition line_cap :: "logs_export_loop \<Rightarrow> nat" where
  "line_cap l = (if lx_maxLineBytes l \<le> 0 then maxLogLineBytes else nat (lx_maxLineBytes l))"

record chunk =
  ch_recs :: "log_record list"
  ch_lines :: int
  ch_next :: int
  ch_eof :: bool

definition read_chunk ::
  "logs_export_loop \<Rightarrow> int \<Rightarrow> int \<Rightarrow> int \<Rightarrow> instant \<Rightarrow> download \<Rightarrow> (string + chunk) \<times> source_event list" where
  "read_chunk l skip byteOffset mx fallbackTS dl =
     (case rangeHonored (dw_response dl) byteOffset of
        Inl e \<Rightarrow> (Inl e, [])
      | Inr honored \<Rightarrow>
          (let body = take (Suc (max_bytes l)) (rs_Body (dw_response dl));
               fault = (if max_bytes l < length (rs_Body (dw_response dl)) then None else dw_err dl);
               base = (if honored then byteOffset else 0);
               skipLines = (if honored then 0 else nat skip)
           in case skip_lines (line_cap l) fault skipLines 0 body of
                SkipErr m \<Rightarrow> (Inl (''portkey logs_export: stream signed-url body: '' @ m), [])
              | SkipEof consumed \<Rightarrow> (Inr \<lparr>ch_recs = [], ch_lines = skip, ch_next = wrap64 (base + int consumed), ch_eof = True\<rparr>, [])
              | Skipped consumed rest \<Rightarrow>
                  (case take_lines l fallbackTS (line_cap l) fault (nat mx) consumed rest of
                     (Inl m, evs) \<Rightarrow> (Inl (''portkey logs_export: stream signed-url body: '' @ m), evs)
                   | (Inr (recs, linesRead, consumed2), evs) \<Rightarrow>
                       (if max_bytes l < min (length body) (consumed2 + dw_ahead dl)
                        then (Inl ''portkey logs_export: signed-url object exceeds the download cap (truncated)'', evs)
                        else (Inr \<lparr>ch_recs = recs, ch_lines = int linesRead, ch_next = wrap64 (base + int consumed2),
                                   ch_eof = (int linesRead < mx)\<rparr>, evs)))))"

definition downloadChunk ::
  "'w logs_env \<Rightarrow> logs_export_loop \<Rightarrow> string \<Rightarrow> int \<Rightarrow> int \<Rightarrow> int \<Rightarrow> instant \<Rightarrow> 'w \<Rightarrow> (string + chunk) \<times> source_event list \<times> 'w" where
  "downloadChunk env l signedURL skip byteOffset mx fallbackTS w =
     (case le_get env w (chunk_request signedURL byteOffset) of
        (Inl e, w1) \<Rightarrow> (Inl (''portkey logs_export: signed-url download: '' @ e), [], w1)
      | (Inr dl, w1) \<Rightarrow> (case read_chunk l skip byteOffset mx fallbackTS dl of (r, evs) \<Rightarrow> (r, evs, w1)))"

section \<open>The line reader\<close>

text \<open>The lines of an object, each with its newline; the last one may have none.\<close>

function raw_lines :: "string \<Rightarrow> string list" where
  "raw_lines s =
     (if s = [] then []
      else let w = takeWhile (\<lambda>c. c \<noteq> newline) s
           in if length w < length s then take (Suc (length w)) s # raw_lines (drop (Suc (length w)) s) else [s])"
  by auto

termination
  by (relation "measure length") auto

declare raw_lines.simps [simp del]

definition line_text :: "string \<Rightarrow> string" where
  "line_text r = takeWhile (\<lambda>c. c \<noteq> newline) r"

text \<open>Reading a line through the buffer is reading up to the first newline.\<close>

definition next_line :: "nat \<Rightarrow> string option \<Rightarrow> string \<Rightarrow> read_result \<times> nat \<times> string" where
  "next_line limit fault s =
     (let w = line_text s; line = RLine (if limit < length w then [] else w) (limit < length w) in
      if length w < length s then (line, Suc (length w), drop (Suc (length w)) s)
      else case fault of
        Some m \<Rightarrow> (RErr m, length s, [])
      | None \<Rightarrow> if s = [] then (REof, 0, []) else (line, length s, []))"

lemma takeWhile_take_short:
  "length (takeWhile P (take n s)) < n \<Longrightarrow> takeWhile P (take n s) = takeWhile P s"
proof (induction s arbitrary: n)
  case (Cons x s)
  then show ?case by (cases n) auto
qed simp

lemma takeWhile_take_full: "length (takeWhile P (take n s)) = n \<Longrightarrow> \<forall>c\<in>set (take n s). P c"
  by (metis length_take min.cobounded2 set_takeWhileD take_all takeWhile_eq_take length_takeWhile_le nle_le takeWhile_eq_all_conv)

lemma read_slice_cases:
  obtains (delim) "line_text s = takeWhile (\<lambda>c. c \<noteq> newline) s" "length (line_text s) < length s"
      "read_slice s = (take (Suc (length (line_text s))) s, SliceDelim, drop (Suc (length (line_text s))) s)"
  | (full) "lineReadBufBytes \<le> length s" "\<forall>c\<in>set (take lineReadBufBytes s). c \<noteq> newline"
      "read_slice s = (take lineReadBufBytes s, SliceFull, drop lineReadBufBytes s)"
  | (last) "line_text s = s" "read_slice s = (s, SliceEnd, [])"
proof (cases "length (takeWhile (\<lambda>c. c \<noteq> newline) (take lineReadBufBytes s)) < lineReadBufBytes")
  case True
  then have eq: "takeWhile (\<lambda>c. c \<noteq> newline) (take lineReadBufBytes s) = line_text s"
    unfolding line_text_def by (rule takeWhile_take_short)
  show ?thesis
  proof (cases "length (line_text s) < length s")
    case True
    then show ?thesis using that(1) eq \<open>length (takeWhile _ _) < _\<close> by (simp add: read_slice_def line_text_def Let_def)
  next
    case False
    then have "line_text s = s" unfolding line_text_def
      by (metis length_takeWhile_le nle_le not_less takeWhile_eq_take take_all)
    moreover have "length s < lineReadBufBytes" using True eq calculation by simp
    ultimately show ?thesis using that(3) by (simp only: read_slice_def Let_def eq) simp
  qed
next
  case False
  have "length (takeWhile (\<lambda>c. c \<noteq> newline) (take lineReadBufBytes s)) \<le> length (take lineReadBufBytes s)"
    by (rule length_takeWhile_le)
  with False have all: "length (takeWhile (\<lambda>c. c \<noteq> newline) (take lineReadBufBytes s)) = lineReadBufBytes" "lineReadBufBytes \<le> length s"
    by auto
  then show ?thesis using that(2) takeWhile_take_full [OF all(1)] by (simp add: read_slice_def Let_def)
qed

lemma read_frags_spec:
  assumes "\<forall>c\<in>set p. c \<noteq> newline" "seen = length p" "tooLong = (limit < length p)" "buf = (if tooLong then [] else p)" "consumed = length p"
  shows "read_frags limit fault buf seen tooLong consumed s = next_line limit fault (p @ s)"
  using assms
proof (induction "length s" arbitrary: p buf seen tooLong consumed s rule: less_induct)
  case less
  have pre: "line_text (p @ t) = p @ line_text t" for t
    using less.prems(1) by (simp add: line_text_def takeWhile_append2)
  show ?case
  proof (cases s rule: read_slice_cases)
    case delim
    have b: "butlast (take (Suc (length (line_text s))) s) = line_text s"
      using delim(2) takeWhile_eq_take [of "\<lambda>c. c \<noteq> newline" s] by (simp add: butlast_take line_text_def [symmetric])
    have "length (take (Suc (length (line_text s))) s) = Suc (length (line_text s))" using delim(2) by simp
    then show ?thesis using delim(2,3) less.prems b
      by (subst read_frags.simps) (simp add: next_line_def Let_def pre)
  next
    case full
    have "length (drop lineReadBufBytes s) < length s" using full(1) by (simp add: lineReadBufBytes_def)
    moreover have "\<forall>c\<in>set (p @ take lineReadBufBytes s). c \<noteq> newline" using full(2) less.prems(1) by auto
    ultimately have "read_frags limit fault (if limit < length (p @ take lineReadBufBytes s) then [] else p @ take lineReadBufBytes s)
        (length (p @ take lineReadBufBytes s)) (limit < length (p @ take lineReadBufBytes s)) (length (p @ take lineReadBufBytes s))
        (drop lineReadBufBytes s) = next_line limit fault ((p @ take lineReadBufBytes s) @ drop lineReadBufBytes s)"
      by (intro less.hyps) auto
    moreover have "read_frags limit fault buf seen tooLong consumed s =
        read_frags limit fault (if limit < length (p @ take lineReadBufBytes s) then [] else p @ take lineReadBufBytes s)
          (length (p @ take lineReadBufBytes s)) (limit < length (p @ take lineReadBufBytes s)) (length (p @ take lineReadBufBytes s))
          (drop lineReadBufBytes s)"
      using full(1,3) less.prems by (subst read_frags.simps) (auto simp: Let_def)
    ultimately show ?thesis by simp
  next
    case last
    show ?thesis using last less.prems
      by (subst read_frags.simps) (simp add: next_line_def Let_def pre split: option.splits)
  qed
qed

lemma readLine_next_line: "readLine limit fault s = next_line limit fault s"
  using read_frags_spec [of "[]" 0 False limit "[]" 0 fault s] by (simp add: readLine_def)

section \<open>A chunk of an object\<close>

lemma raw_lines_Nil [simp]: "raw_lines [] = []"
  by (simp add: raw_lines.simps)

lemma raw_lines_step:
  assumes "s \<noteq> []"
  obtains r rs where "raw_lines s = r # rs" "r @ concat rs = s" "raw_lines (concat rs) = rs" "r \<noteq> []" "line_text r = line_text s"
    "next_line limit None s = (RLine (if limit < length (line_text r) then [] else line_text r) (limit < length (line_text r)), length r, concat rs)"
  using assms
proof (induction s arbitrary: thesis rule: raw_lines.induct)
  case (1 s)
  let ?w = "takeWhile (\<lambda>c. c \<noteq> newline) s"
  show ?case
  proof (cases "length ?w < length s")
    case False
    then have eq: "line_text s = s" unfolding line_text_def by (metis length_takeWhile_le nle_le not_less takeWhile_eq_take take_all)
    have "raw_lines s = [s]" using "1.prems"(2) False by (subst raw_lines.simps) (simp add: Let_def)
    then show ?thesis using "1.prems" eq by (intro "1.prems"(1) [of s "[]"]) (auto simp: next_line_def Let_def)
  next
    case True
    define r where "r = take (Suc (length ?w)) s"
    define t where "t = drop (Suc (length ?w)) s"
    have lines: "raw_lines s = r # raw_lines t" using True "1.prems"(2) by (simp add: raw_lines.simps [of s] r_def t_def Let_def)
    have whole: "concat (raw_lines t) = t"
    proof (cases "t = []")
      case False
      then show ?thesis using "1.IH" [OF "1.prems"(2) refl True] unfolding t_def [symmetric] by (metis concat.simps(2))
    qed simp
    have "s ! length ?w = newline" using nth_length_takeWhile [OF True] by simp
    then have "r = take (length ?w) s @ [newline]" unfolding r_def using True by (simp add: take_Suc_conv_app_nth)
    then have "r = ?w @ [newline]" using takeWhile_eq_take [of "\<lambda>c. c \<noteq> newline" s] by simp
    then have cut: "line_text r = ?w" unfolding line_text_def by (simp add: takeWhile_tail)
    have len: "length r = Suc (length ?w)" using True by (simp add: r_def)
    show ?thesis
      by (rule "1.prems"(1) [OF lines])
        (use whole cut len True in \<open>auto simp: r_def t_def line_text_def next_line_def Let_def\<close>)
  qed
qed

lemma concat_raw_lines [simp]: "concat (raw_lines s) = s"
  by (cases "s = []") (auto elim: raw_lines_step)

text \<open>Where the line of that number starts.\<close>

definition offset_of :: "string \<Rightarrow> nat \<Rightarrow> nat" where
  "offset_of obj k = length (concat (take k (raw_lines obj)))"

definition line_out :: "logs_export_loop \<Rightarrow> instant \<Rightarrow> string \<Rightarrow> log_record list \<times> source_event list" where
  "line_out l fb r = process_line l fb (if line_cap l < length (line_text r) then [] else line_text r) (line_cap l < length (line_text r))"

lemma drop_offset_of: "drop (offset_of obj k) obj = concat (drop k (raw_lines obj))"
proof -
  have "obj = concat (take k (raw_lines obj)) @ concat (drop k (raw_lines obj))"
    by (metis append_take_drop_id concat_append concat_raw_lines)
  then show ?thesis unfolding offset_of_def by (metis append_eq_conv_conj)
qed

lemma raw_lines_drop: "raw_lines (concat (drop k (raw_lines obj))) = drop k (raw_lines obj)"
proof (induction k)
  case (Suc k)
  show ?case
  proof (cases "concat (drop k (raw_lines obj)) = []")
    case True
    then show ?thesis using Suc by (metis drop_Suc drop_Nil raw_lines_Nil tl_drop list.sel(2) concat.simps(1))
  next
    case False
    then obtain r rs where "drop k (raw_lines obj) = r # rs" "raw_lines (concat rs) = rs"
      using raw_lines_step [OF False, where limit = 0] Suc by metis
    then show ?thesis by (metis drop_Suc list.sel(3) tl_drop)
  qed
qed simp

lemma skip_lines_exact:
  "skip_lines limit None n c s =
     (if n \<le> length (raw_lines s) then Skipped (c + length (concat (take n (raw_lines s)))) (concat (drop n (raw_lines s)))
      else SkipEof (c + length s))"
proof (induction n arbitrary: c s)
  case (Suc n)
  show ?case
  proof (cases "s = []")
    case True
    then show ?thesis by (simp add: readLine_next_line next_line_def line_text_def)
  next
    case False
    then obtain r rs where rs: "raw_lines s = r # rs" "r @ concat rs = s" "raw_lines (concat rs) = rs"
      and next_: "next_line limit None s = (RLine (if limit < length (line_text r) then [] else line_text r) (limit < length (line_text r)), length r, concat rs)"
      by (rule raw_lines_step)
    show ?thesis using Suc.IH [of "c + length r" "concat rs"] arg_cong [OF rs(2), of length] rs(1,3)
      by (auto simp: readLine_next_line next_)
  qed
qed simp

lemma take_lines_exact:
  "take_lines l fb (line_cap l) None n c s =
     (Inr (concat (map (\<lambda>r. fst (line_out l fb r)) (take n (raw_lines s))), min n (length (raw_lines s)),
           c + length (concat (take n (raw_lines s)))),
      concat (map (\<lambda>r. snd (line_out l fb r)) (take n (raw_lines s))))"
proof (induction n arbitrary: c s)
  case (Suc n)
  show ?case
  proof (cases "s = []")
    case True
    then show ?thesis by (simp add: readLine_next_line next_line_def line_text_def)
  next
    case False
    then obtain r rs where rs: "raw_lines s = r # rs" "raw_lines (concat rs) = rs"
      and next_: "next_line (line_cap l) None s =
        (RLine (if line_cap l < length (line_text r) then [] else line_text r) (line_cap l < length (line_text r)), length r, concat rs)"
      by (rule raw_lines_step)
    obtain recs evs where out: "line_out l fb r = (recs, evs)" by (cases "line_out l fb r")
    then have proc: "process_line l fb (if line_cap l < length (line_text r) then [] else line_text r) (line_cap l < length (line_text r)) = (recs, evs)"
      by (simp add: line_out_def)
    show ?thesis using Suc.IH [of "c + length r" "concat rs"] rs out proc
      by (simp add: readLine_next_line next_ del: split_paired_All)
  qed
qed simp

text \<open>An answer for an object: all of it, or with the right header the rest from the offset.\<close>

definition answers :: "string \<Rightarrow> int \<Rightarrow> download \<Rightarrow> bool" where
  "answers obj off dl \<longleftrightarrow> dw_err dl = None \<and>
     (rs_StatusCode (dw_response dl) = StatusOK \<and> rs_Body (dw_response dl) = obj \<or>
      0 < off \<and> rs_StatusCode (dw_response dl) = StatusPartialContent \<and>
      contentRangeStart (map_get (rs_Header (dw_response dl)) ''Content-Range'') = Some off \<and>
      rs_Body (dw_response dl) = drop (nat off) obj)"

lemma offset_of_mono: "offset_of obj k \<le> length obj"
  unfolding offset_of_def by (metis append_take_drop_id concat_append concat_raw_lines le_add1 length_append)

lemma offset_of_add: "offset_of obj (k + n) = offset_of obj k + length (concat (take n (drop k (raw_lines obj))))"
  by (simp add: offset_of_def take_add)

lemma read_chunk_exact:
  assumes "answers obj off dl" "off = 0 \<or> off = int (offset_of obj k)" "k \<le> length (raw_lines obj)"
    and "length obj \<le> max_bytes l" "int (max_bytes l) < 2 ^ 63" "0 < mx"
  shows "read_chunk l (int k) off mx fb dl =
    (let new = take (nat mx) (drop k (raw_lines obj)) in
     (Inr \<lparr>ch_recs = concat (map (\<lambda>r. fst (line_out l fb r)) new), ch_lines = int (length new),
           ch_next = int (offset_of obj (k + length new)), ch_eof = (length (raw_lines obj) - k < nat mx)\<rparr>,
      concat (map (\<lambda>r. snd (line_out l fb r)) new)))"
proof -
  define new where "new = take (nat mx) (drop k (raw_lines obj))"
  have len_new: "length new = min (nat mx) (length (raw_lines obj) - k)" by (simp add: new_def)
  have new_take: "take (length new) (drop k (raw_lines obj)) = new" by (simp add: new_def min_def)
  have nxt: "offset_of obj (k + length new) = offset_of obj k + length (concat new)" by (simp add: offset_of_add new_take)
  have bound: "int (offset_of obj (k + length new)) < 2 ^ 63" using offset_of_mono [of obj "k + length new"] assms(4,5) by linarith
  then have wrap: "wrap64 (int (offset_of obj (k + length new))) = int (offset_of obj (k + length new))" by (simp add: wrap64_def)
  have taken: "take_lines l fb (line_cap l) None (nat mx) c (concat (drop k (raw_lines obj))) =
      (Inr (concat (map (\<lambda>r. fst (line_out l fb r)) new), length new, c + length (concat new)), concat (map (\<lambda>r. snd (line_out l fb r)) new))" for c
    by (simp add: take_lines_exact raw_lines_drop new_def [symmetric] len_new)
  have eof: "(int (length new) < mx) = (length (raw_lines obj) - k < nat mx)" using assms(6) by (auto simp: len_new)
  have small: "take (Suc (max_bytes l)) obj = obj" "\<not> max_bytes l < length obj" using assms(4) by simp_all
  have err: "dw_err dl = None" using assms(1) by (simp add: answers_def)
  consider (all) "rs_StatusCode (dw_response dl) = StatusOK" "rs_Body (dw_response dl) = obj"
    | (rest) "0 < off" "rs_StatusCode (dw_response dl) = StatusPartialContent" "rs_Body (dw_response dl) = drop (nat off) obj"
        "contentRangeStart (map_get (rs_Header (dw_response dl)) ''Content-Range'') = Some off"
    using assms(1) by (auto simp: answers_def)
  then show ?thesis
  proof cases
    case all
    have "skip_lines (line_cap l) None (nat (int k)) 0 obj = Skipped (offset_of obj k) (concat (drop k (raw_lines obj)))"
      using assms(3) by (simp add: skip_lines_exact offset_of_def)
    then show ?thesis using taken [of "offset_of obj k"] wrap eof err small
      by (simp add: read_chunk_def rangeHonored_def all Let_def new_def [symmetric] nxt)
  next
    case rest
    then have off: "off = int (offset_of obj k)" using assms(2) by auto
    then have body: "rs_Body (dw_response dl) = concat (drop k (raw_lines obj))" using rest(3) drop_offset_of [of obj k] by simp
    have short: "length (concat (drop k (raw_lines obj))) \<le> max_bytes l"
      using assms(4) drop_offset_of [of obj k] by (metis diff_le_self le_trans length_drop)
    then have "take (Suc (max_bytes l)) (concat (drop k (raw_lines obj))) = concat (drop k (raw_lines obj))" by simp
    then show ?thesis using taken [of 0] wrap eof err short rest(1,2,4)
      by (simp add: read_chunk_def rangeHonored_def StatusPartialContent_def StatusOK_def body off Let_def new_def [symmetric] nxt)
  qed
qed

end
