(* ===== verification/Portkey_Logs_Export.thy ===== *)
theory Portkey_Logs_Export
  imports Portkey_Logs_Download
begin

text \<open>
  The Portkey log export: the lifecycle calls (\<^verbatim>\<open>internal/source/portkey/logs_client.go\<close>) and the
  state machine whose state is the JSON text of the watermark's cursor
  (\<^verbatim>\<open>internal/source/portkey/logs_export.go\<close>). \<open>Collect\<close> makes one step. The identity of the span
  under which a step runs, and reading a span identity from text, belong to the tracing
  library and are parameters; an identity is the pair of its two hexadecimal texts.
\<close>

record 'w export_env =
  ee_logs :: "'w logs_env"
  ee_span_of :: "string \<Rightarrow> string \<Rightarrow> (string \<times> string) option"
  ee_current :: "'w \<Rightarrow> (string \<times> string) option"

abbreviation ee_net :: "'w export_env \<Rightarrow> 'w net" where
  "ee_net env \<equiv> le_net (ee_logs env)"

section \<open>Lifecycle calls\<close>

definition statusDraft :: string where "statusDraft = ''draft''"
definition statusQueued :: string where "statusQueued = ''queued''"
definition statusInProgress :: string where "statusInProgress = ''in_progress''"
definition statusSuccess :: string where "statusSuccess = ''success''"

definition lifecycle_request :: "logs_export_loop \<Rightarrow> string \<Rightarrow> string \<Rightarrow> json option \<Rightarrow> http_request" where
  "lifecycle_request l meth path reqBody =
     (let hdr = fmupd (ka_authHdr (lx_access l)) (ka_authVal (lx_access l)) fmempty in
      \<lparr>rq_Method = meth, rq_URL = ka_baseURL (lx_access l) @ path,
       rq_Header = (case reqBody of None \<Rightarrow> hdr | Some _ \<Rightarrow> fmupd ''Content-Type'' ''application/json'' hdr),
       rq_Body = (case reqBody of None \<Rightarrow> '''' | Some j \<Rightarrow> json_text j)\<rparr>)"

text \<open>One call: the decoded answer, or an error; a refused credential is also counted.\<close>

definition lifecycle ::
  "'w net \<Rightarrow> logs_export_loop \<Rightarrow> string \<Rightarrow> string \<Rightarrow> json option \<Rightarrow> (json \<Rightarrow> 'a option) option \<Rightarrow> 'a \<Rightarrow> 'w \<Rightarrow>
     (string + 'a) \<times> source_event list \<times> 'w" where
  "lifecycle net l meth path reqBody out zero w =
     (case nt_do net w (lifecycle_request l meth path reqBody) of
        (Inl e, w1) \<Rightarrow> (Inl e, [], w1)
      | (Inr resp, w1) \<Rightarrow>
          (if rs_StatusCode resp < 200 \<or> 300 \<le> rs_StatusCode resp
           then (Inl (''portkey logs_export: '' @ meth @ '' '' @ path @ '' status '' @ FormatInt (rs_StatusCode resp)),
                 (if IsAuthStatus (rs_StatusCode resp) then fire (lx_deps l) (AuthError ''logs_export'' (ka_sourceInstance (lx_access l))) else []),
                 w1)
           else case out of
             None \<Rightarrow> (Inr zero, [], w1)
           | Some d \<Rightarrow>
               (case Option.bind (nt_json net (take maxResponseBytes (rs_Body resp))) d of
                  None \<Rightarrow> (Inl (''portkey logs_export: decode '' @ path), [], w1)
                | Some v \<Rightarrow> (Inr v, [], w1))))"

record create_export_resp =
  cr_ID :: string
  cr_Total :: int

definition dec_create :: "json \<Rightarrow> create_export_resp option" where
  "dec_create j =
     (case json_fields j of
        None \<Rightarrow> None
      | Some kvs \<Rightarrow>
          (case (dec_field dec_string ''id'' kvs '''', dec_field dec_int ''total'' kvs 0) of
             (Some i, Some t) \<Rightarrow> Some \<lparr>cr_ID = i, cr_Total = t\<rparr>
           | _ \<Rightarrow> None))"

definition dec_one :: "string \<Rightarrow> json \<Rightarrow> string option" where
  "dec_one name j = (case json_fields j of None \<Rightarrow> None | Some kvs \<Rightarrow> dec_field dec_string name kvs '''')"

definition create_body :: "logs_export_loop \<Rightarrow> instant \<Rightarrow> instant \<Rightarrow> int \<Rightarrow> json" where
  "create_body l winMin winMax page =
     JObj [(''description'', JStr (''genai-otel-bridge/'' @ ka_sourceInstance (lx_access l) @ ''/logs/'' @ FormatRFC3339 winMin @ ''..'' @ FormatRFC3339 winMax)),
           (''filters'', JObj
              ((if lx_apiKeyIDs l \<noteq> '''' then [(''api_key_ids'', JArr (map JStr (split_on CHR '','' (lx_apiKeyIDs l))))] else []) @
               [(''current_page'', JNum (FormatInt page)), (''page_size'', JNum (FormatInt (lx_pageSize l))),
                (''time_of_generation_max'', JStr (FormatRFC3339 winMax)), (''time_of_generation_min'', JStr (FormatRFC3339 winMin))])),
           (''requested_data'', JArr (map JStr (lx_requestedData l))),
           (''workspace_id'', JStr (lx_workspaceID l))]"

definition createExport ::
  "'w net \<Rightarrow> logs_export_loop \<Rightarrow> instant \<Rightarrow> instant \<Rightarrow> int \<Rightarrow> 'w \<Rightarrow> (string + string \<times> int) \<times> source_event list \<times> 'w" where
  "createExport net l winMin winMax page w =
     (case lifecycle net l ''POST'' ''/logs/exports'' (Some (create_body l winMin winMax page)) (Some dec_create) \<lparr>cr_ID = '''', cr_Total = 0\<rparr> w of
        (Inl e, evs, w1) \<Rightarrow> (Inl e, evs, w1)
      | (Inr out, evs, w1) \<Rightarrow> (Inr (cr_ID out, cr_Total out), evs, w1))"

definition startExport :: "'w net \<Rightarrow> logs_export_loop \<Rightarrow> string \<Rightarrow> 'w \<Rightarrow> (string + unit) \<times> source_event list \<times> 'w" where
  "startExport net l jobID w = lifecycle net l ''POST'' (''/logs/exports/'' @ PathEscape jobID @ ''/start'') None None () w"

definition pollExport :: "'w net \<Rightarrow> logs_export_loop \<Rightarrow> string \<Rightarrow> 'w \<Rightarrow> (string + string) \<times> source_event list \<times> 'w" where
  "pollExport net l jobID w = lifecycle net l ''GET'' (''/logs/exports/'' @ PathEscape jobID) None (Some (dec_one ''status'')) '''' w"

definition getDownloadURL :: "'w net \<Rightarrow> logs_export_loop \<Rightarrow> string \<Rightarrow> 'w \<Rightarrow> (string + string) \<times> source_event list \<times> 'w" where
  "getDownloadURL net l jobID w =
     (case lifecycle net l ''GET'' (''/logs/exports/'' @ PathEscape jobID @ ''/download'') None (Some (dec_one ''signed_url'')) '''' w of
        (Inl e, evs, w1) \<Rightarrow> (Inl e, evs, w1)
      | (Inr url, evs, w1) \<Rightarrow> (if url = '''' then Inl ''portkey logs_export: download returned an empty signed_url'' else Inr url, evs, w1))"

definition cancelExport :: "'w net \<Rightarrow> logs_export_loop \<Rightarrow> string \<Rightarrow> 'w \<Rightarrow> (string + unit) \<times> source_event list \<times> 'w" where
  "cancelExport net l jobID w = lifecycle net l ''POST'' (''/logs/exports/'' @ PathEscape jobID @ ''/cancel'') None None () w"

section \<open>The cursor\<close>

definition phaseIdle :: string where "phaseIdle = ''idle''"
definition phaseCreated :: string where "phaseCreated = ''created''"
definition phasePolling :: string where "phasePolling = ''polling''"
definition phaseDownloading :: string where "phaseDownloading = ''downloading''"
definition phaseBlocked :: string where "phaseBlocked = ''blocked''"

record export_cursor =
  xc_Phase :: string
  xc_JobID :: string
  xc_WinMin :: string
  xc_WinMax :: string
  xc_Page :: int
  xc_Pages :: int
  xc_TotalRecords :: int
  xc_PageOffsetDone :: int
  xc_PageByteOffset :: int
  xc_PollDeadline :: string
  xc_LifecycleTraceID :: string
  xc_LifecycleSpanID :: string

definition zero_cursor :: export_cursor where
  "zero_cursor = \<lparr>xc_Phase = '''', xc_JobID = '''', xc_WinMin = '''', xc_WinMax = '''', xc_Page = 0, xc_Pages = 0, xc_TotalRecords = 0,
     xc_PageOffsetDone = 0, xc_PageByteOffset = 0, xc_PollDeadline = '''', xc_LifecycleTraceID = '''', xc_LifecycleSpanID = ''''\<rparr>"

definition idle_cursor :: export_cursor where
  "idle_cursor = zero_cursor\<lparr>xc_Phase := phaseIdle\<rparr>"

definition cursor_fields :: "export_cursor \<Rightarrow> (string \<times> json) list" where
  "cursor_fields c = concat
     [[(''phase'', JStr (xc_Phase c))], opt_str ''job_id'' (xc_JobID c), opt_str ''win_min'' (xc_WinMin c), opt_str ''win_max'' (xc_WinMax c),
      opt_int ''page'' (xc_Page c), opt_int ''pages'' (xc_Pages c), opt_int ''total_records'' (xc_TotalRecords c),
      opt_int ''page_offset_done'' (xc_PageOffsetDone c), opt_int ''page_byte_offset'' (xc_PageByteOffset c),
      opt_str ''poll_deadline'' (xc_PollDeadline c), opt_str ''lifecycle_trace_id'' (xc_LifecycleTraceID c),
      opt_str ''lifecycle_span_id'' (xc_LifecycleSpanID c)]"

definition encode :: "export_cursor \<Rightarrow> string" where
  "encode c = json_text (JObj (cursor_fields c))"

definition dec_cursor :: "(string \<times> json) list \<Rightarrow> export_cursor option" where
  "dec_cursor kvs =
     (let str = (\<lambda>k. dec_field dec_string k kvs ''''); num = (\<lambda>k. dec_field dec_int k kvs 0) in
      if None \<in> set (map str [''phase'', ''job_id'', ''win_min'', ''win_max'', ''poll_deadline'', ''lifecycle_trace_id'', ''lifecycle_span_id'']) \<or>
         None \<in> set (map num [''page'', ''pages'', ''total_records'', ''page_offset_done'', ''page_byte_offset''])
      then None
      else Some \<lparr>xc_Phase = the (str ''phase''), xc_JobID = the (str ''job_id''), xc_WinMin = the (str ''win_min''), xc_WinMax = the (str ''win_max''),
             xc_Page = the (num ''page''), xc_Pages = the (num ''pages''), xc_TotalRecords = the (num ''total_records''),
             xc_PageOffsetDone = the (num ''page_offset_done''), xc_PageByteOffset = the (num ''page_byte_offset''),
             xc_PollDeadline = the (str ''poll_deadline''), xc_LifecycleTraceID = the (str ''lifecycle_trace_id''),
             xc_LifecycleSpanID = the (str ''lifecycle_span_id'')\<rparr>)"

definition decodeCursor :: "string \<Rightarrow> export_cursor" where
  "decodeCursor s =
     (if s = '''' then idle_cursor
      else case Option.bind (Option.bind (parse_text s) json_fields) dec_cursor of
        None \<Rightarrow> idle_cursor
      | Some c \<Rightarrow> if xc_Phase c = '''' then idle_cursor else c)"

definition parseCursorTime :: "string \<Rightarrow> instant option" where
  "parseCursorTime s = (if s = '''' then None else ParseRFC3339 s)"

definition windowBounds :: "export_cursor \<Rightarrow> (instant \<times> instant) option" where
  "windowBounds c =
     (case (parseCursorTime (xc_WinMin c), parseCursorTime (xc_WinMax c)) of
        (Some a, Some b) \<Rightarrow> Some (a, b)
      | _ \<Rightarrow> None)"

definition advanceCursor :: "instant \<Rightarrow> export_cursor \<Rightarrow> watermark" where
  "advanceCursor t c = \<lparr>wm_Time = t, wm_Cursor = encode c, wm_Epoch = 0\<rparr>"

definition resetIdle :: "instant \<Rightarrow> watermark" where
  "resetIdle t = \<lparr>wm_Time = t, wm_Cursor = encode idle_cursor, wm_Epoch = 0\<rparr>"

definition window_done :: "instant \<Rightarrow> watermark" where
  "window_done t = \<lparr>wm_Time = t, wm_Cursor = '''', wm_Epoch = 0\<rparr>"

section \<open>Steps\<close>

type_synonym 'w step_result = "(collect_error + batch) \<times> source_event list \<times> 'w"

definition logs_batch :: "'w net \<Rightarrow> logs_export_loop \<Rightarrow> log_record list \<Rightarrow> watermark \<Rightarrow> batch" where
  "logs_batch net l recs wm = \<lparr>bt_Key = lx_Key net l, bt_Samples = [], bt_Logs = recs, bt_Watermark = wm\<rparr>"

text \<open>The window of an export: its bounds and whether it has settled.\<close>

definition windowBoundsFor :: "logs_export_loop \<Rightarrow> instant \<Rightarrow> instant \<Rightarrow> instant \<times> instant \<times> bool" where
  "windowBoundsFor l sinceTime now =
     (let m0 = (if IsZero sinceTime then time_Add now (- lx_window l) else sinceTime);
          floor = time_Add now (- lx_maxBackfill l);
          winMin = (if m0 < floor then floor else m0);
          x0 = time_Add winMin (lx_window l);
          cutoff = time_Add now (- lx_settle l);
          winMax = (if cutoff < x0 then cutoff else x0)
      in (winMin, winMax, winMin < winMax))"

definition window_cursor :: "string \<Rightarrow> instant \<Rightarrow> instant \<Rightarrow> int \<Rightarrow> int \<Rightarrow> export_cursor" where
  "window_cursor phase winMin winMax pages tot =
     zero_cursor\<lparr>xc_Phase := phase, xc_WinMin := FormatRFC3339Nano winMin, xc_WinMax := FormatRFC3339Nano winMax,
       xc_Pages := pages, xc_TotalRecords := tot\<rparr>"

definition page_count :: "logs_export_loop \<Rightarrow> int \<Rightarrow> int" where
  "page_count l tot = quot (wrap64 (wrap64 (tot + lx_pageSize l) - 1)) (lx_pageSize l)"

definition stepIdle :: "'w net \<Rightarrow> logs_export_loop \<Rightarrow> watermark \<Rightarrow> instant \<Rightarrow> 'w \<Rightarrow> 'w step_result" where
  "stepIdle net l since now w =
     (case windowBoundsFor l (wm_Time since) now of (winMin, winMax, settled) \<Rightarrow>
        if \<not> settled then (Inr (logs_batch net l [] since), [], w)
        else case createExport net l winMin winMax 0 w of
          (Inl e, evs, w1) \<Rightarrow> (Inl (CollectFailed e), evs, w1)
        | (Inr (jobID, tot), evs, w1) \<Rightarrow>
            (let pages = page_count l tot in
             if tot \<le> 0 \<or> pages = 0 then (Inr (logs_batch net l [] (window_done winMax)), evs, w1)
             else if 0 < lx_maxPagesPerWindow l \<and> lx_maxPagesPerWindow l < pages then
               (Inr (logs_batch net l [] (advanceCursor (wm_Time since) (window_cursor phaseBlocked winMin winMax pages tot))),
                evs @ incomplete l ''window_oversize'', w1)
             else
               (Inr (logs_batch net l [] (advanceCursor (wm_Time since)
                  ((window_cursor phaseCreated winMin winMax pages tot)\<lparr>xc_JobID := jobID\<rparr>))), evs, w1)))"

definition stepBlocked :: "'w net \<Rightarrow> logs_export_loop \<Rightarrow> watermark \<Rightarrow> export_cursor \<Rightarrow> instant \<Rightarrow> 'w \<Rightarrow> 'w step_result" where
  "stepBlocked net l since cur now w =
     (case windowBoundsFor l (wm_Time since) now of (winMin, winMax, settled) \<Rightarrow>
        if \<not> settled \<or> windowBounds cur \<noteq> Some (winMin, winMax)
        then (Inr (logs_batch net l [] (resetIdle (wm_Time since))), [], w)
        else (Inl (CollectFailed ''portkey logs_export: window needs more pages than max_pages_per_window - shrink window''), [], w))"

text \<open>\<open>now2\<close> is the second reading of the clock, after the calls.\<close>

definition stepCreated :: "'w net \<Rightarrow> logs_export_loop \<Rightarrow> watermark \<Rightarrow> export_cursor \<Rightarrow> instant \<Rightarrow> 'w \<Rightarrow> 'w step_result" where
  "stepCreated net l since cur now2 w =
     (if xc_JobID cur = '''' then
        (case windowBounds cur of
           None \<Rightarrow> (Inr (logs_batch net l [] (resetIdle (wm_Time since))), [], w)
         | Some (winMin, winMax) \<Rightarrow>
             (case createExport net l winMin winMax (xc_Page cur) w of
                (Inl e, evs, w1) \<Rightarrow> (Inl (CollectFailed e), evs, w1)
              | (Inr (jobID, _), evs, w1) \<Rightarrow>
                  (Inr (logs_batch net l [] (advanceCursor (wm_Time since) (cur\<lparr>xc_JobID := jobID\<rparr>))), evs, w1)))
      else
        (let started = Inr (logs_batch net l [] (advanceCursor (wm_Time since)
               (cur\<lparr>xc_Phase := phasePolling, xc_PollDeadline := FormatRFC3339Nano (time_Add now2 (lx_jobPollTimeout l))\<rparr>)))
         in case startExport net l (xc_JobID cur) w of
              (Inr _, evs, w1) \<Rightarrow> (started, evs, w1)
            | (Inl e, evs, w1) \<Rightarrow>
                (case pollExport net l (xc_JobID cur) w1 of
                   (Inl _, evs2, w2) \<Rightarrow> (Inl (CollectFailed e), evs @ evs2, w2)
                 | (Inr status, evs2, w2) \<Rightarrow>
                     (if status = statusDraft then Inl (CollectFailed e) else started, evs @ evs2, w2))))"

definition stepPolling :: "'w net \<Rightarrow> logs_export_loop \<Rightarrow> watermark \<Rightarrow> export_cursor \<Rightarrow> instant \<Rightarrow> 'w \<Rightarrow> 'w step_result" where
  "stepPolling net l since cur now w =
     (case pollExport net l (xc_JobID cur) w of
        (Inl e, evs, w1) \<Rightarrow> (Inl (CollectFailed e), evs, w1)
      | (Inr status, evs, w1) \<Rightarrow>
          (if status = statusSuccess then
             (Inr (logs_batch net l [] (advanceCursor (wm_Time since) (cur\<lparr>xc_Phase := phaseDownloading, xc_PageOffsetDone := 0\<rparr>))), evs, w1)
           else if status = statusDraft then
             (Inr (logs_batch net l [] (advanceCursor (wm_Time since) (cur\<lparr>xc_Phase := phaseCreated\<rparr>))), evs, w1)
           else if status = statusQueued \<or> status = statusInProgress then
             (if (case parseCursorTime (xc_PollDeadline cur) of None \<Rightarrow> False | Some deadline \<Rightarrow> deadline < now)
              then (case cancelExport net l (xc_JobID cur) w1 of
                      (_, evs2, w2) \<Rightarrow>
                        (Inr (logs_batch net l [] (resetIdle (wm_Time since))), evs @ incomplete l ''export_stuck'' @ evs2, w2))
              else (Inr (logs_batch net l [] since), evs, w1))
           else (Inr (logs_batch net l [] (resetIdle (wm_Time since))), evs @ incomplete l ''export_failed'', w1)))"

definition stepDownloading :: "'w logs_env \<Rightarrow> logs_export_loop \<Rightarrow> watermark \<Rightarrow> export_cursor \<Rightarrow> 'w \<Rightarrow> 'w step_result" where
  "stepDownloading env l since cur w =
     (case windowBounds cur of
        None \<Rightarrow> (Inr (logs_batch (le_net env) l [] (resetIdle (wm_Time since))), [], w)
      | Some (_, winMax) \<Rightarrow>
          (case getDownloadURL (le_net env) l (xc_JobID cur) w of
             (Inl e, evs, w1) \<Rightarrow> (Inl (CollectFailed e), evs, w1)
           | (Inr signedURL, evs, w1) \<Rightarrow>
               (case validateSignedURLHost env l signedURL of
                  Some e \<Rightarrow> (Inl (CollectFailed (''portkey logs_export: refusing download: '' @ e)), evs, w1)
                | None \<Rightarrow>
                    (case downloadChunk env l signedURL (xc_PageOffsetDone cur) (xc_PageByteOffset cur) (lx_chunkMaxRecords l) winMax w1 of
                       (Inl e, evs2, w2) \<Rightarrow> (Inl (CollectFailed e), evs @ evs2, w2)
                     | (Inr ch, evs2, w2) \<Rightarrow>
                         (let cur1 = cur\<lparr>xc_PageOffsetDone := wrap64 (xc_PageOffsetDone cur + ch_lines ch), xc_PageByteOffset := ch_next ch\<rparr>;
                              wm = (if \<not> ch_eof ch then advanceCursor (wm_Time since) cur1
                                    else if wrap64 (xc_Page cur + 1) < xc_Pages cur then
                                      advanceCursor (wm_Time since) (cur1\<lparr>xc_Page := wrap64 (xc_Page cur + 1), xc_PageOffsetDone := 0,
                                        xc_PageByteOffset := 0, xc_JobID := '''', xc_Phase := phaseCreated\<rparr>)
                                    else window_done winMax)
                          in (Inr (logs_batch (le_net env) l (ch_recs ch) wm), evs @ evs2, w2))))))"

section \<open>Collect\<close>

definition lifecycleSpanContext :: "'w export_env \<Rightarrow> export_cursor \<Rightarrow> (string \<times> string) option" where
  "lifecycleSpanContext env c = ee_span_of env (xc_LifecycleTraceID c) (xc_LifecycleSpanID c)"

definition lifecycleStepName :: "export_cursor \<Rightarrow> string" where
  "lifecycleStepName cur =
     (if xc_Phase cur = phaseCreated then (if xc_JobID cur = '''' then ''portkey.logs_export.page'' else ''portkey.logs_export.start'')
      else if xc_Phase cur = phasePolling then ''portkey.logs_export.poll''
      else if xc_Phase cur = phaseDownloading then ''portkey.logs_export.download''
      else if xc_Phase cur = phaseBlocked then ''portkey.logs_export.blocked''
      else ''portkey.logs_export.create'')"

definition persistLifecycleLink :: "'w export_env \<Rightarrow> batch \<Rightarrow> export_cursor \<Rightarrow> (string \<times> string) option \<Rightarrow> batch" where
  "persistLifecycleLink env b prior current =
     (let nxt = decodeCursor (wm_Cursor (bt_Watermark b)) in
      if xc_Phase nxt = phaseIdle then b
      else let linked = (case lifecycleSpanContext env prior of
                           Some (t, s) \<Rightarrow> nxt\<lparr>xc_LifecycleTraceID := t, xc_LifecycleSpanID := s\<rparr>
                         | None \<Rightarrow> (case current of Some (t, s) \<Rightarrow> nxt\<lparr>xc_LifecycleTraceID := t, xc_LifecycleSpanID := s\<rparr> | None \<Rightarrow> nxt))
           in b\<lparr>bt_Watermark := (bt_Watermark b)\<lparr>wm_Cursor := encode linked\<rparr>\<rparr>)"

definition export_step :: "'w export_env \<Rightarrow> logs_export_loop \<Rightarrow> watermark \<Rightarrow> instant \<Rightarrow> instant \<Rightarrow> 'w \<Rightarrow> 'w step_result" where
  "export_step env l since now now2 w =
     (let cur = decodeCursor (wm_Cursor since) in
      if xc_Phase cur = phaseCreated then stepCreated (ee_net env) l since cur now2 w
      else if xc_Phase cur = phasePolling then stepPolling (ee_net env) l since cur now w
      else if xc_Phase cur = phaseDownloading then stepDownloading (ee_logs env) l since cur w
      else if xc_Phase cur = phaseBlocked then stepBlocked (ee_net env) l since cur now w
      else stepIdle (ee_net env) l since now w)"

definition lx_Collect :: "'w export_env \<Rightarrow> logs_export_loop \<Rightarrow> instant \<Rightarrow> instant \<Rightarrow> watermark \<Rightarrow> 'w \<Rightarrow> 'w step_result" where
  "lx_Collect env l now now2 since w =
     (case export_step env l since now now2 w of
        (Inl e, evs, w1) \<Rightarrow> (Inl e, evs, w1)
      | (Inr b, evs, w1) \<Rightarrow> (Inr (persistLifecycleLink env b (decodeCursor (wm_Cursor since)) (ee_current env w)), evs, w1))"

section \<open>The cursor round trip\<close>

lemma cursor_names:
  "ToLower ''phase'' = ''phase''" "ToLower ''job_id'' = ''job_id''" "ToLower ''win_min'' = ''win_min''" "ToLower ''win_max'' = ''win_max''"
  "ToLower ''page'' = ''page''" "ToLower ''pages'' = ''pages''" "ToLower ''total_records'' = ''total_records''"
  "ToLower ''page_offset_done'' = ''page_offset_done''" "ToLower ''page_byte_offset'' = ''page_byte_offset''"
  "ToLower ''poll_deadline'' = ''poll_deadline''" "ToLower ''lifecycle_trace_id'' = ''lifecycle_trace_id''"
  "ToLower ''lifecycle_span_id'' = ''lifecycle_span_id''"
  by code_simp+

definition cursor_ok :: "export_cursor \<Rightarrow> bool" where
  "cursor_ok c \<longleftrightarrow> xc_Phase c \<noteq> '''' \<and> in_int64 (xc_Page c) \<and> in_int64 (xc_Pages c) \<and> in_int64 (xc_TotalRecords c) \<and>
     in_int64 (xc_PageOffsetDone c) \<and> in_int64 (xc_PageByteOffset c)"

lemma dec_cursor_fields:
  assumes "cursor_ok c"
  shows "dec_cursor (cursor_fields c) = Some c"
proof -
  have ints: "in_int64 (xc_Page c)" "in_int64 (xc_Pages c)" "in_int64 (xc_TotalRecords c)" "in_int64 (xc_PageOffsetDone c)" "in_int64 (xc_PageByteOffset c)"
    using assms by (simp_all add: cursor_ok_def)
  have str: "dec_field dec_string ''phase'' (cursor_fields c) '''' = Some (xc_Phase c)"
    "dec_field dec_string ''job_id'' (cursor_fields c) '''' = Some (xc_JobID c)"
    "dec_field dec_string ''win_min'' (cursor_fields c) '''' = Some (xc_WinMin c)"
    "dec_field dec_string ''win_max'' (cursor_fields c) '''' = Some (xc_WinMax c)"
    "dec_field dec_string ''poll_deadline'' (cursor_fields c) '''' = Some (xc_PollDeadline c)"
    "dec_field dec_string ''lifecycle_trace_id'' (cursor_fields c) '''' = Some (xc_LifecycleTraceID c)"
    "dec_field dec_string ''lifecycle_span_id'' (cursor_fields c) '''' = Some (xc_LifecycleSpanID c)"
    by (simp_all add: cursor_fields_def dec_field_append dec_field_other dec_field_opt_str cursor_names)
  have num: "dec_field dec_int ''page'' (cursor_fields c) 0 = Some (xc_Page c)"
    "dec_field dec_int ''pages'' (cursor_fields c) 0 = Some (xc_Pages c)"
    "dec_field dec_int ''total_records'' (cursor_fields c) 0 = Some (xc_TotalRecords c)"
    "dec_field dec_int ''page_offset_done'' (cursor_fields c) 0 = Some (xc_PageOffsetDone c)"
    "dec_field dec_int ''page_byte_offset'' (cursor_fields c) 0 = Some (xc_PageByteOffset c)"
    by (simp_all add: cursor_fields_def dec_field_append dec_field_other dec_field_opt_int [OF ints(1)] dec_field_opt_int [OF ints(2)]
          dec_field_opt_int [OF ints(3)] dec_field_opt_int [OF ints(4)] dec_field_opt_int [OF ints(5)] cursor_names)
  show ?thesis unfolding dec_cursor_def Let_def by (simp only: list.map list.set) (simp add: str num)
qed

lemma cursor_json_ok: "json_ok (JObj (cursor_fields c))"
  using valid_number_FormatInt by (auto simp: cursor_fields_def opt_str_def opt_int_def split: if_splits)

lemma decode_encode: "cursor_ok c \<Longrightarrow> decodeCursor (encode c) = c"
  unfolding decodeCursor_def encode_def
  by (simp only: parse_text_round [OF cursor_json_ok]) (simp add: dec_cursor_fields cursor_ok_def)

end
