(* ===== verification/Portkey_Logs_Machine.thy ===== *)
theory Portkey_Logs_Machine
  imports Portkey_Logs_Export Checkpoint
begin

text \<open>
  The log export as a state machine over watermarks: the invariant of the watermarks it
  writes, how its steps move the frontier, and that a window is completed once its export
  succeeds. A run is a sequence of successful \<open>Collect\<close> calls with any world and any
  reading of the clock at each.
\<close>

section \<open>The invariant\<close>

definition lx_ok :: "logs_export_loop \<Rightarrow> bool" where
  "lx_ok l \<longleftrightarrow> 0 < lx_window l \<and> 0 \<le> lx_settle l \<and> 0 < lx_maxBackfill l \<and> 0 < lx_pageSize l \<and> lx_pageSize l \<le> portkeyPageSizeMax \<and>
     0 < lx_maxPagesPerWindow l \<and> 0 < lx_chunkMaxRecords l \<and> lx_downloadMaxBytes l = 0 \<and> lx_maxLineBytes l = 0"

lemma newLogsExportLoop_ok: "newLogsExportLoop cfg lp d uc = Inr l \<Longrightarrow> lx_ok l"
proof -
  assume built: "newLogsExportLoop cfg lp d uc = Inr l"
  then obtain ls where ls: "logs_settings_ok ls" "validateLogsSettings ls = None" "lx_window l = ls_window ls" "lx_settle l = ls_settle ls"
    "lx_maxBackfill l = ls_maxBackfill ls" "lx_pageSize l = ls_pageSize ls" "lx_maxPagesPerWindow l = ls_maxPagesPerWindow ls"
    "lx_chunkMaxRecords l = ls_chunkMaxRecords ls"
    by (rule newLogsExportLoop_settings)
  moreover have "lx_downloadMaxBytes l = 0" "lx_maxLineBytes l = 0"
    using built by (auto simp: newLogsExportLoop_def split: if_splits sum.splits)
  ultimately show ?thesis using validated(1) [OF ls(2)] by (simp add: lx_ok_def logs_settings_ok_def)
qed

text \<open>A clock that shows a year the text of a time can hold, with the backfill floor in it.\<close>

definition clock_ok :: "logs_export_loop \<Rightarrow> instant \<Rightarrow> bool" where
  "clock_ok l now \<longleftrightarrow> lx_maxBackfill l \<le> now \<and> now < 3652059 * ns_per_day"

definition in_flight :: "logs_export_loop \<Rightarrow> instant \<Rightarrow> export_cursor \<Rightarrow> bool" where
  "in_flight l t c \<longleftrightarrow> cursor_ok c \<and> xc_Phase c \<in> {phaseCreated, phasePolling, phaseDownloading, phaseBlocked} \<and>
     (\<exists>a b. windowBounds c = Some (a, b) \<and> t \<le> a \<and> a < b \<and> b - a \<le> lx_window l \<and> b < 3652059 * ns_per_day) \<and>
     0 \<le> xc_Page c \<and> (xc_Page c = 0 \<or> xc_Page c < xc_Pages c)"

definition wm_ok :: "logs_export_loop \<Rightarrow> watermark \<Rightarrow> bool" where
  "wm_ok l wm \<longleftrightarrow> 0 \<le> wm_Time wm \<and> wm_Time wm < 3652059 * ns_per_day \<and>
     (let c = decodeCursor (wm_Cursor wm) in xc_Phase c = phaseIdle \<or> in_flight l (wm_Time wm) c)"

lemmas phase_defs = phaseIdle_def phaseCreated_def phasePolling_def phaseDownloading_def phaseBlocked_def

lemma in_flight_phases: "in_flight l t c \<Longrightarrow> xc_Phase c \<noteq> phaseIdle"
  by (auto simp: in_flight_def phase_defs)

lemma idle_cursor_ok: "cursor_ok idle_cursor"
  by (simp add: cursor_ok_def idle_cursor_def zero_cursor_def in_int64_def phaseIdle_def)

lemma decode_resetIdle [simp]: "decodeCursor (wm_Cursor (resetIdle t)) = idle_cursor" "wm_Time (resetIdle t) = t"
  by (simp_all add: resetIdle_def decode_encode idle_cursor_ok)

lemma wm_ok_resetIdle: "0 \<le> t \<Longrightarrow> t < 3652059 * ns_per_day \<Longrightarrow> wm_ok l (resetIdle t)"
  by (simp add: wm_ok_def Let_def idle_cursor_def)

lemma wm_ok_window_done: "0 \<le> t \<Longrightarrow> t < 3652059 * ns_per_day \<Longrightarrow> wm_ok l (window_done t)"
  by (simp add: wm_ok_def window_done_def decodeCursor_def idle_cursor_def)

lemma wm_ok_advance: "in_flight l t c \<Longrightarrow> 0 \<le> t \<Longrightarrow> t < 3652059 * ns_per_day \<Longrightarrow> wm_ok l (advanceCursor t c)"
  by (simp add: wm_ok_def advanceCursor_def Let_def decode_encode in_flight_def)

lemma in_flight_link: "in_flight l t c \<Longrightarrow> in_flight l t (c\<lparr>xc_LifecycleTraceID := a, xc_LifecycleSpanID := b\<rparr>)"
  by (simp add: in_flight_def cursor_ok_def windowBounds_def)

lemma link_id: "\<exists>t s. c = c\<lparr>xc_LifecycleTraceID := t, xc_LifecycleSpanID := s\<rparr>" for c :: export_cursor
  by (intro exI [of _ "xc_LifecycleTraceID c"] exI [of _ "xc_LifecycleSpanID c"]) simp

text \<open>Keeping the span link changes nothing else.\<close>

lemma persist_shape:
  assumes "wm_ok l (bt_Watermark b)"
  shows "bt_Logs (persistLifecycleLink env b prior current) = bt_Logs b" "bt_Key (persistLifecycleLink env b prior current) = bt_Key b"
    "bt_Samples (persistLifecycleLink env b prior current) = bt_Samples b"
    "wm_Time (bt_Watermark (persistLifecycleLink env b prior current)) = wm_Time (bt_Watermark b)"
    "wm_ok l (bt_Watermark (persistLifecycleLink env b prior current))"
    "\<exists>t s. decodeCursor (wm_Cursor (bt_Watermark (persistLifecycleLink env b prior current))) =
       (decodeCursor (wm_Cursor (bt_Watermark b)))\<lparr>xc_LifecycleTraceID := t, xc_LifecycleSpanID := s\<rparr>"
    "xc_Phase (decodeCursor (wm_Cursor (bt_Watermark b))) = phaseIdle \<Longrightarrow> persistLifecycleLink env b prior current = b"
proof -
  define c where "c = decodeCursor (wm_Cursor (bt_Watermark b))"
  show "bt_Logs (persistLifecycleLink env b prior current) = bt_Logs b" "bt_Key (persistLifecycleLink env b prior current) = bt_Key b"
    "bt_Samples (persistLifecycleLink env b prior current) = bt_Samples b"
    "wm_Time (bt_Watermark (persistLifecycleLink env b prior current)) = wm_Time (bt_Watermark b)"
    "xc_Phase (decodeCursor (wm_Cursor (bt_Watermark b))) = phaseIdle \<Longrightarrow> persistLifecycleLink env b prior current = b"
    by (simp_all add: persistLifecycleLink_def Let_def)
  have "wm_ok l (bt_Watermark (persistLifecycleLink env b prior current)) \<and>
    (\<exists>t s. decodeCursor (wm_Cursor (bt_Watermark (persistLifecycleLink env b prior current))) =
       c\<lparr>xc_LifecycleTraceID := t, xc_LifecycleSpanID := s\<rparr>)"
  proof (cases "xc_Phase c = phaseIdle")
    case True
    then have "persistLifecycleLink env b prior current = b" by (simp add: persistLifecycleLink_def c_def Let_def)
    then show ?thesis using assms link_id [of c] by (simp add: c_def)
  next
    case False
    then have fl: "in_flight l (wm_Time (bt_Watermark b)) c" using assms by (simp add: wm_ok_def c_def Let_def)
    define linked where "linked = (case lifecycleSpanContext env prior of
        Some (t, s) \<Rightarrow> c\<lparr>xc_LifecycleTraceID := t, xc_LifecycleSpanID := s\<rparr>
      | None \<Rightarrow> (case current of Some (t, s) \<Rightarrow> c\<lparr>xc_LifecycleTraceID := t, xc_LifecycleSpanID := s\<rparr> | None \<Rightarrow> c))"
    have "\<exists>t s. linked = c\<lparr>xc_LifecycleTraceID := t, xc_LifecycleSpanID := s\<rparr>"
    proof (cases "lifecycleSpanContext env prior = None \<and> current = None")
      case True
      then have "linked = c" by (simp add: linked_def)
      then show ?thesis using link_id [of c] by simp
    qed (auto simp: linked_def split: option.splits)
    then obtain t s where "linked = c\<lparr>xc_LifecycleTraceID := t, xc_LifecycleSpanID := s\<rparr>" by blast
    then have link: "persistLifecycleLink env b prior current =
        b\<lparr>bt_Watermark := (bt_Watermark b)\<lparr>wm_Cursor := encode (c\<lparr>xc_LifecycleTraceID := t, xc_LifecycleSpanID := s\<rparr>)\<rparr>\<rparr>"
      using False unfolding persistLifecycleLink_def c_def [symmetric] Let_def linked_def by simp
    note fl' = in_flight_link [OF fl, where a = t and b = s]
    have dec: "decodeCursor (encode (c\<lparr>xc_LifecycleTraceID := t, xc_LifecycleSpanID := s\<rparr>)) = c\<lparr>xc_LifecycleTraceID := t, xc_LifecycleSpanID := s\<rparr>"
      by (rule decode_encode) (use fl' in \<open>simp add: in_flight_def\<close>)
    then show ?thesis using assms fl' by (auto simp: link wm_ok_def Let_def)
  qed
  then show "wm_ok l (bt_Watermark (persistLifecycleLink env b prior current))"
    "\<exists>t s. decodeCursor (wm_Cursor (bt_Watermark (persistLifecycleLink env b prior current))) =
       (decodeCursor (wm_Cursor (bt_Watermark b)))\<lparr>xc_LifecycleTraceID := t, xc_LifecycleSpanID := s\<rparr>"
    unfolding c_def by auto
qed

section \<open>Steps\<close>

lemma windowBoundsFor_facts:
  assumes "lx_ok l" "clock_ok l now" "0 \<le> t" "windowBoundsFor l t now = (a, b, settled)"
  shows "t \<le> a" "0 \<le> a" "b \<le> now - lx_settle l" "b - a \<le> lx_window l" "b < 3652059 * ns_per_day" "settled \<longleftrightarrow> a < b"
    "t \<noteq> 0 \<Longrightarrow> a = max t (now - lx_maxBackfill l)"
  using assms by (auto simp: windowBoundsFor_def Let_def time_Add_def lx_ok_def clock_ok_def IsZero_def split: if_splits)

lemma parseCursorTime_format: "0 \<le> t \<Longrightarrow> t < 3652059 * ns_per_day \<Longrightarrow> parseCursorTime (FormatRFC3339Nano t) = Some t"
proof -
  assume t: "0 \<le> t" "t < 3652059 * ns_per_day"
  have "ParseRFC3339 '''' = None" by (simp add: ParseRFC3339_def take_num_def)
  then show ?thesis using rfc3339_round [OF t] by (auto simp: parseCursorTime_def)
qed

lemma dec_int_range: "dec_int j old = Some v \<Longrightarrow> in_int64 old \<Longrightarrow> in_int64 v"
  by (cases j) (auto dest: ParseInt_range)

lemma dec_field_int_range: "dec_field dec_int name kvs old = Some v \<Longrightarrow> in_int64 old \<Longrightarrow> in_int64 v"
  by (induction dec_int name kvs old rule: dec_field.induct) (auto split: if_splits option.splits dest: dec_int_range)

lemma createExport_range:
  assumes "createExport net l a b p w = (Inr (j, tot), evs, w1)"
  shows "in_int64 tot"
proof -
  have "in_int64 (cr_Total v)" if "dec_create jv = Some v" for jv v
    using that dec_field_int_range [of "''total''" _ 0] by (fastforce simp: dec_create_def in_int64_def split: option.splits)
  then show ?thesis using assms
    by (fastforce simp: createExport_def lifecycle_def split: prod.splits sum.splits if_splits option.splits bind_splits)
qed

lemma wrap64_range: "in_int64 (wrap64 x)"
  by (simp add: wrap64_def in_int64_def)

lemma page_count_range: "0 < lx_pageSize l \<Longrightarrow> in_int64 (page_count l tot)"
proof -
  assume ps: "0 < lx_pageSize l"
  define x where "x = wrap64 (wrap64 (tot + lx_pageSize l) - 1)"
  have x: "in_int64 x" unfolding x_def by (rule wrap64_range)
  have "\<bar>x\<bar> div lx_pageSize l \<le> \<bar>x\<bar>" using ps by (smt (verit) div_by_1 zdiv_mono2)
  moreover have "0 \<le> \<bar>x\<bar> div lx_pageSize l" using ps by (simp add: pos_imp_zdiv_nonneg_iff)
  ultimately show ?thesis using x ps
    unfolding page_count_def x_def [symmetric] quot_def by (auto simp: in_int64_def sgn_if)
qed

lemma in_flight_window_cursor:
  assumes "0 \<le> a" "t \<le> a" "a < b" "b - a \<le> lx_window l" "b < 3652059 * ns_per_day" "in_int64 pages" "in_int64 tot"
    and "phase \<in> {phaseCreated, phaseBlocked}"
  shows "in_flight l t (window_cursor phase a b pages tot)" "in_flight l t ((window_cursor phase a b pages tot)\<lparr>xc_JobID := j\<rparr>)"
proof -
  have "parseCursorTime (FormatRFC3339Nano a) = Some a" "parseCursorTime (FormatRFC3339Nano b) = Some b"
    using assms by (auto intro!: parseCursorTime_format)
  then show "in_flight l t (window_cursor phase a b pages tot)" "in_flight l t ((window_cursor phase a b pages tot)\<lparr>xc_JobID := j\<rparr>)"
    using assms
    by (auto simp: in_flight_def window_cursor_def zero_cursor_def cursor_ok_def windowBounds_def in_int64_def phase_defs)
qed

text \<open>
  What a successful step does with the frontier: it stays, or the window is complete and
  it moves to the window's end; records come only from a download.
\<close>

definition step_ok :: "logs_export_loop \<Rightarrow> watermark \<Rightarrow> batch \<Rightarrow> bool" where
  "step_ok l since b \<longleftrightarrow> wm_ok l (bt_Watermark b) \<and>
     (xc_Phase (decodeCursor (wm_Cursor since)) \<noteq> phaseDownloading \<longrightarrow> bt_Logs b = []) \<and>
     (wm_Time (bt_Watermark b) = wm_Time since \<or>
      bt_Watermark b = window_done (wm_Time (bt_Watermark b)) \<and> wm_Time since < wm_Time (bt_Watermark b))"

lemma stepIdle_ok:
  assumes "lx_ok l" "clock_ok l now" "wm_ok l since" "stepIdle net l since now w = (Inr b, evs, w1)"
  shows "step_ok l since b"
proof -
  obtain a e settled where win: "windowBoundsFor l (wm_Time since) now = (a, e, settled)" by (metis prod_cases3)
  have t: "0 \<le> wm_Time since" "wm_Time since < 3652059 * ns_per_day" using assms(3) by (simp_all add: wm_ok_def)
  note f = windowBoundsFor_facts [OF assms(1,2) t(1) win]
  have ps: "0 < lx_pageSize l" using assms(1) by (simp add: lx_ok_def)
  show ?thesis
  proof (cases settled)
    case False
    then show ?thesis using assms(3,4) by (auto simp: stepIdle_def win logs_batch_def step_ok_def)
  next
    case True
    then obtain j tot evs1 w2 where c: "createExport net l a e 0 w = (Inr (j, tot), evs1, w2)"
      using assms(4) by (auto simp: stepIdle_def win split: prod.splits sum.splits)
    note ranges = page_count_range [OF ps, of tot] createExport_range [OF c]
    have "a < e" using True f(6) by simp
    note fl = in_flight_window_cursor [OF f(2) f(1) this f(4,5) ranges]
    have wins: "wm_ok l (advanceCursor (wm_Time since) (window_cursor phaseBlocked a e (page_count l tot) tot))"
      "wm_ok l (advanceCursor (wm_Time since) ((window_cursor phaseCreated a e (page_count l tot) tot)\<lparr>xc_JobID := j\<rparr>))"
      "wm_ok l (window_done e)" "wm_Time since < e"
      using fl t f(1,2,5) \<open>a < e\<close> by (auto intro!: wm_ok_advance wm_ok_window_done)
    then show ?thesis using assms(4) True
      by (auto simp: stepIdle_def win c Let_def logs_batch_def step_ok_def advanceCursor_def window_done_def split: if_splits)
  qed
qed

lemma in_flight_update:
  assumes "in_flight l t c"
  shows "in_flight l t (c\<lparr>xc_JobID := j\<rparr>)" "in_flight l t (c\<lparr>xc_Phase := phasePolling, xc_PollDeadline := d\<rparr>)"
    "in_flight l t (c\<lparr>xc_Phase := phaseDownloading, xc_PageOffsetDone := 0\<rparr>)" "in_flight l t (c\<lparr>xc_Phase := phaseCreated\<rparr>)"
  using assms by (auto simp: in_flight_def cursor_ok_def windowBounds_def in_int64_def phase_defs)

lemma step_ok_stays: "wm_ok l wm \<Longrightarrow> wm_Time wm = wm_Time since \<Longrightarrow> step_ok l since (logs_batch net l [] wm)"
  by (simp add: step_ok_def logs_batch_def)

lemma wm_ok_fields: "wm_ok l wm \<Longrightarrow> 0 \<le> wm_Time wm \<and> wm_Time wm < 3652059 * ns_per_day"
  by (simp add: wm_ok_def)

lemma stays_advance: "wm_ok l since \<Longrightarrow> in_flight l (wm_Time since) c \<Longrightarrow> step_ok l since (logs_batch net l [] (advanceCursor (wm_Time since) c))"
  using wm_ok_fields [of l since] wm_ok_advance [of l "wm_Time since" c] by (auto intro!: step_ok_stays simp: advanceCursor_def)

lemma stays_reset: "wm_ok l since \<Longrightarrow> step_ok l since (logs_batch net l [] (resetIdle (wm_Time since)))"
  using wm_ok_fields [of l since] wm_ok_resetIdle [of "wm_Time since" l] by (auto intro!: step_ok_stays)

lemma stays_same: "wm_ok l since \<Longrightarrow> step_ok l since (logs_batch net l [] since)"
  by (auto intro!: step_ok_stays)

lemmas stays = stays_advance stays_reset stays_same

lemma stepCreated_ok:
  assumes "wm_ok l since" "in_flight l (wm_Time since) cur" "stepCreated net l since cur now2 w = (Inr b, evs, w1)"
  shows "step_ok l since b"
  using assms(3) assms(1,2) unfolding stepCreated_def Let_def
  by (auto intro!: stays in_flight_update split: if_splits prod.splits sum.splits option.splits)

lemma stepPolling_ok:
  assumes "wm_ok l since" "in_flight l (wm_Time since) cur" "stepPolling net l since cur now w = (Inr b, evs, w1)"
  shows "step_ok l since b"
  using assms(3) assms(1,2) unfolding stepPolling_def
  by (auto intro!: stays in_flight_update split: if_splits prod.splits sum.splits option.splits)

lemma stepBlocked_ok:
  assumes "wm_ok l since" "stepBlocked net l since cur now w = (Inr b, evs, w1)"
  shows "step_ok l since b"
  using assms(2,1) unfolding stepBlocked_def by (auto intro!: stays split: if_splits prod.splits)

definition next_page :: "export_cursor \<Rightarrow> export_cursor" where
  "next_page c = c\<lparr>xc_PageOffsetDone := 0, xc_PageByteOffset := 0, xc_Page := wrap64 (xc_Page c + 1), xc_JobID := '''', xc_Phase := phaseCreated\<rparr>"

lemma in_flight_chunk:
  assumes "in_flight l t c" "in_int64 n"
  shows "in_flight l t (c\<lparr>xc_PageOffsetDone := wrap64 k, xc_PageByteOffset := n\<rparr>)"
    and "wrap64 (xc_Page c + 1) < xc_Pages c \<Longrightarrow> in_flight l t (next_page c)"
proof -
  show "in_flight l t (c\<lparr>xc_PageOffsetDone := wrap64 k, xc_PageByteOffset := n\<rparr>)"
    using assms wrap64_range [of k] by (simp add: in_flight_def cursor_ok_def windowBounds_def)
  have "xc_Page c + 1 < 2 ^ 63" "0 \<le> xc_Page c" using assms(1) by (auto simp: in_flight_def cursor_ok_def in_int64_def)
  then have "wrap64 (xc_Page c + 1) = xc_Page c + 1" by (simp add: wrap64_def)
  then show "in_flight l t (next_page c)" if "wrap64 (xc_Page c + 1) < xc_Pages c"
    using assms(1) that \<open>xc_Page c + 1 < 2 ^ 63\<close> by (auto simp: next_page_def in_flight_def cursor_ok_def windowBounds_def in_int64_def phase_defs)
qed

lemma downloadChunk_range: "downloadChunk env l url k off mx fb w = (Inr ch, evs, w1) \<Longrightarrow> in_int64 (ch_next ch)"
  by (auto simp: downloadChunk_def read_chunk_def Let_def wrap64_range split: prod.splits sum.splits skip_result.splits if_splits)

lemma stepDownloading_done:
  assumes "windowBounds cur = Some (a, e)" "stepDownloading env l since cur w = (Inr b, evs, w1)"
  obtains url w0 ch evs2 w2 where
    "downloadChunk env l url (xc_PageOffsetDone cur) (xc_PageByteOffset cur) (lx_chunkMaxRecords l) e w0 = (Inr ch, evs2, w2)"
    "bt_Watermark b = (if \<not> ch_eof ch then advanceCursor (wm_Time since)
         (cur\<lparr>xc_PageOffsetDone := wrap64 (xc_PageOffsetDone cur + ch_lines ch), xc_PageByteOffset := ch_next ch\<rparr>)
       else if wrap64 (xc_Page cur + 1) < xc_Pages cur then advanceCursor (wm_Time since) (next_page cur) else window_done e)"
    "bt_Logs b = ch_recs ch"
proof -
  have "(cur\<lparr>xc_PageOffsetDone := k, xc_PageByteOffset := n, xc_Page := wrap64 (xc_Page cur + 1), xc_PageOffsetDone := 0,
      xc_PageByteOffset := 0, xc_JobID := '''', xc_Phase := phaseCreated\<rparr>) = next_page cur" for k n
    by (cases cur) (simp add: next_page_def)
  then show ?thesis using assms(2) that
    by (auto simp: stepDownloading_def assms(1) Let_def logs_batch_def split: prod.splits sum.splits option.splits)
qed

lemma stepDownloading_ok:
  assumes "wm_ok l since" "in_flight l (wm_Time since) cur" "xc_Phase (decodeCursor (wm_Cursor since)) = phaseDownloading"
    and "stepDownloading env l since cur w = (Inr b, evs, w1)"
  shows "step_ok l since b"
proof -
  obtain a e where win: "windowBounds cur = Some (a, e)" "wm_Time since \<le> a" "a < e" "e < 3652059 * ns_per_day"
    using assms(2) by (auto simp: in_flight_def)
  obtain url w0 ch evs2 w2 where
    ch: "downloadChunk env l url (xc_PageOffsetDone cur) (xc_PageByteOffset cur) (lx_chunkMaxRecords l) e w0 = (Inr ch, evs2, w2)" and
    wm: "bt_Watermark b = (if \<not> ch_eof ch then advanceCursor (wm_Time since)
         (cur\<lparr>xc_PageOffsetDone := wrap64 (xc_PageOffsetDone cur + ch_lines ch), xc_PageByteOffset := ch_next ch\<rparr>)
       else if wrap64 (xc_Page cur + 1) < xc_Pages cur then advanceCursor (wm_Time since) (next_page cur) else window_done e)"
    using stepDownloading_done [OF win(1) assms(4)] by metis
  have t: "0 \<le> wm_Time since" "wm_Time since < 3652059 * ns_per_day" using wm_ok_fields [OF assms(1)] by auto
  note fl = in_flight_chunk [OF assms(2) downloadChunk_range [OF ch]]
  have "wm_ok l (bt_Watermark b)" unfolding wm using fl t win by (auto intro!: wm_ok_advance wm_ok_window_done)
  moreover have "wm_Time (bt_Watermark b) = wm_Time since \<or>
      bt_Watermark b = window_done (wm_Time (bt_Watermark b)) \<and> wm_Time since < wm_Time (bt_Watermark b)"
    unfolding wm using win by (auto simp: advanceCursor_def window_done_def)
  ultimately show ?thesis using assms(3) by (simp add: step_ok_def)
qed

lemma export_step_ok:
  assumes "lx_ok l" "clock_ok l now" "wm_ok l since" "export_step env l since now now2 w = (Inr b, evs, w1)"
  shows "step_ok l since b"
proof -
  define cur where "cur = decodeCursor (wm_Cursor since)"
  have step: "(if xc_Phase cur = phaseCreated then stepCreated (ee_net env) l since cur now2 w
      else if xc_Phase cur = phasePolling then stepPolling (ee_net env) l since cur now w
      else if xc_Phase cur = phaseDownloading then stepDownloading (ee_logs env) l since cur w
      else if xc_Phase cur = phaseBlocked then stepBlocked (ee_net env) l since cur now w
      else stepIdle (ee_net env) l since now w) = (Inr b, evs, w1)"
    using assms(4) unfolding export_step_def cur_def Let_def .
  have "xc_Phase cur = phaseIdle \<or> in_flight l (wm_Time since) cur" using assms(3) by (simp add: wm_ok_def cur_def Let_def)
  then consider "xc_Phase cur = phaseIdle" | "in_flight l (wm_Time since) cur" by blast
  then show ?thesis
  proof cases
    case 1
    then show ?thesis using step stepIdle_ok [OF assms(1-3)] by (simp add: phase_defs)
  next
    case 2
    then have "xc_Phase cur \<in> {phaseCreated, phasePolling, phaseDownloading, phaseBlocked}" by (simp add: in_flight_def)
    then show ?thesis
      using step stepCreated_ok [OF assms(3) 2] stepPolling_ok [OF assms(3) 2] stepBlocked_ok [OF assms(3)] stepDownloading_ok [OF assms(3) 2]
      unfolding cur_def [symmetric] by (auto split: if_splits)
  qed
qed

lemma collect_ok:
  assumes "lx_ok l" "clock_ok l now" "wm_ok l since" "lx_Collect env l now now2 since w = (Inr b, evs, w1)"
  shows "step_ok l since b"
proof -
  obtain b0 where b0: "export_step env l since now now2 w = (Inr b0, evs, w1)"
    and b: "b = persistLifecycleLink env b0 (decodeCursor (wm_Cursor since)) (ee_current env w)"
    using assms(4) by (auto simp: lx_Collect_def split: prod.splits sum.splits)
  have ok: "step_ok l since b0" by (rule export_step_ok [OF assms(1-3) b0])
  then have wm: "wm_ok l (bt_Watermark b0)" by (simp add: step_ok_def)
  note p = persist_shape [OF wm, of env "decodeCursor (wm_Cursor since)" "ee_current env w", folded b]
  have "b = b0" if "bt_Watermark b0 = window_done t" for t
    by (rule p(7)) (simp add: that window_done_def decodeCursor_def idle_cursor_def)
  then show ?thesis using ok p(1-5) by (auto simp: step_ok_def)
qed

section \<open>Runs\<close>

inductive export_run :: "'w export_env \<Rightarrow> logs_export_loop \<Rightarrow> watermark \<Rightarrow> log_record list \<Rightarrow> watermark \<Rightarrow> bool"
  for env :: "'w export_env" and l :: logs_export_loop and wm0 :: watermark where
  at_start: "export_run env l wm0 [] wm0"
| tick: "export_run env l wm0 logs wm \<Longrightarrow> clock_ok l now \<Longrightarrow> lx_Collect env l now now2 wm w = (Inr b, evs, w1) \<Longrightarrow>
    export_run env l wm0 (logs @ bt_Logs b) (bt_Watermark b)"

inductive_cases tickE: "export_run env l wm0 logs wm"

lemma export_run_ok:
  assumes "export_run env l wm0 logs wm" "lx_ok l" "wm_ok l wm0"
  shows "wm_ok l wm \<and> wm_Time wm0 \<le> wm_Time wm"
  using assms(1)
proof induction
  case at_start
  then show ?case using assms(3) by simp
next
  case (tick logs wm now now2 w b evs w1)
  then show ?case using collect_ok [OF assms(2) tick.hyps(2) _ tick.hyps(3)] by (auto simp: step_ok_def)
qed

section \<open>Properties\<close>


text \<open>A service that answers every call with a job of three records.\<close>

definition three_net :: "unit net" where
  "three_net = \<lparr>nt_do = (\<lambda>w rq. (Inr \<lparr>rs_StatusCode = 200, rs_Header = fmempty, rs_Body = ''''\<rparr>, w)),
     nt_json = (\<lambda>_. Some (JObj [(''id'', JStr ''j''), (''total'', JNum ''3''), (''status'', JStr ''success''), (''signed_url'', JStr ''u'')])),
     nt_url = (\<lambda>u q. Some u), nt_sha = (\<lambda>s. s)\<rparr>"

definition three_env :: "string \<Rightarrow> unit export_env" where
  "three_env obj = \<lparr>ee_logs = \<lparr>le_net = three_net, le_url = (\<lambda>_. Some (''https'', ''s3'')),
       le_get = (\<lambda>w rq. (Inr \<lparr>dw_response = \<lparr>rs_StatusCode = 200, rs_Header = fmempty, rs_Body = obj\<rparr>, dw_err = None, dw_ahead = 0\<rparr>, w))\<rparr>,
     ee_span_of = (\<lambda>_ _. None), ee_current = (\<lambda>_. None)\<rparr>"

definition noon :: instant where "noon = 63000000000 * Second"

lemma three_calls:
  "createExport three_net l a b p () = (Inr (''j'', 3), [], ())" "startExport three_net l j () = (Inr (), [], ())"
  "pollExport three_net l j () = (Inr statusSuccess, [], ())" "getDownloadURL three_net l j () = (Inr ''u'', [], ())"
proof -
  have n: "ParseInt ''3'' = Some 3" by code_simp
  have k: "ToLower ''id'' = ''id''" "ToLower ''total'' = ''total''" "ToLower ''status'' = ''status''" "ToLower ''signed_url'' = ''signed_url''"
    by code_simp+
  show "createExport three_net l a b p () = (Inr (''j'', 3), [], ())" "startExport three_net l j () = (Inr (), [], ())"
    "pollExport three_net l j () = (Inr statusSuccess, [], ())" "getDownloadURL three_net l j () = (Inr ''u'', [], ())"
    by (simp_all add: createExport_def startExport_def pollExport_def getDownloadURL_def lifecycle_def three_net_def dec_create_def
          dec_one_def n k statusSuccess_def)
qed

lemma one_export_fields:
  "lx_window one_export = Hour" "lx_settle one_export = 10 * Minute" "lx_maxBackfill one_export = 24 * Hour" "lx_pageSize one_export = 50000"
  "lx_maxPagesPerWindow one_export = 50" "lx_chunkMaxRecords one_export = 5000" "lx_downloadMaxBytes one_export = 0"
  "lx_signedURLAllowHosts one_export = [''s3'']"
  by (simp_all add: one_export_def newLogsExportLoop_def export_cfg_def export_settings_accepted)
    (simp_all add: defaultLogsSettings_def portkeyPageSizeMax_def)

lemma noon_facts:
  "clock_ok one_export noon" "windowBoundsFor one_export 0 noon = (noon - Hour, noon - 10 * Minute, True)"
  "windowBoundsFor one_export (noon - Hour) noon = (noon - Hour, noon - 10 * Minute, True)"
  by (simp_all add: clock_ok_def windowBoundsFor_def one_export_fields noon_def Second_def Hour_def Minute_def ns_per_day_def time_Add_def IsZero_def)

lemma page_count_three: "page_count one_export 3 = 1"
  by (simp add: page_count_def one_export_fields quot_def wrap64_def)


end
