(* ===== verification/Portkey_Logs_Live.thy ===== *)
theory Portkey_Logs_Live
  imports Portkey_Logs_Machine
begin

text \<open>
  A window of the log export is completed: with a vendor that answers, the ticks reach the
  window's end after a number of steps known in advance, whatever the clock shows after the
  first one, and what they emitted is every record of every page, once and in order. The
  vendor is given by what it answers (\<open>serves\<close>); the object of a page may be served whole or
  from the offset asked for, and differently at each call.
\<close>

section \<open>Ticks\<close>

fun collect_n ::
  "'w export_env \<Rightarrow> logs_export_loop \<Rightarrow> (nat \<Rightarrow> instant \<times> instant) \<Rightarrow> nat \<Rightarrow> watermark \<Rightarrow> 'w \<Rightarrow>
     (watermark \<times> log_record list \<times> 'w) option" where
  "collect_n env l clk 0 wm w = Some (wm, [], w)"
| "collect_n env l clk (Suc n) wm w =
     (case lx_Collect env l (fst (clk 0)) (snd (clk 0)) wm w of
        (Inl _, _, _) \<Rightarrow> None
      | (Inr b, _, w1) \<Rightarrow>
          (case collect_n env l (\<lambda>i. clk (Suc i)) n (bt_Watermark b) w1 of
             None \<Rightarrow> None
           | Some (wm2, recs, w2) \<Rightarrow> Some (wm2, bt_Logs b @ recs, w2)))"

lemma collect_n_add:
  "collect_n env l clk m wm w = Some (wm1, recs1, w1) \<Longrightarrow> collect_n env l (\<lambda>i. clk (m + i)) n wm1 w1 = Some (wm2, recs2, w2) \<Longrightarrow>
    collect_n env l clk (m + n) wm w = Some (wm2, recs1 @ recs2, w2)"
proof (induction m arbitrary: clk wm w recs1)
  case (Suc m)
  from Suc.prems(1) obtain b evs w' recs where b: "lx_Collect env l (fst (clk 0)) (snd (clk 0)) wm w = (Inr b, evs, w')"
    and rest: "collect_n env l (\<lambda>i. clk (Suc i)) m (bt_Watermark b) w' = Some (wm1, recs, w1)" and recs1: "recs1 = bt_Logs b @ recs"
    by (auto split: prod.splits sum.splits option.splits)
  have "collect_n env l (\<lambda>i. clk (Suc i)) (m + n) (bt_Watermark b) w' = Some (wm2, recs @ recs2, w2)"
    by (rule Suc.IH [OF rest]) (use Suc.prems(2) in simp)
  then show ?case by (simp add: b recs1)
qed simp

lemma collect_n_one:
  "lx_Collect env l (fst (clk 0)) (snd (clk 0)) wm w = (Inr b, evs, w1) \<Longrightarrow>
    collect_n env l clk (Suc 0) wm w = Some (bt_Watermark b, bt_Logs b, w1)"
  by simp

section \<open>The vendor\<close>

definition serves ::
  "'w export_env \<Rightarrow> logs_export_loop \<Rightarrow> (nat \<Rightarrow> string) \<Rightarrow> (nat \<Rightarrow> string) \<Rightarrow> (nat \<Rightarrow> string) \<Rightarrow> int \<Rightarrow> bool" where
  "serves env l job url obj tot \<longleftrightarrow>
     (\<forall>w a b i. \<exists>evs w1. createExport (ee_net env) l a b (int i) w = (Inr (job i, tot), evs, w1)) \<and>
     (\<forall>w i. \<exists>evs w1. startExport (ee_net env) l (job i) w = (Inr (), evs, w1)) \<and>
     (\<forall>w i. \<exists>evs w1. pollExport (ee_net env) l (job i) w = (Inr statusSuccess, evs, w1)) \<and>
     (\<forall>w i. \<exists>evs w1. getDownloadURL (ee_net env) l (job i) w = (Inr (url i), evs, w1)) \<and>
     (\<forall>w i off. \<exists>dl w1. le_get (ee_logs env) w (chunk_request (url i) off) = (Inr dl, w1) \<and> answers (obj i) off dl) \<and>
     (\<forall>i. job i \<noteq> '''' \<and> validateSignedURLHost (ee_logs env) l (url i) = None \<and> length (obj i) \<le> max_bytes l)"

lemma servesD:
  assumes "serves env l job url obj tot"
  shows "\<exists>evs w1. createExport (ee_net env) l a b (int i) w = (Inr (job i, tot), evs, w1)"
    "\<exists>evs w1. startExport (ee_net env) l (job i) w = (Inr (), evs, w1)"
    "\<exists>evs w1. pollExport (ee_net env) l (job i) w = (Inr statusSuccess, evs, w1)"
    "\<exists>evs w1. getDownloadURL (ee_net env) l (job i) w = (Inr (url i), evs, w1)"
    "\<exists>dl w1. le_get (ee_logs env) w (chunk_request (url i) off) = (Inr dl, w1) \<and> answers (obj i) off dl"
    "job i \<noteq> []" "validateSignedURLHost (ee_logs env) l (url i) = None" "length (obj i) \<le> max_bytes l"
  using assms unfolding serves_def by blast+

section \<open>Where a run stands\<close>

record job_at =
  ja_phase :: string
  ja_job :: string
  ja_page :: nat
  ja_lines :: nat
  ja_bytes :: int

definition standing ::
  "logs_export_loop \<Rightarrow> instant \<Rightarrow> instant \<Rightarrow> nat \<Rightarrow> job_at \<Rightarrow> watermark \<Rightarrow> bool" where
  "standing l t e n ja wm \<longleftrightarrow> wm_Time wm = t \<and> 0 \<le> t \<and> t < 3652059 * ns_per_day \<and>
     (let c = decodeCursor (wm_Cursor wm) in
      in_flight l t c \<and> (\<exists>a. windowBounds c = Some (a, e)) \<and> xc_Phase c = ja_phase ja \<and> xc_JobID c = ja_job ja \<and>
      xc_Page c = int (ja_page ja) \<and> xc_Pages c = int n \<and> xc_PageOffsetDone c = int (ja_lines ja) \<and> xc_PageByteOffset c = ja_bytes ja)"

lemma windowBounds_link: "windowBounds (c\<lparr>xc_LifecycleTraceID := u, xc_LifecycleSpanID := v\<rparr>) = windowBounds c"
  by (cases c) (simp add: windowBounds_def)

lemma collect_advance:
  assumes "export_step env l since now now2 w = (Inr (logs_batch net l recs (advanceCursor t c)), evs, w1)"
    and "in_flight l t c" "0 \<le> t" "t < 3652059 * ns_per_day" "windowBounds c = Some (a, e)"
    and "xc_Page c = int i" "xc_Pages c = int n" "xc_PageOffsetDone c = int k"
  shows "\<exists>b. lx_Collect env l now now2 since w = (Inr b, evs, w1) \<and> bt_Logs b = recs \<and>
    standing l t e n \<lparr>ja_phase = xc_Phase c, ja_job = xc_JobID c, ja_page = i, ja_lines = k, ja_bytes = xc_PageByteOffset c\<rparr> (bt_Watermark b)"
proof -
  let ?b0 = "logs_batch net l recs (advanceCursor t c)"
  have wm: "wm_ok l (bt_Watermark ?b0)" using wm_ok_advance [OF assms(2-4)] by (simp add: logs_batch_def)
  have dec: "decodeCursor (wm_Cursor (bt_Watermark ?b0)) = c"
    using assms(2) by (simp add: logs_batch_def advanceCursor_def decode_encode in_flight_def)
  define b where "b = persistLifecycleLink env ?b0 (decodeCursor (wm_Cursor since)) (ee_current env w)"
  note p = persist_shape [OF wm, of env "decodeCursor (wm_Cursor since)" "ee_current env w", folded b_def, unfolded dec]
  obtain u v where c': "decodeCursor (wm_Cursor (bt_Watermark b)) = c\<lparr>xc_LifecycleTraceID := u, xc_LifecycleSpanID := v\<rparr>" using p(6) by blast
  show ?thesis
  proof (intro exI [of _ b] conjI)
    show "lx_Collect env l now now2 since w = (Inr b, evs, w1)" by (simp add: lx_Collect_def assms(1) b_def)
    show "bt_Logs b = recs" using p(1) by (simp add: logs_batch_def)
    show "standing l t e n \<lparr>ja_phase = xc_Phase c, ja_job = xc_JobID c, ja_page = i, ja_lines = k, ja_bytes = xc_PageByteOffset c\<rparr> (bt_Watermark b)"
      using p(4) in_flight_link [OF assms(2), where a = u and b = v] assms(3-) c'
      by (simp add: standing_def logs_batch_def advanceCursor_def windowBounds_link)
  qed
qed

lemma collect_done:
  assumes "export_step env l since now now2 w = (Inr (logs_batch net l recs (window_done e)), evs, w1)"
  shows "lx_Collect env l now now2 since w = (Inr (logs_batch net l recs (window_done e)), evs, w1)"
  using assms
  by (simp add: lx_Collect_def persistLifecycleLink_def logs_batch_def window_done_def decodeCursor_def idle_cursor_def)

section \<open>One page\<close>

lemma raw_lines_nonempty: "[] \<notin> set (raw_lines s)"
proof (induction s rule: raw_lines.induct)
  case (1 s)
  then show ?case by (subst raw_lines.simps) (auto simp: Let_def)
qed

lemma length_le_concat: "[] \<notin> set xs \<Longrightarrow> length xs \<le> length (concat xs)"
proof (induction xs)
  case (Cons x xs)
  then show ?case by (cases x) auto
qed simp

lemma length_raw_lines: "length (raw_lines s) \<le> length s"
  using length_le_concat [OF raw_lines_nonempty, of s] by simp

definition page_records :: "logs_export_loop \<Rightarrow> instant \<Rightarrow> nat \<Rightarrow> string \<Rightarrow> log_record list" where
  "page_records l e k obj = concat (map (\<lambda>r. fst (line_out l e r)) (drop k (raw_lines obj)))"

lemma standing_facts:
  assumes "standing l t e n ja wm"
  defines "c \<equiv> decodeCursor (wm_Cursor wm)"
  shows "in_flight l t c" "\<exists>a. windowBounds c = Some (a, e)" "xc_Phase c = ja_phase ja" "xc_JobID c = ja_job ja"
    "xc_Page c = int (ja_page ja)" "xc_Pages c = int n" "xc_PageOffsetDone c = int (ja_lines ja)" "xc_PageByteOffset c = ja_bytes ja"
    "wm_Time wm = t" "0 \<le> t" "t < 3652059 * ns_per_day"
  using assms by (simp_all add: standing_def Let_def)

text \<open>One download step: a chunk is emitted, and the page is at its end or goes on.\<close>

lemma max_bytes_ok: "lx_ok l \<Longrightarrow> int (max_bytes l) < 2 ^ 63"
  by (simp add: lx_ok_def max_bytes_def defaultDownloadMaxBytes_def)

lemma download_step:
  assumes "lx_ok l" "serves env l job url obj tot"
    and st: "standing l t e n \<lparr>ja_phase = phaseDownloading, ja_job = job i, ja_page = i, ja_lines = k, ja_bytes = off\<rparr> wm"
    and "k \<le> length (raw_lines (obj i))" "off = 0 \<or> off = int (offset_of (obj i) k)"
  defines "c \<equiv> nat (lx_chunkMaxRecords l)" and "left \<equiv> length (raw_lines (obj i)) - k"
  shows "\<exists>b evs w1. lx_Collect env l now now2 wm w = (Inr b, evs, w1) \<and>
    bt_Logs b = concat (map (\<lambda>r. fst (line_out l e r)) (take c (drop k (raw_lines (obj i))))) \<and>
    (if c \<le> left then standing l t e n \<lparr>ja_phase = phaseDownloading, ja_job = job i, ja_page = i, ja_lines = k + c, ja_bytes = int (offset_of (obj i) (k + c))\<rparr> (bt_Watermark b)
     else if Suc i < n then standing l t e n \<lparr>ja_phase = phaseCreated, ja_job = '''', ja_page = Suc i, ja_lines = 0, ja_bytes = 0\<rparr> (bt_Watermark b)
     else bt_Watermark b = window_done e)"
proof -
  define cur where cur: "cur = decodeCursor (wm_Cursor wm)"
  note facts = standing_facts [OF st, folded cur, simplified job_at.select_convs]
  obtain a where win: "windowBounds cur = Some (a, e)" using facts(2) by blast
  note fl = facts(1) and f = facts(3-8) and t = facts(9-11)
  have mx: "0 < lx_chunkMaxRecords l" "0 < c" using assms(1) by (simp_all add: lx_ok_def c_def)
  obtain evs1 w1 where url: "getDownloadURL (ee_net env) l (job i) w = (Inr (url i), evs1, w1)" using servesD(4) [OF assms(2)] by blast
  obtain dl w2 where dl: "le_get (ee_logs env) w1 (chunk_request (url i) off) = (Inr dl, w2)" "answers (obj i) off dl"
    using servesD(5) [OF assms(2)] by blast
  have srv: "validateSignedURLHost (ee_logs env) l (url i) = None" "length (obj i) \<le> max_bytes l" using servesD(7,8) [OF assms(2)] by auto
  let ?new = "take c (drop k (raw_lines (obj i)))"
  let ?recs = "concat (map (\<lambda>r. fst (line_out l e r)) ?new)"
  have len: "length ?new = min c left" by (simp add: left_def)
  have chunk: "downloadChunk (ee_logs env) l (url i) (int k) off (lx_chunkMaxRecords l) e w1 =
      (Inr \<lparr>ch_recs = ?recs, ch_lines = int (length ?new), ch_next = int (offset_of (obj i) (k + length ?new)), ch_eof = (left < c)\<rparr>,
       concat (map (\<lambda>r. snd (line_out l e r)) ?new), w2)"
    using read_chunk_exact [OF dl(2) assms(5,4) srv(2) max_bytes_ok [OF assms(1)] mx(1), of e]
    by (simp add: downloadChunk_def dl(1) Let_def c_def left_def)
  have step: "export_step env l wm now now2 w = stepDownloading (ee_logs env) l wm cur w"
    using f(1) by (simp add: export_step_def cur [symmetric] phase_defs)
  have lines: "int (k + min c left) < 2 ^ 63"
    using length_raw_lines [of "obj i"] srv(2) max_bytes_ok [OF assms(1)] assms(4) unfolding left_def by linarith
  have wrap: "wrap64 (int k + int (length ?new)) = int (k + length ?new)" using lines len by (simp add: wrap64_def)
  have next_page_at: "wrap64 (int i + 1) = int (Suc i)"
  proof -
    have "int i + 1 < 2 ^ 63" using fl f(3,4) by (auto simp: in_flight_def cursor_ok_def in_int64_def)
    then show ?thesis by (simp add: wrap64_def)
  qed
  show ?thesis
  proof (cases "c \<le> left")
    case True
    define c1 where "c1 = cur\<lparr>xc_PageOffsetDone := wrap64 (int k + int (length ?new)), xc_PageByteOffset := int (offset_of (obj i) (k + length ?new))\<rparr>"
    have st1: "export_step env l wm now now2 w = (Inr (logs_batch (ee_net env) l ?recs (advanceCursor t c1)), evs1 @ concat (map (\<lambda>r. snd (line_out l e r)) ?new), w2)"
      unfolding step stepDownloading_def using True by (simp add: win f url srv(1) chunk t(1) Let_def c1_def)
    have "in_int64 (int (offset_of (obj i) (k + length ?new)))"
      using offset_of_mono [of "obj i" "k + length ?new"] srv(2) max_bytes_ok [OF assms(1)] by (simp add: in_int64_def)
    then have fl1: "in_flight l t c1" unfolding c1_def by (rule in_flight_chunk(1) [OF fl])
    have "windowBounds c1 = Some (a, e)" using win by (cases cur) (simp add: c1_def windowBounds_def)
    from collect_advance [OF st1 fl1 t(2,3) this, of i n "k + c"] show ?thesis
      using True f wrap len by (auto simp: c1_def)
  next
    case False
    show ?thesis
    proof (cases "Suc i < n")
      case True
      have "cur\<lparr>xc_PageOffsetDone := wrap64 (int k + int (length ?new)), xc_PageByteOffset := int (offset_of (obj i) (k + length ?new)),
          xc_Page := int (Suc i), xc_PageOffsetDone := 0, xc_PageByteOffset := 0, xc_JobID := '''', xc_Phase := phaseCreated\<rparr> = next_page cur"
        using next_page_at f(3) by (cases cur) (simp add: next_page_def)
      then have st1: "export_step env l wm now now2 w = (Inr (logs_batch (ee_net env) l ?recs (advanceCursor t (next_page cur))), evs1 @ concat (map (\<lambda>r. snd (line_out l e r)) ?new), w2)"
        unfolding step stepDownloading_def using False True by (simp add: win f url srv(1) chunk t(1) Let_def next_page_at)
      have fl1: "in_flight l t (next_page cur)"
        by (rule in_flight_chunk(2) [OF fl, of 0]) (use True f next_page_at in \<open>simp_all add: in_int64_def\<close>)
      have "windowBounds (next_page cur) = Some (a, e)" using win by (cases cur) (simp add: next_page_def windowBounds_def)
      from collect_advance [OF st1 fl1 t(2,3) this, of "Suc i" n 0] show ?thesis
        using True False f next_page_at by (auto simp: next_page_def)
    next
      case last: False
      then have st1: "export_step env l wm now now2 w = (Inr (logs_batch (ee_net env) l ?recs (window_done e)), evs1 @ concat (map (\<lambda>r. snd (line_out l e r)) ?new), w2)"
        unfolding step stepDownloading_def using False by (simp add: win f url srv(1) chunk t(1) Let_def next_page_at)
      show ?thesis using collect_done [OF st1] False last by (simp add: logs_batch_def)
    qed
  qed
qed

text \<open>After a page: the next one is to be created, or the window is done.\<close>

definition page_next :: "logs_export_loop \<Rightarrow> instant \<Rightarrow> instant \<Rightarrow> nat \<Rightarrow> nat \<Rightarrow> watermark \<Rightarrow> bool" where
  "page_next l t e n i wm \<longleftrightarrow>
     (if Suc i < n then standing l t e n \<lparr>ja_phase = phaseCreated, ja_job = '''', ja_page = Suc i, ja_lines = 0, ja_bytes = 0\<rparr> wm
      else wm = window_done e)"

lemma page_records_chunk:
  "page_records l e k obj = concat (map (\<lambda>r. fst (line_out l e r)) (take c (drop k (raw_lines obj)))) @ page_records l e (k + c) obj"
proof -
  have "drop k (raw_lines obj) = take c (drop k (raw_lines obj)) @ drop (k + c) (raw_lines obj)"
    by (metis append_take_drop_id drop_drop add.commute)
  then show ?thesis unfolding page_records_def by (metis concat_append map_append)
qed

lemma page_download:
  assumes "lx_ok l" "serves env l job url obj tot"
    and "standing l t e n \<lparr>ja_phase = phaseDownloading, ja_job = job i, ja_page = i, ja_lines = k, ja_bytes = off\<rparr> wm"
    and "k \<le> length (raw_lines (obj i))" "off = 0 \<or> off = int (offset_of (obj i) k)"
  shows "\<exists>wm1 w1. collect_n env l clk (Suc ((length (raw_lines (obj i)) - k) div nat (lx_chunkMaxRecords l))) wm w =
      Some (wm1, page_records l e k (obj i), w1) \<and> page_next l t e n i wm1"
  using assms(3-)
proof (induction "length (raw_lines (obj i)) - k" arbitrary: k off wm w clk rule: less_induct)
  case less
  define c where "c = nat (lx_chunkMaxRecords l)"
  have c: "0 < c" using assms(1) by (simp add: lx_ok_def c_def)
  let ?L = "length (raw_lines (obj i))"
  obtain b evs w1 where b: "lx_Collect env l (fst (clk 0)) (snd (clk 0)) wm w = (Inr b, evs, w1)"
    and recs: "bt_Logs b = concat (map (\<lambda>r. fst (line_out l e r)) (take c (drop k (raw_lines (obj i)))))"
    and wm1: "if c \<le> ?L - k then standing l t e n \<lparr>ja_phase = phaseDownloading, ja_job = job i, ja_page = i, ja_lines = k + c,
           ja_bytes = int (offset_of (obj i) (k + c))\<rparr> (bt_Watermark b)
         else page_next l t e n i (bt_Watermark b)"
    using download_step [OF assms(1,2) less.prems, of "fst (clk 0)" "snd (clk 0)" w, folded c_def] unfolding page_next_def by (auto split: if_splits)
  show ?case
  proof (cases "c \<le> ?L - k")
    case True
    have "\<exists>wm2 w2. collect_n env l (\<lambda>i. clk (Suc i)) (Suc ((?L - (k + c)) div c)) (bt_Watermark b) w1 = Some (wm2, page_records l e (k + c) (obj i), w2) \<and>
        page_next l t e n i wm2"
      unfolding c_def by (rule less.hyps) (use True c wm1 less.prems(2) in \<open>auto simp: c_def\<close>)
    moreover have "(?L - k) div c = Suc ((?L - (k + c)) div c)" using True c by (simp add: le_div_geq)
    ultimately show ?thesis
      using b recs page_records_chunk [of l e k "obj i" c] by (fastforce simp: c_def [symmetric])
  next
    case False
    then have "page_records l e (k + c) (obj i) = []" "(?L - k) div c = 0" by (simp_all add: page_records_def)
    then show ?thesis using False b recs wm1 page_records_chunk [of l e k "obj i" c] by (auto simp: c_def [symmetric])
  qed
qed

section \<open>The lifecycle of a page\<close>

lemma create_tick:
  assumes "serves env l job url obj tot"
    and st: "standing l t e n \<lparr>ja_phase = phaseCreated, ja_job = '''', ja_page = i, ja_lines = k, ja_bytes = off\<rparr> wm"
  shows "\<exists>b evs w1. lx_Collect env l now now2 wm w = (Inr b, evs, w1) \<and> bt_Logs b = [] \<and>
    standing l t e n \<lparr>ja_phase = phaseCreated, ja_job = job i, ja_page = i, ja_lines = k, ja_bytes = off\<rparr> (bt_Watermark b)"
proof -
  define cur where cur: "cur = decodeCursor (wm_Cursor wm)"
  note facts = standing_facts [OF st, folded cur, simplified job_at.select_convs]
  obtain a where win: "windowBounds cur = Some (a, e)" using facts(2) by blast
  obtain evs w1 where "createExport (ee_net env) l a e (int i) w = (Inr (job i, tot), evs, w1)" using servesD(1) [OF assms(1)] by blast
  then have st1: "export_step env l wm now now2 w = (Inr (logs_batch (ee_net env) l [] (advanceCursor t (cur\<lparr>xc_JobID := job i\<rparr>))), evs, w1)"
    using facts win by (simp add: export_step_def cur [symmetric] stepCreated_def)
  have "windowBounds (cur\<lparr>xc_JobID := job i\<rparr>) = Some (a, e)" using win by (simp add: windowBounds_def)
  from collect_advance [OF st1 in_flight_update(1) [OF facts(1)] facts(10,11) this, of i n k] show ?thesis
    using facts by auto
qed

lemma start_tick:
  assumes "serves env l job url obj tot"
    and st: "standing l t e n \<lparr>ja_phase = phaseCreated, ja_job = job i, ja_page = i, ja_lines = k, ja_bytes = off\<rparr> wm"
  shows "\<exists>b evs w1. lx_Collect env l now now2 wm w = (Inr b, evs, w1) \<and> bt_Logs b = [] \<and>
    standing l t e n \<lparr>ja_phase = phasePolling, ja_job = job i, ja_page = i, ja_lines = k, ja_bytes = off\<rparr> (bt_Watermark b)"
proof -
  define cur where cur: "cur = decodeCursor (wm_Cursor wm)"
  note facts = standing_facts [OF st, folded cur, simplified job_at.select_convs]
  obtain a where win: "windowBounds cur = Some (a, e)" using facts(2) by blast
  obtain evs w1 where "startExport (ee_net env) l (job i) w = (Inr (), evs, w1)" using servesD(2) [OF assms(1)] by blast
  then have st1: "export_step env l wm now now2 w = (Inr (logs_batch (ee_net env) l [] (advanceCursor t
      (cur\<lparr>xc_Phase := phasePolling, xc_PollDeadline := FormatRFC3339Nano (time_Add now2 (lx_jobPollTimeout l))\<rparr>))), evs, w1)"
    using facts servesD(6) [OF assms(1), of i] by (simp add: export_step_def cur [symmetric] stepCreated_def)
  have "windowBounds (cur\<lparr>xc_Phase := phasePolling, xc_PollDeadline := FormatRFC3339Nano (time_Add now2 (lx_jobPollTimeout l))\<rparr>) = Some (a, e)"
    using win by (simp add: windowBounds_def)
  from collect_advance [OF st1 in_flight_update(2) [OF facts(1)] facts(10,11) this, of i n k] show ?thesis
    using facts by auto
qed

lemma poll_tick:
  assumes "serves env l job url obj tot"
    and st: "standing l t e n \<lparr>ja_phase = phasePolling, ja_job = job i, ja_page = i, ja_lines = k, ja_bytes = off\<rparr> wm"
  shows "\<exists>b evs w1. lx_Collect env l now now2 wm w = (Inr b, evs, w1) \<and> bt_Logs b = [] \<and>
    standing l t e n \<lparr>ja_phase = phaseDownloading, ja_job = job i, ja_page = i, ja_lines = 0, ja_bytes = off\<rparr> (bt_Watermark b)"
proof -
  define cur where cur: "cur = decodeCursor (wm_Cursor wm)"
  note facts = standing_facts [OF st, folded cur, simplified job_at.select_convs]
  obtain a where win: "windowBounds cur = Some (a, e)" using facts(2) by blast
  obtain evs w1 where "pollExport (ee_net env) l (job i) w = (Inr statusSuccess, evs, w1)" using servesD(3) [OF assms(1)] by blast
  then have st1: "export_step env l wm now now2 w = (Inr (logs_batch (ee_net env) l [] (advanceCursor t
      (cur\<lparr>xc_Phase := phaseDownloading, xc_PageOffsetDone := 0\<rparr>))), evs, w1)"
    using facts by (simp add: export_step_def cur [symmetric] stepPolling_def phase_defs)
  have "windowBounds (cur\<lparr>xc_Phase := phaseDownloading, xc_PageOffsetDone := 0\<rparr>) = Some (a, e)" using win by (simp add: windowBounds_def)
  from collect_advance [OF st1 in_flight_update(3) [OF facts(1)] facts(10,11) this, of i n 0] show ?thesis
    using facts by auto
qed

lemma collect_n_Suc:
  assumes "lx_Collect env l (fst (clk 0)) (snd (clk 0)) wm w = (Inr b, evs, w1)" "bt_Logs b = []"
    and "collect_n env l (\<lambda>i. clk (Suc i)) n (bt_Watermark b) w1 = r"
  shows "collect_n env l clk (Suc n) wm w = r"
  using assms by (auto split: option.splits)

definition page_ticks :: "logs_export_loop \<Rightarrow> string \<Rightarrow> nat" where
  "page_ticks l obj = 4 + length (raw_lines obj) div nat (lx_chunkMaxRecords l)"

lemma page_started:
  assumes "lx_ok l" "serves env l job url obj tot"
    and "standing l t e n \<lparr>ja_phase = phaseCreated, ja_job = job i, ja_page = i, ja_lines = 0, ja_bytes = 0\<rparr> wm"
  shows "\<exists>wm1 w1. collect_n env l clk (page_ticks l (obj i) - 1) wm w = Some (wm1, page_records l e 0 (obj i), w1) \<and> page_next l t e n i wm1"
proof -
  obtain b1 evs1 w1 where s: "lx_Collect env l (fst (clk 0)) (snd (clk 0)) wm w = (Inr b1, evs1, w1)" "bt_Logs b1 = []"
    "standing l t e n \<lparr>ja_phase = phasePolling, ja_job = job i, ja_page = i, ja_lines = 0, ja_bytes = 0\<rparr> (bt_Watermark b1)"
    using start_tick [OF assms(2,3)] by blast
  obtain b2 evs2 w2 where p: "lx_Collect env l (fst (clk (Suc 0))) (snd (clk (Suc 0))) (bt_Watermark b1) w1 = (Inr b2, evs2, w2)" "bt_Logs b2 = []"
    "standing l t e n \<lparr>ja_phase = phaseDownloading, ja_job = job i, ja_page = i, ja_lines = 0, ja_bytes = 0\<rparr> (bt_Watermark b2)"
    using poll_tick [OF assms(2) s(3)] by blast
  obtain wm3 w3 where d: "collect_n env l (\<lambda>i. clk (Suc (Suc i))) (Suc (length (raw_lines (obj i)) div nat (lx_chunkMaxRecords l))) (bt_Watermark b2) w2 =
      Some (wm3, page_records l e 0 (obj i), w3)" "page_next l t e n i wm3"
    using page_download [OF assms(1,2) p(3), of "\<lambda>i. clk (Suc (Suc i))" w2] by auto
  note two = collect_n_Suc [where clk = clk, OF s(1,2) collect_n_Suc [where clk = "\<lambda>i. clk (Suc i)", OF p(1,2) d(1)]]
  have "page_ticks l (obj i) - 1 = Suc (Suc (Suc (length (raw_lines (obj i)) div nat (lx_chunkMaxRecords l))))" by (simp add: page_ticks_def)
  then show ?thesis using two d(2) by (metis (no_types))
qed

lemma page_created:
  assumes "lx_ok l" "serves env l job url obj tot"
    and "standing l t e n \<lparr>ja_phase = phaseCreated, ja_job = '''', ja_page = i, ja_lines = 0, ja_bytes = 0\<rparr> wm"
  shows "\<exists>wm1 w1. collect_n env l clk (page_ticks l (obj i)) wm w = Some (wm1, page_records l e 0 (obj i), w1) \<and> page_next l t e n i wm1"
proof -
  obtain b1 evs1 w1 where s: "lx_Collect env l (fst (clk 0)) (snd (clk 0)) wm w = (Inr b1, evs1, w1)" "bt_Logs b1 = []"
    "standing l t e n \<lparr>ja_phase = phaseCreated, ja_job = job i, ja_page = i, ja_lines = 0, ja_bytes = 0\<rparr> (bt_Watermark b1)"
    using create_tick [OF assms(2,3)] by blast
  obtain wm2 w2 where d: "collect_n env l (\<lambda>i. clk (Suc i)) (page_ticks l (obj i) - 1) (bt_Watermark b1) w1 = Some (wm2, page_records l e 0 (obj i), w2)"
    "page_next l t e n i wm2"
    using page_started [OF assms(1,2) s(3)] by blast
  have "page_ticks l (obj i) = Suc (page_ticks l (obj i) - 1)" by (simp add: page_ticks_def)
  then show ?thesis using collect_n_Suc [where clk = clk, OF s(1,2) d(1)] d(2) by metis
qed

text \<open>From a page on, the rest of the window.\<close>

lemma pages_left:
  assumes "lx_ok l" "serves env l job url obj tot" "page_next l t e n i wm" "i < n"
  shows "\<exists>w1. collect_n env l clk (sum_list (map (\<lambda>j. page_ticks l (obj j)) [Suc i ..< n])) wm w =
    Some (window_done e, concat (map (\<lambda>j. page_records l e 0 (obj j)) [Suc i ..< n]), w1)"
  using assms(3,4)
proof (induction "n - i" arbitrary: i wm w clk rule: less_induct)
  case less
  show ?case
  proof (cases "Suc i < n")
    case False
    then show ?thesis using less.prems by (simp add: page_next_def)
  next
    case True
    then have "standing l t e n \<lparr>ja_phase = phaseCreated, ja_job = '''', ja_page = Suc i, ja_lines = 0, ja_bytes = 0\<rparr> wm"
      using less.prems(1) by (simp add: page_next_def)
    then obtain wm1 w1 where p: "collect_n env l clk (page_ticks l (obj (Suc i))) wm w = Some (wm1, page_records l e 0 (obj (Suc i)), w1)"
      "page_next l t e n (Suc i) wm1"
      using page_created [OF assms(1,2)] by blast
    obtain w2 where "collect_n env l (\<lambda>j. clk (page_ticks l (obj (Suc i)) + j)) (sum_list (map (\<lambda>j. page_ticks l (obj j)) [Suc (Suc i) ..< n])) wm1 w1 =
        Some (window_done e, concat (map (\<lambda>j. page_records l e 0 (obj j)) [Suc (Suc i) ..< n]), w2)"
      using less.hyps [of "Suc i", OF _ p(2) True] True by fastforce
    moreover have "[Suc i ..< n] = Suc i # [Suc (Suc i) ..< n]" using True by (rule upt_conv_Cons)
    ultimately show ?thesis using collect_n_add [OF p(1)] by simp
  qed
qed

lemma idle_tick:
  assumes "lx_ok l" "serves env l job url obj tot" "clock_ok l now" "wm_Cursor wm = ''''" "CheckEncodable wm = None"
    and win: "windowBoundsFor l (wm_Time wm) now = (a, e, True)"
    and n: "0 < tot" "0 < n" "page_count l tot = int n" "int n \<le> lx_maxPagesPerWindow l"
  shows "\<exists>b evs w1. lx_Collect env l now now2 wm w = (Inr b, evs, w1) \<and> bt_Logs b = [] \<and>
    standing l (wm_Time wm) e n \<lparr>ja_phase = phaseCreated, ja_job = job 0, ja_page = 0, ja_lines = 0, ja_bytes = 0\<rparr> (bt_Watermark b)"
proof -
  have t: "0 \<le> wm_Time wm" "wm_Time wm < 3652059 * ns_per_day" using assms(5) by (simp_all add: CheckEncodable_None_iff)
  obtain evs w1 where cr: "createExport (ee_net env) l a e 0 w = (Inr (job 0, tot), evs, w1)"
    using servesD(1) [OF assms(2), of a e 0 w] by auto
  let ?c = "(window_cursor phaseCreated a e (int n) tot)\<lparr>xc_JobID := job 0\<rparr>"
  have "decodeCursor '''' = idle_cursor" by (simp add: decodeCursor_def)
  then have st1: "export_step env l wm now now2 w = (Inr (logs_batch (ee_net env) l [] (advanceCursor (wm_Time wm) ?c)), evs, w1)"
    using assms(4) win cr n by (simp add: export_step_def idle_cursor_def phase_defs stepIdle_def Let_def)
  note f = windowBoundsFor_facts [OF assms(1,3) t(1) win]
  have ps: "0 < lx_pageSize l" using assms(1) by (simp add: lx_ok_def)
  have ranges: "in_int64 (int n)" "in_int64 tot" using page_count_range [OF ps, of tot] createExport_range [OF cr] n(3) by auto
  have ae: "a < e" using f(6) by simp
  note fl = in_flight_window_cursor(2) [OF f(2) f(1) ae f(4,5) ranges, of phaseCreated "job 0"]
  have "windowBounds ?c = Some (a, e)"
    using parseCursorTime_format [of a] parseCursorTime_format [of e] f(2,5) ae by (simp add: windowBounds_def window_cursor_def)
  from collect_advance [OF st1 _ t this, of 0 n 0] show ?thesis using fl by (auto simp: window_cursor_def zero_cursor_def)
qed

section \<open>The property\<close>

text \<open>C12: a window of the log export comes to its end. Take a loop the settings admit, a
  watermark with no job under way, a first tick whose window has settled and a vendor that
  answers the lifecycle calls and serves an object per page, whole or from the offset asked
  for, with no more pages than configured. Then after four ticks for each page and one more
  for every full chunk of lines in it, whatever the clock shows and whatever else the world
  does meanwhile, every tick has succeeded, the watermark is the window's end with no cursor,
  and what was emitted is the records of every line of every page, in order and each once.\<close>

theorem export_completes:
  assumes "newLogsExportLoop cfg lp d uc = Inr l" "serves env l job url obj tot"
    and "wm_Cursor wm = ''''" "CheckEncodable wm = None" "clock_ok l (fst (clk 0))"
    and "windowBoundsFor l (wm_Time wm) (fst (clk 0)) = (a, e, True)"
    and "0 < tot" "page_count l tot = int n" "0 < n" "int n \<le> lx_maxPagesPerWindow l"
  shows "\<exists>w1. collect_n env l clk (\<Sum>j\<leftarrow>[0 ..< n]. 4 + length (raw_lines (obj j)) div nat (lx_chunkMaxRecords l)) wm w =
    Some (window_done e, concat (map (\<lambda>j. concat (map (\<lambda>r. fst (line_out l e r)) (raw_lines (obj j)))) [0 ..< n]), w1)"
proof -
  have ok: "lx_ok l" by (rule newLogsExportLoop_ok [OF assms(1)])
  obtain b evs w1 where s: "lx_Collect env l (fst (clk 0)) (snd (clk 0)) wm w = (Inr b, evs, w1)" "bt_Logs b = []"
    "standing l (wm_Time wm) e n \<lparr>ja_phase = phaseCreated, ja_job = job 0, ja_page = 0, ja_lines = 0, ja_bytes = 0\<rparr> (bt_Watermark b)"
    using idle_tick [OF ok assms(2,5,3,4,6,7,9,8,10)] by blast
  obtain wm2 w2 where p: "collect_n env l (\<lambda>i. clk (Suc i)) (page_ticks l (obj 0) - 1) (bt_Watermark b) w1 = Some (wm2, page_records l e 0 (obj 0), w2)"
    "page_next l (wm_Time wm) e n 0 wm2"
    using page_started [OF ok assms(2) s(3)] by blast
  have "page_ticks l (obj 0) = Suc (page_ticks l (obj 0) - 1)" by (simp add: page_ticks_def)
  then have first: "collect_n env l clk (page_ticks l (obj 0)) wm w = Some (wm2, page_records l e 0 (obj 0), w2)"
    using collect_n_Suc [where clk = clk, OF s(1,2) p(1)] by metis
  obtain w3 where rest: "collect_n env l (\<lambda>i. clk (page_ticks l (obj 0) + i)) (sum_list (map (\<lambda>j. page_ticks l (obj j)) [Suc 0 ..< n])) wm2 w2 =
      Some (window_done e, concat (map (\<lambda>j. page_records l e 0 (obj j)) [Suc 0 ..< n]), w3)"
    using pages_left [OF ok assms(2) p(2) assms(9)] by blast
  have "[0 ..< n] = 0 # [Suc 0 ..< n]" using assms(9) by (rule upt_conv_Cons)
  then show ?thesis using collect_n_add [OF first rest] by (auto simp: page_ticks_def page_records_def)
qed

text \<open>One page with one line, an empty object: four ticks and one record.\<close>

definition one_line :: string where "one_line = ''{}'' @ [CHR 0x0A]"

lemma three_serves: "serves (three_env one_line) one_export (\<lambda>_. ''j'') (\<lambda>_. ''u'') (\<lambda>_. one_line) 3"
proof -
  have "validateSignedURLHost (ee_logs (three_env one_line)) one_export ''u'' = None"
    by (simp add: validateSignedURLHost_def three_env_def one_export_fields) code_simp
  moreover have "length one_line \<le> max_bytes one_export"
    by (simp add: one_line_def max_bytes_def one_export_fields defaultDownloadMaxBytes_def)
  ultimately show ?thesis unfolding serves_def by (simp add: three_env_def three_calls answers_def StatusOK_def)
qed

lemma one_line_raw: "raw_lines one_line = [one_line]"
  by (simp add: one_line_def raw_lines.simps [of "_ # _"] Let_def newline_def)

lemma one_line_out: "fst (line_out one_export e one_line) = [strip (lx_policy one_export) fmempty e]"
proof -
  have t: "line_text one_line = ''{}''" by code_simp
  have p: "Option.bind (parse_text ''{}'') dec_raw_map = Some fmempty" by code_simp
  have "lx_maxLineBytes one_export = 0" using newLogsExportLoop_ok [OF one_export_built] by (simp add: lx_ok_def)
  then have "\<not> line_cap one_export < length (line_text one_line)" unfolding t by (simp add: line_cap_def maxLogLineBytes_def)
  then show ?thesis unfolding line_out_def process_line_def t by (simp add: p Let_def)
qed

theorem export_completes_witness:
  "collect_n (three_env one_line) one_export (\<lambda>_. (noon, noon)) 4 zero_watermark () =
     Some (window_done (noon - 10 * Minute), [strip (lx_policy one_export) fmempty (noon - 10 * Minute)], ())"
proof -
  have enc: "CheckEncodable zero_watermark = None" by (simp add: CheckEncodable_None_iff zero_watermark_def zero_time_def ns_per_day_def)
  have win: "windowBoundsFor one_export (wm_Time zero_watermark) (fst ((\<lambda>_. (noon, noon)) (0 :: nat))) = (noon - Hour, noon - 10 * Minute, True)"
    by (simp add: zero_watermark_def zero_time_def noon_facts)
  show ?thesis
    using export_completes [OF one_export_built three_serves _ enc _ win, where n = 1 and w = "()"] noon_facts(1)
    by (simp add: zero_watermark_def one_export_fields page_count_three one_line_raw one_line_out)
qed

end
