(* ===== verification/Langsmith_Strip.thy ===== *)
theory Langsmith_Strip
  imports Source_Scalar Guard Config
begin

text \<open>
  The strip of the LangSmith runs loop (\<^verbatim>\<open>internal/source/langsmith/runs_strip.go\<close>): the field policy,
  the values it renders, times and severities. As in the Portkey strip, a raw record is the
  map of its fields, fields are visited in ascending order, which cannot be observed, and a
  nil attribute map and an empty one are the same map.
\<close>

section \<open>The policy\<close>

record runs_field_policy =
  rp_indexed :: "string fset"
  rp_record :: "string fset"

definition defaultRunsFieldPolicy :: runs_field_policy where
  "defaultRunsFieldPolicy =
     \<lparr>rp_indexed = fset_of_list [''run_type'', ''status''],
      rp_record = fset_of_list [''id'', ''trace_id'', ''session_id'', ''parent_run_id'', ''start_time'', ''end_time'',
        ''first_token_time'', ''total_tokens'', ''prompt_tokens'', ''completion_tokens'',
        ''total_cost'', ''prompt_cost'', ''completion_cost'', ''dotted_order'', ''thread_id'']\<rparr>"

definition runs_withExtraRecordFields :: "runs_field_policy \<Rightarrow> string list \<Rightarrow> runs_field_policy" where
  "runs_withExtraRecordFields p extra =
     (if extra = [] then p else \<lparr>rp_indexed = rp_indexed p, rp_record = rp_record p |\<union>| fset_of_list extra\<rparr>)"

definition runs_withExtraIndexedFields :: "runs_field_policy \<Rightarrow> string list \<Rightarrow> runs_field_policy" where
  "runs_withExtraIndexedFields p extra =
     (if extra = [] then p else \<lparr>rp_indexed = rp_indexed p |\<union>| fset_of_list extra, rp_record = rp_record p\<rparr>)"

text \<open>A field on both lists is named twice.\<close>

definition selectKeys :: "runs_field_policy \<Rightarrow> string list" where
  "selectKeys p = sort (sorted_list_of_fset (rp_indexed p) @ sorted_list_of_fset (rp_record p))"

definition validLangsmithSelectEnum :: "string list" where
  "validLangsmithSelectEnum =
     [''id'', ''name'', ''run_type'', ''start_time'', ''end_time'', ''status'', ''error'', ''extra'', ''events'', ''inputs'',
      ''inputs_preview'', ''inputs_s3_urls'', ''inputs_or_signed_url'', ''outputs'', ''outputs_preview'', ''outputs_s3_urls'',
      ''outputs_or_signed_url'', ''s3_urls'', ''error_or_signed_url'', ''events_or_signed_url'', ''extra_or_signed_url'',
      ''serialized_or_signed_url'', ''parent_run_id'', ''manifest_id'', ''manifest_s3_id'', ''manifest'', ''session_id'',
      ''serialized'', ''reference_example_id'', ''reference_dataset_id'', ''total_tokens'', ''prompt_tokens'',
      ''prompt_token_details'', ''completion_tokens'', ''completion_token_details'', ''total_cost'', ''prompt_cost'',
      ''prompt_cost_details'', ''completion_cost'', ''completion_cost_details'', ''price_model_id'', ''first_token_time'',
      ''trace_id'', ''dotted_order'', ''last_queued_at'', ''feedback_stats'', ''child_run_ids'', ''parent_run_ids'', ''tags'',
      ''in_dataset'', ''app_path'', ''share_token'', ''trace_tier'', ''trace_first_received_at'', ''ttl_seconds'',
      ''trace_upgrade'', ''thread_id'', ''trace_min_max_start_time'', ''messages'', ''inserted_at'']"

section \<open>Values\<close>

fun scalars :: "json list \<Rightarrow> string list option" where
  "scalars [] = Some []"
| "scalars (j # js) =
     (case json_scalar j of None \<Rightarrow> None | Some s \<Rightarrow> map_option (Cons s) (scalars js))"

fun runs_scalarToString :: "json \<Rightarrow> string option" where
  "runs_scalarToString (JArr js) = (if js = [] then None else map_option (join_with '','') (scalars js))"
| "runs_scalarToString j = json_scalar j"

text \<open>
  The layouts without a zone, with or without a fraction of the seconds: they read the same
  texts, since a fraction is accepted where the layout has none.
\<close>

definition parse_naive :: "string \<Rightarrow> instant option" where
  "parse_naive s0 =
     (case take_num 4 s0 of None \<Rightarrow> None | Some (y, s1) \<Rightarrow>
      case take_field CHR ''-'' s1 of None \<Rightarrow> None | Some (m, s2) \<Rightarrow>
      case take_field CHR ''-'' s2 of None \<Rightarrow> None | Some (d, s3) \<Rightarrow>
      case take_char CHR ''T'' s3 of None \<Rightarrow> None | Some s4 \<Rightarrow>
      case take_hour s4 of None \<Rightarrow> None | Some (h, s5) \<Rightarrow>
      case take_field colon s5 of None \<Rightarrow> None | Some (mi, s6) \<Rightarrow>
      case take_field colon s6 of None \<Rightarrow> None | Some (sec, s7) \<Rightarrow>
      case take_frac s7 of (ns, s8) \<Rightarrow>
        if s8 = [] \<and> date_ok y m d \<and> h < 24 \<and> mi < 60 \<and> sec < 60
        then Some (instant_of y m d h mi sec ns) else None)"

definition parseRunTime :: "json \<Rightarrow> instant option" where
  "parseRunTime raw =
     (case dec_string raw '''' of
        None \<Rightarrow> None
      | Some s \<Rightarrow>
          (if s = '''' then None
           else case parse_naive s of Some t \<Rightarrow> Some t | None \<Rightarrow> ParseRFC3339 s))"

definition severityFor :: "string \<Rightarrow> string" where
  "severityFor status = (if status \<in> {''error'', ''timeout'', ''interrupted''} then ''ERROR'' else ''INFO'')"

section \<open>strip\<close>

definition runs_strip_field :: "runs_field_policy \<Rightarrow> (string, json) fmap \<Rightarrow> string \<Rightarrow> log_record \<Rightarrow> log_record" where
  "runs_strip_field p raw k lr =
     (if k |\<in>| rp_indexed p then
        (case field_value runs_scalarToString raw k of
           None \<Rightarrow> lr | Some s \<Rightarrow> lr\<lparr>lr_IndexedAttributes := fmupd k s (lr_IndexedAttributes lr)\<rparr>)
      else if k |\<in>| rp_record p then
        (case field_value runs_scalarToString raw k of
           None \<Rightarrow> lr | Some s \<Rightarrow> lr\<lparr>lr_RecordAttributes := fmupd k s (lr_RecordAttributes lr)\<rparr>)
      else lr)"

definition runs_stampSource :: "log_record \<Rightarrow> log_record" where
  "runs_stampSource lr = lr\<lparr>lr_RecordAttributes := fmupd ''source'' ''langsmith'' (lr_RecordAttributes lr)\<rparr>"

definition runs_strip :: "runs_field_policy \<Rightarrow> (string, json) fmap \<Rightarrow> instant \<Rightarrow> log_record" where
  "runs_strip p raw fallbackTS =
     (let lr1 = fold (runs_strip_field p raw) (sorted_keys raw) (empty_record fallbackTS);
          lr2 = (case Option.bind (fmlookup raw ''start_time'') parseRunTime of
                   None \<Rightarrow> lr1 | Some ts \<Rightarrow> lr1\<lparr>lr_Timestamp := ts\<rparr>);
          lr3 = lr2\<lparr>lr_Severity := severityFor (map_get (lr_IndexedAttributes lr2) ''status'')\<rparr>
      in runs_stampSource lr3)"

section \<open>What strip computes\<close>

definition runs_indexed :: "runs_field_policy \<Rightarrow> (string, json) fmap \<Rightarrow> string \<Rightarrow> string option" where
  "runs_indexed p raw k = (if k |\<in>| rp_indexed p then field_value runs_scalarToString raw k else None)"

definition runs_recorded :: "runs_field_policy \<Rightarrow> (string, json) fmap \<Rightarrow> string \<Rightarrow> string option" where
  "runs_recorded p raw k = (if k |\<in>| rp_record p \<and> k |\<notin>| rp_indexed p then field_value runs_scalarToString raw k else None)"

lemma runs_fold_tiers:
  "fmlookup (lr_IndexedAttributes (fold (runs_strip_field p raw) ks lr)) k =
     (case (if k \<in> set ks then runs_indexed p raw k else None) of None \<Rightarrow> fmlookup (lr_IndexedAttributes lr) k | Some s \<Rightarrow> Some s)"
  "fmlookup (lr_RecordAttributes (fold (runs_strip_field p raw) ks lr)) k =
     (case (if k \<in> set ks then runs_recorded p raw k else None) of None \<Rightarrow> fmlookup (lr_RecordAttributes lr) k | Some s \<Rightarrow> Some s)"
  by (induction ks arbitrary: lr)
    (auto simp: runs_strip_field_def runs_indexed_def runs_recorded_def split: option.splits if_splits)

lemma runs_fold_frame:
  "lr_Body (fold (runs_strip_field p raw) ks lr) = lr_Body lr" "lr_TraceID (fold (runs_strip_field p raw) ks lr) = lr_TraceID lr"
  "lr_Timestamp (fold (runs_strip_field p raw) ks lr) = lr_Timestamp lr"
  by (induction ks arbitrary: lr) (auto simp: runs_strip_field_def split: option.splits)

text \<open>Every attribute is the stamp or the scalar of an allow-listed field.\<close>

lemma runs_strip_exact:
  "fmlookup (lr_IndexedAttributes (runs_strip p raw ts)) k = runs_indexed p raw k"
  "fmlookup (lr_RecordAttributes (runs_strip p raw ts)) k = (if k = ''source'' then Some ''langsmith'' else runs_recorded p raw k)"
  "lr_Timestamp (runs_strip p raw ts) = (case Option.bind (fmlookup raw ''start_time'') parseRunTime of None \<Rightarrow> ts | Some t \<Rightarrow> t)"
  "lr_Severity (runs_strip p raw ts) = severityFor (case runs_indexed p raw ''status'' of None \<Rightarrow> '''' | Some s \<Rightarrow> s)"
  "lr_Body (runs_strip p raw ts) = ''''" "lr_TraceID (runs_strip p raw ts) = ''''"
proof -
  have gone: "k \<notin> set (sorted_keys raw) \<Longrightarrow> runs_indexed p raw k = None \<and> runs_recorded p raw k = None" for k
    by (simp add: runs_indexed_def runs_recorded_def field_value_absent)
  have ix: "fmlookup (lr_IndexedAttributes (fold (runs_strip_field p raw) (sorted_keys raw) (empty_record ts))) k = runs_indexed p raw k" for k
    using gone [of k] by (auto simp: runs_fold_tiers empty_record_def split: option.splits)
  have rc: "fmlookup (lr_RecordAttributes (fold (runs_strip_field p raw) (sorted_keys raw) (empty_record ts))) k = runs_recorded p raw k" for k
    using gone [of k] by (auto simp: runs_fold_tiers empty_record_def split: option.splits)
  show "fmlookup (lr_IndexedAttributes (runs_strip p raw ts)) k = runs_indexed p raw k"
    "fmlookup (lr_RecordAttributes (runs_strip p raw ts)) k = (if k = ''source'' then Some ''langsmith'' else runs_recorded p raw k)"
    "lr_Timestamp (runs_strip p raw ts) = (case Option.bind (fmlookup raw ''start_time'') parseRunTime of None \<Rightarrow> ts | Some t \<Rightarrow> t)"
    "lr_Severity (runs_strip p raw ts) = severityFor (case runs_indexed p raw ''status'' of None \<Rightarrow> '''' | Some s \<Rightarrow> s)"
    "lr_Body (runs_strip p raw ts) = ''''" "lr_TraceID (runs_strip p raw ts) = ''''"
    by (auto simp: runs_strip_def Let_def runs_stampSource_def ix rc map_get_def runs_fold_frame empty_record_fields split: option.splits)
qed

text \<open>Two records that agree on the allow-listed fields and the start time give the same log record.\<close>

lemma runs_strip_view:
  assumes "\<And>k. k |\<in>| rp_indexed p |\<union>| rp_record p \<or> k = ''start_time'' \<Longrightarrow> fmlookup raw k = fmlookup raw' k"
  shows "runs_strip p raw ts = runs_strip p raw' ts"
proof -
  have same: "runs_indexed p raw = runs_indexed p raw'" "runs_recorded p raw = runs_recorded p raw'"
    using assms by (auto simp: runs_indexed_def runs_recorded_def field_value_def intro!: ext)
  have start: "fmlookup raw ''start_time'' = fmlookup raw' ''start_time''" using assms by blast
  have "lr_IndexedAttributes (runs_strip p raw ts) = lr_IndexedAttributes (runs_strip p raw' ts)"
    "lr_RecordAttributes (runs_strip p raw ts) = lr_RecordAttributes (runs_strip p raw' ts)"
    by (auto intro!: fmap_ext simp: runs_strip_exact same)
  then show ?thesis by (intro log_record.equality) (simp_all add: runs_strip_exact same start)
qed

lemma scalars_Some: "scalars js = Some ss \<Longrightarrow> length ss = length js \<and> (\<forall>j\<in>set js. json_scalar j \<noteq> None)"
  by (induction js arbitrary: ss) (auto split: option.splits)

end
