(* ===== verification/Langsmith_Runs_Settings.thy ===== *)
theory Langsmith_Runs_Settings
  imports Langsmith_Strip
begin

text \<open>
  The settings of the LangSmith runs loop and its construction
  (\<^verbatim>\<open>internal/source/langsmith/runs_settings.go\<close>). The settings map is applied in ascending key
  order; the source visits it in any order, which only chooses the error that is returned.
  The HTTP client of the loop is the network parameter of its operations.
\<close>

section \<open>Settings\<close>

definition runsPageSizeMax :: int where "runsPageSizeMax = 100"

definition defaultRunsResponseBytes :: int where "defaultRunsResponseBytes = 32 * 2 ^ 20"

record runs_settings =
  rs_sessionIDs :: "string list"
  rs_sessionFilter :: string
  rs_maxSessions :: int
  rs_window :: duration
  rs_settle :: duration
  rs_maxBackfill :: duration
  rs_pageSize :: int
  rs_maxPagesPerWindow :: int
  rs_maxResponseBytes :: int
  rs_sessionRefresh :: duration
  rs_rootOnly :: bool
  rs_runType :: string
  rs_extraRecordFields :: "string list"
  rs_extraIndexedFields :: "string list"

definition hardDeniedRunsFields :: "string list" where
  "hardDeniedRunsFields = AbsoluteNeverDenyKeys @ [''inputs_s3_urls'', ''outputs_s3_urls'']"

definition defaultRunsSettings :: runs_settings where
  "defaultRunsSettings =
     \<lparr>rs_sessionIDs = [], rs_sessionFilter = '''', rs_maxSessions = 1000, rs_window = Hour, rs_settle = 10 * Minute,
      rs_maxBackfill = 24 * Hour, rs_pageSize = runsPageSizeMax, rs_maxPagesPerWindow = 100,
      rs_maxResponseBytes = defaultRunsResponseBytes, rs_sessionRefresh = 5 * Minute, rs_rootOnly = False, rs_runType = '''',
      rs_extraRecordFields = [''tags'', ''child_run_ids'', ''app_path''], rs_extraIndexedFields = []\<rparr>"

definition langsmith_splitCSV :: "string \<Rightarrow> string list" where
  "langsmith_splitCSV v = filter (\<lambda>p. p \<noteq> '''') (map TrimSpace (split_on CHR '','' v))"

definition parseRunsPositiveDuration :: "string \<Rightarrow> string + duration" where
  "parseRunsPositiveDuration v =
     (case ParseDuration v of
        None \<Rightarrow> Inl ''invalid duration'' | Some d \<Rightarrow> if d \<le> 0 then Inl ''must be positive'' else Inr d)"

definition parseRunsNonNegDuration :: "string \<Rightarrow> string + duration" where
  "parseRunsNonNegDuration v =
     (case ParseDuration v of
        None \<Rightarrow> Inl ''invalid duration'' | Some d \<Rightarrow> if d < 0 then Inl ''must be >= 0'' else Inr d)"

definition parseRunsPositiveInt :: "string \<Rightarrow> string + int" where
  "parseRunsPositiveInt v =
     (case ParseInt v of
        None \<Rightarrow> Inl ''invalid syntax'' | Some n \<Rightarrow> if n \<le> 0 then Inl ''must be positive'' else Inr n)"

definition parse_bool :: "string \<Rightarrow> string + bool" where
  "parse_bool v = (case ParseBool v of None \<Rightarrow> Inl ''invalid syntax'' | Some b \<Rightarrow> Inr b)"

definition runs_setting :: "string \<Rightarrow> string \<Rightarrow> runs_settings \<Rightarrow> string + runs_settings" where
  "runs_setting k v rs =
     (if k = ''session_ids'' then Inr (rs\<lparr>rs_sessionIDs := langsmith_splitCSV v\<rparr>)
      else if k = ''session_filter'' then Inr (rs\<lparr>rs_sessionFilter := v\<rparr>)
      else if k = ''max_sessions'' then set_with (parseRunsPositiveInt v) (\<lambda>n. rs\<lparr>rs_maxSessions := n\<rparr>)
      else if k = ''window'' then set_with (parseRunsPositiveDuration v) (\<lambda>d. rs\<lparr>rs_window := d\<rparr>)
      else if k = ''settle'' then set_with (parseRunsNonNegDuration v) (\<lambda>d. rs\<lparr>rs_settle := d\<rparr>)
      else if k = ''max_backfill'' then set_with (parseRunsPositiveDuration v) (\<lambda>d. rs\<lparr>rs_maxBackfill := d\<rparr>)
      else if k = ''session_refresh'' then set_with (parseRunsNonNegDuration v) (\<lambda>d. rs\<lparr>rs_sessionRefresh := d\<rparr>)
      else if k = ''page_size'' then set_with (parseRunsPositiveInt v) (\<lambda>n. rs\<lparr>rs_pageSize := n\<rparr>)
      else if k = ''max_pages_per_window'' then set_with (parseRunsPositiveInt v) (\<lambda>n. rs\<lparr>rs_maxPagesPerWindow := n\<rparr>)
      else if k = ''max_response_bytes'' then set_with (parseRunsPositiveInt v) (\<lambda>n. rs\<lparr>rs_maxResponseBytes := n\<rparr>)
      else if k = ''root_only'' then set_with (parse_bool v) (\<lambda>b. rs\<lparr>rs_rootOnly := b\<rparr>)
      else if k = ''run_type'' then Inr (rs\<lparr>rs_runType := v\<rparr>)
      else if k = ''extra_record_fields'' then Inr (rs\<lparr>rs_extraRecordFields := langsmith_splitCSV v\<rparr>)
      else if k = ''extra_indexed_fields'' then Inr (rs\<lparr>rs_extraIndexedFields := langsmith_splitCSV v\<rparr>)
      else Inr rs)"

definition validateRunsSettings :: "runs_settings \<Rightarrow> string option" where
  "validateRunsSettings rs =
     (if rs_sessionIDs rs = [] \<and> rs_sessionFilter rs = '''' then Some ''langsmith runs: session_ids or session_filter is required''
      else if rs_window rs \<le> 0 then Some ''langsmith runs: window must be positive''
      else if runsPageSizeMax < rs_pageSize rs then Some ''langsmith runs: page_size exceeds server max''
      else if rs_window rs \<le> rs_settle rs then Some ''langsmith runs: settle must be < window''
      else if list_ex (\<lambda>f. f \<in> set hardDeniedRunsFields) (rs_extraRecordFields rs)
      then Some ''langsmith runs: extra_record_fields cannot include a hard-denied message-body field''
      else if list_ex (\<lambda>f. f \<in> set hardDeniedRunsFields) (rs_extraIndexedFields rs)
      then Some ''langsmith runs: extra_indexed_fields cannot include a hard-denied message-body field''
      else if list_ex (\<lambda>f. f \<notin> set validLangsmithSelectEnum) (rs_extraRecordFields rs)
      then Some ''langsmith runs: extra_record_fields value is not a known LangSmith select field''
      else if list_ex (\<lambda>f. f \<notin> set validLangsmithSelectEnum) (rs_extraIndexedFields rs)
      then Some ''langsmith runs: extra_indexed_fields value is not a known LangSmith select field''
      else None)"

definition applyRunsSettings :: "runs_settings \<Rightarrow> (string, string) fmap \<Rightarrow> string + runs_settings" where
  "applyRunsSettings rs s =
     (case apply_each runs_setting s (sorted_keys s) rs of
        Inl e \<Rightarrow> Inl (''langsmith runs: setting: '' @ e)
      | Inr rs1 \<Rightarrow> (case validateRunsSettings rs1 of Some e \<Rightarrow> Inl e | None \<Rightarrow> Inr rs1))"

section \<open>The loop\<close>

record runs_loop =
  qr_baseURL :: string
  qr_authHdr :: string
  qr_authVal :: string
  qr_sourceInstance :: string
  qr_sessionIDs :: "string list"
  qr_sessionFilter :: string
  qr_maxSessions :: int
  qr_selectFields :: "string list"
  qr_cadence :: duration
  qr_window :: duration
  qr_settle :: duration
  qr_maxBackfill :: duration
  qr_pageSize :: int
  qr_maxPagesPerWindow :: int
  qr_maxResponseBytes :: int
  qr_sessionRefresh :: duration
  qr_rootOnly :: bool
  qr_runType :: string
  qr_policy :: runs_field_policy
  qr_deps :: deps

definition runs_policy :: "runs_settings \<Rightarrow> runs_field_policy" where
  "runs_policy rs =
     runs_withExtraIndexedFields (runs_withExtraRecordFields defaultRunsFieldPolicy (rs_extraRecordFields rs)) (rs_extraIndexedFields rs)"

definition newRunsLoop :: "source_config \<Rightarrow> loop_config \<Rightarrow> deps \<Rightarrow> string + runs_loop" where
  "newRunsLoop cfg lpCfg d =
     (if lp_Window lpCfg \<noteq> 0 then Inl ''langsmith runs: loops.runs.window must be unset/0''
      else case applyRunsSettings defaultRunsSettings (lp_Settings lpCfg) of
        Inl e \<Rightarrow> Inl e
      | Inr rs \<Rightarrow> Inr
          \<lparr>qr_baseURL = sc_BaseURL cfg, qr_authHdr = au_Header (sc_Auth cfg), qr_authVal = au_Value (sc_Auth cfg),
           qr_sourceInstance = sc_SourceInstance cfg,
           qr_sessionIDs = rs_sessionIDs rs, qr_sessionFilter = rs_sessionFilter rs, qr_maxSessions = rs_maxSessions rs,
           qr_selectFields = selectKeys (runs_policy rs),
           qr_cadence = (if lp_Cadence lpCfg \<le> 0 then Minute else lp_Cadence lpCfg),
           qr_window = rs_window rs, qr_settle = rs_settle rs, qr_maxBackfill = rs_maxBackfill rs,
           qr_pageSize = rs_pageSize rs, qr_maxPagesPerWindow = rs_maxPagesPerWindow rs, qr_maxResponseBytes = rs_maxResponseBytes rs,
           qr_sessionRefresh = rs_sessionRefresh rs, qr_rootOnly = rs_rootOnly rs, qr_runType = rs_runType rs,
           qr_policy = runs_policy rs, qr_deps = d\<rparr>)"

definition qr_IndexedKeys :: "runs_loop \<Rightarrow> string list" where
  "qr_IndexedKeys l = sorted_list_of_fset (rp_indexed (qr_policy l))"

definition qr_SeriesNames :: "runs_loop \<Rightarrow> string list" where
  "qr_SeriesNames l = []"

definition qr_Key :: "'w net \<Rightarrow> runs_loop \<Rightarrow> checkpoint_key" where
  "qr_Key net l = \<lparr>ck_SourceInstance = qr_sourceInstance l, ck_Loop = ''runs'',
     ck_OutputFingerprint = Fingerprint (nt_sha net) (qr_IndexedKeys l) ''runs''\<rparr>"

section \<open>What accepted settings give\<close>

definition runs_settings_ok :: "runs_settings \<Rightarrow> bool" where
  "runs_settings_ok rs \<longleftrightarrow> 0 < rs_maxSessions rs \<and> 0 < rs_window rs \<and> 0 \<le> rs_settle rs \<and> 0 < rs_maxBackfill rs \<and>
     0 < rs_pageSize rs \<and> 0 < rs_maxPagesPerWindow rs \<and> 0 < rs_maxResponseBytes rs \<and> 0 \<le> rs_sessionRefresh rs \<and>
     in_int64 (rs_maxPagesPerWindow rs) \<and> in_int64 (rs_maxSessions rs)"

lemma parse_runs_positive:
  "parseRunsPositiveDuration v = Inr d \<Longrightarrow> 0 < d" "parseRunsNonNegDuration v = Inr d \<Longrightarrow> 0 \<le> d"
  "parseRunsPositiveInt v = Inr n \<Longrightarrow> 0 < n \<and> in_int64 n"
  by (auto simp: parseRunsPositiveDuration_def parseRunsNonNegDuration_def parseRunsPositiveInt_def dest: ParseInt_range split: option.splits if_splits)

lemma runs_setting_ok: "runs_setting k v rs = Inr rs1 \<Longrightarrow> runs_settings_ok rs \<Longrightarrow> runs_settings_ok rs1"
  unfolding runs_setting_def
  by (auto simp: runs_settings_ok_def dest!: set_with_Inr parse_runs_positive split: if_splits)

lemma applyRunsSettings_ok:
  assumes "applyRunsSettings defaultRunsSettings s = Inr rs"
  shows "runs_settings_ok rs" "validateRunsSettings rs = None"
proof -
  have each: "apply_each runs_setting s (sorted_keys s) defaultRunsSettings = Inr rs" and val: "validateRunsSettings rs = None"
    using assms by (auto simp: applyRunsSettings_def split: sum.splits option.splits)
  have "runs_settings_ok defaultRunsSettings"
    by (simp add: runs_settings_ok_def defaultRunsSettings_def runsPageSizeMax_def defaultRunsResponseBytes_def Minute_def Hour_def in_int64_def)
  then show "runs_settings_ok rs" using apply_each_inv [OF each, of runs_settings_ok] runs_setting_ok by blast
  show "validateRunsSettings rs = None" by (rule val)
qed

definition qr_ok :: "runs_loop \<Rightarrow> bool" where
  "qr_ok l \<longleftrightarrow> 0 < qr_window l \<and> 0 \<le> qr_settle l \<and> qr_settle l < qr_window l \<and> 0 < qr_maxBackfill l \<and> 0 < qr_pageSize l \<and>
     qr_pageSize l \<le> runsPageSizeMax \<and> 0 < qr_maxPagesPerWindow l \<and> in_int64 (qr_maxPagesPerWindow l) \<and> 0 < qr_maxSessions l \<and>
     (qr_sessionIDs l \<noteq> [] \<or> qr_sessionFilter l \<noteq> '''')"

lemma newRunsLoop_ok:
  assumes "newRunsLoop cfg lp d = Inr l"
  shows "qr_ok l" "\<exists>rs. validateRunsSettings rs = None \<and> qr_policy l = runs_policy rs \<and> qr_selectFields l = selectKeys (runs_policy rs)"
proof -
  obtain rs where rs: "applyRunsSettings defaultRunsSettings (lp_Settings lp) = Inr rs" and
    l: "qr_window l = rs_window rs" "qr_settle l = rs_settle rs" "qr_maxBackfill l = rs_maxBackfill rs" "qr_pageSize l = rs_pageSize rs"
       "qr_maxPagesPerWindow l = rs_maxPagesPerWindow rs" "qr_maxSessions l = rs_maxSessions rs" "qr_sessionIDs l = rs_sessionIDs rs"
       "qr_sessionFilter l = rs_sessionFilter rs" "qr_policy l = runs_policy rs" "qr_selectFields l = selectKeys (runs_policy rs)"
    using assms by (auto simp: newRunsLoop_def split: if_splits sum.splits)
  note ok = applyRunsSettings_ok [OF rs]
  show "qr_ok l" using ok l by (auto simp: qr_ok_def runs_settings_ok_def validateRunsSettings_def split: if_splits)
  show "\<exists>rs. validateRunsSettings rs = None \<and> qr_policy l = runs_policy rs \<and> qr_selectFields l = selectKeys (runs_policy rs)"
    using ok(2) l by blast
qed

lemma runs_policy_fields:
  "fset (rp_indexed (runs_policy rs)) = {''run_type'', ''status''} \<union> set (rs_extraIndexedFields rs)"
  "fset (rp_record (runs_policy rs)) = fset (rp_record defaultRunsFieldPolicy) \<union> set (rs_extraRecordFields rs)"
  by (auto simp: runs_policy_def runs_withExtraIndexedFields_def runs_withExtraRecordFields_def defaultRunsFieldPolicy_def fset_of_list.rep_eq)

text \<open>What can be let through: the default fields and, of the fields the server knows, those not on the deny list.\<close>

lemma runs_policy_accepted:
  assumes "validateRunsSettings rs = None" "k |\<in>| rp_indexed (runs_policy rs) |\<union>| rp_record (runs_policy rs)"
  shows "k \<in> set validLangsmithSelectEnum" "k \<notin> set hardDeniedRunsFields"
proof -
  have extra: "\<forall>f\<in>set (rs_extraRecordFields rs) \<union> set (rs_extraIndexedFields rs). f \<in> set validLangsmithSelectEnum \<and> f \<notin> set hardDeniedRunsFields"
    using assms(1) by (auto simp: validateRunsSettings_def list_ex_iff split: if_splits)
  have "{''run_type'', ''status''} \<union> fset (rp_record defaultRunsFieldPolicy) \<subseteq> set validLangsmithSelectEnum - set hardDeniedRunsFields"
    by (simp add: defaultRunsFieldPolicy_def fset_of_list.rep_eq validLangsmithSelectEnum_def hardDeniedRunsFields_def AbsoluteNeverDenyKeys_def)
  then show "k \<in> set validLangsmithSelectEnum" "k \<notin> set hardDeniedRunsFields"
    using assms(2) extra by (auto simp: runs_policy_fields)
qed

text \<open>Every name sent in the projection is one the server accepts.\<close>

lemma select_valid: "newRunsLoop cfg lp d = Inr l \<Longrightarrow> set (qr_selectFields l) \<subseteq> set validLangsmithSelectEnum"
  using newRunsLoop_ok(2) runs_policy_accepted(1) by (fastforce simp: selectKeys_def)

end
