(* ===== verification/Langsmith_Paging.thy ===== *)
theory Langsmith_Paging
  imports Source_Scalar Config
begin

text \<open>
  What the three callers of the project list of LangSmith share
  (\<^verbatim>\<open>internal/source/langsmith/langsmith.go\<close>, \<^verbatim>\<open>usage.go\<close>, \<^verbatim>\<open>runs_discover.go\<close>): the query of a page and the
  loop that adds the new entries of a page up to a cap. The entries seen are the ones
  collected, so the map of seen identifiers is read off the list.
\<close>

definition StatusTooManyRequests :: int where "StatusTooManyRequests = 429"

definition setSessionsPageQuery :: "(string, string) fmap \<Rightarrow> int \<Rightarrow> int \<Rightarrow> string \<Rightarrow> (string, string) fmap" where
  "setSessionsPageQuery q limit offset flt =
     (let q1 = fmupd ''offset'' (FormatInt offset) (fmupd ''limit'' (FormatInt limit) (fmupd ''sort_by_desc'' ''true'' (fmupd ''sort_by'' ''start_time'' q)))
      in if flt \<noteq> '''' then fmupd ''filter'' flt q1 else q1)"

text \<open>The entries with what was added, how many, and whether the cap was reached.\<close>

fun add_new :: "('s \<Rightarrow> bool) \<Rightarrow> ('s \<Rightarrow> string) \<Rightarrow> int \<Rightarrow> 's list \<Rightarrow> 's list \<Rightarrow> 's list \<times> nat \<times> bool" where
  "add_new skip key mx acc [] = (acc, 0, False)"
| "add_new skip key mx acc (s # ss) =
     (if skip s \<or> key s \<in> set (map key acc) then add_new skip key mx acc ss
      else if mx \<le> int (length acc) + 1 then (acc @ [s], 1, True)
      else case add_new skip key mx (acc @ [s]) ss of (r, n, capped) \<Rightarrow> (r, Suc n, capped))"

lemma add_new_induct [consumes 1, case_names empty cap more]:
  assumes "add_new skip key mx acc ss = (acc1, n, capped)"
    and "\<And>acc. P acc acc 0 False"
    and "\<And>acc s. \<not> skip s \<Longrightarrow> key s \<notin> set (map key acc) \<Longrightarrow> mx \<le> int (length acc) + 1 \<Longrightarrow> P acc (acc @ [s]) 1 True"
    and "\<And>acc s acc1 n capped. \<not> skip s \<Longrightarrow> key s \<notin> set (map key acc) \<Longrightarrow> \<not> mx \<le> int (length acc) + 1 \<Longrightarrow>
      P (acc @ [s]) acc1 n capped \<Longrightarrow> P acc acc1 (Suc n) capped"
  shows "P acc acc1 n capped"
  using assms(1)
proof (induction ss arbitrary: acc n)
  case Nil
  then show ?case using assms(2) by simp
next
  case (Cons s ss)
  consider "skip s \<or> key s \<in> set (map key acc)" | "\<not> (skip s \<or> key s \<in> set (map key acc))" "mx \<le> int (length acc) + 1"
    | "\<not> (skip s \<or> key s \<in> set (map key acc))" "\<not> mx \<le> int (length acc) + 1" by blast
  then show ?case
  proof cases
    case 1
    then show ?thesis using Cons by auto
  next
    case 2
    then show ?thesis using Cons.prems assms(3) by auto
  next
    case 3
    then obtain m where "add_new skip key mx (acc @ [s]) ss = (acc1, m, capped)" "n = Suc m"
      using Cons.prems by (auto split: prod.splits)
    then show ?thesis using 3 Cons.IH assms(4) by auto
  qed
qed

lemma add_new_grows:
  assumes "add_new skip key mx acc ss = (acc1, n, capped)"
  shows "length acc1 = length acc + n" "\<not> capped \<Longrightarrow> int (length acc) < mx \<Longrightarrow> int (length acc1) < mx" "\<not> capped \<Longrightarrow> mx \<le> int (length acc) \<Longrightarrow> n = 0"
  using assms by (induction rule: add_new_induct) auto

text \<open>The cap holds, and no two entries have one identifier.\<close>

lemma add_new_bounded:
  assumes "add_new skip key mx acc ss = (acc1, n, capped)"
  shows "int (length acc) < mx \<Longrightarrow> int (length acc1) \<le> mx" "distinct (map key acc) \<Longrightarrow> distinct (map key acc1)"
  using assms by (induction rule: add_new_induct) auto

lemma add_new_set:
  assumes "add_new skip key mx acc ss = (acc1, n, capped)"
  shows "set acc1 \<subseteq> set acc \<union> {s\<in>set ss. \<not> skip s}"
  using assms
proof (induction ss arbitrary: acc n)
  case (Cons s ss)
  then show ?case by (fastforce split: if_splits prod.splits)
qed simp

text \<open>
  The loop over the pages. It ends for any server: every page but the last adds an entry and
  the cap bounds them.
\<close>

function page_all ::
  "(int \<Rightarrow> 'w \<Rightarrow> ('e + 's list) \<times> 'w) \<Rightarrow> ('s \<Rightarrow> bool) \<Rightarrow> ('s \<Rightarrow> string) \<Rightarrow> int \<Rightarrow> int \<Rightarrow> int \<Rightarrow> 's list \<Rightarrow> 'w \<Rightarrow>
     ('e + 's list \<times> bool) \<times> 'w" where
  "page_all fetch skip key mx limit offset acc w =
     (case fetch offset w of
        (Inl e, w1) \<Rightarrow> (Inl e, w1)
      | (Inr page, w1) \<Rightarrow>
          (case add_new skip key mx acc page of (acc1, added, capped) \<Rightarrow>
             if capped \<or> int (length page) < limit \<or> added = 0 then (Inr (acc1, capped), w1)
             else page_all fetch skip key mx limit (wrap64 (offset + limit)) acc1 w1))"
  by pat_completeness auto
termination
proof (relation "measure (\<lambda>(fetch, skip, key, mx, limit, offset, acc, w). nat (mx - int (length acc)))", goal_cases)
  case (2 fetch skip key mx limit offset acc w r w1 page acc1 x added capped)
  have eq: "add_new skip key mx acc page = (acc1, added, capped)" using 2 by simp
  have "int (length acc) < mx" using add_new_grows(3) [OF eq] 2 by force
  then show ?case using add_new_grows(1) [OF eq] 2 by auto
qed simp

declare page_all.simps [simp del]

lemma page_all_bounded:
  assumes "page_all fetch skip key mx limit offset acc w = (Inr (acc1, capped), w1)"
  shows "int (length acc) < mx \<Longrightarrow> int (length acc1) \<le> mx" "distinct (map key acc) \<Longrightarrow> distinct (map key acc1)"
    "(\<And>s. s \<in> set acc \<Longrightarrow> \<not> skip s) \<Longrightarrow> s \<in> set acc1 \<Longrightarrow> \<not> skip s"
proof -
  have "(int (length acc) < mx \<longrightarrow> int (length acc1) \<le> mx) \<and> (distinct (map key acc) \<longrightarrow> distinct (map key acc1)) \<and>
      ((\<forall>s\<in>set acc. \<not> skip s) \<longrightarrow> (\<forall>s\<in>set acc1. \<not> skip s))"
    using assms
  proof (induction fetch skip key mx limit offset acc w rule: page_all.induct)
    case (1 fetch skip key mx limit offset acc w)
    obtain page w0 where f: "fetch offset w = (Inr page, w0)"
      using "1.prems" by (subst (asm) page_all.simps) (auto split: prod.splits sum.splits)
    obtain acc2 added cap where a: "add_new skip key mx acc page = (acc2, added, cap)" by (metis prod_cases3)
    note b = add_new_bounded [OF a] add_new_grows [OF a] add_new_set [OF a]
    show ?case
    proof (cases "cap \<or> int (length page) < limit \<or> added = 0")
      case True
      then have "acc1 = acc2" using "1.prems" by (subst (asm) page_all.simps) (simp add: f a)
      then show ?thesis using b by auto
    next
      case False
      then have "page_all fetch skip key mx limit (wrap64 (offset + limit)) acc2 w0 = (Inr (acc1, capped), w1)"
        using "1.prems" by (subst (asm) page_all.simps) (simp add: f a)
      from "1.IH" [OF f [symmetric] refl a [symmetric] refl False this] show ?thesis using b False by auto
    qed
  qed
  then show "int (length acc) < mx \<Longrightarrow> int (length acc1) \<le> mx" "distinct (map key acc) \<Longrightarrow> distinct (map key acc1)"
    "(\<And>s. s \<in> set acc \<Longrightarrow> \<not> skip s) \<Longrightarrow> s \<in> set acc1 \<Longrightarrow> \<not> skip s" by auto
qed

end
