(* ===== verification/Go_Addr.thy ===== *)
theory Go_Addr
  imports Go_Net Go_Json
begin

text \<open>
  Addresses read from text: \<^verbatim>\<open>net.ParseIP\<close> for dotted IPv4 and for IPv6 with an ellipsis or an
  IPv4 tail, and \<^verbatim>\<open>net.SplitHostPort\<close>. A dotted address is read back from its text.
\<close>

section \<open>IPv4\<close>

text \<open>A field of a dotted address: digits without a leading zero, at most 255.\<close>

definition v4_field :: "string \<Rightarrow> int option" where
  "v4_field s =
     (if 1 < length s \<and> hd s = CHR ''0'' then None
      else case parse_nat s of None \<Rightarrow> None | Some n \<Rightarrow> (if 255 < n then None else Some (int n)))"

definition parseIPv4 :: "string \<Rightarrow> ip option" where
  "parseIPv4 s =
     (case map v4_field (split_on (CHR ''.'') s) of
        [Some a, Some b, Some c, Some d] \<Rightarrow> Some (v4 a b c d)
      | _ \<Rightarrow> None)"

definition dotted :: "nat \<Rightarrow> nat \<Rightarrow> nat \<Rightarrow> nat \<Rightarrow> string" where
  "dotted a b c d = join_with ''.'' [itoa a, itoa b, itoa c, itoa d]"

section \<open>IPv6\<close>

definition is_hex :: "char \<Rightarrow> bool" where
  "is_hex c \<longleftrightarrow> hex_digit_val c \<noteq> None"

definition hex_val :: "string \<Rightarrow> int" where
  "hex_val s = foldl (\<lambda>acc c. case hex_digit_val c of None \<Rightarrow> acc | Some d \<Rightarrow> 16 * acc + int d) 0 s"

text \<open>
  The groups of an address: how many may still come, those read, where an ellipsis was
  seen, and the text left.
\<close>

fun v6_groups :: "nat \<Rightarrow> int list \<Rightarrow> nat option \<Rightarrow> string \<Rightarrow> (int list \<times> nat option) option" where
  "v6_groups 0 gs el s = (if s = [] then Some (gs, el) else None)"
| "v6_groups (Suc n) gs el s =
     (let h = takeWhile is_hex s; r = dropWhile is_hex s in
      if h = [] \<or> 4 < length h then None
      else if r \<noteq> [] \<and> hd r = CHR ''.'' then
        (if el = None \<and> length gs \<noteq> 6 \<or> 8 < length gs + 2 then None
         else case parseIPv4 s of
           None \<Rightarrow> None
         | Some x \<Rightarrow> Some (gs @ [(x - v4_base) div 2 ^ 16, (x - v4_base) mod 2 ^ 16], el))
      else
        (let gs1 = gs @ [hex_val h] in
         if r = [] then Some (gs1, el)
         else if hd r \<noteq> CHR '':'' \<or> tl r = [] then None
         else if hd (tl r) = CHR '':'' then
           (if el \<noteq> None then None
            else if tl (tl r) = [] then Some (gs1, Some (length gs1))
            else v6_groups n gs1 (Some (length gs1)) (tl (tl r)))
         else v6_groups n gs1 el (tl r)))"

definition v6_value :: "int list \<Rightarrow> ip" where
  "v6_value gs = foldl (\<lambda>acc g. 2 ^ 16 * acc + g) 0 gs"

definition parseIPv6 :: "string \<Rightarrow> ip option" where
  "parseIPv6 s =
     (let lead = HasPrefix s ''::''; t = (if lead then drop 2 s else s) in
      if lead \<and> t = [] then Some 0
      else case v6_groups 8 [] (if lead then Some 0 else None) t of
        None \<Rightarrow> None
      | Some (gs, el) \<Rightarrow>
          (if length gs < 8
           then map_option (\<lambda>k. v6_value (take k gs @ replicate (8 - length gs) 0 @ drop k gs)) el
           else if el \<noteq> None then None else Some (v6_value gs)))"

text \<open>An address with a zone is none; the first separator tells the two forms apart.\<close>

definition ParseIP :: "string \<Rightarrow> ip option" where
  "ParseIP s =
     (if CHR ''%'' \<in> set s then None
      else case dropWhile (\<lambda>c. c \<noteq> CHR ''.'' \<and> c \<noteq> CHR '':'') s of
        [] \<Rightarrow> None
      | c # _ \<Rightarrow> (if c = CHR ''.'' then parseIPv4 s else parseIPv6 s))"

section \<open>Host and port\<close>

definition last_index :: "char \<Rightarrow> string \<Rightarrow> nat option" where
  "last_index c s = (if c \<in> set s then Some (length s - 1 - length (takeWhile (\<lambda>x. x \<noteq> c) (rev s))) else None)"

definition SplitHostPort :: "string \<Rightarrow> (string \<times> string) option" where
  "SplitHostPort hostport =
     (case last_index colon hostport of
        None \<Rightarrow> None
      | Some i \<Rightarrow>
          (if hd hostport = CHR ''['' then
             (let e = length (takeWhile (\<lambda>x. x \<noteq> CHR '']'') hostport) in
              if Suc e \<noteq> i \<or> CHR ''['' \<in> set (drop 1 hostport) \<or> CHR '']'' \<in> set (drop (Suc e) hostport) then None
              else Some (drop 1 (take e hostport), drop (Suc i) hostport))
           else
             (if colon \<in> set (take i hostport) \<or> CHR ''['' \<in> set hostport \<or> CHR '']'' \<in> set hostport then None
              else Some (take i hostport, drop (Suc i) hostport))))"

section \<open>Facts\<close>

lemma split_on_none: "c \<notin> set s \<Longrightarrow> split_on c s = [s]"
  by (induction s) auto

lemma split_on_hit: "c \<notin> set u \<Longrightarrow> split_on c (u @ c # s) = u # split_on c s"
  by (induction u) auto

lemma dot_notin_itoa: "CHR ''.'' \<notin> set (itoa n)" "CHR '':'' \<notin> set (itoa n)" "CHR ''%'' \<notin> set (itoa n)"
  using itoa_digits_dec [of n] by (auto simp: list_all_iff is_dec_def digit_val_def)

lemma v4_field_itoa: "n < 256 \<Longrightarrow> v4_field (itoa n) = Some (int n)"
proof (cases "n = 0")
  case True
  have "\<not> 1 < length (itoa 0)" by (simp add: itoa.simps)
  then show ?thesis using True parse_nat_itoa [of 0] by (simp add: v4_field_def del: itoa.simps)
next
  case False
  moreover assume "n < 256"
  ultimately show ?thesis using itoa_no_leading_zero [of n] by (simp add: v4_field_def)
qed

lemma parseIPv4_dotted: "a < 256 \<Longrightarrow> b < 256 \<Longrightarrow> c < 256 \<Longrightarrow> d < 256 \<Longrightarrow> parseIPv4 (dotted a b c d) = Some (v4 (int a) (int b) (int c) (int d))"
  by (simp add: parseIPv4_def dotted_def split_on_hit split_on_none dot_notin_itoa v4_field_itoa)

lemma ParseIP_dotted:
  assumes "a < 256" "b < 256" "c < 256" "d < 256"
  shows "ParseIP (dotted a b c d) = Some (v4 (int a) (int b) (int c) (int d))"
proof -
  have "\<exists>r. dropWhile (\<lambda>c. c \<noteq> CHR ''.'' \<and> c \<noteq> CHR '':'') (dotted a b c d) = CHR ''.'' # r"
    using dot_notin_itoa [of a] by (auto simp: dotted_def dropWhile_append split: if_splits)
  then show ?thesis using parseIPv4_dotted [OF assms] dot_notin_itoa by (auto simp: ParseIP_def dotted_def)
qed

end
