(* ===== verification/Httpx.thy ===== *)
theory Httpx
  imports Go_Addr
begin

text \<open>
  The shared HTTP client (\<^verbatim>\<open>internal/httpx/httpx.go\<close>): the egress guard on the destination of
  every request and of every redirect, the guard on the address that is dialled, and the
  client around them with its redirects. Parsing a URL, resolving a name, the token
  bucket, the addresses a transport dials (the destination's or a proxy's), the exchange on
  a connection and which headers go along a redirect are parameters (\<open>web\<close>). Shown is that
  nothing is sent to a blocked address, to a host that is not allowed, or away from the
  origin of the request.
\<close>

section \<open>Configuration\<close>

record httpx_config =
  hx_UserAgent :: string
  hx_Timeout :: duration
  hx_AllowHosts :: "string list"
  hx_AllowPrivate :: bool
  hx_Limiter :: bool
  hx_Observer :: bool

record request_info =
  ri_Target :: string
  ri_Method :: string
  ri_StatusCode :: int
  ri_Err :: "string option"

text \<open>What the code reads of a URL: its scheme and \<^verbatim>\<open>Hostname()\<close>.\<close>

record dest =
  ds_Scheme :: string
  ds_Hostname :: string

record 'w web =
  wb_parse :: "string \<Rightarrow> dest option"
  wb_resolve :: "'w \<Rightarrow> string \<Rightarrow> (string + ip list) \<times> 'w"
  wb_wait :: "'w \<Rightarrow> string option \<times> 'w"
  wb_dials :: "'w \<Rightarrow> http_request \<Rightarrow> (string \<times> string option) list"
  wb_exchange :: "'w \<Rightarrow> string \<Rightarrow> http_request \<Rightarrow> (string + http_response) \<times> 'w"
  wb_location :: "string \<Rightarrow> string \<Rightarrow> string option"
  wb_headers :: "http_request \<Rightarrow> string \<Rightarrow> (string, string) fmap"

section \<open>Blocked addresses\<close>

definition cloudMetadataIPs :: "ip list" where
  "cloudMetadataIPs = [v4 169 254 169 254, v4 100 100 100 200, v6_value [0xFD00, 0xEC2, 0, 0, 0, 0, 0, 0x254]]"

definition cgnatNet :: "ip \<Rightarrow> bool" where
  "cgnatNet x \<longleftrightarrow> is_v4 x \<and> in_prefix (v4 100 64 0 0) 106 x"

definition blockedIP :: "ip \<Rightarrow> bool \<Rightarrow> string option" where
  "blockedIP x allowPrivate =
     (if x \<in> set cloudMetadataIPs \<or> cgnatNet x then Some ''egress: blocked cloud-metadata/CGNAT address''
      else if IsLinkLocalUnicast x \<or> IsLinkLocalMulticast x then Some ''egress: blocked link-local/metadata''
      else if \<not> allowPrivate \<and> (IsLoopback x \<or> IsPrivate x \<or> IsUnspecified x)
      then Some ''egress: blocked loopback/RFC-1918/unspecified (set allow_private to permit)''
      else None)"

text \<open>The hook of the dialer: it sees the address with its port before the connection.\<close>

definition guardControl :: "bool \<Rightarrow> string \<Rightarrow> string option" where
  "guardControl allowPrivate address =
     (case SplitHostPort address of
        None \<Rightarrow> Some ''egress: bad address''
      | Some (host, _) \<Rightarrow>
          (case ParseIP host of
             None \<Rightarrow> Some ''egress: unresolved address''
           | Some x \<Rightarrow> blockedIP x allowPrivate))"

section \<open>Destinations\<close>

fun check_ips :: "bool \<Rightarrow> ip list \<Rightarrow> string option" where
  "check_ips allowPrivate [] = None"
| "check_ips allowPrivate (x # xs) = (case blockedIP x allowPrivate of Some e \<Rightarrow> Some e | None \<Rightarrow> check_ips allowPrivate xs)"

definition checkDest :: "'w web \<Rightarrow> httpx_config \<Rightarrow> dest \<Rightarrow> 'w \<Rightarrow> string option \<times> 'w" where
  "checkDest web cfg u w =
     (let host = ToLower (ds_Hostname u) in
      if hx_AllowHosts cfg \<noteq> [] \<and> \<not> list_ex (\<lambda>h. ToLower h = host) (hx_AllowHosts cfg) then (Some ''httpx: host not in allow-list'', w)
      else if host = '''' then (Some ''httpx: empty destination host'', w)
      else case ParseIP host of
        Some x \<Rightarrow> (blockedIP x (hx_AllowPrivate cfg), w)
      | None \<Rightarrow>
          (case wb_resolve web w host of
             (Inl e, w1) \<Rightarrow> (Some (''httpx: cannot resolve for egress check: '' @ e), w1)
           | (Inr addrs, w1) \<Rightarrow> (check_ips (hx_AllowPrivate cfg) addrs, w1)))"

text \<open>The origin is the first request of the chain.\<close>

definition checkRedirectCreds :: "dest \<Rightarrow> dest list \<Rightarrow> string option" where
  "checkRedirectCreds u via =
     (case via of
        [] \<Rightarrow> None
      | origin # _ \<Rightarrow>
          (if ToLower (ds_Hostname u) \<noteq> ToLower (ds_Hostname origin)
           then Some ''httpx: cross-host redirect blocked (credentials must not leave the origin host)''
           else if ToLower (ds_Scheme origin) = ''https'' \<and> ToLower (ds_Scheme u) \<noteq> ''https''
           then Some ''httpx: redirect scheme downgrade blocked (credentials must not be sent cleartext)''
           else None))"

definition CheckRedirect :: "'w web \<Rightarrow> httpx_config \<Rightarrow> dest \<Rightarrow> dest list \<Rightarrow> 'w \<Rightarrow> string option \<times> 'w" where
  "CheckRedirect web cfg u via w =
     (if 10 \<le> length via then (Some ''httpx: stopped after 10 redirects'', w)
      else case checkRedirectCreds u via of
        Some e \<Rightarrow> (Some e, w)
      | None \<Rightarrow> checkDest web cfg u w)"

section \<open>The client\<close>

text \<open>
  A connection: the dialer tries the addresses in order, the hook first; the first that
  passes and connects is used. What is sent is recorded.
\<close>

record sent =
  sn_Dest :: dest
  sn_Addr :: string
  sn_Request :: http_request

fun dial :: "bool \<Rightarrow> (string \<times> string option) list \<Rightarrow> string + string" where
  "dial allowPrivate [] = Inl ''no address''"
| "dial allowPrivate ((addr, fault) # rest) =
     (case guardControl allowPrivate addr of
        Some e \<Rightarrow> (case dial allowPrivate rest of Inl _ \<Rightarrow> Inl e | Inr a \<Rightarrow> Inr a)
      | None \<Rightarrow>
          (case fault of
             None \<Rightarrow> Inr addr
           | Some e \<Rightarrow> (case dial allowPrivate rest of Inl _ \<Rightarrow> Inl e | Inr a \<Rightarrow> Inr a)))"

definition redirect_to :: "'w web \<Rightarrow> http_request \<Rightarrow> http_response \<Rightarrow> string \<Rightarrow> http_request" where
  "redirect_to web rq r url =
     (let keep = (rs_StatusCode r = 307 \<or> rs_StatusCode r = 308) in
      \<lparr>rq_Method = (if keep \<or> rq_Method rq = ''GET'' \<or> rq_Method rq = ''HEAD'' then rq_Method rq else ''GET''),
       rq_URL = url, rq_Header = wb_headers web rq url, rq_Body = (if keep then rq_Body rq else '''')\<rparr>)"

definition is_redirect :: "http_response \<Rightarrow> bool" where
  "is_redirect r \<longleftrightarrow> rs_StatusCode r \<in> {301, 302, 303, 307, 308} \<and> map_get (rs_Header r) ''Location'' \<noteq> ''''"

type_synonym do_result = "http_response option \<times> string option"

text \<open>\<open>via\<close> holds the destinations already sent to, the first first.\<close>

function follow :: "'w web \<Rightarrow> httpx_config \<Rightarrow> dest list \<Rightarrow> dest \<Rightarrow> http_request \<Rightarrow> 'w \<Rightarrow> do_result \<times> sent list \<times> 'w" where
  "follow web cfg via u rq w =
     (case dial (hx_AllowPrivate cfg) (wb_dials web w rq) of
        Inl e \<Rightarrow> ((None, Some e), [], w)
      | Inr addr \<Rightarrow>
          (let s = \<lparr>sn_Dest = u, sn_Addr = addr, sn_Request = rq\<rparr> in
           case wb_exchange web w addr rq of
             (Inl e, w1) \<Rightarrow> ((None, Some e), [s], w1)
           | (Inr r, w1) \<Rightarrow>
               (if \<not> is_redirect r then ((Some r, None), [s], w1)
                else case wb_location web (rq_URL rq) (map_get (rs_Header r) ''Location'') of
                  None \<Rightarrow> ((None, Some ''failed to parse Location header''), [s], w1)
                | Some url \<Rightarrow>
                    (case wb_parse web url of
                       None \<Rightarrow> ((None, Some ''failed to parse Location header''), [s], w1)
                     | Some u1 \<Rightarrow>
                         (case CheckRedirect web cfg u1 (via @ [u]) w1 of
                            (Some e, w2) \<Rightarrow> ((Some r, Some e), [s], w2)
                          | (None, w2) \<Rightarrow>
                              (case follow web cfg (via @ [u]) u1 (redirect_to web rq r url) w2 of
                                 (res, ss, w3) \<Rightarrow> (res, s # ss, w3)))))))"
  by pat_completeness auto
termination
  by (relation "measure (\<lambda>(web, cfg, via, u, rq, w). 10 - length via)") (auto simp: CheckRedirect_def split: if_splits)

declare follow.simps [simp del]

definition hx_Do :: "'w web \<Rightarrow> httpx_config \<Rightarrow> http_request \<Rightarrow> 'w \<Rightarrow> do_result \<times> sent list \<times> request_info list \<times> 'w" where
  "hx_Do web cfg rq w =
     (case wb_parse web (rq_URL rq) of
        None \<Rightarrow> ((None, Some ''parse url''), [], [], w)
      | Some u \<Rightarrow>
          (case checkDest web cfg u w of
             (Some e, w1) \<Rightarrow> ((None, Some e), [], [], w1)
           | (None, w1) \<Rightarrow>
               (case (if hx_Limiter cfg then wb_wait web w1 else (None, w1)) of
                  (Some e, w2) \<Rightarrow> ((None, Some (''httpx: rate limiter: '' @ e)), [], [], w2)
                | (None, w2) \<Rightarrow>
                    (let rq1 = (if hx_UserAgent cfg \<noteq> '''' then rq\<lparr>rq_Header := fmupd ''User-Agent'' (hx_UserAgent cfg) (rq_Header rq)\<rparr> else rq) in
                     case follow web cfg [] u rq1 w2 of
                       ((resp, e), ss, w3) \<Rightarrow>
                         ((resp, e), ss,
                          (if hx_Observer cfg
                           then [\<lparr>ri_Target = ds_Hostname u, ri_Method = rq_Method rq,
                                  ri_StatusCode = (case resp of None \<Rightarrow> 0 | Some r \<Rightarrow> rs_StatusCode r), ri_Err = e\<rparr>]
                           else []), w3)))))"

section \<open>Messages\<close>

text \<open>
  The text of a transport error without the query of its URL. \<open>redacted\<close> is the URL parser
  with the printer of \<^verbatim>\<open>Redacted()\<close> on the URL whose query and fragment are cleared.
\<close>

datatype transport_error = UrlError string string string | OtherError string

definition stripQuery :: "(string \<Rightarrow> string option) \<Rightarrow> string \<Rightarrow> string" where
  "stripQuery redacted raw = (case redacted raw of None \<Rightarrow> takeWhile (\<lambda>c. c \<noteq> CHR ''?'') raw | Some s \<Rightarrow> s)"

fun RedactURLError :: "(string \<Rightarrow> string option) \<Rightarrow> transport_error option \<Rightarrow> transport_error option" where
  "RedactURLError redacted None = None"
| "RedactURLError redacted (Some (OtherError m)) = Some (OtherError m)"
| "RedactURLError redacted (Some (UrlError op url inner)) = Some (UrlError op (stripQuery redacted url) inner)"

function Fields :: "string \<Rightarrow> string list" where
  "Fields s =
     (let t = dropWhile is_space s in
      if t = [] then [] else takeWhile (\<lambda>c. \<not> is_space c) t # Fields (dropWhile (\<lambda>c. \<not> is_space c) t))"
  by pat_completeness auto
termination
proof (relation "measure length", goal_cases)
  case (2 s t)
  then have "t \<noteq> []" "\<not> is_space (hd t)" using hd_dropWhile [of is_space s] by auto
  then have "length (dropWhile (\<lambda>c. \<not> is_space c) t) < length t" by (cases t) (auto simp: le_imp_less_Suc length_dropWhile_le)
  also have "\<dots> \<le> length s" using 2 by (simp add: length_dropWhile_le)
  finally show ?case by simp
qed simp

declare Fields.simps [simp del]

definition ErrSnippet :: "string \<Rightarrow> string" where
  "ErrSnippet body = join_with '' '' (Fields (take 512 body))"

section \<open>Facts\<close>

text \<open>The blocked addresses as ranges, from the registries of special addresses.\<close>

definition never_dialled :: "ip \<Rightarrow> bool" where
  "never_dialled x \<longleftrightarrow>
     x \<in> {v4 169 254 169 254, v4 100 100 100 200, 0xFD000EC2000000000000000000000254} \<or>
     v4 100 64 0 0 \<le> x \<and> x \<le> v4 100 127 255 255 \<or> v4 169 254 0 0 \<le> x \<and> x \<le> v4 169 254 255 255 \<or>
     v4 224 0 0 0 \<le> x \<and> x \<le> v4 224 0 0 255 \<or>
     0xFE800000000000000000000000000000 \<le> x \<and> x \<le> 0xFEBFFFFFFFFFFFFFFFFFFFFFFFFFFFFF \<or>
     x div 2 ^ 120 = 0xFF \<and> x div 2 ^ 112 mod 16 = 2"

definition local_address :: "ip \<Rightarrow> bool" where
  "local_address x \<longleftrightarrow>
     v4 127 0 0 0 \<le> x \<and> x \<le> v4 127 255 255 255 \<or> v4 10 0 0 0 \<le> x \<and> x \<le> v4 10 255 255 255 \<or>
     v4 172 16 0 0 \<le> x \<and> x \<le> v4 172 31 255 255 \<or> v4 192 168 0 0 \<le> x \<and> x \<le> v4 192 168 255 255 \<or>
     0xFC000000000000000000000000000000 \<le> x \<and> x \<le> 0xFDFFFFFFFFFFFFFFFFFFFFFFFFFFFFFF \<or>
     x \<in> {0, 1, v4 0 0 0 0}"

lemma prefixes:
  "in_prefix (v4 100 64 0 0) 106 x \<longleftrightarrow> v4 100 64 0 0 \<le> x \<and> x \<le> v4 100 127 255 255"
  "in_prefix (v4 169 254 0 0) 112 x \<longleftrightarrow> v4 169 254 0 0 \<le> x \<and> x \<le> v4 169 254 255 255"
  "in_prefix (v4 224 0 0 0) 120 x \<longleftrightarrow> v4 224 0 0 0 \<le> x \<and> x \<le> v4 224 0 0 255"
  "in_prefix (v4 127 0 0 0) 104 x \<longleftrightarrow> v4 127 0 0 0 \<le> x \<and> x \<le> v4 127 255 255 255"
  "in_prefix (v4 10 0 0 0) 104 x \<longleftrightarrow> v4 10 0 0 0 \<le> x \<and> x \<le> v4 10 255 255 255"
  "in_prefix (v4 172 16 0 0) 108 x \<longleftrightarrow> v4 172 16 0 0 \<le> x \<and> x \<le> v4 172 31 255 255"
  "in_prefix (v4 192 168 0 0) 112 x \<longleftrightarrow> v4 192 168 0 0 \<le> x \<and> x \<le> v4 192 168 255 255"
  "in_prefix (65152 * 2 ^ 112) 10 x \<longleftrightarrow> 0xFE800000000000000000000000000000 \<le> x \<and> x \<le> 0xFEBFFFFFFFFFFFFFFFFFFFFFFFFFFFFF"
  "in_prefix (252 * 2 ^ 120) 7 x \<longleftrightarrow> 0xFC000000000000000000000000000000 \<le> x \<and> x \<le> 0xFDFFFFFFFFFFFFFFFFFFFFFFFFFFFFFF"
  by (subst in_prefix_iff; auto simp: v4_def v4_base_def)+

lemma blockedIP_ranges:
  "blockedIP x allowPrivate = None \<longleftrightarrow> \<not> never_dialled x \<and> (allowPrivate \<or> \<not> local_address x)"
proof (cases "is_v4 x")
  case True
  then have "281470681743360 \<le> x" "x < 281474976710656" by (simp_all add: is_v4_def v4_base_def)
  then have "x div 2 ^ 120 = 0" by simp
  then show ?thesis using True \<open>281470681743360 \<le> x\<close> \<open>x < 281474976710656\<close>
    unfolding blockedIP_def cloudMetadataIPs_def cgnatNet_def IsLinkLocalUnicast_def IsLinkLocalMulticast_def IsLoopback_def IsPrivate_def
      IsUnspecified_def never_dialled_def local_address_def prefixes
    by (auto simp: v4_def v4_base_def v6_value_def v6_loopback_def)
next
  case False
  then have out: "\<not> (lo \<le> x \<and> x \<le> hi)" if "v4_base \<le> lo" "hi < v4_base + 2 ^ 32" for lo hi using that by (auto simp: is_v4_def)
  have no: "\<not> (v4 100 64 0 0 \<le> x \<and> x \<le> v4 100 127 255 255)" "\<not> (v4 169 254 0 0 \<le> x \<and> x \<le> v4 169 254 255 255)"
    "\<not> (v4 224 0 0 0 \<le> x \<and> x \<le> v4 224 0 0 255)" "\<not> (v4 127 0 0 0 \<le> x \<and> x \<le> v4 127 255 255 255)"
    "\<not> (v4 10 0 0 0 \<le> x \<and> x \<le> v4 10 255 255 255)" "\<not> (v4 172 16 0 0 \<le> x \<and> x \<le> v4 172 31 255 255)"
    "\<not> (v4 192 168 0 0 \<le> x \<and> x \<le> v4 192 168 255 255)"
    by (rule out; simp add: v4_def)+
  have "v6_value [0xFD00, 0xEC2, 0, 0, 0, 0, 0, 0x254] = 0xFD000EC2000000000000000000000254" by (simp add: v6_value_def)
  then show ?thesis using False
    unfolding blockedIP_def cloudMetadataIPs_def cgnatNet_def IsLinkLocalUnicast_def IsLinkLocalMulticast_def IsLoopback_def IsPrivate_def
      IsUnspecified_def never_dialled_def local_address_def prefixes v6_loopback_def
    by (simp add: no) blast
qed

lemma check_ips_None: "check_ips p xs = None \<longleftrightarrow> (\<forall>x\<in>set xs. blockedIP x p = None)"
  by (induction xs) (auto split: option.splits)

lemma guardControl_None:
  "guardControl p addr = None \<longleftrightarrow> (\<exists>host port x. SplitHostPort addr = Some (host, port) \<and> ParseIP host = Some x \<and> blockedIP x p = None)"
  by (auto simp: guardControl_def split: option.splits)

lemma dial_guarded: "dial p addrs = Inr a \<Longrightarrow> guardControl p a = None \<and> a \<in> fst ` set addrs"
  by (induction addrs) (auto split: option.splits sum.splits)

lemma follow_guarded:
  assumes "follow web cfg via u rq w = (res, ss, w1)" "s \<in> set ss"
  shows "guardControl (hx_AllowPrivate cfg) (sn_Addr s) = None \<and>
    (sn_Dest s = u \<or> (\<exists>via1 w0 w2. CheckRedirect web cfg (sn_Dest s) via1 w0 = (None, w2) \<and> via1 \<noteq> [] \<and> hd via1 = hd (via @ [u])))"
  using assms
proof (induction web cfg via u rq w arbitrary: res ss w1 rule: follow.induct)
  case (1 web cfg via u rq w)
  from "1.prems" obtain addr where addr: "dial (hx_AllowPrivate cfg) (wb_dials web w rq) = Inr addr"
    by (subst (asm) follow.simps) (auto split: sum.splits)
  note ok = dial_guarded [OF addr]
  show ?case
  proof (cases "sn_Dest s = u \<and> sn_Addr s = addr")
    case True
    then show ?thesis using ok by simp
  next
    case False
    then obtain r w0 url u1 w2 ss1 where step: "wb_exchange web w addr rq = (Inr r, w0)" "is_redirect r"
      "wb_location web (rq_URL rq) (map_get (rs_Header r) ''Location'') = Some url" "wb_parse web url = Some u1"
      "CheckRedirect web cfg u1 (via @ [u]) w0 = (None, w2)"
      "follow web cfg (via @ [u]) u1 (redirect_to web rq r url) w2 = (res, ss1, w1)" "s \<in> set ss1"
      using "1.prems" addr by (subst (asm) follow.simps) (auto simp: Let_def split: sum.splits prod.splits if_splits option.splits)
    have "hd ((via @ [u]) @ [u1]) = hd (via @ [u])" by (cases via) auto
    then show ?thesis using "1.IH" [OF addr refl step(1) [symmetric] refl _ step(3,4) step(5) [symmetric] refl step(6,7)] step(2,5) by auto
  qed
qed

lemma follow_bounded:
  assumes "follow web cfg via u rq w = (res, ss, w1)" "length via < 10"
  shows "length via + length ss \<le> 10"
  using assms
proof (induction web cfg via u rq w arbitrary: res ss w1 rule: follow.induct)
  case (1 web cfg via u rq w)
  show ?case
  proof (cases "length ss \<le> 1")
    case True
    then show ?thesis using "1.prems"(2) by simp
  next
    case False
    then obtain addr r w0 url u1 w2 ss1 where step: "dial (hx_AllowPrivate cfg) (wb_dials web w rq) = Inr addr"
      "wb_exchange web w addr rq = (Inr r, w0)" "is_redirect r"
      "wb_location web (rq_URL rq) (map_get (rs_Header r) ''Location'') = Some url" "wb_parse web url = Some u1"
      "CheckRedirect web cfg u1 (via @ [u]) w0 = (None, w2)"
      "follow web cfg (via @ [u]) u1 (redirect_to web rq r url) w2 = (res, ss1, w1)" "length ss = Suc (length ss1)"
      using "1.prems" by (subst (asm) follow.simps) (auto simp: Let_def split: sum.splits prod.splits if_splits option.splits)
    have "length (via @ [u]) < 10" using step(6) by (auto simp: CheckRedirect_def split: if_splits)
    then show ?thesis using "1.IH" [OF step(1) refl step(2) [symmetric] refl _ step(4,5) step(6) [symmetric] refl step(7)] step(3,8) by auto
  qed
qed

lemma Fields_join: "length (join_with '' '' (Fields s)) \<le> length (dropWhile is_space s) \<and> (\<forall>c\<in>set (join_with '' '' (Fields s)). is_space c \<longrightarrow> c = CHR '' '')"
proof (induction s rule: Fields.induct)
  case (1 s)
  define t where "t = dropWhile is_space s"
  show ?case
  proof (cases "t = []")
    case True
    then show ?thesis by (simp add: Fields.simps [of s] t_def)
  next
    case False
    define w u where "w = takeWhile (\<lambda>c. \<not> is_space c) t" and "u = dropWhile (\<lambda>c. \<not> is_space c) t"
    have f: "Fields s = w # Fields u" using False by (simp add: Fields.simps [of s] t_def w_def u_def Let_def)
    have w: "\<forall>c\<in>set w. \<not> is_space c" by (auto simp: w_def dest: set_takeWhileD)
    have tl: "t = w @ u" by (simp add: w_def u_def)
    have ih: "length (join_with '' '' (Fields u)) \<le> length (dropWhile is_space u)" "\<forall>c\<in>set (join_with '' '' (Fields u)). is_space c \<longrightarrow> c = CHR '' ''"
      using 1 [OF t_def False] unfolding u_def by auto
    show ?thesis
    proof (cases "Fields u")
      case Nil
      then show ?thesis using f w tl unfolding t_def by auto
    next
      case (Cons v vs)
      then have "u \<noteq> []" by (auto simp: Fields.simps)
      then have "is_space (hd u)" using hd_dropWhile [of "\<lambda>c. \<not> is_space c" t] by (auto simp: u_def)
      then have "length (dropWhile is_space u) < length u" using \<open>u \<noteq> []\<close> length_dropWhile_le [of is_space "tl u"] by (cases u) auto
      then show ?thesis using f Cons ih w tl unfolding t_def by (auto simp: le_imp_less_Suc)
    qed
  qed
qed

lemma ErrSnippet_bounded: "length (ErrSnippet body) \<le> 512" "c \<in> set (ErrSnippet body) \<Longrightarrow> is_space c \<Longrightarrow> c = CHR '' ''"
  using Fields_join [of "take 512 body"] length_dropWhile_le [of is_space "take 512 body"] by (auto simp: ErrSnippet_def)

lemma checkDest_None:
  assumes "checkDest web cfg u w = (None, w1)"
  defines "host \<equiv> ToLower (ds_Hostname u)"
  shows "hx_AllowHosts cfg = [] \<or> host \<in> set (map ToLower (hx_AllowHosts cfg))" "host \<noteq> ''''"
    "ParseIP host = Some x \<Longrightarrow> blockedIP x (hx_AllowPrivate cfg) = None"
    "ParseIP host = None \<Longrightarrow> \<exists>xs. wb_resolve web w host = (Inr xs, w1) \<and> (\<forall>x\<in>set xs. blockedIP x (hx_AllowPrivate cfg) = None)"
  using assms by (auto simp: checkDest_def Let_def check_ips_None list_ex_iff image_iff eq_commute [of "ToLower (ds_Hostname u)"]
      split: if_splits option.splits prod.splits sum.splits)

section \<open>The property\<close>

text \<open>What was cleared of a destination before a request went there.\<close>

definition cleared :: "'w web \<Rightarrow> httpx_config \<Rightarrow> dest \<Rightarrow> bool" where
  "cleared web cfg u \<longleftrightarrow>
     (let host = ToLower (ds_Hostname u); ok = (\<lambda>x. \<not> never_dialled x \<and> (hx_AllowPrivate cfg \<or> \<not> local_address x)) in
      host \<noteq> '''' \<and> (hx_AllowHosts cfg = [] \<or> host \<in> set (map ToLower (hx_AllowHosts cfg))) \<and>
      (case ParseIP host of
         Some x \<Rightarrow> ok x
       | None \<Rightarrow> \<exists>w xs w1. wb_resolve web w host = (Inr xs, w1) \<and> (\<forall>x\<in>set xs. ok x)))"

lemma checkDest_cleared: "checkDest web cfg u w = (None, w1) \<Longrightarrow> cleared web cfg u"
  using checkDest_None [of web cfg u w w1]
  by (fastforce simp: cleared_def Let_def blockedIP_ranges split: option.splits)

text \<open>C15: whatever the names, the network and the answers are, a request and all its redirects
  are sent only over connections to addresses that are no metadata, shared, link-local and,
  unless private addresses are allowed, no loopback, private or unspecified address; only to
  hosts on the allow-list, if there is one, whose own or resolved addresses were cleared in
  the same way; only to the host of the original request, and not in clear if that was
  sent over https. At most ten requests are sent, the client always comes to an end, and what
  was blocked before the first is not observed.\<close>

theorem egress_guarded:
  assumes "wb_parse web (rq_URL rq) = Some origin" "hx_Do web cfg rq w = (res, ss, obs, w1)"
  shows "length ss \<le> 10 \<and> length obs \<le> 1 \<and> (\<forall>s\<in>set ss.
    (\<exists>host port x. SplitHostPort (sn_Addr s) = Some (host, port) \<and> ParseIP host = Some x \<and>
       \<not> never_dialled x \<and> (hx_AllowPrivate cfg \<or> \<not> local_address x)) \<and>
    cleared web cfg (sn_Dest s) \<and>
    ToLower (ds_Hostname (sn_Dest s)) = ToLower (ds_Hostname origin) \<and>
    (ToLower (ds_Scheme origin) = ''https'' \<longrightarrow> ToLower (ds_Scheme (sn_Dest s)) = ''https'')) \<and>
    (\<not> cleared web cfg origin \<longrightarrow> ss = [] \<and> obs = [] \<and> fst res = None \<and> snd res \<noteq> None)"
proof (cases "\<exists>w0. checkDest web cfg origin w = (None, w0)")
  case False
  then have "ss = []" "obs = []" "fst res = None" "snd res \<noteq> None"
    using assms by (auto simp: hx_Do_def split: prod.splits option.splits)
  then show ?thesis by simp
next
  case True
  then obtain w0 where dest: "checkDest web cfg origin w = (None, w0)" by blast
  have obs: "length obs \<le> 1" using assms by (auto simp: hx_Do_def Let_def dest split: prod.splits option.splits if_splits)
  show ?thesis
  proof (cases "ss = []")
    case True
    then show ?thesis using obs checkDest_cleared [OF dest] by simp
  next
    case False
    then obtain rq1 w2 w3 where fl: "follow web cfg [] origin rq1 w2 = (res, ss, w3)"
      using assms by (fastforce simp: hx_Do_def Let_def dest split: prod.splits option.splits if_splits)
    have len: "length ss \<le> 10" using follow_bounded [OF fl] by simp
    have "(\<exists>host port x. SplitHostPort (sn_Addr s) = Some (host, port) \<and> ParseIP host = Some x \<and>
         \<not> never_dialled x \<and> (hx_AllowPrivate cfg \<or> \<not> local_address x)) \<and>
        cleared web cfg (sn_Dest s) \<and> ToLower (ds_Hostname (sn_Dest s)) = ToLower (ds_Hostname origin) \<and>
        (ToLower (ds_Scheme origin) = ''https'' \<longrightarrow> ToLower (ds_Scheme (sn_Dest s)) = ''https'')" if "s \<in> set ss" for s
    proof -
      note g = follow_guarded [OF fl that]
      have hop: "sn_Dest s = origin \<or> (\<exists>wa wb. checkDest web cfg (sn_Dest s) wa = (None, wb)) \<and> (\<exists>via. checkRedirectCreds (sn_Dest s) (origin # via) = None)"
      proof (cases "sn_Dest s = origin")
        case False
        then obtain via wa wb where "CheckRedirect web cfg (sn_Dest s) via wa = (None, wb)" "via \<noteq> []" "hd via = origin" using g by auto
        then show ?thesis by (cases via) (auto simp: CheckRedirect_def split: if_splits option.splits)
      qed simp
      then show ?thesis using g checkDest_cleared dest
        by (auto simp: guardControl_None blockedIP_ranges checkRedirectCreds_def split: if_splits)
    qed
    then show ?thesis using len obs checkDest_cleared [OF dest] by blast
  qed
qed

text \<open>A host that answers with a redirect to the metadata service: one request is sent, and no second.\<close>

definition lure_web :: "unit web" where
  "lure_web = \<lparr>wb_parse = (\<lambda>u. Some (if u = ''m'' then \<lparr>ds_Scheme = ''http'', ds_Hostname = ''169.254.169.254''\<rparr>
                                   else \<lparr>ds_Scheme = ''https'', ds_Hostname = ''api.x''\<rparr>)),
     wb_resolve = (\<lambda>w h. (Inr [v4 93 184 216 34], w)), wb_wait = (\<lambda>w. (None, w)),
     wb_dials = (\<lambda>w rq. [(''10.0.0.1:443'', None), (''93.184.216.34:443'', None)]),
     wb_exchange = (\<lambda>w a rq. (Inr \<lparr>rs_StatusCode = 302, rs_Header = fmap_of_list [(''Location'', ''m'')], rs_Body = ''''\<rparr>, w)),
     wb_location = (\<lambda>b l. Some l), wb_headers = (\<lambda>rq u. rq_Header rq)\<rparr>"

definition vendor_config :: httpx_config where
  "vendor_config = \<lparr>hx_UserAgent = ''bridge'', hx_Timeout = 30 * Second, hx_AllowHosts = [], hx_AllowPrivate = False, hx_Limiter = True, hx_Observer = True\<rparr>"

lemma lure_guard: "guardControl False ''93.184.216.34:443'' = None" "\<exists>e. guardControl False ''10.0.0.1:443'' = Some e"
  "ParseIP ''api.x'' = None" "blockedIP (v4 93 184 216 34) False = None" "ToLower ''api.x'' = ''api.x''" "ToLower ''169.254.169.254'' = ''169.254.169.254''"
proof -
  show "guardControl False ''93.184.216.34:443'' = None" by code_simp
  have "guardControl False ''10.0.0.1:443'' \<noteq> None" by code_simp
  then show "\<exists>e. guardControl False ''10.0.0.1:443'' = Some e" by blast
  show "ParseIP ''api.x'' = None" "blockedIP (v4 93 184 216 34) False = None" "ToLower ''api.x'' = ''api.x''" "ToLower ''169.254.169.254'' = ''169.254.169.254''"
    by code_simp+
qed

theorem egress_guarded_witness:
  "\<exists>res s obs. hx_Do lure_web vendor_config (get_request ''u'' ''x-portkey-api-key'' ''k'') () = (res, [s], obs, ()) \<and>
     sn_Addr s = ''93.184.216.34:443'' \<and> snd res \<noteq> None \<and> length obs = 1 \<and> cleared lure_web vendor_config (sn_Dest s)"
proof -
  let ?o = "\<lparr>ds_Scheme = ''https'', ds_Hostname = ''api.x''\<rparr>"
  have parse: "wb_parse lure_web (rq_URL (get_request ''u'' ''x-portkey-api-key'' ''k'')) = Some ?o" by (simp add: lure_web_def get_request_def)
  obtain res s obs where run: "hx_Do lure_web vendor_config (get_request ''u'' ''x-portkey-api-key'' ''k'') () = (res, [s], obs, ())"
    and s: "sn_Addr s = ''93.184.216.34:443''" "snd res \<noteq> None" "length obs = 1"
    using lure_guard
    by (auto simp: hx_Do_def follow.simps lure_web_def vendor_config_def get_request_def checkDest_def Let_def is_redirect_def map_get_def
          CheckRedirect_def checkRedirectCreds_def split: option.splits)
  show ?thesis using egress_guarded [OF parse run] run s by auto
qed

end
