(* ===== verification/Langsmith_Runs.thy ===== *)
theory Langsmith_Runs
  imports Langsmith_Runs_Settings Langsmith_Paging Httpx
begin

text \<open>
  The LangSmith runs loop: the query (\<^verbatim>\<open>internal/source/langsmith/runs_client.go\<close>), the discovery of
  projects (\<^verbatim>\<open>runs_discover.go\<close>), the cursor and \<open>Collect\<close> (\<^verbatim>\<open>runs.go\<close>). The discovery cache of the loop
  is passed in and returned.
\<close>

section \<open>The query\<close>

definition respCap :: "runs_loop \<Rightarrow> nat" where
  "respCap l = nat (if 0 < qr_maxResponseBytes l then qr_maxResponseBytes l else defaultRunsResponseBytes)"

definition errBodySuffix :: "string \<Rightarrow> string" where
  "errBodySuffix snippet = (if snippet = '''' then '''' else '': '' @ snippet)"

record runs_page =
  pg_runs :: "(string, json) fmap list"
  pg_next :: string

definition dec_runs_page :: "json \<Rightarrow> runs_page option" where
  "dec_runs_page j =
     (case json_fields j of
        None \<Rightarrow> None
      | Some kvs \<Rightarrow>
          (case (dec_field (dec_list dec_raw_map) ''runs'' kvs [],
                 dec_field (\<lambda>c old. Option.bind (json_fields c) (\<lambda>cs. dec_field dec_string ''next'' cs old)) ''cursors'' kvs '''') of
             (Some rs, Some nx) \<Rightarrow> Some \<lparr>pg_runs = rs, pg_next = nx\<rparr>
           | _ \<Rightarrow> None))"

text \<open>The fields of the body in ascending order, as a map is marshalled.\<close>

definition query_body :: "runs_loop \<Rightarrow> string list \<Rightarrow> instant \<Rightarrow> instant \<Rightarrow> string \<Rightarrow> json" where
  "query_body l sessions winMin winMax cursor = JObj (concat
     [if cursor \<noteq> '''' then [(''cursor'', JStr cursor)] else [], [(''end_time'', JStr (FormatRFC3339 winMax))],
      if qr_rootOnly l then [(''is_root'', JBool True)] else [], [(''limit'', JNum (FormatInt (qr_pageSize l)))],
      [(''order'', JStr ''asc'')], if qr_runType l \<noteq> '''' then [(''run_type'', JStr (qr_runType l))] else [],
      [(''select'', JArr (map JStr (qr_selectFields l)))], [(''session'', JArr (map JStr sessions))],
      [(''start_time'', JStr (FormatRFC3339 winMin))]])"

definition post_request :: "string \<Rightarrow> string \<Rightarrow> string \<Rightarrow> json \<Rightarrow> http_request" where
  "post_request url hdr val body =
     \<lparr>rq_Method = ''POST'', rq_URL = url, rq_Header = fmupd ''Content-Type'' ''application/json'' (fmupd hdr val fmempty), rq_Body = json_text body\<rparr>"

text \<open>An error, or the page with its status and the snippet of an error body.\<close>

definition queryRuns ::
  "'w net \<Rightarrow> runs_loop \<Rightarrow> string list \<Rightarrow> instant \<Rightarrow> instant \<Rightarrow> string \<Rightarrow> 'w \<Rightarrow> (string + runs_page \<times> int \<times> string) \<times> 'w" where
  "queryRuns net l sessions winMin winMax cursor w =
     (case nt_do net w (post_request (qr_baseURL l @ ''/runs/query'') (qr_authHdr l) (qr_authVal l) (query_body l sessions winMin winMax cursor)) of
        (Inl e, w1) \<Rightarrow> (Inl e, w1)
      | (Inr r, w1) \<Rightarrow>
          (if rs_StatusCode r \<noteq> StatusOK then (Inr (\<lparr>pg_runs = [], pg_next = ''''\<rparr>, rs_StatusCode r, ErrSnippet (rs_Body r)), w1)
           else case Option.bind (nt_json net (take (respCap l) (rs_Body r))) dec_runs_page of
             None \<Rightarrow> (Inl ''langsmith runs: decode page (lower page_size if oversize)'', w1)
           | Some p \<Rightarrow> (Inr (p, StatusOK, ''''), w1)))"

section \<open>Projects\<close>

definition pageLimit :: int where "pageLimit = 100"

definition dec_session_id :: "json \<Rightarrow> string option" where
  "dec_session_id j = Option.bind (json_fields j) (\<lambda>kvs. dec_field dec_string ''id'' kvs '''')"

definition sessions_page ::
  "'w net \<Rightarrow> runs_loop \<Rightarrow> int \<Rightarrow> 'w \<Rightarrow> (collect_error + string list) \<times> 'w" where
  "sessions_page net l offset w =
     (case nt_url net (qr_baseURL l @ ''/sessions'') (values_Encode (setSessionsPageQuery fmempty pageLimit offset (qr_sessionFilter l))) of
        None \<Rightarrow> (Inl (CollectFailed ''parse url''), w)
      | Some url \<Rightarrow>
          (case nt_do net w (get_request url (qr_authHdr l) (qr_authVal l)) of
             (Inl e, w1) \<Rightarrow> (Inl (CollectFailed e), w1)
           | (Inr r, w1) \<Rightarrow>
               (if rs_StatusCode r = StatusTooManyRequests then (Inl ErrQuotaExceeded, w1)
                else if rs_StatusCode r \<noteq> StatusOK
                then (Inl (CollectFailed (''langsmith runs: discover sessions status '' @ FormatInt (rs_StatusCode r) @ errBodySuffix (ErrSnippet (rs_Body r)))), w1)
                else case Option.bind (nt_json net (take (respCap l) (rs_Body r))) (\<lambda>j. dec_list dec_session_id j []) of
                  None \<Rightarrow> (Inl (CollectFailed ''langsmith runs: decode sessions''), w1)
                | Some ss \<Rightarrow> (Inr ss, w1))))"

definition listSessionIDs :: "'w net \<Rightarrow> runs_loop \<Rightarrow> 'w \<Rightarrow> (collect_error + string list) \<times> source_event list \<times> 'w" where
  "listSessionIDs net l w =
     (case page_all (sessions_page net l) (\<lambda>s. s = '''') (\<lambda>s. s) (qr_maxSessions l) pageLimit 0 [] w of
        (Inl e, w1) \<Rightarrow> (Inl e, [], w1)
      | (Inr (ids, capped), w1) \<Rightarrow>
          (Inr ids, if capped then fire (qr_deps l) (DataIncomplete ''runs'' ''sessions_truncated'') else [], w1))"

record session_cache =
  sc_sessions :: "string list"
  sc_at :: instant

definition resolveSessions ::
  "'w net \<Rightarrow> runs_loop \<Rightarrow> session_cache \<Rightarrow> instant \<Rightarrow> bool \<Rightarrow> 'w \<Rightarrow> (collect_error + string list) \<times> source_event list \<times> session_cache \<times> 'w" where
  "resolveSessions net l c now draining w =
     (if qr_sessionIDs l \<noteq> [] then (Inr (qr_sessionIDs l), [], c, w)
      else if sc_sessions c \<noteq> [] \<and> (draining \<or> time_Sub now (sc_at c) < qr_sessionRefresh l) then (Inr (sc_sessions c), [], c, w)
      else case listSessionIDs net l w of
        (Inl e, evs, w1) \<Rightarrow> (Inl e, evs, c, w1)
      | (Inr ids, evs, w1) \<Rightarrow>
          (if ids = [] then (Inl (CollectFailed ''langsmith runs: session_filter matched no projects (scope is empty)''), evs, c, w1)
           else (Inr ids, evs, \<lparr>sc_sessions = ids, sc_at = now\<rparr>, w1)))"

section \<open>The cursor\<close>

record runs_cursor =
  uc_WinMin :: string
  uc_WinMax :: string
  uc_Next :: string
  uc_Page :: int

definition zero_runs_cursor :: runs_cursor where
  "zero_runs_cursor = \<lparr>uc_WinMin = '''', uc_WinMax = '''', uc_Next = '''', uc_Page = 0\<rparr>"

definition runs_cursor_fields :: "runs_cursor \<Rightarrow> (string \<times> json) list" where
  "runs_cursor_fields c = concat
     [opt_str ''win_min'' (uc_WinMin c), opt_str ''win_max'' (uc_WinMax c), opt_str ''next'' (uc_Next c), opt_int ''page'' (uc_Page c)]"

definition runs_encode :: "runs_cursor \<Rightarrow> string" where
  "runs_encode c = json_text (JObj (runs_cursor_fields c))"

definition dec_runs_cursor :: "(string \<times> json) list \<Rightarrow> runs_cursor option" where
  "dec_runs_cursor kvs =
     (let str = (\<lambda>k. dec_field dec_string k kvs '''') in
      case (str ''win_min'', str ''win_max'', str ''next'', dec_field dec_int ''page'' kvs 0) of
        (Some a, Some b, Some nx, Some p) \<Rightarrow> Some \<lparr>uc_WinMin = a, uc_WinMax = b, uc_Next = nx, uc_Page = p\<rparr>
      | _ \<Rightarrow> None)"

definition decodeRunsCursor :: "string \<Rightarrow> runs_cursor" where
  "decodeRunsCursor s =
     (if s = '''' then zero_runs_cursor
      else case Option.bind (Option.bind (parse_text s) json_fields) dec_runs_cursor of
        None \<Rightarrow> zero_runs_cursor | Some c \<Rightarrow> c)"

definition runs_parseCursorTime :: "string \<Rightarrow> instant option" where
  "runs_parseCursorTime s = (if s = '''' then None else ParseRFC3339 s)"

definition runs_windowBounds :: "runs_cursor \<Rightarrow> (instant \<times> instant) option" where
  "runs_windowBounds c =
     (case (runs_parseCursorTime (uc_WinMin c), runs_parseCursorTime (uc_WinMax c)) of
        (Some a, Some b) \<Rightarrow> Some (a, b)
      | _ \<Rightarrow> None)"

section \<open>Collect\<close>

definition runs_batch :: "'w net \<Rightarrow> runs_loop \<Rightarrow> log_record list \<Rightarrow> watermark \<Rightarrow> batch" where
  "runs_batch net l recs wm = \<lparr>bt_Key = qr_Key net l, bt_Samples = [], bt_Logs = recs, bt_Watermark = wm\<rparr>"

text \<open>The window of an idle tick, with what it counts; none if nothing has settled.\<close>

definition runs_window :: "runs_loop \<Rightarrow> instant \<Rightarrow> instant \<Rightarrow> (instant \<times> instant) option \<times> source_event list" where
  "runs_window l sinceTime now =
     (let m0 = (if IsZero sinceTime then time_Add now (- qr_window l) else sinceTime);
          floor = time_Add now (- qr_maxBackfill l);
          winMin = (if m0 < floor then floor else m0);
          evs = (if m0 < floor then fire (qr_deps l) (DataIncomplete ''runs'' ''backfill_skipped'') else []);
          x0 = time_Add winMin (qr_window l);
          cutoff = time_Add now (- qr_settle l);
          winMax = (if cutoff < x0 then cutoff else x0)
      in (if winMin < winMax then Some (winMin, winMax) else None, evs))"

text \<open>The page of a window: where it stands, and whether it is being drained.\<close>

definition runs_finish ::
  "'w net \<Rightarrow> runs_loop \<Rightarrow> watermark \<Rightarrow> instant \<Rightarrow> instant \<Rightarrow> int \<Rightarrow> runs_page \<Rightarrow> batch \<times> source_event list" where
  "runs_finish net l since winMin winMax page pg =
     (let recs = map (\<lambda>raw. runs_strip (qr_policy l) raw winMax) (pg_runs pg); page1 = wrap64 (page + 1) in
      if pg_next pg \<noteq> '''' \<and> page1 < qr_maxPagesPerWindow l then
        (runs_batch net l recs \<lparr>wm_Time = wm_Time since,
           wm_Cursor = runs_encode \<lparr>uc_WinMin = FormatRFC3339Nano winMin, uc_WinMax = FormatRFC3339Nano winMax, uc_Next = pg_next pg, uc_Page = page1\<rparr>,
           wm_Epoch = 0\<rparr>, [])
      else
        (runs_batch net l recs \<lparr>wm_Time = winMax, wm_Cursor = '''', wm_Epoch = 0\<rparr>,
         if pg_next pg \<noteq> '''' then fire (qr_deps l) (DataIncomplete ''runs'' ''window_truncated'') else []))"

definition runs_drain ::
  "'w net \<Rightarrow> runs_loop \<Rightarrow> session_cache \<Rightarrow> instant \<Rightarrow> watermark \<Rightarrow> bool \<Rightarrow> instant \<Rightarrow> instant \<Rightarrow> string \<Rightarrow> int \<Rightarrow> 'w \<Rightarrow>
     (collect_error + batch) \<times> source_event list \<times> session_cache \<times> 'w" where
  "runs_drain net l c now since draining winMin winMax resume page w =
     (case resolveSessions net l c now draining w of
        (Inl e, evs, c1, w1) \<Rightarrow> (Inl e, evs, c1, w1)
      | (Inr sessions, evs, c1, w1) \<Rightarrow>
          (case queryRuns net l sessions winMin winMax resume w1 of
             (Inl e, w2) \<Rightarrow> (Inl (CollectFailed (''langsmith runs: query: '' @ e)), evs, c1, w2)
           | (Inr (pg, status, body), w2) \<Rightarrow>
               (if status = StatusOK then
                  (case runs_finish net l since winMin winMax page pg of (b, evs2) \<Rightarrow> (Inr b, evs @ evs2, c1, w2))
                else if status = StatusTooManyRequests then (Inl ErrQuotaExceeded, evs, c1, w2)
                else (Inl (CollectFailed (''langsmith runs: status '' @ FormatInt status @ errBodySuffix body)),
                      evs @ (if IsAuthStatus status then fire (qr_deps l) (AuthError ''runs'' (qr_sourceInstance l)) else []), c1, w2))))"

definition qr_Collect ::
  "'w net \<Rightarrow> runs_loop \<Rightarrow> session_cache \<Rightarrow> instant \<Rightarrow> watermark \<Rightarrow> 'w \<Rightarrow>
     (collect_error + batch) \<times> source_event list \<times> session_cache \<times> 'w" where
  "qr_Collect net l c now since w =
     (let cur = decodeRunsCursor (wm_Cursor since) in
      case (if uc_WinMax cur \<noteq> '''' then runs_windowBounds cur else None) of
        Some (winMin, winMax) \<Rightarrow> runs_drain net l c now since True winMin winMax (uc_Next cur) (uc_Page cur) w
      | None \<Rightarrow>
          (case runs_window l (wm_Time since) now of
             (None, evs) \<Rightarrow> (Inr (runs_batch net l [] since), evs, c, w)
           | (Some (winMin, winMax), evs) \<Rightarrow>
               (case runs_drain net l c now since False winMin winMax '''' 0 w of
                  (r, evs2, c1, w1) \<Rightarrow> (r, evs @ evs2, c1, w1))))"

end
