(* ===== verification/Langsmith_Runs_Live.thy ===== *)
theory Langsmith_Runs_Live
  imports Langsmith_Runs Checkpoint
begin

text \<open>
  What the runs loop does with a window: for any server the frontier only moves to the end of
  a window and no window takes more successful ticks than configured, and for a server that
  answers, the window is drained page by page with every run emitted once, the cap on pages
  being the only loss, and counted.
\<close>

section \<open>The cursor round trip\<close>

lemma runs_cursor_names: "ToLower ''win_min'' = ''win_min''" "ToLower ''win_max'' = ''win_max''" "ToLower ''next'' = ''next''" "ToLower ''page'' = ''page''"
  by code_simp+

lemma runs_decode_encode:
  assumes "in_int64 (uc_Page c)"
  shows "decodeRunsCursor (runs_encode c) = c"
proof -
  have "json_ok (JObj (runs_cursor_fields c))"
    using valid_number_FormatInt by (auto simp: runs_cursor_fields_def opt_str_def opt_int_def split: if_splits)
  then have parse: "parse_text (runs_encode c) = Some (JObj (runs_cursor_fields c))" unfolding runs_encode_def by (rule parse_text_round)
  have "dec_runs_cursor (runs_cursor_fields c) = Some c"
    by (simp add: dec_runs_cursor_def runs_cursor_fields_def dec_field_append dec_field_other dec_field_opt_str dec_field_opt_int [OF assms] runs_cursor_names)
  moreover have "runs_encode c \<noteq> ''''" by (simp add: runs_encode_def)
  ultimately show ?thesis unfolding decodeRunsCursor_def parse by simp
qed

lemma runs_parseCursorTime_format: "0 \<le> t \<Longrightarrow> t < 3652059 * ns_per_day \<Longrightarrow> runs_parseCursorTime (FormatRFC3339Nano t) = Some t"
proof -
  assume t: "0 \<le> t" "t < 3652059 * ns_per_day"
  have "ParseRFC3339 '''' = None" by (simp add: ParseRFC3339_def take_num_def)
  then show ?thesis using rfc3339_round [OF t] by (auto simp: runs_parseCursorTime_def)
qed

section \<open>Where a run stands\<close>

definition runs_clock_ok :: "runs_loop \<Rightarrow> instant \<Rightarrow> bool" where
  "runs_clock_ok l now \<longleftrightarrow> qr_maxBackfill l \<le> now \<and> now < 3652059 * ns_per_day"

definition drained_to :: "runs_loop \<Rightarrow> instant \<Rightarrow> instant \<Rightarrow> instant \<Rightarrow> string \<Rightarrow> int \<Rightarrow> watermark" where
  "drained_to l t a b tok p = \<lparr>wm_Time = t,
     wm_Cursor = runs_encode \<lparr>uc_WinMin = FormatRFC3339Nano a, uc_WinMax = FormatRFC3339Nano b, uc_Next = tok, uc_Page = p\<rparr>, wm_Epoch = 0\<rparr>"

definition window_end :: "instant \<Rightarrow> watermark" where
  "window_end b = \<lparr>wm_Time = b, wm_Cursor = '''', wm_Epoch = 0\<rparr>"

definition runs_wm_ok :: "runs_loop \<Rightarrow> watermark \<Rightarrow> bool" where
  "runs_wm_ok l wm \<longleftrightarrow> 0 \<le> wm_Time wm \<and> wm_Time wm < 3652059 * ns_per_day \<and>
     (wm_Cursor wm = '''' \<or>
      (\<exists>a b tok p. wm = (drained_to l (wm_Time wm) a b tok p)\<lparr>wm_Epoch := wm_Epoch wm\<rparr> \<and> wm_Time wm \<le> a \<and> 0 \<le> a \<and> a < b \<and> b - a \<le> qr_window l \<and>
         b < 3652059 * ns_per_day \<and> tok \<noteq> '''' \<and> 0 < p \<and> p < qr_maxPagesPerWindow l))"

lemma runs_wm_ok_drained:
  assumes "0 \<le> t" "t \<le> a" "0 \<le> a" "a < b" "b - a \<le> qr_window l" "b < 3652059 * ns_per_day" "tok \<noteq> ''''" "0 < p" "p < qr_maxPagesPerWindow l"
  shows "runs_wm_ok l (drained_to l t a b tok p)"
proof -
  have "\<exists>a' b' tok' p'. drained_to l t a b tok p = (drained_to l t a' b' tok' p')\<lparr>wm_Epoch := 0\<rparr> \<and> t \<le> a' \<and> 0 \<le> a' \<and> a' < b' \<and>
      b' - a' \<le> qr_window l \<and> b' < 3652059 * ns_per_day \<and> tok' \<noteq> '''' \<and> 0 < p' \<and> p' < qr_maxPagesPerWindow l"
    by (rule exI [of _ a], rule exI [of _ b], rule exI [of _ tok], rule exI [of _ p]) (use assms in \<open>simp add: drained_to_def\<close>)
  then show ?thesis using assms unfolding runs_wm_ok_def by (simp add: drained_to_def)
qed

lemma runs_wm_ok_end: "0 \<le> b \<Longrightarrow> b < 3652059 * ns_per_day \<Longrightarrow> runs_wm_ok l (window_end b)"
  by (simp add: runs_wm_ok_def window_end_def)

lemma runs_window_facts:
  assumes "qr_ok l" "runs_clock_ok l now" "0 \<le> t" "runs_window l t now = (Some (a, b), evs)"
  shows "t \<le> a" "0 \<le> a" "a < b" "b - a \<le> qr_window l" "b \<le> now - qr_settle l" "b < 3652059 * ns_per_day"
    "evs = (if t \<noteq> 0 \<and> t < now - qr_maxBackfill l \<or> t = 0 \<and> qr_maxBackfill l < qr_window l then fire (qr_deps l) (DataIncomplete ''runs'' ''backfill_skipped'') else [])"
  using assms by (auto simp: runs_window_def Let_def time_Add_def qr_ok_def runs_clock_ok_def IsZero_def split: if_splits)

lemma drained_to_collect:
  assumes "in_int64 p" "0 \<le> a" "a < b" "b < 3652059 * ns_per_day"
  shows "qr_Collect net l c now ((drained_to l t a b tok p)\<lparr>wm_Epoch := ep\<rparr>) w =
    runs_drain net l c now ((drained_to l t a b tok p)\<lparr>wm_Epoch := ep\<rparr>) True a b tok p w"
proof -
  let ?c = "\<lparr>uc_WinMin = FormatRFC3339Nano a, uc_WinMax = FormatRFC3339Nano b, uc_Next = tok, uc_Page = p\<rparr>"
  have dec: "decodeRunsCursor (runs_encode ?c) = ?c" by (rule runs_decode_encode) (simp add: assms(1))
  have t: "runs_parseCursorTime (FormatRFC3339Nano a) = Some a" "runs_parseCursorTime (FormatRFC3339Nano b) = Some b"
    using assms by (auto intro!: runs_parseCursorTime_format)
  then have "FormatRFC3339Nano b \<noteq> ''''" by (auto simp: runs_parseCursorTime_def)
  with dec t show ?thesis by (simp add: qr_Collect_def drained_to_def runs_windowBounds_def)
qed

lemma runs_finish_cases:
  assumes "0 \<le> p" "p < qr_maxPagesPerWindow l" "in_int64 (qr_maxPagesPerWindow l)" "runs_finish net l since a b p pg = (bt, evs)"
  shows "bt_Logs bt = map (\<lambda>raw. runs_strip (qr_policy l) raw b) (pg_runs pg)"
    "bt_Watermark bt = (if pg_next pg \<noteq> '''' \<and> p + 1 < qr_maxPagesPerWindow l then drained_to l (wm_Time since) a b (pg_next pg) (p + 1) else window_end b)"
    "evs = (if pg_next pg \<noteq> '''' \<and> \<not> p + 1 < qr_maxPagesPerWindow l then fire (qr_deps l) (DataIncomplete ''runs'' ''window_truncated'') else [])"
proof -
  have "wrap64 (p + 1) = p + 1" using assms(1-3) by (simp add: wrap64_def in_int64_def)
  then show "bt_Logs bt = map (\<lambda>raw. runs_strip (qr_policy l) raw b) (pg_runs pg)"
    "bt_Watermark bt = (if pg_next pg \<noteq> '''' \<and> p + 1 < qr_maxPagesPerWindow l then drained_to l (wm_Time since) a b (pg_next pg) (p + 1) else window_end b)"
    "evs = (if pg_next pg \<noteq> '''' \<and> \<not> p + 1 < qr_maxPagesPerWindow l then fire (qr_deps l) (DataIncomplete ''runs'' ''window_truncated'') else [])"
    using assms(4) by (auto simp: runs_finish_def Let_def runs_batch_def drained_to_def window_end_def split: if_splits)
qed

section \<open>A step, whatever the server\<close>

text \<open>
  After a successful step the frontier stays and the window goes on with one more page, or
  the frontier is at the end of the window; or nothing had settled.
\<close>

definition runs_step_ok :: "runs_loop \<Rightarrow> watermark \<Rightarrow> watermark \<Rightarrow> bool" where
  "runs_step_ok l wm wm1 \<longleftrightarrow> runs_wm_ok l wm1 \<and>
     (wm1 = wm \<or> wm1 = window_end (wm_Time wm1) \<and> wm_Time wm < wm_Time wm1 \<or>
      (\<exists>a b tok p. wm1 = drained_to l (wm_Time wm) a b tok (p + 1) \<and>
         (wm_Cursor wm = '''' \<and> p = 0 \<or> (\<exists>tok0 ep. wm = (drained_to l (wm_Time wm) a b tok0 p)\<lparr>wm_Epoch := ep\<rparr>))))"

lemma drain_step:
  assumes "qr_ok l" "0 \<le> wm_Time wm" "wm_Time wm \<le> a" "0 \<le> a" "a < b" "b - a \<le> qr_window l" "b < 3652059 * ns_per_day"
    and "0 \<le> p" "p < qr_maxPagesPerWindow l" "runs_drain net l c now wm d a b tok p w = (Inr bt, evs, c1, w1)"
  shows "runs_wm_ok l (bt_Watermark bt) \<and>
    (bt_Watermark bt = window_end b \<or> (\<exists>tok1. tok1 \<noteq> '''' \<and> p + 1 < qr_maxPagesPerWindow l \<and> bt_Watermark bt = drained_to l (wm_Time wm) a b tok1 (p + 1)))"
proof -
  obtain pg evs2 where fin: "runs_finish net l wm a b p pg = (bt, evs2)"
    using assms(10) by (auto simp: runs_drain_def split: prod.splits sum.splits if_splits)
  have int: "in_int64 (qr_maxPagesPerWindow l)" using assms(1) by (simp add: qr_ok_def)
  note f = runs_finish_cases(2) [OF assms(8,9) int fin]
  show ?thesis
  proof (cases "pg_next pg \<noteq> '''' \<and> p + 1 < qr_maxPagesPerWindow l")
    case True
    then have wm: "bt_Watermark bt = drained_to l (wm_Time wm) a b (pg_next pg) (p + 1)" using f by simp
    have "runs_wm_ok l (bt_Watermark bt)" unfolding wm by (rule runs_wm_ok_drained) (use True assms(2-8) in auto)
    then show ?thesis using True wm by blast
  next
    case False
    then have "bt_Watermark bt = window_end b" using f by auto
    then show ?thesis using assms(4,5,7) runs_wm_ok_end by simp
  qed
qed

lemma drained_step_ok:
  assumes "runs_wm_ok l wm1 \<and> (wm1 = window_end b \<or> (\<exists>tok1. tok1 \<noteq> '''' \<and> p + 1 < qr_maxPagesPerWindow l \<and> wm1 = drained_to l (wm_Time wm) a b tok1 (p + 1)))"
    and "wm_Time wm < b" "wm_Cursor wm = '''' \<and> p = 0 \<or> (\<exists>tok0 ep. wm = (drained_to l (wm_Time wm) a b tok0 p)\<lparr>wm_Epoch := ep\<rparr>)"
  shows "runs_step_ok l wm wm1"
proof (cases "wm1 = window_end b")
  case True
  then have "wm1 = window_end (wm_Time wm1)" "wm_Time wm1 = b" by (simp_all add: window_end_def)
  then show ?thesis using assms(1,2) by (simp add: runs_step_ok_def)
next
  case False
  then show ?thesis using assms(1,3) unfolding runs_step_ok_def by blast
qed

text \<open>The two kinds of watermark a step starts from.\<close>

lemma runs_wm_cases:
  assumes "runs_wm_ok l wm"
  obtains (idle) "wm_Cursor wm = ''''"
  | (draining) a b tok p where "wm = (drained_to l (wm_Time wm) a b tok p)\<lparr>wm_Epoch := wm_Epoch wm\<rparr>" "wm_Time wm \<le> a" "0 \<le> a" "a < b"
      "b - a \<le> qr_window l" "b < 3652059 * ns_per_day" "tok \<noteq> ''''" "0 < p" "p < qr_maxPagesPerWindow l"
  using assms unfolding runs_wm_ok_def by blast

lemma idle_collect:
  assumes "wm_Cursor wm = ''''"
  shows "qr_Collect net l c now wm w =
    (case runs_window l (wm_Time wm) now of
       (None, evs) \<Rightarrow> (Inr (runs_batch net l [] wm), evs, c, w)
     | (Some (winMin, winMax), evs) \<Rightarrow>
         (case runs_drain net l c now wm False winMin winMax '''' 0 w of (r, evs2, c1, w1) \<Rightarrow> (r, evs @ evs2, c1, w1)))"
  using assms by (simp add: qr_Collect_def decodeRunsCursor_def zero_runs_cursor_def)

lemma runs_collect_ok:
  assumes "qr_ok l" "runs_clock_ok l now" "runs_wm_ok l wm" "qr_Collect net l c now wm w = (Inr bt, evs, c1, w1)"
  shows "runs_step_ok l wm (bt_Watermark bt)"
  using assms(3)
proof (cases rule: runs_wm_cases)
  case idle
  have t: "0 \<le> wm_Time wm" using assms(3) by (simp add: runs_wm_ok_def)
  note collect = assms(4) [unfolded idle_collect [OF idle]]
  show ?thesis
  proof (cases "fst (runs_window l (wm_Time wm) now)")
    case None
    then show ?thesis using collect assms(3) by (cases "runs_window l (wm_Time wm) now") (auto simp: runs_batch_def runs_step_ok_def)
  next
    case (Some ab)
    then obtain a b evs0 where win: "runs_window l (wm_Time wm) now = (Some (a, b), evs0)"
      by (cases ab, cases "runs_window l (wm_Time wm) now") auto
    then obtain evs2 where drain: "runs_drain net l c now wm False a b '''' 0 w = (Inr bt, evs2, c1, w1)"
      using collect by (auto split: prod.splits)
    note f = runs_window_facts [OF assms(1,2) t win]
    have pages: "0 < qr_maxPagesPerWindow l" using assms(1) by (simp add: qr_ok_def)
    show ?thesis by (rule drained_step_ok [OF drain_step [OF assms(1) t f(1-4) f(6) order.refl pages drain]]) (use f idle in auto)
  qed
next
  case (draining a b tok p)
  have t: "0 \<le> wm_Time wm" using assms(3) by (simp add: runs_wm_ok_def)
  have p: "in_int64 p" "0 \<le> p" using draining(8,9) assms(1) by (auto simp: qr_ok_def in_int64_def)
  have "runs_drain net l c now wm True a b tok p w = (Inr bt, evs, c1, w1)"
    using drained_to_collect [OF p(1) draining(3,4,6), where net = net and l = l and c = c and now = now and t = "wm_Time wm" and tok = tok and ep = "wm_Epoch wm" and w = w] assms(4)
    unfolding draining(1) [symmetric] by simp
  note s = drain_step [OF assms(1) t draining(2-6) p(2) draining(9) this]
  show ?thesis by (rule drained_step_ok [OF s]) (use draining(1,2,4) in auto)
qed

section \<open>A window, with a server that answers\<close>

fun runs_n ::
  "'w net \<Rightarrow> runs_loop \<Rightarrow> (nat \<Rightarrow> instant) \<Rightarrow> nat \<Rightarrow> watermark \<Rightarrow> session_cache \<Rightarrow> 'w \<Rightarrow>
     (watermark \<times> log_record list \<times> source_event list) option" where
  "runs_n net l clk 0 wm c w = Some (wm, [], [])"
| "runs_n net l clk (Suc n) wm c w =
     (case qr_Collect net l c (clk 0) wm w of
        (Inl _, _, _, _) \<Rightarrow> None
      | (Inr b, evs, c1, w1) \<Rightarrow>
          map_option (\<lambda>(wm2, recs, evs2). (wm2, bt_Logs b @ recs, evs @ evs2)) (runs_n net l (\<lambda>i. clk (Suc i)) n (bt_Watermark b) c1 w1))"

text \<open>The pages of a window from a token on, at most \<open>n\<close>.\<close>

fun pages_from :: "nat \<Rightarrow> (string \<Rightarrow> runs_page) \<Rightarrow> string \<Rightarrow> runs_page list" where
  "pages_from 0 pg tok = []"
| "pages_from (Suc n) pg tok = pg tok # (if pg_next (pg tok) = '''' then [] else pages_from n pg (pg_next (pg tok)))"

definition answers_runs :: "'w net \<Rightarrow> runs_loop \<Rightarrow> string list \<Rightarrow> instant \<Rightarrow> instant \<Rightarrow> (string \<Rightarrow> runs_page) \<Rightarrow> bool" where
  "answers_runs net l S a b pg \<longleftrightarrow> (\<forall>tok w. \<exists>w1. queryRuns net l S a b tok w = (Inr (pg tok, StatusOK, ''''), w1))"

definition run_records :: "runs_loop \<Rightarrow> instant \<Rightarrow> runs_page list \<Rightarrow> log_record list" where
  "run_records l b pgs = concat (map (\<lambda>p. map (\<lambda>raw. runs_strip (qr_policy l) raw b) (pg_runs p)) pgs)"

definition truncation :: "runs_loop \<Rightarrow> runs_page list \<Rightarrow> source_event list" where
  "truncation l pgs = (if pgs \<noteq> [] \<and> pg_next (last pgs) \<noteq> '''' then fire (qr_deps l) (DataIncomplete ''runs'' ''window_truncated'') else [])"

text \<open>The scope a window was started with stays the one of its pages.\<close>

definition scope_fixed :: "runs_loop \<Rightarrow> session_cache \<Rightarrow> string list \<Rightarrow> bool" where
  "scope_fixed l c S \<longleftrightarrow> (if qr_sessionIDs l \<noteq> [] then S = qr_sessionIDs l else S \<noteq> [] \<and> sc_sessions c = S)"

lemma resolve_fixes: "resolveSessions net l c now d w = (Inr S, evs, c1, w1) \<Longrightarrow> scope_fixed l c1 S"
  by (auto simp: resolveSessions_def scope_fixed_def split: if_splits prod.splits sum.splits)

lemma scope_kept: "scope_fixed l c S \<Longrightarrow> resolveSessions net l c now True w = (Inr S, [], c, w)"
  by (auto simp: resolveSessions_def scope_fixed_def split: if_splits)

lemma drain_page:
  assumes "qr_ok l" "answers_runs net l S a b pg" "resolveSessions net l c now d w = (Inr S, evs0, c1, w0)" "0 \<le> p" "p < qr_maxPagesPerWindow l"
  shows "\<exists>bt w1. runs_drain net l c now wm d a b tok p w =
      (Inr bt, evs0 @ (if pg_next (pg tok) \<noteq> '''' \<and> \<not> p + 1 < qr_maxPagesPerWindow l then fire (qr_deps l) (DataIncomplete ''runs'' ''window_truncated'') else []), c1, w1) \<and>
    bt_Logs bt = run_records l b [pg tok] \<and>
    bt_Watermark bt = (if pg_next (pg tok) \<noteq> '''' \<and> p + 1 < qr_maxPagesPerWindow l then drained_to l (wm_Time wm) a b (pg_next (pg tok)) (p + 1) else window_end b)"
proof -
  obtain w1 where q: "queryRuns net l S a b tok w0 = (Inr (pg tok, StatusOK, ''''), w1)" using assms(2) by (auto simp: answers_runs_def)
  obtain bt evs where fin: "runs_finish net l wm a b p (pg tok) = (bt, evs)" by (cases "runs_finish net l wm a b p (pg tok)")
  have int: "in_int64 (qr_maxPagesPerWindow l)" using assms(1) by (simp add: qr_ok_def)
  show ?thesis using runs_finish_cases [OF assms(4,5) int fin] by (simp add: runs_drain_def assms(3) q fin run_records_def)
qed

lemma drain_rest:
  assumes "qr_ok l" "answers_runs net l S a b pg" "0 \<le> a" "a < b" "b < 3652059 * ns_per_day"
  shows "scope_fixed l c S \<Longrightarrow> 0 < p \<Longrightarrow> p + int n = qr_maxPagesPerWindow l \<Longrightarrow> 0 < n \<Longrightarrow>
    runs_n net l clk (length (pages_from n pg tok)) (drained_to l t a b tok p) c w =
      Some (window_end b, run_records l b (pages_from n pg tok), truncation l (pages_from n pg tok))"
proof (induction n arbitrary: p tok clk c w)
  case (Suc n)
  have p: "0 \<le> p" "p < qr_maxPagesPerWindow l" "in_int64 p" using Suc.prems assms(1) by (auto simp: qr_ok_def in_int64_def)
  let ?wm = "drained_to l t a b tok p"
  obtain bt w1 where drain: "runs_drain net l c (clk 0) ?wm True a b tok p w =
      (Inr bt, [] @ (if pg_next (pg tok) \<noteq> '''' \<and> \<not> p + 1 < qr_maxPagesPerWindow l then fire (qr_deps l) (DataIncomplete ''runs'' ''window_truncated'') else []), c, w1)"
    and bt: "bt_Logs bt = run_records l b [pg tok]"
      "bt_Watermark bt = (if pg_next (pg tok) \<noteq> '''' \<and> p + 1 < qr_maxPagesPerWindow l then drained_to l (wm_Time ?wm) a b (pg_next (pg tok)) (p + 1) else window_end b)"
    using drain_page [OF assms(1,2) scope_kept [OF Suc.prems(1)] p(1,2)] by blast
  have wm: "?wm = ?wm\<lparr>wm_Epoch := 0\<rparr>" "wm_Time ?wm = t" by (simp_all add: drained_to_def)
  have collect: "qr_Collect net l c (clk 0) ?wm w = runs_drain net l c (clk 0) ?wm True a b tok p w"
    using drained_to_collect [OF p(3) assms(3-5), where net = net and l = l and c = c and now = "clk 0" and t = t and tok = tok and ep = 0 and w = w] wm(1) by simp
  show ?case
  proof (cases "pg_next (pg tok) \<noteq> '''' \<and> p + 1 < qr_maxPagesPerWindow l")
    case True
    then have "0 < n" using Suc.prems(3) by simp
    then obtain m where m: "n = Suc m" by (cases n) auto
    have "runs_n net l (\<lambda>i. clk (Suc i)) (length (pages_from n pg (pg_next (pg tok)))) (drained_to l t a b (pg_next (pg tok)) (p + 1)) c w1 =
        Some (window_end b, run_records l b (pages_from n pg (pg_next (pg tok))), truncation l (pages_from n pg (pg_next (pg tok))))"
      using Suc.IH [of c "p + 1" "\<lambda>i. clk (Suc i)"] Suc.prems \<open>0 < n\<close> by simp
    then show ?thesis using True bt collect drain wm(2) by (simp add: m run_records_def truncation_def del: pages_from.simps(1))
  next
    case False
    have "pg_next (pg tok) \<noteq> '''' \<Longrightarrow> n = 0" using False Suc.prems(3) by auto
    then have pages: "pages_from (Suc n) pg tok = [pg tok]" by auto
    show ?thesis unfolding pages using False bt collect drain by (auto simp: truncation_def)
  qed
qed simp

section \<open>Runs of the loop\<close>

inductive runs_run :: "'w net \<Rightarrow> runs_loop \<Rightarrow> watermark \<Rightarrow> log_record list \<Rightarrow> watermark \<Rightarrow> bool"
  for net :: "'w net" and l :: runs_loop and wm0 :: watermark where
  runs_start: "runs_run net l wm0 [] wm0"
| runs_tick: "runs_run net l wm0 recs wm \<Longrightarrow> runs_clock_ok l now \<Longrightarrow> qr_Collect net l c now wm w = (Inr b, evs, c1, w1) \<Longrightarrow>
    runs_run net l wm0 (recs @ bt_Logs b) (bt_Watermark b)"

inductive_cases runs_tickE: "runs_run net l wm0 recs wm"

lemma runs_run_ok:
  assumes "runs_run net l wm0 recs wm" "qr_ok l" "runs_wm_ok l wm0"
  shows "runs_wm_ok l wm \<and> wm_Time wm0 \<le> wm_Time wm"
  using assms(1)
proof induction
  case runs_start
  then show ?case using assms(3) by simp
next
  case (runs_tick recs wm now c w b evs c1 w1)
  have "wm_Time (drained_to l t a b tok p) = t" for t a b tok p by (simp add: drained_to_def)
  then show ?case using runs_collect_ok [OF assms(2) runs_tick.hyps(2) _ runs_tick.hyps(3)] runs_tick.IH by (auto simp: runs_step_ok_def)
qed

section \<open>Properties\<close>


text \<open>C14: a window of the runs loop is drained exactly. Take a loop the settings admit, a watermark
  with no window under way, a tick at which a window has settled and its projects are known,
  and a server that answers every query for that window and those projects with a page and a
  token for the next, whatever the tokens are. Then after as many ticks as there are pages,
  but no more than configured, all have succeeded, the watermark is the end of the window with
  no cursor, what was emitted is the stripped record of every run of every one of these pages,
  in order and each once, and pages are left over only if that was counted; the projects asked
  for are those of the first tick throughout, whatever the clock shows.\<close>

theorem runs_window_drained:
  assumes "newRunsLoop cfg lp d = Inr l" "wm_Cursor wm = ''''" "CheckEncodable wm = None" "runs_clock_ok l (clk 0)"
    and "runs_window l (wm_Time wm) (clk 0) = (Some (a, b), evs0)"
    and "resolveSessions net l c (clk 0) False w = (Inr S, evs1, c1, w1)" "answers_runs net l S a b pg"
  defines "pgs \<equiv> pages_from (nat (qr_maxPagesPerWindow l)) pg ''''"
  shows "runs_n net l clk (length pgs) wm c w =
    Some (\<lparr>wm_Time = b, wm_Cursor = '''', wm_Epoch = 0\<rparr>,
          concat (map (\<lambda>p. map (\<lambda>raw. runs_strip (qr_policy l) raw b) (pg_runs p)) pgs),
          evs0 @ evs1 @ (if pg_next (last pgs) \<noteq> '''' then fire (qr_deps l) (DataIncomplete ''runs'' ''window_truncated'') else []))"
proof -
  have ok: "qr_ok l" by (rule newRunsLoop_ok [OF assms(1)])
  have t: "0 \<le> wm_Time wm" using assms(3) by (simp add: CheckEncodable_None_iff)
  note f = runs_window_facts [OF ok assms(4) t assms(5)]
  obtain n where n: "nat (qr_maxPagesPerWindow l) = Suc n" "1 + int n = qr_maxPagesPerWindow l"
    using ok by (cases "nat (qr_maxPagesPerWindow l)") (auto simp: qr_ok_def)
  obtain bt w2 where drain: "runs_drain net l c (clk 0) wm False a b '''' 0 w =
      (Inr bt, evs1 @ (if pg_next (pg '''') \<noteq> '''' \<and> \<not> 0 + 1 < qr_maxPagesPerWindow l then fire (qr_deps l) (DataIncomplete ''runs'' ''window_truncated'') else []), c1, w2)"
    and bt: "bt_Logs bt = run_records l b [pg '''']"
      "bt_Watermark bt = (if pg_next (pg '''') \<noteq> '''' \<and> 0 + 1 < qr_maxPagesPerWindow l then drained_to l (wm_Time wm) a b (pg_next (pg '''')) (0 + 1) else window_end b)"
    using drain_page [OF ok assms(7,6) order.refl] n(2) by force
  have collect: "qr_Collect net l c (clk 0) wm w = (case runs_drain net l c (clk 0) wm False a b '''' 0 w of (r, evs2, c1, w1) \<Rightarrow> (r, evs0 @ evs2, c1, w1))"
    by (simp add: idle_collect [OF assms(2)] assms(5) split: prod.splits)
  have "runs_n net l clk (length pgs) wm c w = Some (window_end b, run_records l b pgs, evs0 @ evs1 @ truncation l pgs)"
  proof (cases "pg_next (pg '''') \<noteq> '''' \<and> 1 < qr_maxPagesPerWindow l")
    case True
    then have pos: "0 < n" using n(2) by simp
    then obtain m where m: "n = Suc m" by (cases n) auto
    have rest: "runs_n net l (\<lambda>i. clk (Suc i)) (length (pages_from n pg (pg_next (pg '''')))) (drained_to l (wm_Time wm) a b (pg_next (pg '''')) 1) c1 w2 =
        Some (window_end b, run_records l b (pages_from n pg (pg_next (pg ''''))), truncation l (pages_from n pg (pg_next (pg ''''))))"
      by (rule drain_rest [OF ok assms(7) f(2,3,6) resolve_fixes [OF assms(6)]]) (use n pos in auto)
    have pages: "pgs = pg '''' # pages_from n pg (pg_next (pg ''''))" using True by (simp add: pgs_def n(1))
    have trunc: "truncation l pgs = truncation l (pages_from n pg (pg_next (pg '''')))" unfolding pages by (simp add: m truncation_def)
    show ?thesis unfolding trunc unfolding pages using True bt collect drain rest by (simp add: run_records_def)
  next
    case False
    have "pg_next (pg '''') \<noteq> '''' \<Longrightarrow> n = 0" using False n(2) by auto
    then have pages: "pgs = [pg '''']" by (auto simp: pgs_def n(1))
    show ?thesis unfolding pages using False bt collect drain by (auto simp: truncation_def)
  qed
  moreover have "pgs \<noteq> []" by (simp add: pgs_def n(1))
  ultimately show ?thesis by (simp add: window_end_def run_records_def truncation_def)
qed

text \<open>A server with one run on each of three pages, and a cap of two pages.\<close>

definition page_json :: "string \<Rightarrow> string \<Rightarrow> json" where
  "page_json rid nx = JObj [(''runs'', JArr [JObj [(''id'', JStr rid)]]), (''cursors'', JObj [(''next'', JStr nx)])]"

definition paging_net :: "unit net" where
  "paging_net = \<lparr>nt_do = (\<lambda>w rq. (Inr \<lparr>rs_StatusCode = 200, rs_Header = fmempty, rs_Body = (if rq_Body rq ! 2 = CHR ''c'' then ''b'' else ''a'')\<rparr>, w)),
     nt_json = (\<lambda>s. Some (if s = ''a'' then page_json ''r1'' ''t'' else page_json ''r2'' ''t'')),
     nt_url = (\<lambda>u q. Some u), nt_sha = (\<lambda>s. s)\<rparr>"

definition runs_cfg :: loop_config where
  "runs_cfg = \<lparr>lp_Enabled = True, lp_Cadence = Minute, lp_Window = 0, lp_BucketSettle = 0, lp_BootstrapLookback = 0, lp_MaxBackfill = 0,
     lp_MetricPrefix = '''', lp_Graphs = [], lp_Settings = fmupd ''max_pages_per_window'' ''2'' (fmupd ''session_ids'' ''p'' fmempty)\<rparr>"

definition langsmith_cfg :: source_config where
  "langsmith_cfg = \<lparr>sc_Type = ''langsmith'', sc_Enabled = True, sc_BaseURL = ''u'', sc_SourceInstance = ''ls'',
     sc_Auth = \<lparr>au_Header = ''h'', au_Value = ''v''\<rparr>, sc_RateLimit = \<lparr>rl_RPS = Fin 1, rl_Burst = 1\<rparr>,
     sc_HTTP = \<lparr>hc_UserAgent = '''', hc_AllowHosts = [], hc_AllowPrivate = False\<rparr>, sc_Loops = fmempty, sc_APIKeyUseCases = []\<rparr>"

definition all_hooks :: deps where
  "all_hooks = \<lparr>dp_OnBucketRevised = True, dp_OnCapability = True, dp_OnDataIncomplete = True, dp_OnAuthError = True\<rparr>"

lemma runs_cfg_accepted:
  "applyRunsSettings defaultRunsSettings (lp_Settings runs_cfg) = Inr (defaultRunsSettings\<lparr>rs_sessionIDs := [''p''], rs_maxPagesPerWindow := 2\<rparr>)"
proof -
  have keys: "sorted_keys (lp_Settings runs_cfg) = [''max_pages_per_window'', ''session_ids'']"
    by (simp add: runs_cfg_def sorted_keys_def sorted_list_of_fset.rep_eq less_char_def)
  have csv: "langsmith_splitCSV ''p'' = [''p'']" by code_simp
  have two: "parseRunsPositiveInt ''2'' = Inr 2" by code_simp
  show ?thesis
    unfolding applyRunsSettings_def keys
    by (simp add: runs_setting_def runs_cfg_def map_get_def csv two set_with_def validateRunsSettings_def defaultRunsSettings_def runsPageSizeMax_def
          Hour_def Minute_def hardDeniedRunsFields_def AbsoluteNeverDenyKeys_def validLangsmithSelectEnum_def)
qed

definition one_runs :: runs_loop where
  "one_runs = projr (newRunsLoop langsmith_cfg runs_cfg all_hooks)"

lemma one_runs_built: "newRunsLoop langsmith_cfg runs_cfg all_hooks = Inr one_runs"
proof -
  have "lp_Window runs_cfg = 0" by (simp add: runs_cfg_def)
  then show ?thesis by (simp add: one_runs_def newRunsLoop_def runs_cfg_accepted)
qed

lemma one_runs_fields:
  "qr_window one_runs = Hour" "qr_settle one_runs = 10 * Minute" "qr_maxBackfill one_runs = 24 * Hour" "qr_maxPagesPerWindow one_runs = 2"
  "qr_sessionIDs one_runs = [''p'']" "qr_deps one_runs = all_hooks" "respCap one_runs = nat defaultRunsResponseBytes"
proof -
  have "lp_Window runs_cfg = 0" by (simp add: runs_cfg_def)
  then show "qr_window one_runs = Hour" "qr_settle one_runs = 10 * Minute" "qr_maxBackfill one_runs = 24 * Hour" "qr_maxPagesPerWindow one_runs = 2"
    "qr_sessionIDs one_runs = [''p'']" "qr_deps one_runs = all_hooks" "respCap one_runs = nat defaultRunsResponseBytes"
    by (simp_all add: one_runs_def newRunsLoop_def runs_cfg_accepted respCap_def) (simp_all add: defaultRunsSettings_def)
qed

definition paging_pages :: "string \<Rightarrow> runs_page" where
  "paging_pages tok = \<lparr>pg_runs = [fmap_of_list [(''id'', JStr (if tok = '''' then ''r1'' else ''r2''))]], pg_next = ''t''\<rparr>"

lemma query_body_head: "json_text (query_body l S a b tok) ! 2 = CHR ''c'' \<longleftrightarrow> tok \<noteq> ''''"
proof -
  have "quote ''cursor'' = CHR 0x22 # ''cursor'' @ [CHR 0x22]" "quote ''end_time'' = CHR 0x22 # ''end_time'' @ [CHR 0x22]" by code_simp+
  then show ?thesis by (simp add: query_body_def)
qed

lemma paging_answers: "answers_runs paging_net one_runs S a b paging_pages"
proof -
  have names: "ToLower ''runs'' = ''runs''" "ToLower ''cursors'' = ''cursors''" "ToLower ''next'' = ''next''" by code_simp+
  have "dec_runs_page (page_json r ''t'') = Some \<lparr>pg_runs = [fmap_of_list [(''id'', JStr r)]], pg_next = ''t''\<rparr>" for r
    by (simp add: dec_runs_page_def page_json_def names raw_map_def)
  moreover have "take (respCap one_runs) [c] = [c]" for c :: char by (simp add: one_runs_fields defaultRunsResponseBytes_def)
  ultimately show ?thesis
    by (auto simp: answers_runs_def queryRuns_def paging_net_def post_request_def query_body_head paging_pages_def StatusOK_def)
qed

definition midday :: instant where "midday = 63000000000 * Second"

lemma midday_facts:
  "runs_clock_ok one_runs midday" "runs_window one_runs 0 midday = (Some (midday - Hour, midday - 10 * Minute), [])"
  by (simp_all add: runs_clock_ok_def runs_window_def one_runs_fields midday_def Second_def Hour_def Minute_def ns_per_day_def time_Add_def IsZero_def)

lemma fresh_scope: "resolveSessions paging_net one_runs c midday False () = (Inr [''p''], [], c, ())"
  by (simp add: resolveSessions_def one_runs_fields)

lemma zero_encodable: "CheckEncodable zero_watermark = None"
  by (simp add: CheckEncodable_None_iff zero_watermark_def zero_time_def ns_per_day_def)

theorem runs_window_drained_witness:
  "runs_n paging_net one_runs (\<lambda>_. midday) 2 zero_watermark \<lparr>sc_sessions = [], sc_at = 0\<rparr> () =
     Some (\<lparr>wm_Time = midday - 10 * Minute, wm_Cursor = '''', wm_Epoch = 0\<rparr>,
       map (\<lambda>r. runs_strip (qr_policy one_runs) (fmap_of_list [(''id'', JStr r)]) (midday - 10 * Minute)) [''r1'', ''r2''],
       [DataIncomplete ''runs'' ''window_truncated''])"
proof -
  have zero: "wm_Cursor zero_watermark = ''''" "wm_Time zero_watermark = 0" by (simp_all add: zero_watermark_def zero_time_def)
  have pages: "pages_from (nat (qr_maxPagesPerWindow one_runs)) paging_pages '''' = [paging_pages '''', paging_pages ''t'']"
    by (simp add: one_runs_fields numeral_2_eq_2 paging_pages_def)
  have win: "runs_window one_runs (wm_Time zero_watermark) ((\<lambda>_. midday) (0 :: nat)) = (Some (midday - Hour, midday - 10 * Minute), [])"
    unfolding zero by (rule midday_facts)
  have hooks: "fire (qr_deps one_runs) (DataIncomplete ''runs'' ''window_truncated'') = [DataIncomplete ''runs'' ''window_truncated'']"
    by (simp add: one_runs_fields fire_def all_hooks_def)
  note t = runs_window_drained [OF one_runs_built zero(1) zero_encodable _ win fresh_scope paging_answers, unfolded pages hooks]
  show ?thesis using t midday_facts(1) by (simp add: paging_pages_def numeral_2_eq_2)
qed


end
