(* ===== verification/Langsmith_Sessions.thy ===== *)
theory Langsmith_Sessions
  imports Langsmith_Runs "HOL-Library.Monad_Syntax"
begin

text \<open>
  The LangSmith sessions loop: costs (\<^verbatim>\<open>internal/source/langsmith/money.go\<close>), the derivation of gauges
  (\<^verbatim>\<open>derive.go\<close>), settings (\<^verbatim>\<open>settings.go\<close>) and the loop (\<^verbatim>\<open>langsmith.go\<close>). \<^verbatim>\<open>strconv.ParseFloat\<close> on a
  quoted cost is a parameter; a cost is absent or a value.
\<close>

section \<open>Decoding\<close>

text \<open>A pointer field: null resets it.\<close>

fun dec_ptr :: "(json \<Rightarrow> 'a \<Rightarrow> 'a option) \<Rightarrow> 'a \<Rightarrow> json \<Rightarrow> 'a option \<Rightarrow> 'a option option" where
  "dec_ptr d z JNull old = Some None"
| "dec_ptr d z j old = map_option Some (d j (case old of None \<Rightarrow> z | Some v \<Rightarrow> v))"

fun dec_money :: "(string \<Rightarrow> float64 option) \<Rightarrow> json \<Rightarrow> float64 option \<Rightarrow> float64 option option" where
  "dec_money pf JNull old = Some old"
| "dec_money pf (JStr s) old = (if TrimSpace s = '''' then Some old else map_option Some (pf (TrimSpace s)))"
| "dec_money pf (JNum n) old = map_option Some (number_float n)"
| "dec_money pf _ old = None"

record feedback_stat =
  fs_N :: "int option"
  fs_Avg :: "float64 option"

definition dec_feedback_stat :: "json \<Rightarrow> feedback_stat option" where
  "dec_feedback_stat j = do {
     kvs \<leftarrow> json_fields j;
     n \<leftarrow> dec_field (dec_ptr dec_int 0) ''n'' kvs None;
     avg \<leftarrow> dec_field (dec_ptr dec_float (Fin 0)) ''avg'' kvs None;
     Some \<lparr>fs_N = n, fs_Avg = avg\<rparr> }"

fun dec_entries :: "(json \<Rightarrow> 'a option) \<Rightarrow> (string \<times> json) list \<Rightarrow> (string, 'a) fmap \<Rightarrow> (string, 'a) fmap option" where
  "dec_entries d [] m = Some m"
| "dec_entries d ((k, j) # kvs) m = (case d j of None \<Rightarrow> None | Some v \<Rightarrow> dec_entries d kvs (fmupd k v m))"

fun dec_map :: "(json \<Rightarrow> 'a option) \<Rightarrow> json \<Rightarrow> (string, 'a) fmap \<Rightarrow> (string, 'a) fmap option" where
  "dec_map d JNull old = Some fmempty"
| "dec_map d (JObj kvs) old = dec_entries d kvs old"
| "dec_map d _ old = None"

record tracer_session =
  ts_ID :: string
  ts_Name :: string
  ts_RunCount :: "int option"
  ts_LatencyP50 :: "float64 option"
  ts_LatencyP99 :: "float64 option"
  ts_FirstTokenP50 :: "float64 option"
  ts_FirstTokenP99 :: "float64 option"
  ts_TotalTokens :: "int option"
  ts_PromptTokens :: "int option"
  ts_CompletionTokens :: "int option"
  ts_TotalCost :: "float64 option"
  ts_PromptCost :: "float64 option"
  ts_CompletionCost :: "float64 option"
  ts_ErrorRate :: "float64 option"
  ts_StreamingRate :: "float64 option"
  ts_FeedbackStats :: "(string, feedback_stat) fmap"

definition dec_tracer_session :: "(string \<Rightarrow> float64 option) \<Rightarrow> json \<Rightarrow> tracer_session option" where
  "dec_tracer_session pf j = do {
     kvs \<leftarrow> json_fields j;
     i \<leftarrow> dec_field dec_string ''id'' kvs '''';
     nm \<leftarrow> dec_field dec_string ''name'' kvs '''';
     rc \<leftarrow> dec_field (dec_ptr dec_int 0) ''run_count'' kvs None;
     l50 \<leftarrow> dec_field (dec_ptr dec_float (Fin 0)) ''latency_p50'' kvs None;
     l99 \<leftarrow> dec_field (dec_ptr dec_float (Fin 0)) ''latency_p99'' kvs None;
     f50 \<leftarrow> dec_field (dec_ptr dec_float (Fin 0)) ''first_token_p50'' kvs None;
     f99 \<leftarrow> dec_field (dec_ptr dec_float (Fin 0)) ''first_token_p99'' kvs None;
     tt \<leftarrow> dec_field (dec_ptr dec_int 0) ''total_tokens'' kvs None;
     pt \<leftarrow> dec_field (dec_ptr dec_int 0) ''prompt_tokens'' kvs None;
     ct \<leftarrow> dec_field (dec_ptr dec_int 0) ''completion_tokens'' kvs None;
     tc \<leftarrow> dec_field (dec_money pf) ''total_cost'' kvs None;
     pc \<leftarrow> dec_field (dec_money pf) ''prompt_cost'' kvs None;
     cc \<leftarrow> dec_field (dec_money pf) ''completion_cost'' kvs None;
     er \<leftarrow> dec_field (dec_ptr dec_float (Fin 0)) ''error_rate'' kvs None;
     sr \<leftarrow> dec_field (dec_ptr dec_float (Fin 0)) ''streaming_rate'' kvs None;
     fb \<leftarrow> dec_field (dec_map dec_feedback_stat) ''feedback_stats'' kvs fmempty;
     Some \<lparr>ts_ID = i, ts_Name = nm, ts_RunCount = rc, ts_LatencyP50 = l50, ts_LatencyP99 = l99, ts_FirstTokenP50 = f50, ts_FirstTokenP99 = f99,
       ts_TotalTokens = tt, ts_PromptTokens = pt, ts_CompletionTokens = ct, ts_TotalCost = tc, ts_PromptCost = pc, ts_CompletionCost = cc,
       ts_ErrorRate = er, ts_StreamingRate = sr, ts_FeedbackStats = fb\<rparr> }"

section \<open>Derivation\<close>

record derive_config =
  dv_prefix :: string
  dv_sessionLabelKey :: string
  dv_useName :: bool
  dv_emitFeedback :: bool
  dv_feedbackAllow :: "string list"

definition ts_label :: "tracer_session \<Rightarrow> bool \<Rightarrow> string" where
  "ts_label s useName = (if useName then ts_Name s else ts_ID s)"

definition session_gauge :: "derive_config \<Rightarrow> instant \<Rightarrow> string \<Rightarrow> string \<Rightarrow> float64 \<Rightarrow> (string \<times> string) list \<Rightarrow> sample" where
  "session_gauge cfg stamp sessVal sfx v extra =
     \<lparr>smp_Name = dv_prefix cfg @ ''_'' @ sfx, smp_Kind = Gauge, smp_Temporality = TempUnset, smp_Monotonic = False, smp_Unit = '''',
      smp_Labels = fold (\<lambda>(k, x) m. fmupd k x m) extra (fmupd (dv_sessionLabelKey cfg) sessVal fmempty), smp_Value = v, smp_Timestamp = stamp\<rparr>"

definition opt_gauge :: "(float64 \<Rightarrow> sample) \<Rightarrow> float64 option \<Rightarrow> sample list" where
  "opt_gauge g v = (case v of None \<Rightarrow> [] | Some x \<Rightarrow> [g x])"

definition feedback_samples :: "derive_config \<Rightarrow> instant \<Rightarrow> string \<Rightarrow> (string, feedback_stat) fmap \<Rightarrow> string \<Rightarrow> sample list" where
  "feedback_samples cfg stamp sessVal m k =
     (case fmlookup m k of
        None \<Rightarrow> []
      | Some fs \<Rightarrow>
          (case fs_Avg fs of
             None \<Rightarrow> []
           | Some avg \<Rightarrow>
               (if dv_feedbackAllow cfg \<noteq> [] \<and> k \<notin> set (dv_feedbackAllow cfg) then []
                else session_gauge cfg stamp sessVal ''feedback_score'' avg [(''feedback_key'', k)] #
                     opt_gauge (\<lambda>v. session_gauge cfg stamp sessVal ''feedback_count'' v [(''feedback_key'', k)]) (map_option f_of_int (fs_N fs)))))"

definition session_samples :: "derive_config \<Rightarrow> instant \<Rightarrow> tracer_session \<Rightarrow> sample list" where
  "session_samples cfg stamp s =
     (let sv = ts_label s (dv_useName cfg); g = session_gauge cfg stamp sv;
          floatGauge = (\<lambda>sfx v. opt_gauge (\<lambda>x. g sfx x []) v);
          intGauge = (\<lambda>sfx v. floatGauge sfx (map_option f_of_int v));
          quantiles = (\<lambda>sfx p50 p99. opt_gauge (\<lambda>x. g sfx x [(''quantile'', ''p50'')]) p50 @ opt_gauge (\<lambda>x. g sfx x [(''quantile'', ''p99'')]) p99)
      in concat
        [intGauge ''runs'' (ts_RunCount s), quantiles ''latency_seconds'' (ts_LatencyP50 s) (ts_LatencyP99 s),
         quantiles ''first_token_seconds'' (ts_FirstTokenP50 s) (ts_FirstTokenP99 s),
         intGauge ''tokens'' (ts_TotalTokens s), intGauge ''prompt_tokens'' (ts_PromptTokens s), intGauge ''completion_tokens'' (ts_CompletionTokens s),
         floatGauge ''cost_usd'' (ts_TotalCost s), floatGauge ''prompt_cost_usd'' (ts_PromptCost s), floatGauge ''completion_cost_usd'' (ts_CompletionCost s),
         floatGauge ''error_rate'' (ts_ErrorRate s), floatGauge ''streaming_rate'' (ts_StreamingRate s),
         if dv_emitFeedback cfg then concat (map (feedback_samples cfg stamp sv (ts_FeedbackStats s)) (sorted_keys (ts_FeedbackStats s))) else []])"

text \<open>The sessions are sorted by an identifier no two of them share.\<close>

definition sessions_derive :: "tracer_session list \<Rightarrow> derive_config \<Rightarrow> instant \<Rightarrow> sample list" where
  "sessions_derive sessions cfg now = concat (map (session_samples cfg (time_Truncate now Minute)) (sort_key ts_ID sessions))"

section \<open>Settings\<close>

record langsmith_config =
  lc_BaseURL :: string
  lc_AuthHeader :: string
  lc_AuthValue :: string
  lc_SourceInstance :: string
  lc_Prefix :: string
  lc_Cadence :: duration
  lc_StatsWindow :: duration
  lc_UseApproxStats :: bool
  lc_SessionFilter :: string
  lc_SessionLabelKey :: string
  lc_SessionLabelValue :: string
  lc_PageLimit :: int
  lc_MaxSessions :: int
  lc_EmitFeedback :: bool
  lc_FeedbackKeys :: "string list"

definition validateSessionLabelValue :: "string \<Rightarrow> string option" where
  "validateSessionLabelValue v = (if v \<noteq> ''id'' \<and> v \<noteq> ''name'' then Some ''session_label_value must be id or name'' else None)"

definition label_value :: "string \<Rightarrow> string + string" where
  "label_value v = (case validateSessionLabelValue v of Some e \<Rightarrow> Inl e | None \<Rightarrow> Inr v)"

definition above_zero :: "string \<Rightarrow> string + int" where
  "above_zero v = (case ParseInt v of None \<Rightarrow> Inl ''invalid syntax'' | Some n \<Rightarrow> if n \<le> 0 then Inl ''must be > 0'' else Inr n)"

definition any_duration :: "string \<Rightarrow> string + duration" where
  "any_duration v = (case ParseDuration v of None \<Rightarrow> Inl ''invalid duration'' | Some d \<Rightarrow> Inr d)"

definition sessions_setting :: "string \<Rightarrow> string \<Rightarrow> langsmith_config \<Rightarrow> string + langsmith_config" where
  "sessions_setting k v cfg =
     (if k = ''stats_window'' then set_with (any_duration v) (\<lambda>d. cfg\<lparr>lc_StatsWindow := d\<rparr>)
      else if k = ''use_approx_stats'' then set_with (parse_bool v) (\<lambda>b. cfg\<lparr>lc_UseApproxStats := b\<rparr>)
      else if k = ''session_filter'' then Inr (cfg\<lparr>lc_SessionFilter := v\<rparr>)
      else if k = ''session_label_value'' then set_with (label_value v) (\<lambda>x. cfg\<lparr>lc_SessionLabelValue := x\<rparr>)
      else if k = ''page_limit'' then set_with (above_zero v) (\<lambda>n. cfg\<lparr>lc_PageLimit := n\<rparr>)
      else if k = ''max_sessions'' then set_with (above_zero v) (\<lambda>n. cfg\<lparr>lc_MaxSessions := n\<rparr>)
      else if k = ''emit_feedback'' then set_with (parse_bool v) (\<lambda>b. cfg\<lparr>lc_EmitFeedback := b\<rparr>)
      else if k = ''feedback_keys'' then Inr (cfg\<lparr>lc_FeedbackKeys := langsmith_splitCSV v\<rparr>)
      else Inr cfg)"

definition applySettings :: "langsmith_config \<Rightarrow> (string, string) fmap \<Rightarrow> string + langsmith_config" where
  "applySettings cfg s = apply_each sessions_setting s (sorted_keys s) cfg"

text \<open>The configuration of the sessions loop before its settings, with the defaults of \<^verbatim>\<open>defaultSessionsSettings\<close>.\<close>

definition sessions_config :: "source_config \<Rightarrow> loop_config \<Rightarrow> langsmith_config" where
  "sessions_config sc lp =
     \<lparr>lc_BaseURL = sc_BaseURL sc, lc_AuthHeader = au_Header (sc_Auth sc), lc_AuthValue = au_Value (sc_Auth sc),
      lc_SourceInstance = sc_SourceInstance sc, lc_Prefix = lp_MetricPrefix lp, lc_Cadence = lp_Cadence lp,
      lc_StatsWindow = Hour, lc_UseApproxStats = False, lc_SessionFilter = '''', lc_SessionLabelKey = ''session'',
      lc_SessionLabelValue = ''id'', lc_PageLimit = 100, lc_MaxSessions = 1000, lc_EmitFeedback = True, lc_FeedbackKeys = []\<rparr>"

section \<open>The loop\<close>

record sessions_loop =
  sl_baseURL :: string
  sl_authHdr :: string
  sl_authVal :: string
  sl_prefix :: string
  sl_sourceInstance :: string
  sl_cadence :: duration
  sl_statsWindow :: duration
  sl_useApproxStats :: bool
  sl_sessionFilter :: string
  sl_pageLimit :: int
  sl_maxSessions :: int
  sl_deriveCfg :: derive_config
  sl_deps :: deps

definition newSessionsLoop :: "langsmith_config \<Rightarrow> deps \<Rightarrow> string + sessions_loop" where
  "newSessionsLoop cfg d =
     (if lc_AuthHeader cfg = '''' \<or> lc_AuthValue cfg = '''' then Inl ''langsmith: auth header and value are required''
      else if lc_BaseURL cfg = '''' then Inl ''langsmith: base_url is required''
      else
        let pfx = or_else (lc_Prefix cfg = '''') ''langsmith'' (lc_Prefix cfg) in
        Inr \<lparr>sl_baseURL = lc_BaseURL cfg, sl_authHdr = lc_AuthHeader cfg, sl_authVal = lc_AuthValue cfg,
             sl_prefix = pfx, sl_sourceInstance = lc_SourceInstance cfg,
             sl_cadence = or_else (lc_Cadence cfg \<le> 0) Minute (lc_Cadence cfg),
             sl_statsWindow = or_else (lc_StatsWindow cfg \<le> 0) Hour (lc_StatsWindow cfg), sl_useApproxStats = lc_UseApproxStats cfg,
             sl_sessionFilter = lc_SessionFilter cfg, sl_pageLimit = or_else (lc_PageLimit cfg \<le> 0) 100 (lc_PageLimit cfg),
             sl_maxSessions = or_else (lc_MaxSessions cfg \<le> 0) 1000 (lc_MaxSessions cfg),
             sl_deriveCfg = \<lparr>dv_prefix = pfx, dv_sessionLabelKey = or_else (lc_SessionLabelKey cfg = '''') ''session'' (lc_SessionLabelKey cfg),
               dv_useName = (lc_SessionLabelValue cfg = ''name''), dv_emitFeedback = lc_EmitFeedback cfg, dv_feedbackAllow = lc_FeedbackKeys cfg\<rparr>,
             sl_deps = d\<rparr>)"

definition session_suffixes :: "string list" where
  "session_suffixes = [''runs'', ''latency_seconds'', ''first_token_seconds'', ''tokens'', ''prompt_tokens'', ''completion_tokens'',
     ''cost_usd'', ''prompt_cost_usd'', ''completion_cost_usd'', ''error_rate'', ''streaming_rate'', ''feedback_score'', ''feedback_count'']"

definition sl_SeriesNames :: "sessions_loop \<Rightarrow> string list" where
  "sl_SeriesNames l = map (\<lambda>s. sl_prefix l @ ''_'' @ s) session_suffixes"

definition sl_Key :: "'w net \<Rightarrow> sessions_loop \<Rightarrow> checkpoint_key" where
  "sl_Key net l = \<lparr>ck_SourceInstance = sl_sourceInstance l, ck_Loop = ''sessions'',
     ck_OutputFingerprint = Fingerprint (nt_sha net) (sl_SeriesNames l) (''prefix='' @ sl_prefix l)\<rparr>"

definition ls_maxResponseBytes :: nat where "ls_maxResponseBytes = 32 * 2 ^ 20"

text \<open>
  A page of the list for either loop: the answer decoded, or the error of the collection
  with the signal of a refused credential.
\<close>

definition list_page ::
  "'w net \<Rightarrow> (json \<Rightarrow> 's option) \<Rightarrow> string \<Rightarrow> string \<Rightarrow> string \<Rightarrow> (string, string) fmap \<Rightarrow> string \<Rightarrow> source_event list \<Rightarrow> 'w \<Rightarrow>
     (collect_error \<times> source_event list + 's list) \<times> 'w" where
  "list_page net d baseURL hdr val q pre auth w =
     (case nt_url net (baseURL @ ''/sessions'') (values_Encode q) of
        None \<Rightarrow> (Inl (CollectFailed (pre @ '': fetch sessions''), []), w)
      | Some url \<Rightarrow>
          (case fetch_json net ls_maxResponseBytes (\<lambda>j. dec_list d j []) [] (get_request url hdr val) w of
             (Inl e, w1) \<Rightarrow> (Inl (CollectFailed (pre @ '': fetch sessions: '' @ e), []), w1)
           | (Inr (page, code), w1) \<Rightarrow>
               (if code = StatusOK then (Inr page, w1)
                else if code = StatusTooManyRequests then (Inl (ErrQuotaExceeded, []), w1)
                else (Inl (CollectFailed (pre @ '': sessions status '' @ FormatInt code), if IsAuthStatus code then auth else []), w1))))"

definition sl_query :: "sessions_loop \<Rightarrow> instant \<Rightarrow> int \<Rightarrow> (string, string) fmap" where
  "sl_query l statsStart offset =
     (let q0 = fmupd ''include_stats'' ''true'' fmempty;
          q1 = (if sl_useApproxStats l then fmupd ''use_approx_stats'' ''true'' q0 else q0)
      in setSessionsPageQuery (fmupd ''stats_start_time'' (FormatRFC3339 statsStart) q1) (sl_pageLimit l) offset (sl_sessionFilter l))"

definition sl_fetchPage ::
  "(string \<Rightarrow> float64 option) \<Rightarrow> 'w net \<Rightarrow> sessions_loop \<Rightarrow> instant \<Rightarrow> int \<Rightarrow> 'w \<Rightarrow> (collect_error \<times> source_event list + tracer_session list) \<times> 'w" where
  "sl_fetchPage pf net l statsStart offset w =
     list_page net (dec_tracer_session pf) (sl_baseURL l) (sl_authHdr l) (sl_authVal l) (sl_query l statsStart offset) ''langsmith''
       (fire (sl_deps l) (AuthError ''sessions'' (sl_sourceInstance l))) w"

definition sl_Collect ::
  "(string \<Rightarrow> float64 option) \<Rightarrow> 'w net \<Rightarrow> sessions_loop \<Rightarrow> instant \<Rightarrow> watermark \<Rightarrow> 'w \<Rightarrow> (collect_error + batch) \<times> source_event list \<times> 'w" where
  "sl_Collect pf net l now since w =
     (case page_all (sl_fetchPage pf net l (time_Add now (- sl_statsWindow l))) (\<lambda>_. False) ts_ID (sl_maxSessions l) (sl_pageLimit l) 0 [] w of
        (Inl (e, evs), w1) \<Rightarrow> (Inl e, evs, w1)
      | (Inr (sessions, capped), w1) \<Rightarrow>
          (Inr \<lparr>bt_Key = sl_Key net l, bt_Samples = sessions_derive sessions (sl_deriveCfg l) now, bt_Logs = [], bt_Watermark = since\<lparr>wm_Time := now\<rparr>\<rparr>, [], w1))"

end
