(* ===== verification/Langsmith_Usage.thy ===== *)
theory Langsmith_Usage
  imports Langsmith_Sessions
begin

text \<open>
  The LangSmith usage loop (\<^verbatim>\<open>internal/source/langsmith/usage.go\<close>, \<^verbatim>\<open>usage_stats.go\<close>, \<^verbatim>\<open>usage_derive.go\<close>) and the
  constructor of the source (\<^verbatim>\<open>langsmith.go\<close>).
\<close>

section \<open>Derivation\<close>

record usage_session =
  us_ID :: string
  us_Name :: string
  us_RunCount :: "int option"
  us_TraceTier :: string

definition dec_usage_session :: "json \<Rightarrow> usage_session option" where
  "dec_usage_session j = do {
     kvs \<leftarrow> json_fields j;
     i \<leftarrow> dec_field dec_string ''id'' kvs '''';
     nm \<leftarrow> dec_field dec_string ''name'' kvs '''';
     rc \<leftarrow> dec_field (dec_ptr dec_int 0) ''run_count'' kvs None;
     tier \<leftarrow> dec_field dec_string ''trace_tier'' kvs '''';
     Some \<lparr>us_ID = i, us_Name = nm, us_RunCount = rc, us_TraceTier = tier\<rparr> }"

definition us_label :: "usage_session \<Rightarrow> bool \<Rightarrow> string" where
  "us_label s useName = (if useName \<and> us_Name s \<noteq> '''' then us_Name s else us_ID s)"

record usage_derive_config =
  ud_prefix :: string
  ud_sessionLabelKey :: string
  ud_useName :: bool

definition usage_gauge :: "usage_derive_config \<Rightarrow> instant \<Rightarrow> usage_session \<Rightarrow> string \<Rightarrow> int \<Rightarrow> sample" where
  "usage_gauge cfg stamp s name v =
     \<lparr>smp_Name = ud_prefix cfg @ name, smp_Kind = Gauge, smp_Temporality = TempUnset, smp_Monotonic = False, smp_Unit = '''',
      smp_Labels = fmupd ''retention_tier'' (if us_TraceTier s = '''' then ''unknown'' else us_TraceTier s)
        (fmupd (ud_sessionLabelKey cfg) (us_label s (ud_useName cfg)) fmempty),
      smp_Value = f_of_int v, smp_Timestamp = stamp\<rparr>"

definition usage_samples :: "usage_derive_config \<Rightarrow> instant \<Rightarrow> (string, int) fmap \<Rightarrow> usage_session \<Rightarrow> sample list" where
  "usage_samples cfg stamp spans s =
     (case us_RunCount s of None \<Rightarrow> [] | Some n \<Rightarrow> [usage_gauge cfg stamp s ''_usage_traces'' n]) @
     (case fmlookup spans (us_ID s) of None \<Rightarrow> [] | Some n \<Rightarrow> [usage_gauge cfg stamp s ''_usage_spans'' n])"

definition usageDerive :: "usage_session list \<Rightarrow> (string, int) fmap \<Rightarrow> usage_derive_config \<Rightarrow> instant \<Rightarrow> sample list" where
  "usageDerive sessions spans cfg now = concat (map (usage_samples cfg (time_Truncate now Minute) spans) (sort_key us_ID sessions))"

section \<open>Settings\<close>

record usage_config =
  ug_BaseURL :: string
  ug_AuthHeader :: string
  ug_AuthValue :: string
  ug_SourceInstance :: string
  ug_Prefix :: string
  ug_Cadence :: duration
  ug_StatsWindow :: duration
  ug_SessionFilter :: string
  ug_SessionLabelKey :: string
  ug_SessionLabelValue :: string
  ug_PageLimit :: int
  ug_MaxSessions :: int
  ug_EmitSpanCounts :: bool

definition usage_setting :: "string \<Rightarrow> string \<Rightarrow> usage_config \<Rightarrow> string + usage_config" where
  "usage_setting k v cfg =
     (if k = ''stats_window'' then set_with (any_duration v) (\<lambda>d. cfg\<lparr>ug_StatsWindow := d\<rparr>)
      else if k = ''session_filter'' then Inr (cfg\<lparr>ug_SessionFilter := v\<rparr>)
      else if k = ''session_label_value'' then set_with (label_value v) (\<lambda>x. cfg\<lparr>ug_SessionLabelValue := x\<rparr>)
      else if k = ''page_limit'' then set_with (above_zero v) (\<lambda>n. cfg\<lparr>ug_PageLimit := n\<rparr>)
      else if k = ''max_sessions'' then set_with (above_zero v) (\<lambda>n. cfg\<lparr>ug_MaxSessions := n\<rparr>)
      else if k = ''emit_span_counts'' then set_with (parse_bool v) (\<lambda>b. cfg\<lparr>ug_EmitSpanCounts := b\<rparr>)
      else Inr cfg)"

definition applyUsageSettings :: "usage_config \<Rightarrow> (string, string) fmap \<Rightarrow> string + usage_config" where
  "applyUsageSettings cfg s = apply_each usage_setting s (sorted_keys s) cfg"

text \<open>The configuration before the settings, with the defaults of \<^verbatim>\<open>defaultUsageSettings\<close>.\<close>

definition usage_config_of :: "source_config \<Rightarrow> loop_config \<Rightarrow> usage_config" where
  "usage_config_of sc lp =
     \<lparr>ug_BaseURL = sc_BaseURL sc, ug_AuthHeader = au_Header (sc_Auth sc), ug_AuthValue = au_Value (sc_Auth sc),
      ug_SourceInstance = sc_SourceInstance sc, ug_Prefix = lp_MetricPrefix lp, ug_Cadence = lp_Cadence lp,
      ug_StatsWindow = 10 * Minute, ug_SessionFilter = '''', ug_SessionLabelKey = ''session'', ug_SessionLabelValue = ''id'',
      ug_PageLimit = 100, ug_MaxSessions = 1000, ug_EmitSpanCounts = True\<rparr>"

section \<open>The loop\<close>

record usage_loop =
  ul_baseURL :: string
  ul_authHdr :: string
  ul_authVal :: string
  ul_prefix :: string
  ul_sourceInstance :: string
  ul_cadence :: duration
  ul_statsWindow :: duration
  ul_sessionFilter :: string
  ul_pageLimit :: int
  ul_maxSessions :: int
  ul_emitSpanCounts :: bool
  ul_deriveCfg :: usage_derive_config
  ul_deps :: deps

definition newUsageLoop :: "usage_config \<Rightarrow> deps \<Rightarrow> string + usage_loop" where
  "newUsageLoop cfg d =
     (if ug_AuthHeader cfg = '''' \<or> ug_AuthValue cfg = '''' then Inl ''langsmith usage: auth header and value are required''
      else if ug_BaseURL cfg = '''' then Inl ''langsmith usage: base_url is required''
      else
        let pfx = or_else (ug_Prefix cfg = '''') ''langsmith'' (ug_Prefix cfg) in
        Inr \<lparr>ul_baseURL = ug_BaseURL cfg, ul_authHdr = ug_AuthHeader cfg, ul_authVal = ug_AuthValue cfg,
             ul_prefix = pfx, ul_sourceInstance = ug_SourceInstance cfg,
             ul_cadence = or_else (ug_Cadence cfg \<le> 0) (10 * Minute) (ug_Cadence cfg),
             ul_statsWindow = or_else (ug_StatsWindow cfg \<le> 0) (10 * Minute) (ug_StatsWindow cfg),
             ul_sessionFilter = ug_SessionFilter cfg, ul_pageLimit = or_else (ug_PageLimit cfg \<le> 0) 100 (ug_PageLimit cfg),
             ul_maxSessions = or_else (ug_MaxSessions cfg \<le> 0) 1000 (ug_MaxSessions cfg), ul_emitSpanCounts = ug_EmitSpanCounts cfg,
             ul_deriveCfg = \<lparr>ud_prefix = pfx, ud_sessionLabelKey = or_else (ug_SessionLabelKey cfg = '''') ''session'' (ug_SessionLabelKey cfg),
               ud_useName = (ug_SessionLabelValue cfg = ''name'')\<rparr>,
             ul_deps = d\<rparr>)"

definition ul_SeriesNames :: "usage_loop \<Rightarrow> string list" where
  "ul_SeriesNames l = [ul_prefix l @ ''_usage_traces'', ul_prefix l @ ''_usage_spans'']"

definition ul_Key :: "'w net \<Rightarrow> usage_loop \<Rightarrow> checkpoint_key" where
  "ul_Key net l = \<lparr>ck_SourceInstance = ul_sourceInstance l, ck_Loop = ''usage'',
     ck_OutputFingerprint = Fingerprint (nt_sha net) (ul_SeriesNames l) (''prefix='' @ ul_prefix l)\<rparr>"

definition ul_query :: "usage_loop \<Rightarrow> instant \<Rightarrow> int \<Rightarrow> (string, string) fmap" where
  "ul_query l statsStart offset =
     setSessionsPageQuery (fmupd ''stats_start_time'' (FormatRFC3339 statsStart) (fmupd ''include_stats'' ''true'' fmempty))
       (ul_pageLimit l) offset (ul_sessionFilter l)"

definition ul_auth :: "usage_loop \<Rightarrow> source_event list" where
  "ul_auth l = fire (ul_deps l) (AuthError ''usage'' (ul_sourceInstance l))"

definition ul_fetchPage ::
  "'w net \<Rightarrow> usage_loop \<Rightarrow> instant \<Rightarrow> int \<Rightarrow> 'w \<Rightarrow> (collect_error \<times> source_event list + usage_session list) \<times> 'w" where
  "ul_fetchPage net l statsStart offset w =
     list_page net dec_usage_session (ul_baseURL l) (ul_authHdr l) (ul_authVal l) (ul_query l statsStart offset) ''langsmith usage'' (ul_auth l) w"

definition dec_run_count :: "json \<Rightarrow> int option option" where
  "dec_run_count j = Option.bind (json_fields j) (\<lambda>kvs. dec_field (dec_ptr dec_int 0) ''run_count'' kvs None)"

text \<open>The count, the status (zero without an answer) and whether there was an error.\<close>

definition fetchSpanCount :: "'w net \<Rightarrow> usage_loop \<Rightarrow> string \<Rightarrow> instant \<Rightarrow> 'w \<Rightarrow> (int option \<times> int \<times> bool) \<times> 'w" where
  "fetchSpanCount net l sessionID statsStart w =
     (case nt_do net w (post_request (ul_baseURL l @ ''/runs/stats'') (ul_authHdr l) (ul_authVal l)
             (JObj [(''session'', JArr [JStr sessionID]), (''start_time'', JStr (FormatRFC3339 statsStart))])) of
        (Inl e, w1) \<Rightarrow> ((None, 0, True), w1)
      | (Inr r, w1) \<Rightarrow>
          (if rs_StatusCode r \<noteq> StatusOK then ((None, rs_StatusCode r, False), w1)
           else case Option.bind (nt_json net (take ls_maxResponseBytes (rs_Body r))) dec_run_count of
             None \<Rightarrow> ((None, StatusOK, True), w1)
           | Some n \<Rightarrow> ((n, StatusOK, False), w1)))"

fun span_counts ::
  "'w net \<Rightarrow> usage_loop \<Rightarrow> instant \<Rightarrow> usage_session list \<Rightarrow> (string, int) fmap \<Rightarrow> 'w \<Rightarrow> (collect_error + (string, int) fmap) \<times> source_event list \<times> 'w" where
  "span_counts net l statsStart [] spans w = (Inr spans, [], w)"
| "span_counts net l statsStart (s # ss) spans w =
     (case fetchSpanCount net l (us_ID s) statsStart w of
        ((n, code, failed), w1) \<Rightarrow>
          (if code = StatusTooManyRequests then (Inl ErrQuotaExceeded, [], w1)
           else if failed \<or> code \<noteq> StatusOK \<or> n = None then
             (case span_counts net l statsStart ss spans w1 of (r, evs, w2) \<Rightarrow>
                (r, (if IsAuthStatus code then ul_auth l else []) @ fire (ul_deps l) (DataIncomplete ''usage'' ''span_stats_unavailable'') @ evs, w2))
           else span_counts net l statsStart ss (fmupd (us_ID s) (the n) spans) w1))"

definition ul_Collect :: "'w net \<Rightarrow> usage_loop \<Rightarrow> instant \<Rightarrow> watermark \<Rightarrow> 'w \<Rightarrow> (collect_error + batch) \<times> source_event list \<times> 'w" where
  "ul_Collect net l now since w =
     (let statsStart = time_Add now (- ul_statsWindow l) in
      case page_all (ul_fetchPage net l statsStart) (\<lambda>_. False) us_ID (ul_maxSessions l) (ul_pageLimit l) 0 [] w of
        (Inl (e, evs), w1) \<Rightarrow> (Inl e, evs, w1)
      | (Inr (sessions, capped), w1) \<Rightarrow>
          (case (if ul_emitSpanCounts l then span_counts net l statsStart sessions fmempty w1 else (Inr fmempty, [], w1)) of
             (Inl e, evs, w2) \<Rightarrow> (Inl e, evs, w2)
           | (Inr spans, evs, w2) \<Rightarrow>
               (Inr \<lparr>bt_Key = ul_Key net l, bt_Samples = usageDerive sessions spans (ul_deriveCfg l) now, bt_Logs = [],
                     bt_Watermark = since\<lparr>wm_Time := now\<rparr>\<rparr>, evs, w2)))"

section \<open>The source\<close>

datatype langsmith_loop = SessionsLoop sessions_loop | RunsLoop runs_loop | UsageLoop usage_loop

definition langsmith_newClient :: "source_config \<Rightarrow> bool \<Rightarrow> httpx_config" where
  "langsmith_newClient sc observed =
     \<lparr>hx_UserAgent = or_else (hc_UserAgent (sc_HTTP sc) = '''') ''genai-otel-bridge/0.1'' (hc_UserAgent (sc_HTTP sc)), hx_Timeout = 30 * Second,
      hx_AllowHosts = hc_AllowHosts (sc_HTTP sc), hx_AllowPrivate = hc_AllowPrivate (sc_HTTP sc), hx_Limiter = True, hx_Observer = observed\<rparr>"

definition build_sessions :: "source_config \<Rightarrow> deps \<Rightarrow> loop_config \<Rightarrow> string + langsmith_loop" where
  "build_sessions sc d lp =
     (case applySettings (sessions_config sc lp) (lp_Settings lp) of
        Inl e \<Rightarrow> Inl (''langsmith: setting: '' @ e) | Inr cfg \<Rightarrow> set_with (newSessionsLoop cfg d) SessionsLoop)"

definition build_usage :: "source_config \<Rightarrow> deps \<Rightarrow> loop_config \<Rightarrow> string + langsmith_loop" where
  "build_usage sc d lp =
     (case applyUsageSettings (usage_config_of sc lp) (lp_Settings lp) of
        Inl e \<Rightarrow> Inl (''langsmith usage: setting: '' @ e) | Inr cfg \<Rightarrow> set_with (newUsageLoop cfg d) UsageLoop)"

definition langsmith_New :: "source_config \<Rightarrow> deps \<Rightarrow> string + langsmith_loop list" where
  "langsmith_New sc d =
     (let s = loop_enabled sc ''sessions''; r = loop_enabled sc ''runs''; u = loop_enabled sc ''usage'' in
      if (case s of None \<Rightarrow> False | Some lp \<Rightarrow> lp_Window lp \<noteq> 0) then Inl ''langsmith: loops.sessions.window must be unset/0''
      else if (case u of None \<Rightarrow> False | Some lp \<Rightarrow> lp_Window lp \<noteq> 0) then Inl ''langsmith: loops.usage.window must be unset/0''
      else case opt_loop s (build_sessions sc d) of
        Inl e \<Rightarrow> Inl e
      | Inr ls \<Rightarrow>
          (case opt_loop r (\<lambda>lp. set_with (newRunsLoop sc lp d) RunsLoop) of
             Inl e \<Rightarrow> Inl e
           | Inr lr \<Rightarrow>
               (case opt_loop u (build_usage sc d) of
                  Inl e \<Rightarrow> Inl e
                | Inr lu \<Rightarrow> Inr (ls @ lr @ lu))))"

definition langsmith_AllowedLabelKeys :: "string list" where
  "langsmith_AllowedLabelKeys = [''quantile'', ''session'', ''feedback_key'', ''run_type'', ''status'', ''retention_tier'']"

end
