(* ===== verification/Langsmith_Snapshot.thy ===== *)
theory Langsmith_Snapshot
  imports Langsmith_Usage
begin

text \<open>
  What the snapshot loops of LangSmith emit: declared series with allowed labels, all in one
  whole minute, no series twice, from no more projects than configured.
\<close>

section \<open>Series of a snapshot\<close>

definition series :: "sample \<Rightarrow> string \<times> labels" where
  "series s = (smp_Name s, smp_Labels s)"

type_synonym facet = "string \<times> (string \<times> string) list \<times> float64 option"

definition facet_samples :: "derive_config \<Rightarrow> instant \<Rightarrow> string \<Rightarrow> facet \<Rightarrow> sample list" where
  "facet_samples cfg stamp sv f = (case f of (sfx, extra, v) \<Rightarrow> opt_gauge (\<lambda>x. session_gauge cfg stamp sv sfx x extra) v)"

definition fixed_facets :: "tracer_session \<Rightarrow> facet list" where
  "fixed_facets s =
     [(''runs'', [], map_option f_of_int (ts_RunCount s)),
      (''latency_seconds'', [(''quantile'', ''p50'')], ts_LatencyP50 s), (''latency_seconds'', [(''quantile'', ''p99'')], ts_LatencyP99 s),
      (''first_token_seconds'', [(''quantile'', ''p50'')], ts_FirstTokenP50 s), (''first_token_seconds'', [(''quantile'', ''p99'')], ts_FirstTokenP99 s),
      (''tokens'', [], map_option f_of_int (ts_TotalTokens s)), (''prompt_tokens'', [], map_option f_of_int (ts_PromptTokens s)),
      (''completion_tokens'', [], map_option f_of_int (ts_CompletionTokens s)),
      (''cost_usd'', [], ts_TotalCost s), (''prompt_cost_usd'', [], ts_PromptCost s), (''completion_cost_usd'', [], ts_CompletionCost s),
      (''error_rate'', [], ts_ErrorRate s), (''streaming_rate'', [], ts_StreamingRate s)]"

definition score_of :: "derive_config \<Rightarrow> (string, feedback_stat) fmap \<Rightarrow> string \<Rightarrow> float64 option" where
  "score_of cfg m k =
     (if dv_feedbackAllow cfg \<noteq> [] \<and> k \<notin> set (dv_feedbackAllow cfg) then None else Option.bind (fmlookup m k) fs_Avg)"

definition count_of :: "derive_config \<Rightarrow> (string, feedback_stat) fmap \<Rightarrow> string \<Rightarrow> float64 option" where
  "count_of cfg m k = (if score_of cfg m k = None then None else map_option f_of_int (Option.bind (fmlookup m k) fs_N))"

definition feedback_facets :: "derive_config \<Rightarrow> (string, feedback_stat) fmap \<Rightarrow> facet list" where
  "feedback_facets cfg m = concat (map (\<lambda>k. [(''feedback_score'', [(''feedback_key'', k)], score_of cfg m k), (''feedback_count'', [(''feedback_key'', k)], count_of cfg m k)])
     (sorted_keys m))"

definition all_facets :: "derive_config \<Rightarrow> tracer_session \<Rightarrow> facet list" where
  "all_facets cfg s = fixed_facets s @ (if dv_emitFeedback cfg then feedback_facets cfg (ts_FeedbackStats s) else [])"

lemma feedback_samples_facets:
  "feedback_samples cfg stamp sv m k =
     facet_samples cfg stamp sv (''feedback_score'', [(''feedback_key'', k)], score_of cfg m k) @
     facet_samples cfg stamp sv (''feedback_count'', [(''feedback_key'', k)], count_of cfg m k)"
  by (auto simp: feedback_samples_def facet_samples_def opt_gauge_def score_of_def count_of_def split: option.splits)

lemma session_samples_facets:
  "session_samples cfg stamp s = concat (map (facet_samples cfg stamp (ts_label s (dv_useName cfg))) (all_facets cfg s))"
proof -
  have "concat (map (feedback_samples cfg stamp sv m) ks) =
      concat (map (facet_samples cfg stamp sv) (concat (map (\<lambda>k. [(''feedback_score'', [(''feedback_key'', k)], score_of cfg m k), (''feedback_count'', [(''feedback_key'', k)], count_of cfg m k)]) ks)))"
    for sv m ks by (induction ks) (auto simp: feedback_samples_facets)
  then show ?thesis
    by (simp add: session_samples_def Let_def all_facets_def fixed_facets_def feedback_facets_def facet_samples_def)
qed

text \<open>The name and the extra labels of a facet, of which no two are the same.\<close>

definition facet_key :: "facet \<Rightarrow> string \<times> (string \<times> string) list" where
  "facet_key f = (fst f, fst (snd f))"

definition plain_extra :: "(string \<times> string) list \<Rightarrow> bool" where
  "plain_extra ex \<longleftrightarrow> ex = [] \<or> (\<exists>q. ex = [(''quantile'', q)]) \<or> (\<exists>k. ex = [(''feedback_key'', k)])"

lemma facets_distinct: "distinct (map facet_key (all_facets cfg s))"
proof -
  have fb: "distinct (map facet_key (feedback_facets cfg m))" for m
  proof -
    have "distinct ks \<Longrightarrow> distinct (map facet_key (concat (map (\<lambda>k. [(''feedback_score'', [(''feedback_key'', k)], score_of cfg m k), (''feedback_count'', [(''feedback_key'', k)], count_of cfg m k)]) ks)))" for ks
      by (induction ks) (auto simp: facet_key_def)
    then show ?thesis using distinct_sorted_keys by (simp add: feedback_facets_def)
  qed
  have "fst ` set (map facet_key (feedback_facets cfg m)) \<subseteq> {''feedback_score'', ''feedback_count''}" for m
    by (auto simp: feedback_facets_def facet_key_def)
  moreover have "fst ` set (map facet_key (fixed_facets s)) \<inter> {''feedback_score'', ''feedback_count''} = {}"
    by (simp add: fixed_facets_def facet_key_def)
  moreover have "distinct (map facet_key (fixed_facets s))" by (simp add: fixed_facets_def facet_key_def)
  ultimately show ?thesis using fb unfolding all_facets_def by (auto simp: image_iff) fastforce+
qed

lemma facet_shape: "f \<in> set (all_facets cfg s) \<Longrightarrow> fst f \<in> set session_suffixes \<and> plain_extra (fst (snd f))"
  by (auto simp: all_facets_def fixed_facets_def feedback_facets_def session_suffixes_def plain_extra_def split: if_splits)

definition plain_labels :: "string \<Rightarrow> (string \<times> string) list \<Rightarrow> labels" where
  "plain_labels sv extra = fold (\<lambda>(k, x) m. fmupd k x m) extra (fmupd ''session'' sv fmempty)"

lemma plain_labels_inj:
  assumes "plain_extra ex" "plain_extra ex'" "plain_labels sv ex = plain_labels sv' ex'"
  shows "sv = sv' \<and> ex = ex'"
proof -
  have "fmlookup (plain_labels sv ex) k = fmlookup (plain_labels sv' ex') k" for k using assms(3) by simp
  note this [of "''session''"] this [of "''quantile''"] this [of "''feedback_key''"]
  then show ?thesis using assms(1,2) by (auto simp: plain_extra_def plain_labels_def)
qed

lemma plain_labels_keys: "plain_extra ex \<Longrightarrow> fset (fmdom (plain_labels sv ex)) \<subseteq> {''session'', ''quantile'', ''feedback_key''}"
  by (auto simp: plain_extra_def plain_labels_def)

lemma facet_series:
  assumes "dv_sessionLabelKey cfg = ''session''" "x \<in> set (facet_samples cfg stamp sv f)"
  shows "series x = (dv_prefix cfg @ ''_'' @ fst f, plain_labels sv (fst (snd f)))" "smp_Kind x = Gauge" "smp_Timestamp x = stamp"
  using assms by (auto simp: facet_samples_def opt_gauge_def session_gauge_def series_def plain_labels_def split: option.splits)

lemma facet_samples_one: "length (facet_samples cfg stamp sv f) \<le> 1"
  by (auto simp: facet_samples_def opt_gauge_def split: option.splits prod.splits)

text \<open>The samples of facets with distinct keys are of distinct series.\<close>

lemma facets_series_distinct:
  assumes "dv_sessionLabelKey cfg = ''session''"
  shows "distinct (map facet_key fs) \<Longrightarrow> (\<And>f. f \<in> set fs \<Longrightarrow> plain_extra (fst (snd f))) \<Longrightarrow>
    distinct (map series (concat (map (facet_samples cfg stamp sv) fs)))"
proof (induction fs)
  case (Cons f fs)
  have ih: "distinct (map series (concat (map (facet_samples cfg stamp sv) fs)))" using Cons by simp
  have one: "distinct (map series (facet_samples cfg stamp sv f))"
    using facet_samples_one [of cfg stamp sv f] by (cases "facet_samples cfg stamp sv f") auto
  have "series x \<noteq> series y" if "x \<in> set (facet_samples cfg stamp sv f)" "g \<in> set fs" "y \<in> set (facet_samples cfg stamp sv g)" for x y g
  proof
    assume "series x = series y"
    then have "fst f = fst g \<and> plain_labels sv (fst (snd f)) = plain_labels sv (fst (snd g))"
      using facet_series(1) [OF assms that(1)] facet_series(1) [OF assms that(3)] by simp
    moreover have "plain_extra (fst (snd f))" "plain_extra (fst (snd g))" using Cons.prems(2) that(2) by auto
    ultimately have "facet_key f = facet_key g" using plain_labels_inj by (auto simp: facet_key_def)
    then show False using Cons.prems(1) that(2) by (metis (no_types, lifting) distinct.simps(2) image_eqI list.set_map list.simps(9))
  qed
  then have "series ` set (facet_samples cfg stamp sv f) \<inter> series ` set (concat (map (facet_samples cfg stamp sv) fs)) = {}" by fastforce
  then show ?case using one ih by (simp add: image_Un)
qed simp

text \<open>What one session gives.\<close>

lemma session_samples_facts:
  assumes "dv_sessionLabelKey cfg = ''session''"
  shows "distinct (map series (session_samples cfg stamp s))"
    and "x \<in> set (session_samples cfg stamp s) \<Longrightarrow> smp_Kind x = Gauge \<and> smp_Timestamp x = stamp \<and>
      smp_Name x \<in> (\<lambda>n. dv_prefix cfg @ ''_'' @ n) ` set session_suffixes \<and>
      fset (fmdom (smp_Labels x)) \<subseteq> {''session'', ''quantile'', ''feedback_key''} \<and>
      fmlookup (smp_Labels x) ''session'' = Some (ts_label s (dv_useName cfg))"
proof -
  show "distinct (map series (session_samples cfg stamp s))"
    unfolding session_samples_facets by (rule facets_series_distinct [OF assms facets_distinct]) (use facet_shape in blast)
  assume "x \<in> set (session_samples cfg stamp s)"
  then obtain f where f: "f \<in> set (all_facets cfg s)" "x \<in> set (facet_samples cfg stamp (ts_label s (dv_useName cfg)) f)"
    unfolding session_samples_facets by auto
  note sh = facet_shape [OF f(1)] and fs = facet_series [OF assms f(2)]
  have "fmlookup (plain_labels sv ex) ''session'' = Some sv" if "plain_extra ex" for sv ex using that by (auto simp: plain_extra_def plain_labels_def)
  then show "smp_Kind x = Gauge \<and> smp_Timestamp x = stamp \<and>
      smp_Name x \<in> (\<lambda>n. dv_prefix cfg @ ''_'' @ n) ` set session_suffixes \<and>
      fset (fmdom (smp_Labels x)) \<subseteq> {''session'', ''quantile'', ''feedback_key''} \<and>
      fmlookup (smp_Labels x) ''session'' = Some (ts_label s (dv_useName cfg))"
    using sh fs plain_labels_keys by (auto simp: series_def)
qed

section \<open>Usage\<close>

lemma usage_samples_facts:
  assumes "ud_sessionLabelKey cfg = ''session''"
  shows "distinct (map series (usage_samples cfg stamp spans s))"
    and "x \<in> set (usage_samples cfg stamp spans s) \<Longrightarrow> smp_Kind x = Gauge \<and> smp_Timestamp x = stamp \<and>
      smp_Name x \<in> {ud_prefix cfg @ ''_usage_traces'', ud_prefix cfg @ ''_usage_spans''} \<and>
      fset (fmdom (smp_Labels x)) \<subseteq> {''session'', ''retention_tier''} \<and>
      fmlookup (smp_Labels x) ''session'' = Some (us_label s (ud_useName cfg))"
  using assms by (auto simp: usage_samples_def usage_gauge_def series_def split: option.splits)

section \<open>The property\<close>

lemma distinct_by_label:
  assumes "distinct (map key xs)" "\<And>x. x \<in> set xs \<Longrightarrow> distinct (map series (f x))"
    and "\<And>x y. x \<in> set xs \<Longrightarrow> y \<in> set (f x) \<Longrightarrow> fmlookup (smp_Labels y) ''session'' = Some (key x)"
  shows "distinct (map series (concat (map f xs)))"
  using assms
proof (induction xs)
  case (Cons x xs)
  have "series y \<noteq> series z" if "y \<in> set (f x)" "x' \<in> set xs" "z \<in> set (f x')" for y z x'
  proof
    assume "series y = series z"
    then have "key x = key x'" using Cons.prems(3) [of x y] Cons.prems(3) [of x' z] that by (simp add: series_def)
    then show False using Cons.prems(1) that(2) by auto
  qed
  then have "series ` set (f x) \<inter> series ` set (concat (map f xs)) = {}" by fastforce
  moreover have "distinct (map series (concat (map f xs)))" by (rule Cons.IH) (use Cons.prems in auto)
  ultimately show ?case using Cons.prems(2) by (simp add: image_Un)
qed simp

lemma label_count:
  assumes "\<And>x y. x \<in> set xs \<Longrightarrow> y \<in> set (f x) \<Longrightarrow> g y = h x"
  shows "card (g ` set (concat (map f xs))) \<le> length xs"
proof -
  have "g ` set (concat (map f xs)) \<subseteq> h ` set xs" using assms by auto
  then have "card (g ` set (concat (map f xs))) \<le> card (h ` set xs)" by (rule card_mono [rotated]) simp
  also have "\<dots> \<le> length xs" by (rule order.trans [OF card_image_le card_length]) simp
  finally show ?thesis .
qed

definition snapshot_ok :: "string list \<Rightarrow> int \<Rightarrow> instant \<Rightarrow> watermark \<Rightarrow> bool \<Rightarrow> batch \<Rightarrow> bool" where
  "snapshot_ok names mx now since byID b \<longleftrightarrow>
     bt_Watermark b = since\<lparr>wm_Time := now\<rparr> \<and> bt_Logs b = [] \<and>
     (\<forall>x\<in>set (bt_Samples b). smp_Name x \<in> set names \<and> smp_Kind x = Gauge \<and> smp_Timestamp x = time_Truncate now Minute \<and>
        fset (fmdom (smp_Labels x)) \<subseteq> set langsmith_AllowedLabelKeys) \<and>
     int (card ((\<lambda>x. fmlookup (smp_Labels x) ''session'') ` set (bt_Samples b))) \<le> mx \<and>
     (byID \<longrightarrow> distinct (map (\<lambda>x. (smp_Name x, smp_Labels x)) (bt_Samples b)))"

lemma sessions_snapshot_ok:
  assumes "dv_sessionLabelKey (sl_deriveCfg l) = ''session''" "dv_prefix (sl_deriveCfg l) = sl_prefix l" "0 < sl_maxSessions l"
    and "sl_Collect pf net l now since w = (Inr b, evs, w1)"
  shows "snapshot_ok (sl_SeriesNames l) (sl_maxSessions l) now since (\<not> dv_useName (sl_deriveCfg l)) b"
proof -
  let ?cfg = "sl_deriveCfg l" and ?t = "time_Truncate now Minute"
  obtain ss capped where pages: "page_all (sl_fetchPage pf net l (time_Add now (- sl_statsWindow l))) (\<lambda>_. False) ts_ID (sl_maxSessions l) (sl_pageLimit l) 0 [] w = (Inr (ss, capped), w1)"
    and b: "bt_Samples b = concat (map (session_samples ?cfg ?t) (sort_key ts_ID ss))" "bt_Logs b = []" "bt_Watermark b = since\<lparr>wm_Time := now\<rparr>"
    using assms(4) by (auto simp: sl_Collect_def sessions_derive_def split: prod.splits sum.splits)
  note bnd = page_all_bounded [OF pages]
  have ss: "int (length ss) \<le> sl_maxSessions l" "distinct (map ts_ID (sort_key ts_ID ss))" using bnd(1,2) assms(3) by (auto simp: distinct_map)
  note f = session_samples_facts [OF assms(1)]
  have "int (card ((\<lambda>x. fmlookup (smp_Labels x) ''session'') ` set (bt_Samples b))) \<le> int (length (sort_key ts_ID ss))"
    unfolding b by (rule of_nat_mono, rule label_count [where h = "\<lambda>s. Some (ts_label s (dv_useName ?cfg))"]) (use f(2) in blast)
  moreover have "\<not> dv_useName ?cfg \<Longrightarrow> distinct (map series (bt_Samples b))"
    unfolding b by (rule distinct_by_label [OF ss(2) f(1)]) (use f(2) in \<open>auto simp: ts_label_def\<close>)
  moreover have "series = (\<lambda>x. (smp_Name x, smp_Labels x))" by (rule ext) (simp add: series_def)
  ultimately show ?thesis using f(2) ss(1) b assms(2) unfolding snapshot_ok_def
    by (fastforce simp: sl_SeriesNames_def langsmith_AllowedLabelKeys_def)
qed

lemma usage_snapshot_ok:
  assumes "ud_sessionLabelKey (ul_deriveCfg l) = ''session''" "ud_prefix (ul_deriveCfg l) = ul_prefix l" "0 < ul_maxSessions l"
    and "ul_Collect net l now since w = (Inr b, evs, w1)"
  shows "snapshot_ok (ul_SeriesNames l) (ul_maxSessions l) now since (\<not> ud_useName (ul_deriveCfg l)) b"
proof -
  let ?cfg = "ul_deriveCfg l" and ?t = "time_Truncate now Minute"
  obtain ss capped w0 spans where pages: "page_all (ul_fetchPage net l (time_Add now (- ul_statsWindow l))) (\<lambda>_. False) us_ID (ul_maxSessions l) (ul_pageLimit l) 0 [] w = (Inr (ss, capped), w0)"
    and b: "bt_Samples b = concat (map (usage_samples ?cfg ?t spans) (sort_key us_ID ss))" "bt_Logs b = []" "bt_Watermark b = since\<lparr>wm_Time := now\<rparr>"
    using assms(4) by (auto simp: ul_Collect_def usageDerive_def Let_def split: prod.splits sum.splits if_splits)
  note bnd = page_all_bounded [OF pages]
  have ss: "int (length ss) \<le> ul_maxSessions l" "distinct (map us_ID (sort_key us_ID ss))" using bnd(1,2) assms(3) by (auto simp: distinct_map)
  note f = usage_samples_facts [OF assms(1)]
  have "int (card ((\<lambda>x. fmlookup (smp_Labels x) ''session'') ` set (bt_Samples b))) \<le> int (length (sort_key us_ID ss))"
    unfolding b by (rule of_nat_mono, rule label_count [where h = "\<lambda>s. Some (us_label s (ud_useName ?cfg))"]) (use f(2) in blast)
  moreover have "\<not> ud_useName ?cfg \<Longrightarrow> distinct (map series (bt_Samples b))"
    unfolding b by (rule distinct_by_label [OF ss(2) f(1)]) (use f(2) in \<open>auto simp: us_label_def\<close>)
  moreover have "series = (\<lambda>x. (smp_Name x, smp_Labels x))" by (rule ext) (simp add: series_def)
  ultimately show ?thesis using f(2) ss(1) b assms(2) unfolding snapshot_ok_def
    by (fastforce simp: ul_SeriesNames_def langsmith_AllowedLabelKeys_def)
qed

lemma built_sessions:
  assumes "build_sessions sc d lp = Inr (SessionsLoop l)"
  shows "dv_sessionLabelKey (sl_deriveCfg l) = ''session''" "dv_prefix (sl_deriveCfg l) = sl_prefix l" "0 < sl_maxSessions l"
proof -
  obtain cfg where cfg: "apply_each sessions_setting (lp_Settings lp) (sorted_keys (lp_Settings lp)) (sessions_config sc lp) = Inr cfg"
    and new: "newSessionsLoop cfg d = Inr l"
    using assms by (auto simp: build_sessions_def applySettings_def set_with_def split: sum.splits)
  have "lc_SessionLabelKey cfg = ''session''"
    by (rule apply_each_inv [OF cfg, of "\<lambda>c. lc_SessionLabelKey c = ''session''"])
      (auto simp: sessions_setting_def sessions_config_def dest!: set_with_Inr split: if_splits)
  then show "dv_sessionLabelKey (sl_deriveCfg l) = ''session''" "dv_prefix (sl_deriveCfg l) = sl_prefix l" "0 < sl_maxSessions l"
    using new by (auto simp: newSessionsLoop_def Let_def or_else_def split: if_splits)
qed

lemma built_usage:
  assumes "build_usage sc d lp = Inr (UsageLoop l)"
  shows "ud_sessionLabelKey (ul_deriveCfg l) = ''session''" "ud_prefix (ul_deriveCfg l) = ul_prefix l" "0 < ul_maxSessions l"
proof -
  obtain cfg where cfg: "apply_each usage_setting (lp_Settings lp) (sorted_keys (lp_Settings lp)) (usage_config_of sc lp) = Inr cfg"
    and new: "newUsageLoop cfg d = Inr l"
    using assms by (auto simp: build_usage_def applyUsageSettings_def set_with_def split: sum.splits)
  have "ug_SessionLabelKey cfg = ''session''"
    by (rule apply_each_inv [OF cfg, of "\<lambda>c. ug_SessionLabelKey c = ''session''"])
      (auto simp: usage_setting_def usage_config_of_def dest!: set_with_Inr split: if_splits)
  then show "ud_sessionLabelKey (ul_deriveCfg l) = ''session''" "ud_prefix (ul_deriveCfg l) = ul_prefix l" "0 < ul_maxSessions l"
    using new by (auto simp: newUsageLoop_def Let_def or_else_def split: if_splits)
qed

lemma built_instance:
  "build_sessions sc d lp = Inr (SessionsLoop l) \<Longrightarrow> sl_sourceInstance l = sc_SourceInstance sc"
  "build_usage sc d lp = Inr (UsageLoop u) \<Longrightarrow> ul_sourceInstance u = sc_SourceInstance sc"
proof -
  assume b: "build_sessions sc d lp = Inr (SessionsLoop l)"
  obtain cfg where cfg: "apply_each sessions_setting (lp_Settings lp) (sorted_keys (lp_Settings lp)) (sessions_config sc lp) = Inr cfg"
    and new: "newSessionsLoop cfg d = Inr l"
    using b by (auto simp: build_sessions_def applySettings_def set_with_def split: sum.splits)
  have "lc_SourceInstance cfg = sc_SourceInstance sc"
    by (rule apply_each_inv [OF cfg, of "\<lambda>c. lc_SourceInstance c = sc_SourceInstance sc"])
      (auto simp: sessions_setting_def sessions_config_def dest!: set_with_Inr split: if_splits)
  then show "sl_sourceInstance l = sc_SourceInstance sc" using new by (auto simp: newSessionsLoop_def Let_def split: if_splits)
next
  assume b: "build_usage sc d lp = Inr (UsageLoop u)"
  obtain cfg where cfg: "apply_each usage_setting (lp_Settings lp) (sorted_keys (lp_Settings lp)) (usage_config_of sc lp) = Inr cfg"
    and new: "newUsageLoop cfg d = Inr u"
    using b by (auto simp: build_usage_def applyUsageSettings_def set_with_def split: sum.splits)
  have "ug_SourceInstance cfg = sc_SourceInstance sc"
    by (rule apply_each_inv [OF cfg, of "\<lambda>c. ug_SourceInstance c = sc_SourceInstance sc"])
      (auto simp: usage_setting_def usage_config_of_def dest!: set_with_Inr split: if_splits)
  then show "ul_sourceInstance u = sc_SourceInstance sc" using new by (auto simp: newUsageLoop_def Let_def split: if_splits)
qed

lemma build_kind:
  "build_sessions sc d lp = Inr x \<Longrightarrow> \<exists>l. x = SessionsLoop l" "build_usage sc d lp = Inr x \<Longrightarrow> \<exists>l. x = UsageLoop l"
  "set_with (newRunsLoop sc lp d) RunsLoop = Inr x \<Longrightarrow> \<exists>l. x = RunsLoop l"
  by (auto simp: build_sessions_def build_usage_def set_with_def split: sum.splits)

lemma opt_loop_built: "opt_loop lp build = Inr xs \<Longrightarrow> x \<in> set xs \<Longrightarrow> \<exists>c. lp = Some c \<and> build c = Inr x"
  by (auto simp: opt_loop_def split: option.splits sum.splits)

lemma New_parts:
  assumes "langsmith_New sc d = Inr loops"
  shows "\<exists>ls lr lu. opt_loop (loop_enabled sc ''sessions'') (build_sessions sc d) = Inr ls \<and>
    opt_loop (loop_enabled sc ''runs'') (\<lambda>lp. set_with (newRunsLoop sc lp d) RunsLoop) = Inr lr \<and>
    opt_loop (loop_enabled sc ''usage'') (build_usage sc d) = Inr lu \<and> loops = ls @ lr @ lu"
proof -
  let ?s = "opt_loop (loop_enabled sc ''sessions'') (build_sessions sc d)" and ?u = "opt_loop (loop_enabled sc ''usage'') (build_usage sc d)"
    and ?r = "opt_loop (loop_enabled sc ''runs'') (\<lambda>lp. set_with (newRunsLoop sc lp d) RunsLoop)"
  show ?thesis
    using assms unfolding langsmith_New_def Let_def by (cases ?s; cases ?r; cases ?u) (simp_all split: if_splits)
qed

lemma New_loops:
  assumes "langsmith_New sc d = Inr loops"
  shows "SessionsLoop s \<in> set loops \<Longrightarrow> \<exists>lp. build_sessions sc d lp = Inr (SessionsLoop s)"
    "UsageLoop u \<in> set loops \<Longrightarrow> \<exists>lp. build_usage sc d lp = Inr (UsageLoop u)"
  using New_parts [OF assms] by (auto dest!: opt_loop_built dest: build_kind)

text \<open>C35: whatever the server answers, a successful collection of the sessions or the usage loop of a
  source that was built is a snapshot of one minute: only gauges of series the loop declares,
  with labels on the source's allow-list, stamped with the minute of the clock, from at most
  the configured number of projects, and, when projects are labelled by their identifier,
  no series twice, so that one batch never has two points of a series; the watermark takes
  the time of the clock and keeps the rest.\<close>

theorem langsmith_snapshot:
  assumes "langsmith_New sc d = Inr loops"
  shows "(\<forall>l pf net now since w b evs w1. SessionsLoop l \<in> set loops \<and> sl_Collect pf net l now since w = (Inr b, evs, w1) \<longrightarrow>
      snapshot_ok (sl_SeriesNames l) (sl_maxSessions l) now since (\<not> dv_useName (sl_deriveCfg l)) b) \<and>
    (\<forall>l net now since w b evs w1. UsageLoop l \<in> set loops \<and> ul_Collect net l now since w = (Inr b, evs, w1) \<longrightarrow>
      snapshot_ok (ul_SeriesNames l) (ul_maxSessions l) now since (\<not> ud_useName (ul_deriveCfg l)) b)"
proof (intro conjI allI impI)
  fix l :: sessions_loop and pf and net :: "'a net" and now since w b evs w1
  assume "SessionsLoop l \<in> set loops \<and> sl_Collect pf net l now since w = (Inr b, evs, w1)"
  then show "snapshot_ok (sl_SeriesNames l) (sl_maxSessions l) now since (\<not> dv_useName (sl_deriveCfg l)) b"
    using New_loops(1) [OF assms] built_sessions sessions_snapshot_ok by metis
next
  fix l :: usage_loop and net :: "'b net" and now since w b evs w1
  assume "UsageLoop l \<in> set loops \<and> ul_Collect net l now since w = (Inr b, evs, w1)"
  then show "snapshot_ok (ul_SeriesNames l) (ul_maxSessions l) now since (\<not> ud_useName (ul_deriveCfg l)) b"
    using New_loops(2) [OF assms] built_usage usage_snapshot_ok by metis
qed

text \<open>One project with a run count and a latency.\<close>

definition snap_cfg :: source_config where
  "snap_cfg = \<lparr>sc_Type = ''langsmith'', sc_Enabled = True, sc_BaseURL = ''u'', sc_SourceInstance = ''ls'',
     sc_Auth = \<lparr>au_Header = ''h'', au_Value = ''v''\<rparr>, sc_RateLimit = \<lparr>rl_RPS = Fin 1, rl_Burst = 1\<rparr>,
     sc_HTTP = \<lparr>hc_UserAgent = '''', hc_AllowHosts = [], hc_AllowPrivate = False\<rparr>,
     sc_Loops = fmupd ''sessions'' \<lparr>lp_Enabled = True, lp_Cadence = Minute, lp_Window = 0, lp_BucketSettle = 0, lp_BootstrapLookback = 0,
       lp_MaxBackfill = 0, lp_MetricPrefix = '''', lp_Graphs = [], lp_Settings = fmempty\<rparr> fmempty, sc_APIKeyUseCases = []\<rparr>"

definition snap_net :: "unit net" where
  "snap_net = \<lparr>nt_do = (\<lambda>w rq. (Inr \<lparr>rs_StatusCode = 200, rs_Header = fmempty, rs_Body = ''''\<rparr>, w)),
     nt_json = (\<lambda>s. Some (JArr [JObj [(''id'', JStr ''p''), (''run_count'', JNum ''7'')]])),
     nt_url = (\<lambda>u q. Some u), nt_sha = (\<lambda>s. s)\<rparr>"

definition snap_loop :: sessions_loop where
  "snap_loop = projr (newSessionsLoop (sessions_config snap_cfg (the (fmlookup (sc_Loops snap_cfg) ''sessions''))) no_hooks)"

lemma snap_built: "langsmith_New snap_cfg no_hooks = Inr [SessionsLoop snap_loop]"
  by (simp add: langsmith_New_def loop_enabled_def snap_cfg_def opt_loop_def build_sessions_def applySettings_def snap_loop_def
        newSessionsLoop_def sessions_config_def Let_def set_with_def)

lemma snap_fields:
  "sl_maxSessions snap_loop = 1000" "sl_pageLimit snap_loop = 100" "sl_SeriesNames snap_loop = map (\<lambda>s. ''langsmith_'' @ s) session_suffixes"
  "dv_useName (sl_deriveCfg snap_loop) = False"
  by (simp_all add: snap_loop_def newSessionsLoop_def sessions_config_def snap_cfg_def Let_def or_else_def sl_SeriesNames_def)

lemma snap_collect:
  "\<exists>b. sl_Collect (\<lambda>_. None) snap_net snap_loop now since () = (Inr b, [], ()) \<and> length (bt_Samples b) = 1"
proof -
  have names: "ToLower ''id'' = ''id''" "ToLower ''run_count'' = ''run_count''" by code_simp+
  have num: "ParseInt ''7'' = Some 7" by code_simp
  let ?s = "\<lparr>ts_ID = ''p'', ts_Name = '''', ts_RunCount = Some 7, ts_LatencyP50 = None, ts_LatencyP99 = None, ts_FirstTokenP50 = None, ts_FirstTokenP99 = None,
    ts_TotalTokens = None, ts_PromptTokens = None, ts_CompletionTokens = None, ts_TotalCost = None, ts_PromptCost = None, ts_CompletionCost = None,
    ts_ErrorRate = None, ts_StreamingRate = None, ts_FeedbackStats = fmempty\<rparr>"
  have dec: "dec_tracer_session (\<lambda>_. None) (JObj [(''id'', JStr ''p''), (''run_count'', JNum ''7'')]) = Some ?s"
    by (simp add: dec_tracer_session_def names num)
  have page: "sl_fetchPage (\<lambda>_. None) snap_net snap_loop t 0 () = (Inr [?s], ())" for t
    by (simp add: sl_fetchPage_def list_page_def fetch_json_def snap_net_def StatusOK_def dec)
  have "page_all (sl_fetchPage (\<lambda>_. None) snap_net snap_loop t) (\<lambda>_. False) ts_ID (sl_maxSessions snap_loop) (sl_pageLimit snap_loop) 0 [] () = (Inr ([?s], False), ())" for t
    by (simp add: page_all.simps page snap_fields)
  then show ?thesis by (simp add: sl_Collect_def sessions_derive_def session_samples_def Let_def opt_gauge_def)
qed

theorem langsmith_snapshot_witness:
  "\<exists>b. sl_Collect (\<lambda>_. None) snap_net snap_loop 120000000001 zero_watermark () = (Inr b, [], ()) \<and> length (bt_Samples b) = 1 \<and>
     snapshot_ok (map (\<lambda>s. ''langsmith_'' @ s) session_suffixes) 1000 120000000001 zero_watermark True b"
proof -
  obtain b where b: "sl_Collect (\<lambda>_. None) snap_net snap_loop 120000000001 zero_watermark () = (Inr b, [], ())" "length (bt_Samples b) = 1"
    using snap_collect by blast
  have "snapshot_ok (sl_SeriesNames snap_loop) (sl_maxSessions snap_loop) 120000000001 zero_watermark (\<not> dv_useName (sl_deriveCfg snap_loop)) b"
    by (rule conjunct1 [OF langsmith_snapshot [OF snap_built], rule_format, OF conjI [OF _ b(1)]]) simp
  then have "snapshot_ok (map (\<lambda>s. ''langsmith_'' @ s) session_suffixes) 1000 120000000001 zero_watermark True b"
    unfolding snap_fields not_False_eq_True .
  with b show ?thesis by (intro exI conjI)
qed

end
