(* ===== verification/App.thy ===== *)
theory App
  imports Portkey_Analytics Portkey_Groups Portkey_Logs_Settings Langsmith_Snapshot Scheduler Coordinator
begin

text \<open>
  The composition root (\<^verbatim>\<open>internal/app/app.go\<close>) and the constructor of the Portkey source
  (\<^verbatim>\<open>internal/source/portkey/portkey.go\<close>): which loops a configuration gives, what the shared guard
  lets through, and the epoch a single replica writes with. A loop is the value its
  constructor returns; the scheduler is given by its specs. Log lines are left out, and maps
  are visited in ascending order of their keys.
\<close>

section \<open>The Portkey source\<close>

datatype portkey_loop = AnalyticsLoop analytics_loop | GroupsLoop groups_loop | LogsExportLoop logs_export_loop

definition portkey_newClient :: "source_config \<Rightarrow> bool \<Rightarrow> httpx_config" where
  "portkey_newClient sc observed =
     \<lparr>hx_UserAgent = or_else (hc_UserAgent (sc_HTTP sc) = '''') ''genai-otel-bridge/0.1'' (hc_UserAgent (sc_HTTP sc)), hx_Timeout = 10 * Second,
      hx_AllowHosts = hc_AllowHosts (sc_HTTP sc), hx_AllowPrivate = hc_AllowPrivate (sc_HTTP sc), hx_Limiter = True, hx_Observer = observed\<rparr>"

fun build_each :: "('a \<Rightarrow> string + 'b) \<Rightarrow> 'a list \<Rightarrow> string + 'b list" where
  "build_each f [] = Inr []"
| "build_each f (x # xs) =
     (case f x of Inl e \<Rightarrow> Inl e | Inr y \<Rightarrow> (case build_each f xs of Inl e \<Rightarrow> Inl e | Inr ys \<Rightarrow> Inr (y # ys)))"

definition build_logs :: "source_config \<Rightarrow> deps \<Rightarrow> resolved_use_case list \<Rightarrow> loop_config option \<Rightarrow> string + portkey_loop list" where
  "build_logs sc d ucs lp =
     (case lp of
        None \<Rightarrow> Inr []
      | Some c \<Rightarrow> build_each (\<lambda>uc. set_with (newLogsExportLoop sc c d uc) LogsExportLoop)
          (if ucs = [] then [\<lparr>ru_slug = '''', ru_apiKeyIDsCSV = ''''\<rparr>] else ucs))"

definition portkey_New :: "source_config \<Rightarrow> deps \<Rightarrow> string + portkey_loop list" where
  "portkey_New sc d =
     (let a = loop_enabled sc ''analytics''; g = loop_enabled sc ''groups''; l = loop_enabled sc ''logs_export'' in
      if a = None \<and> g = None \<and> l = None then Inr []
      else case resolveUseCases sc of
        Inl e \<Rightarrow> Inl e
      | Inr ucs \<Rightarrow>
          (case opt_loop a (\<lambda>lp. set_with (newAnalyticsLoop sc lp d ucs) AnalyticsLoop) of
             Inl e \<Rightarrow> Inl e
           | Inr la \<Rightarrow>
               (case opt_loop g (\<lambda>lp. set_with (newGroupsLoop sc lp d ucs) GroupsLoop) of
                  Inl e \<Rightarrow> Inl e
                | Inr lg \<Rightarrow>
                    (case build_logs sc d ucs l of Inl e \<Rightarrow> Inl e | Inr ll \<Rightarrow> Inr (la @ lg @ ll)))))"

section \<open>Loops of any source\<close>

datatype app_loop = Portkey portkey_loop | Langsmith langsmith_loop

fun loop_Key :: "'w net \<Rightarrow> app_loop \<Rightarrow> checkpoint_key" where
  "loop_Key net (Portkey (AnalyticsLoop l)) = al_Key net l"
| "loop_Key net (Portkey (GroupsLoop l)) = gl_Key net l"
| "loop_Key net (Portkey (LogsExportLoop l)) = lx_Key net l"
| "loop_Key net (Langsmith (SessionsLoop l)) = sl_Key net l"
| "loop_Key net (Langsmith (RunsLoop l)) = qr_Key net l"
| "loop_Key net (Langsmith (UsageLoop l)) = ul_Key net l"

fun loop_SeriesNames :: "app_loop \<Rightarrow> string list" where
  "loop_SeriesNames (Portkey (AnalyticsLoop l)) = al_SeriesNames l"
| "loop_SeriesNames (Portkey (GroupsLoop l)) = gl_SeriesNames l"
| "loop_SeriesNames (Portkey (LogsExportLoop l)) = lx_SeriesNames l"
| "loop_SeriesNames (Langsmith (SessionsLoop l)) = sl_SeriesNames l"
| "loop_SeriesNames (Langsmith (RunsLoop l)) = qr_SeriesNames l"
| "loop_SeriesNames (Langsmith (UsageLoop l)) = ul_SeriesNames l"

text \<open>The loops that implement \<open>IndexedKeyDeclarer\<close> are the logs loops.\<close>

fun loop_IndexedKeys :: "app_loop \<Rightarrow> string list option" where
  "loop_IndexedKeys (Portkey (LogsExportLoop l)) = Some (IndexedKeys l)"
| "loop_IndexedKeys (Langsmith (RunsLoop l)) = Some (qr_IndexedKeys l)"
| "loop_IndexedKeys _ = None"

definition constructor :: "('a \<Rightarrow> app_loop) \<Rightarrow> string + 'a list \<Rightarrow> registry_error + app_loop list" where
  "constructor tag r = (case r of Inl e \<Rightarrow> Inl (ConstructorError e) | Inr ls \<Rightarrow> Inr (map tag ls))"

text \<open>None if a type is registered twice.\<close>

definition source_registry :: "deps \<Rightarrow> (source_config, app_loop list) registry option" where
  "source_registry d =
     Option.bind (Register NewRegistry ''portkey'' (\<lambda>sc. constructor Portkey (portkey_New sc d)))
       (\<lambda>r. Register r ''langsmith'' (\<lambda>sc. constructor Langsmith (langsmith_New sc d)))"

section \<open>Governance\<close>

definition grayBackstopDenyKeys :: "string list" where
  "grayBackstopDenyKeys = [''events'', ''extra'', ''serialized'', ''manifest'', ''s3_urls'', ''error'', ''name'']"

definition contentDenylist :: "string list \<Rightarrow> string list" where
  "contentDenylist optedIn = AbsoluteNeverDenyKeys @ filter (\<lambda>g. g \<notin> set optedIn) grayBackstopDenyKeys"

fun dedupe :: "string list \<Rightarrow> string list \<Rightarrow> string list" where
  "dedupe seen [] = []"
| "dedupe seen (x # xs) = (if x \<in> set seen then dedupe seen xs else x # dedupe (x # seen) xs)"

definition optedInContentFieldsForLoop :: "loop_config \<Rightarrow> string list" where
  "optedInContentFieldsForLoop lc =
     concat (map (\<lambda>knob. splitCSV (map_get (lp_Settings lc) knob)) [''extra_record_fields'', ''extra_indexed_fields'', ''metadata_record_fields''])"

definition enabled_loops :: "source_config \<Rightarrow> loop_config list" where
  "enabled_loops sc = filter lp_Enabled (map (\<lambda>n. the (fmlookup (sc_Loops sc) n)) (sorted_keys (sc_Loops sc)))"

definition optedInContentFields :: "config \<Rightarrow> string list" where
  "optedInContentFields cfg =
     concat (map (\<lambda>sc. concat (map optedInContentFieldsForLoop (enabled_loops sc))) (filter sc_Enabled (cf_Sources cfg)))"

definition optedInIndexedFields :: "config \<Rightarrow> string list" where
  "optedInIndexedFields cfg = dedupe []
     (concat (map (\<lambda>sc. concat (map (\<lambda>lp. splitCSV (map_get (lp_Settings lp) ''extra_indexed_fields'')) (enabled_loops sc)))
        (filter sc_Enabled (cf_Sources cfg))))"

record loop_configured =
  lcd_loop :: app_loop
  lcd_cfg :: loop_config

definition contentDenyByLoop :: "'w net \<Rightarrow> loop_configured list \<Rightarrow> (string, string list) fmap" where
  "contentDenyByLoop net loops =
     fold (\<lambda>l m. case loop_IndexedKeys (lcd_loop l) of
                    None \<Rightarrow> m
                  | Some _ \<Rightarrow> fmupd (key_String (loop_Key net (lcd_loop l))) (contentDenylist (optedInContentFieldsForLoop (lcd_cfg l))) m)
       loops fmempty"

section \<open>Build\<close>

datatype coordinator = Noop int | Election

text \<open>What is injected: names, the network and clock of the sources, the emitter, the checkpointer and the context.\<close>

record 's app_env =
  ae_names :: net_names
  ae_net :: "'s net"
  ae_Emit :: "'s \<Rightarrow> batch \<Rightarrow> emit_result \<times> 's"
  ae_cp :: "'s checkpointer_ops"
  ae_ctxErr :: "'s \<Rightarrow> bool"

record 's app_spec =
  as_Runner :: "'s runner_cfg \<times> 's runner"
  as_Loop :: app_loop
  as_Cadence :: duration
  as_MaxBackfill :: duration
  as_Window :: duration
  as_MaxCatchupPerTick :: int

record 's app =
  ap_coord :: coordinator
  ap_specs :: "'s app_spec list"

definition wire_hooks :: "deps \<Rightarrow> deps" where
  "wire_hooks d = d\<lparr>dp_OnBucketRevised := True, dp_OnCapability := True, dp_OnDataIncomplete := True, dp_OnAuthError := True\<rparr>"

text \<open>A configuration without an entry for a loop is the zero value; a built loop always has one.\<close>

definition zero_loop_config :: loop_config where
  "zero_loop_config = \<lparr>lp_Enabled = False, lp_Cadence = 0, lp_Window = 0, lp_BucketSettle = 0, lp_BootstrapLookback = 0,
     lp_MaxBackfill = 0, lp_MetricPrefix = '''', lp_Graphs = [], lp_Settings = fmempty\<rparr>"

definition loop_cfg_of :: "'w net \<Rightarrow> source_config \<Rightarrow> app_loop \<Rightarrow> loop_config" where
  "loop_cfg_of net sc l = (case fmlookup (sc_Loops sc) (ck_Loop (loop_Key net l)) of None \<Rightarrow> zero_loop_config | Some lc \<Rightarrow> lc)"

definition label_names :: "config \<Rightarrow> app_loop \<Rightarrow> int" where
  "label_names cfg l =
     (case loop_IndexedKeys l of None \<Rightarrow> 0 | Some ks \<Rightarrow> int (fcard (fmdom (ProductIdentity (cf_Identity cfg)))) + int (length ks))"

definition stream_ceiling :: "config \<Rightarrow> int" where
  "stream_ceiling cfg = (if gv_MaxStreamLabelKeys (cf_Governance cfg) = 0 then DefaultMaxStreamLabelKeys else gv_MaxStreamLabelKeys (cf_Governance cfg))"

text \<open>The identifier of a source is the type it is registered under.\<close>

definition build_source ::
  "'w net \<Rightarrow> config \<Rightarrow> (source_config, app_loop list) registry \<Rightarrow> source_config \<Rightarrow> string + string \<times> loop_configured list" where
  "build_source net cfg reg sc =
     (case Build reg (sc_Type sc) sc of
        Inl (UnknownType t) \<Rightarrow> Inl (''unknown source type '' @ t)
      | Inl (ConstructorError e) \<Rightarrow> Inl e
      | Inr loops \<Rightarrow>
          (let built = map (\<lambda>l. ck_Loop (loop_Key net l)) loops in
           if \<exists>n\<in>set (sorted_keys (sc_Loops sc)). lp_Enabled (the (fmlookup (sc_Loops sc) n)) \<and> n \<notin> set built
           then Inl (''source '' @ sc_SourceInstance sc @ '': configured loop is enabled but not recognised by the source'')
           else if \<exists>l\<in>set loops. loop_IndexedKeys l \<noteq> None \<and> stream_ceiling cfg < label_names cfg l
           then Inl ''loop would emit more Loki stream labels than governance.max_stream_label_keys''
           else Inr (sc_Type sc, map (\<lambda>l. \<lparr>lcd_loop = l, lcd_cfg = loop_cfg_of net sc l\<rparr>) loops)))"

definition source_decl_of :: "'w net \<Rightarrow> string \<times> loop_configured list \<Rightarrow> source_decl" where
  "source_decl_of net src = \<lparr>sd_ID = fst src, sd_Loops =
     map (\<lambda>l. \<lparr>ld_Key = loop_Key net (lcd_loop l), ld_SeriesNames = Some (loop_SeriesNames (lcd_loop l))\<rparr>) (snd src)\<rparr>"

fun heal_max :: "'s checkpointer_ops \<Rightarrow> checkpoint_key list \<Rightarrow> int \<Rightarrow> 's \<Rightarrow> int \<times> 's" where
  "heal_max cp [] m w = (m, w)"
| "heal_max cp (k # ks) m w =
     (case cp_Load cp w k of
        (Inl _, w1) \<Rightarrow> heal_max cp ks m w1
      | (Inr wm, w1) \<Rightarrow> heal_max cp ks (if m < wm_Epoch wm then wm_Epoch wm else m) w1)"

fun heal :: "'s checkpointer_ops \<Rightarrow> checkpoint_key list \<Rightarrow> coordinator \<Rightarrow> 's \<Rightarrow> coordinator \<times> 's" where
  "heal cp ks (Noop e) w =
     (case heal_max cp ks (max 1 e) w of (m, w1) \<Rightarrow> (if max 1 e < m then Noop m else Noop e, w1))"
| "heal cp ks Election w = (Election, w)"

definition operatorPromoted :: "config \<Rightarrow> string list" where
  "operatorPromoted cfg = gv_AllowLabelKeys (cf_Governance cfg) @ optedInIndexedFields cfg"

definition guard_of :: "'w net \<Rightarrow> config \<Rightarrow> loop_configured list \<Rightarrow> guard" where
  "guard_of net cfg loops = NewGuard
     \<lparr>gc_AllowLabelKeys = dedupe [] (AllowedLabelKeys @ langsmith_AllowedLabelKeys @ operatorPromoted cfg),
      gc_DenyFieldKeys = contentDenylist [], gc_DenyFieldKeysByLoop = contentDenyByLoop net loops,
      gc_PerSeriesBudget = gv_PerMetricCardinalityBudget (cf_Governance cfg), gc_OnNewLabelValue = True\<rparr>"

definition spec_of :: "'s app_env \<Rightarrow> config \<Rightarrow> guard \<Rightarrow> 's \<Rightarrow> loop_configured \<Rightarrow> 's app_spec" where
  "spec_of env cfg g w l =
     \<lparr>as_Runner = NewLoopRunner (loop_Key (ae_net env) (lcd_loop l)) (ae_Emit env) (ae_cp env) (ae_ctxErr env)
        (qc_MaxBatches (cf_Queue cfg)) (gv_MaxDPM (cf_Governance cfg)) g w,
      as_Loop = lcd_loop l, as_Cadence = lp_Cadence (lcd_cfg l), as_MaxBackfill = lp_MaxBackfill (lcd_cfg l),
      as_Window = lp_Window (lcd_cfg l), as_MaxCatchupPerTick = gv_MaxCatchupPerTick (cf_Governance cfg)\<rparr>"

definition app_Build :: "'s app_env \<Rightarrow> config \<Rightarrow> coordinator \<Rightarrow> deps \<Rightarrow> 's \<Rightarrow> (string + 's app) \<times> 's" where
  "app_Build env cfg coord d w =
     (case source_registry (wire_hooks d) of
        None \<Rightarrow> (Inl ''source: duplicate type'', w)
      | Some reg \<Rightarrow>
          (if Validate (ae_names env) (Known reg) cfg \<noteq> [] then (Inl ''config invalid'', w)
           else if \<exists>k\<in>set (operatorPromoted cfg). IsContentFloorKey k
           then (Inl ''governance.allow_label_keys / settings.extra_indexed_fields: a content-floor key cannot be promoted to a label'', w)
           else case build_each (build_source (ae_net env) cfg reg) (filter sc_Enabled (cf_Sources cfg)) of
             Inl e \<Rightarrow> (Inl e, w)
           | Inr srcs \<Rightarrow>
               (if ValidateOwnership (map (source_decl_of (ae_net env)) srcs) \<noteq> None then (Inl ''series ownership'', w)
                else if concat (map snd srcs) = [] then (Inl ''no enabled loops'', w)
                else
                  (case heal (ae_cp env) (map (\<lambda>l. loop_Key (ae_net env) (lcd_loop l)) (concat (map snd srcs))) coord w of
                     (coord1, w1) \<Rightarrow>
                       (Inr \<lparr>ap_coord = coord1, ap_specs = map (spec_of env cfg (guard_of (ae_net env) cfg (concat (map snd srcs))) w1) (concat (map snd srcs))\<rparr>, w1)))))"

section \<open>Where loops come from\<close>

lemma set_dedupe: "set (dedupe seen xs) = set xs - set seen"
  by (induction seen xs rule: dedupe.induct) auto

lemma build_each_mem: "build_each f xs = Inr ys \<Longrightarrow> y \<in> set ys \<Longrightarrow> \<exists>x\<in>set xs. f x = Inr y"
  by (induction xs arbitrary: ys) (auto split: sum.splits)

lemma loop_enabled_Some: "loop_enabled sc n = Some lp \<Longrightarrow> fmlookup (sc_Loops sc) n = Some lp \<and> lp_Enabled lp"
  by (auto simp: loop_enabled_def split: option.splits if_splits)

lemma portkey_parts:
  assumes "portkey_New sc d = Inr loops" "l \<in> set loops"
  shows "\<exists>n ucs lp. loop_enabled sc n = Some lp \<and>
    ((n = ''analytics'' \<and> set_with (newAnalyticsLoop sc lp d ucs) AnalyticsLoop = Inr l) \<or>
     (n = ''groups'' \<and> set_with (newGroupsLoop sc lp d ucs) GroupsLoop = Inr l) \<or>
     (n = ''logs_export'' \<and> (\<exists>uc. set_with (newLogsExportLoop sc lp d uc) LogsExportLoop = Inr l)))"
proof -
  let ?a = "\<lambda>ucs. opt_loop (loop_enabled sc ''analytics'') (\<lambda>lp. set_with (newAnalyticsLoop sc lp d ucs) AnalyticsLoop)"
    and ?g = "\<lambda>ucs. opt_loop (loop_enabled sc ''groups'') (\<lambda>lp. set_with (newGroupsLoop sc lp d ucs) GroupsLoop)"
    and ?l = "\<lambda>ucs. build_logs sc d ucs (loop_enabled sc ''logs_export'')"
  have "loops \<noteq> []" using assms(2) by auto
  then obtain ucs where "resolveUseCases sc = Inr ucs"
    using assms(1) unfolding portkey_New_def Let_def by (cases "resolveUseCases sc") (auto split: if_splits)
  then obtain la lg ll where parts: "?a ucs = Inr la" "?g ucs = Inr lg" "?l ucs = Inr ll" "loops = la @ lg @ ll"
    using assms(1) \<open>loops \<noteq> []\<close> unfolding portkey_New_def Let_def
    by (cases "?a ucs"; cases "?g ucs"; cases "?l ucs") (simp_all split: if_splits)
  consider "l \<in> set la" | "l \<in> set lg" | "l \<in> set ll" using assms(2) parts(4) by auto
  then show ?thesis
  proof cases
    case 1
    from opt_loop_built [OF parts(1) this] obtain lp where
      "loop_enabled sc ''analytics'' = Some lp" "set_with (newAnalyticsLoop sc lp d ucs) AnalyticsLoop = Inr l" by blast
    then show ?thesis by (intro exI [of _ "''analytics''"] exI [of _ ucs] exI [of _ lp]) simp
  next
    case 2
    from opt_loop_built [OF parts(2) this] obtain lp where
      "loop_enabled sc ''groups'' = Some lp" "set_with (newGroupsLoop sc lp d ucs) GroupsLoop = Inr l" by blast
    then show ?thesis by (intro exI [of _ "''groups''"] exI [of _ ucs] exI [of _ lp]) simp
  next
    case 3
    obtain lp where lp: "loop_enabled sc ''logs_export'' = Some lp" "\<exists>uc. set_with (newLogsExportLoop sc lp d uc) LogsExportLoop = Inr l"
      using parts(3) 3 by (auto simp: build_logs_def dest!: build_each_mem split: option.splits)
    then show ?thesis by (intro exI [of _ "''logs_export''"] exI [of _ ucs] exI [of _ lp]) simp
  qed
qed

lemma langsmith_parts:
  assumes "langsmith_New sc d = Inr loops" "l \<in> set loops"
  shows "\<exists>n lp. loop_enabled sc n = Some lp \<and>
    ((n = ''sessions'' \<and> build_sessions sc d lp = Inr l) \<or> (n = ''runs'' \<and> set_with (newRunsLoop sc lp d) RunsLoop = Inr l) \<or>
     (n = ''usage'' \<and> build_usage sc d lp = Inr l))"
proof -
  obtain ls lr lu where parts: "opt_loop (loop_enabled sc ''sessions'') (build_sessions sc d) = Inr ls"
    "opt_loop (loop_enabled sc ''runs'') (\<lambda>lp. set_with (newRunsLoop sc lp d) RunsLoop) = Inr lr"
    "opt_loop (loop_enabled sc ''usage'') (build_usage sc d) = Inr lu" "loops = ls @ lr @ lu"
    using New_parts [OF assms(1)] by blast
  then consider "l \<in> set ls" | "l \<in> set lr" | "l \<in> set lu" using assms(2) by auto
  then show ?thesis
  proof cases
    case 1
    from opt_loop_built [OF parts(1) this] show ?thesis by (intro exI [of _ "''sessions''"]) auto
  next
    case 2
    from opt_loop_built [OF parts(2) this] show ?thesis by (intro exI [of _ "''runs''"]) auto
  next
    case 3
    from opt_loop_built [OF parts(3) this] show ?thesis by (intro exI [of _ "''usage''"]) auto
  qed
qed

text \<open>The key of a built loop: its source, and a name that says of which kind it is.\<close>

definition loop_names :: "string list" where
  "loop_names = [''analytics'', ''groups'', ''logs_export'', ''sessions'', ''runs'', ''usage'']"

lemma loop_name_known: "ck_Loop (loop_Key net l) \<in> set loop_names"
  "loop_IndexedKeys l \<noteq> None \<longleftrightarrow> ck_Loop (loop_Key net l) \<in> {''logs_export'', ''runs''}"
  by (cases "(net, l)" rule: loop_Key.cases;
      simp add: al_Key_def gl_Key_def lx_Key_def sl_Key_def qr_Key_def ul_Key_def loop_names_def)+

lemma built_source_instance:
  "newAnalyticsLoop sc lp d ucs = Inr a \<Longrightarrow> ka_sourceInstance (al_access a) = sc_SourceInstance sc"
  "newGroupsLoop sc lp d ucs = Inr g \<Longrightarrow> ka_sourceInstance (gl_access g) = sc_SourceInstance sc"
  "newLogsExportLoop sc lp d uc = Inr x \<Longrightarrow> ka_sourceInstance (lx_access x) = sc_SourceInstance sc"
  "newRunsLoop sc lp d = Inr r \<Longrightarrow> qr_sourceInstance r = sc_SourceInstance sc"
  by (auto simp: newAnalyticsLoop_def newGroupsLoop_def newLogsExportLoop_def newRunsLoop_def Let_def split: if_splits option.splits sum.splits)

lemma portkey_loop_key:
  assumes "portkey_New sc d = Inr loops" "l \<in> set loops"
  shows "ck_SourceInstance (loop_Key net (Portkey l)) = sc_SourceInstance sc"
    "\<exists>lp. loop_enabled sc (ck_Loop (loop_Key net (Portkey l))) = Some lp"
  using portkey_parts [OF assms]
  by (auto simp: al_Key_def gl_Key_def lx_Key_def dest!: set_with_Inr dest: built_source_instance)

lemma langsmith_loop_key:
  assumes "langsmith_New sc d = Inr loops" "l \<in> set loops"
  shows "ck_SourceInstance (loop_Key net (Langsmith l)) = sc_SourceInstance sc"
    "\<exists>lp. loop_enabled sc (ck_Loop (loop_Key net (Langsmith l))) = Some lp"
    "\<And>r. l = RunsLoop r \<Longrightarrow> \<exists>lp. loop_enabled sc ''runs'' = Some lp \<and> newRunsLoop sc lp d = Inr r"
proof -
  obtain n lp where n: "loop_enabled sc n = Some lp" and
    k: "(n = ''sessions'' \<and> build_sessions sc d lp = Inr l) \<or> (n = ''runs'' \<and> set_with (newRunsLoop sc lp d) RunsLoop = Inr l) \<or>
      (n = ''usage'' \<and> build_usage sc d lp = Inr l)"
    using langsmith_parts [OF assms] by blast
  have inst: "build_sessions sc d lp = Inr (SessionsLoop s) \<Longrightarrow> sl_sourceInstance s = sc_SourceInstance sc"
    "build_usage sc d lp = Inr (UsageLoop u) \<Longrightarrow> ul_sourceInstance u = sc_SourceInstance sc" for s u
    using built_instance by blast+
  have kind: "(\<exists>s. l = SessionsLoop s) \<and> n = ''sessions'' \<or> (\<exists>r. l = RunsLoop r \<and> newRunsLoop sc lp d = Inr r) \<and> n = ''runs'' \<or> (\<exists>u. l = UsageLoop u) \<and> n = ''usage''"
    using k build_kind by (auto dest!: set_with_Inr)
  show "ck_SourceInstance (loop_Key net (Langsmith l)) = sc_SourceInstance sc"
    using kind k inst by (auto simp: sl_Key_def qr_Key_def ul_Key_def dest: built_source_instance)
  show "\<exists>lp. loop_enabled sc (ck_Loop (loop_Key net (Langsmith l))) = Some lp"
    using kind n by (auto simp: sl_Key_def qr_Key_def ul_Key_def)
  show "l = RunsLoop r \<Longrightarrow> \<exists>lp. loop_enabled sc ''runs'' = Some lp \<and> newRunsLoop sc lp d = Inr r" for r
    using kind n by auto
qed

text \<open>What the two constructors of the registry give.\<close>

lemma registry_build:
  assumes "source_registry d = Some reg" "Build reg t sc = Inr loops" "l \<in> set loops"
  shows "ck_SourceInstance (loop_Key net l) = sc_SourceInstance sc"
    "\<exists>lp. fmlookup (sc_Loops sc) (ck_Loop (loop_Key net l)) = Some lp \<and> lp_Enabled lp"
    "\<And>r. l = Langsmith (RunsLoop r) \<Longrightarrow> \<exists>lp. fmlookup (sc_Loops sc) ''runs'' = Some lp \<and> lp_Enabled lp \<and> newRunsLoop sc lp d = Inr r"
proof -
  have origin: "(\<exists>ls p. portkey_New sc d = Inr ls \<and> p \<in> set ls \<and> l = Portkey p) \<or> (\<exists>ls p. langsmith_New sc d = Inr ls \<and> p \<in> set ls \<and> l = Langsmith p)"
    using assms by (fastforce simp: source_registry_def Register_def NewRegistry_def Build_def constructor_def split: if_splits sum.splits)
  then show "ck_SourceInstance (loop_Key net l) = sc_SourceInstance sc" using portkey_loop_key(1) langsmith_loop_key(1) by blast
  have "\<exists>lp. loop_enabled sc (ck_Loop (loop_Key net l)) = Some lp" using origin portkey_loop_key(2) langsmith_loop_key(2) by blast
  then show "\<exists>lp. fmlookup (sc_Loops sc) (ck_Loop (loop_Key net l)) = Some lp \<and> lp_Enabled lp" using loop_enabled_Some by blast
  show "\<exists>lp. fmlookup (sc_Loops sc) ''runs'' = Some lp \<and> lp_Enabled lp \<and> newRunsLoop sc lp d = Inr r" if l: "l = Langsmith (RunsLoop r)" for r
  proof -
    obtain ls where "langsmith_New sc d = Inr ls" "RunsLoop r \<in> set ls" using origin l by auto
    from langsmith_loop_key(3) [OF this refl] show ?thesis using loop_enabled_Some by blast
  qed
qed

lemma app_built:
  assumes "app_Build env cfg coord d w = (Inr app, w1)"
  shows "\<exists>reg srcs. source_registry (wire_hooks d) = Some reg \<and> Validate (ae_names env) (Known reg) cfg = [] \<and>
    (\<forall>k\<in>set (operatorPromoted cfg). \<not> IsContentFloorKey k) \<and>
    build_each (build_source (ae_net env) cfg reg) (filter sc_Enabled (cf_Sources cfg)) = Inr srcs \<and>
    heal (ae_cp env) (map (\<lambda>l. loop_Key (ae_net env) (lcd_loop l)) (concat (map snd srcs))) coord w = (ap_coord app, w1) \<and>
    ap_specs app = map (spec_of env cfg (guard_of (ae_net env) cfg (concat (map snd srcs))) w1) (concat (map snd srcs))"
  using assms unfolding app_Build_def
  by (clarsimp split: option.splits if_splits sum.splits prod.splits)

text \<open>A loop of an enabled source, with the configuration found under its name.\<close>

definition loop_from :: "'w net \<Rightarrow> config \<Rightarrow> deps \<Rightarrow> source_config \<Rightarrow> loop_configured \<Rightarrow> bool" where
  "loop_from net cfg d sc l \<longleftrightarrow>
     ck_SourceInstance (loop_Key net (lcd_loop l)) = sc_SourceInstance sc \<and>
     fmlookup (sc_Loops sc) (ck_Loop (loop_Key net (lcd_loop l))) = Some (lcd_cfg l) \<and> lp_Enabled (lcd_cfg l) \<and>
     (loop_IndexedKeys (lcd_loop l) \<noteq> None \<longrightarrow> label_names cfg (lcd_loop l) \<le> stream_ceiling cfg) \<and>
     (\<forall>r. lcd_loop l = Langsmith (RunsLoop r) \<longrightarrow> newRunsLoop sc (lcd_cfg l) d = Inr r)"

lemma built_loop_from:
  assumes "source_registry d = Some reg" "build_source net cfg reg sc = Inr src" "l \<in> set (snd src)"
  shows "loop_from net cfg d sc l"
proof -
  obtain loops where b: "Build reg (sc_Type sc) sc = Inr loops" and lb: "\<forall>x\<in>set loops. loop_IndexedKeys x \<noteq> None \<longrightarrow> label_names cfg x \<le> stream_ceiling cfg"
    and src: "snd src = map (\<lambda>l. \<lparr>lcd_loop = l, lcd_cfg = loop_cfg_of net sc l\<rparr>) loops"
    using assms(2) unfolding build_source_def Let_def by (force split: sum.splits registry_error.splits if_splits)
  obtain x where x: "x \<in> set loops" "l = \<lparr>lcd_loop = x, lcd_cfg = loop_cfg_of net sc x\<rparr>" using assms(3) src by auto
  note reg = registry_build [OF assms(1) b x(1)]
  have runs: "ck_Loop (loop_Key net (Langsmith (RunsLoop r))) = ''runs''" for r by (simp add: qr_Key_def)
  obtain lp where lp: "fmlookup (sc_Loops sc) (ck_Loop (loop_Key net x)) = Some lp" "lp_Enabled lp" using reg(2) by blast
  have "newRunsLoop sc lp d = Inr r" if "x = Langsmith (RunsLoop r)" for r
    using reg(3) [OF that] lp(1) runs [of r] unfolding that by auto
  then show ?thesis using reg(1) lp lb x by (auto simp: loop_from_def loop_cfg_of_def)
qed

section \<open>The identity of a loop\<close>

lemma split_at_first:
  "c \<notin> set us \<Longrightarrow> c \<notin> set vs \<Longrightarrow> us @ c # xs = vs @ c # ys \<Longrightarrow> us = vs \<and> xs = ys"
proof (induction us arbitrary: vs)
  case Nil
  then show ?case by (cases vs) auto
next
  case (Cons u us)
  then show ?case by (cases vs) auto
qed

text \<open>Loops that share the text of a key have the same configuration and are of the same kind.\<close>

lemma same_key_same_loop:
  assumes "loop_from net cfg d sc1 l1" "loop_from net cfg d sc2 l2"
    and "key_String (loop_Key net (lcd_loop l1)) = key_String (loop_Key net (lcd_loop l2))"
    and "CHR ''/'' \<notin> set (sc_SourceInstance sc1)" "CHR ''/'' \<notin> set (sc_SourceInstance sc2)"
    and "sc_SourceInstance sc1 = sc_SourceInstance sc2 \<Longrightarrow> sc1 = sc2"
  shows "lcd_cfg l1 = lcd_cfg l2 \<and> (loop_IndexedKeys (lcd_loop l1) = None \<longleftrightarrow> loop_IndexedKeys (lcd_loop l2) = None)"
proof -
  let ?k1 = "loop_Key net (lcd_loop l1)" and ?k2 = "loop_Key net (lcd_loop l2)"
  have no_slash: "\<forall>n\<in>set loop_names. CHR ''/'' \<notin> set n" by (simp add: loop_names_def)
  have "sc_SourceInstance sc1 @ CHR ''/'' # (ck_Loop ?k1 @ CHR ''/'' # ck_OutputFingerprint ?k1) =
      sc_SourceInstance sc2 @ CHR ''/'' # (ck_Loop ?k2 @ CHR ''/'' # ck_OutputFingerprint ?k2)"
    using assms(1-3) by (simp add: loop_from_def key_String_def slash_def)
  note inst = split_at_first [OF assms(4,5) this]
  have name: "ck_Loop ?k1 = ck_Loop ?k2"
    using split_at_first [OF _ _ conjunct2 [OF inst]] no_slash loop_name_known(1) by blast
  have "sc1 = sc2" using inst assms(6) by blast
  then have "lcd_cfg l1 = lcd_cfg l2" using assms(1,2) name by (simp add: loop_from_def)
  then show ?thesis using loop_name_known(2) [of "lcd_loop l1" net] loop_name_known(2) [of "lcd_loop l2" net] name by auto
qed

lemma contentDenyByLoop_snoc:
  "contentDenyByLoop net (ls @ [l]) =
     (if loop_IndexedKeys (lcd_loop l) = None then contentDenyByLoop net ls
      else fmupd (key_String (loop_Key net (lcd_loop l))) (contentDenylist (optedInContentFieldsForLoop (lcd_cfg l))) (contentDenyByLoop net ls))"
  by (simp add: contentDenyByLoop_def split: option.splits)

lemma contentDenyByLoop_lookup:
  assumes "\<And>x y. x \<in> set ls \<Longrightarrow> y \<in> set ls \<Longrightarrow> key_String (loop_Key net (lcd_loop x)) = key_String (loop_Key net (lcd_loop y)) \<Longrightarrow>
      lcd_cfg x = lcd_cfg y \<and> (loop_IndexedKeys (lcd_loop x) = None \<longleftrightarrow> loop_IndexedKeys (lcd_loop y) = None)"
    and "l \<in> set ls"
  shows "fmlookup (contentDenyByLoop net ls) (key_String (loop_Key net (lcd_loop l))) =
    (if loop_IndexedKeys (lcd_loop l) = None then None else Some (contentDenylist (optedInContentFieldsForLoop (lcd_cfg l))))"
proof -
  have "fmlookup (contentDenyByLoop net xs) (key_String (loop_Key net (lcd_loop l))) =
      (if \<exists>x\<in>set xs. loop_IndexedKeys (lcd_loop x) \<noteq> None \<and> key_String (loop_Key net (lcd_loop x)) = key_String (loop_Key net (lcd_loop l))
       then Some (contentDenylist (optedInContentFieldsForLoop (lcd_cfg l))) else None)" if "set xs \<subseteq> set ls" for xs
    using that
  proof (induction xs rule: rev_induct)
    case Nil
    then show ?case by (simp add: contentDenyByLoop_def)
  next
    case (snoc x xs)
    let ?key = "\<lambda>x. key_String (loop_Key net (lcd_loop x))"
    have "x \<in> set ls" "set xs \<subseteq> set ls" using snoc.prems by auto
    then have same: "?key x = ?key l \<Longrightarrow> lcd_cfg x = lcd_cfg l" and IH: "fmlookup (contentDenyByLoop net xs) (?key l) =
        (if \<exists>x\<in>set xs. loop_IndexedKeys (lcd_loop x) \<noteq> None \<and> ?key x = ?key l then Some (contentDenylist (optedInContentFieldsForLoop (lcd_cfg l))) else None)"
      using assms(1) [OF _ assms(2)] snoc.IH by blast+
    show ?case
    proof (cases "loop_IndexedKeys (lcd_loop x) \<noteq> None \<and> ?key x = ?key l")
      case True
      then show ?thesis using same by (auto simp: contentDenyByLoop_snoc)
    next
      case False
      then have "fmlookup (contentDenyByLoop net (xs @ [x])) (?key l) = fmlookup (contentDenyByLoop net xs) (?key l)"
        by (auto simp: contentDenyByLoop_snoc)
      then show ?thesis using IH False by simp
    qed
  qed
  note all = this [OF subset_refl]
  have "(\<exists>x\<in>set ls. loop_IndexedKeys (lcd_loop x) \<noteq> None \<and> key_String (loop_Key net (lcd_loop x)) = key_String (loop_Key net (lcd_loop l))) \<longleftrightarrow>
      loop_IndexedKeys (lcd_loop l) \<noteq> None" (is "?L \<longleftrightarrow> ?R")
  proof
    assume ?L
    then obtain x where x: "x \<in> set ls" "loop_IndexedKeys (lcd_loop x) \<noteq> None"
      "key_String (loop_Key net (lcd_loop x)) = key_String (loop_Key net (lcd_loop l))" by blast
    then show ?R using assms(1) [OF x(1) assms(2) x(3)] by simp
  next
    assume ?R
    then show ?L using assms(2) by blast
  qed
  then show ?thesis unfolding all by simp
qed

lemma guard_of_fields:
  "g_allow (guard_of net cfg ls) = set AllowedLabelKeys \<union> set langsmith_AllowedLabelKeys \<union> set (operatorPromoted cfg)"
  "g_deny (guard_of net cfg ls) = set AbsoluteNeverDenyKeys \<union> set grayBackstopDenyKeys"
  "g_denyByLoop (guard_of net cfg ls) k = map_option set (fmlookup (contentDenyByLoop net ls) k)"
  by (auto simp: guard_of_def NewGuard_def set_dedupe contentDenylist_def)

lemma vendor_keys_content_free: "k \<in> set AllowedLabelKeys \<union> set langsmith_AllowedLabelKeys \<Longrightarrow> \<not> IsContentFloorKey k"
proof -
  have "\<forall>k\<in>set (AllowedLabelKeys @ langsmith_AllowedLabelKeys). \<not> IsContentFloorKey k"
    by (simp add: AllowedLabelKeys_def langsmith_AllowedLabelKeys_def useCaseLabelKey_def IsContentFloorKey_def
        AbsoluteNeverDenyKeys_def genAIContentPrefixes_def HasPrefix_def)
  then show "k \<in> set AllowedLabelKeys \<union> set langsmith_AllowedLabelKeys \<Longrightarrow> \<not> IsContentFloorKey k" by auto
qed

section \<open>What the runs loop is allowed to send\<close>

lemma apply_each_at:
  "apply_each f m ks g = Inr g1 \<Longrightarrow> (\<And>k a b. f k (map_get m k) a = Inr b \<Longrightarrow> P a \<Longrightarrow> P b) \<Longrightarrow> P g \<Longrightarrow> P g1"
  by (induction ks arbitrary: g) (auto split: sum.splits)

lemma langsmith_splitCSV_eq: "langsmith_splitCSV v = splitCSV v"
  by (simp add: langsmith_splitCSV_def splitCSV_def)

definition default_extra :: "string list" where
  "default_extra = [''tags'', ''child_run_ids'', ''app_path'']"

lemma runs_settings_fields:
  assumes "applyRunsSettings defaultRunsSettings s = Inr rs"
  shows "set (rs_extraRecordFields rs) \<subseteq> set default_extra \<union> set (splitCSV (map_get s ''extra_record_fields''))"
    "set (rs_extraIndexedFields rs) \<subseteq> set (splitCSV (map_get s ''extra_indexed_fields''))"
proof -
  have each: "apply_each runs_setting s (sorted_keys s) defaultRunsSettings = Inr rs"
    using assms by (auto simp: applyRunsSettings_def split: sum.splits option.splits)
  let ?R = "\<lambda>x. set (rs_extraRecordFields x) \<subseteq> set default_extra \<union> set (splitCSV (map_get s ''extra_record_fields''))"
    and ?I = "\<lambda>x. set (rs_extraIndexedFields x) \<subseteq> set (splitCSV (map_get s ''extra_indexed_fields''))"
  have "runs_setting k (map_get s k) a = Inr b \<Longrightarrow> ?R a \<Longrightarrow> ?R b" "runs_setting k (map_get s k) a = Inr b \<Longrightarrow> ?I a \<Longrightarrow> ?I b" for k a b
    unfolding runs_setting_def langsmith_splitCSV_eq by (auto dest!: set_with_Inr split: if_splits)
  then show "?R rs" "?I rs"
    using apply_each_at [OF each, of ?R] apply_each_at [OF each, of ?I] by (auto simp: defaultRunsSettings_def default_extra_def)
qed

lemma newRunsLoop_policy:
  assumes "newRunsLoop sc lp d = Inr r"
  shows "\<exists>rs. applyRunsSettings defaultRunsSettings (lp_Settings lp) = Inr rs \<and> qr_policy r = runs_policy rs"
  using assms by (auto simp: newRunsLoop_def split: if_splits sum.splits)

lemma select_enum_plain: "k \<in> set validLangsmithSelectEnum \<Longrightarrow> \<forall>p\<in>set genAIContentPrefixes. \<not> HasPrefix k p"
proof -
  have "\<forall>k\<in>set validLangsmithSelectEnum. \<forall>p\<in>set genAIContentPrefixes. \<not> HasPrefix k p" by code_simp
  then show "k \<in> set validLangsmithSelectEnum \<Longrightarrow> \<forall>p\<in>set genAIContentPrefixes. \<not> HasPrefix k p" by blast
qed

lemma runs_default_not_gray: "set grayBackstopDenyKeys \<inter> (insert ''source'' (fset (rp_record defaultRunsFieldPolicy) \<union> {''run_type'', ''status''} \<union> set default_extra)) = {}"
  by (simp add: grayBackstopDenyKeys_def defaultRunsFieldPolicy_def fset_of_list.rep_eq default_extra_def)

lemma source_key_plain: "''source'' \<notin> set AbsoluteNeverDenyKeys" "\<not> IsContentFloorKey ''source''"
  by (simp_all add: AbsoluteNeverDenyKeys_def IsContentFloorKey_def genAIContentPrefixes_def HasPrefix_def)

text \<open>The keys of a stripped run: allowed as labels, and never on the deny list of its loop.\<close>

lemma runs_record_keys:
  assumes "newRunsLoop sc lp d = Inr r"
  shows "k |\<in>| fmdom (lr_IndexedAttributes (runs_strip (qr_policy r) raw ts)) \<Longrightarrow>
      k \<in> set langsmith_AllowedLabelKeys \<union> set (splitCSV (map_get (lp_Settings lp) ''extra_indexed_fields''))"
    "k |\<in>| fmdom (lr_IndexedAttributes (runs_strip (qr_policy r) raw ts)) |\<union>| fmdom (lr_RecordAttributes (runs_strip (qr_policy r) raw ts)) \<Longrightarrow>
      k \<notin> set (contentDenylist (optedInContentFieldsForLoop lp)) \<and> \<not> IsContentFloorKey k"
proof -
  obtain rs where rs: "applyRunsSettings defaultRunsSettings (lp_Settings lp) = Inr rs" "qr_policy r = runs_policy rs"
    using newRunsLoop_policy [OF assms] by blast
  note valid = applyRunsSettings_ok(2) [OF rs(1)] and extra = runs_settings_fields [OF rs(1)]
  have ix: "k |\<in>| rp_indexed (qr_policy r)" if "k |\<in>| fmdom (lr_IndexedAttributes (runs_strip (qr_policy r) raw ts))" for k
    using that by (auto simp: fmlookup_dom_iff runs_strip_exact runs_indexed_def split: if_splits)
  have rc: "k = ''source'' \<or> k |\<in>| rp_record (qr_policy r)" if "k |\<in>| fmdom (lr_RecordAttributes (runs_strip (qr_policy r) raw ts))" for k
    using that by (auto simp: fmlookup_dom_iff runs_strip_exact runs_recorded_def split: if_splits)
  show "k \<in> set langsmith_AllowedLabelKeys \<union> set (splitCSV (map_get (lp_Settings lp) ''extra_indexed_fields''))"
    if "k |\<in>| fmdom (lr_IndexedAttributes (runs_strip (qr_policy r) raw ts))"
    using ix [OF that] extra(2) unfolding rs(2) by (auto simp: runs_policy_fields langsmith_AllowedLabelKeys_def)
  show "k \<notin> set (contentDenylist (optedInContentFieldsForLoop lp)) \<and> \<not> IsContentFloorKey k"
    if "k |\<in>| fmdom (lr_IndexedAttributes (runs_strip (qr_policy r) raw ts)) |\<union>| fmdom (lr_RecordAttributes (runs_strip (qr_policy r) raw ts))"
  proof (cases "k = ''source''")
    case True
    then show ?thesis using runs_default_not_gray source_key_plain by (auto simp: contentDenylist_def)
  next
    case False
    then have pol: "k |\<in>| rp_indexed (runs_policy rs) |\<union>| rp_record (runs_policy rs)" using ix [of k] rc [of k] that unfolding rs(2) by blast
    note acc = runs_policy_accepted [OF valid pol]
    have floor: "k \<notin> set AbsoluteNeverDenyKeys" "\<not> IsContentFloorKey k"
      using acc(2) select_enum_plain [OF acc(1)] by (simp_all add: hardDeniedRunsFields_def IsContentFloorKey_def)
    have "k \<in> set (optedInContentFieldsForLoop lp)" if "k \<in> set grayBackstopDenyKeys"
      using pol that runs_default_not_gray extra by (auto simp: runs_policy_fields optedInContentFieldsForLoop_def)
    then show ?thesis using floor by (auto simp: contentDenylist_def)
  qed
qed

text \<open>A record whose keys pass is turned down only for the budget of its loop.\<close>

lemma okLog_only_budget:
  assumes "guard_okLog h loop lr = (False, h')"
    and "\<And>k. k |\<in>| fmdom (lr_IndexedAttributes lr) \<Longrightarrow> k \<in> g_allow h"
    and "\<And>k. k |\<in>| fmdom (lr_IndexedAttributes lr) |\<union>| fmdom (lr_RecordAttributes lr) \<Longrightarrow> k \<notin> loop_deny h loop \<and> \<not> IsContentFloorKey k"
  shows "0 < g_budget h \<and> g_budget h \<le> int (card (seen_sigs h (''logs:'' @ loop)))"
proof -
  have keys: "\<not> (\<exists>m\<in>set [lr_IndexedAttributes lr, lr_RecordAttributes lr]. \<exists>k\<in>set (sorted_keys m). k \<in> loop_deny h loop \<or> IsContentFloorKey k)"
    "\<not> (\<exists>k\<in>set (sorted_keys (lr_IndexedAttributes lr)). k \<notin> g_allow h)"
    using assms(2,3) by auto
  have "0 < g_budget h" "guard_admit h (''logs:'' @ loop) (labelSig (lr_IndexedAttributes lr)) = (False, h')"
    using assms(1) keys unfolding guard_okLog_def by (simp_all split: if_splits)
  then show ?thesis
    by (auto simp: guard_admit_def Let_def seen_sigs_def fcard.rep_eq split: if_splits option.splits)
qed

section \<open>Properties\<close>

lemma validated_instances:
  assumes "Validate N known cfg = []"
  shows "sc \<in> set (filter sc_Enabled (cf_Sources cfg)) \<Longrightarrow> CHR ''/'' \<notin> set (sc_SourceInstance sc)"
    "sc1 \<in> set (filter sc_Enabled (cf_Sources cfg)) \<Longrightarrow> sc2 \<in> set (filter sc_Enabled (cf_Sources cfg)) \<Longrightarrow>
     sc_SourceInstance sc1 = sc_SourceInstance sc2 \<Longrightarrow> sc1 = sc2"
proof -
  have ok: "\<forall>s\<in>set (cf_Sources cfg). sc_Enabled s \<longrightarrow> validate_source N known {} s = []"
    "distinct (map sc_SourceInstance (filter sc_Enabled (cf_Sources cfg)))"
    using validate_sources_ok [of N known "{}" "cf_Sources cfg"] assms by (auto simp: Validate_def)
  show "CHR ''/'' \<notin> set (sc_SourceInstance sc)" if "sc \<in> set (filter sc_Enabled (cf_Sources cfg))"
    using ok(1) that Contains_slash by (auto simp: validate_source_def Let_def)
  show "sc1 = sc2" if "sc1 \<in> set (filter sc_Enabled (cf_Sources cfg))" "sc2 \<in> set (filter sc_Enabled (cf_Sources cfg))"
    "sc_SourceInstance sc1 = sc_SourceInstance sc2"
    using ok(2) that unfolding distinct_map by (blast dest: inj_onD)
qed

text \<open>Every spec of an application: the loop of an enabled source, and the deny list it is given.\<close>

lemma spec_origin:
  assumes "app_Build env cfg coord d w = (Inr app, w1)" "sp \<in> set (ap_specs app)"
  shows "\<exists>sc l ls. sc \<in> set (cf_Sources cfg) \<and> sc_Enabled sc \<and> loop_from (ae_net env) cfg (wire_hooks d) sc l \<and>
    sp = spec_of env cfg (guard_of (ae_net env) cfg ls) w1 l \<and>
    loop_deny (guard_of (ae_net env) cfg ls) (key_String (loop_Key (ae_net env) (lcd_loop l))) =
      set (contentDenylist (if loop_IndexedKeys (lcd_loop l) = None then [] else optedInContentFieldsForLoop (lcd_cfg l)))"
proof -
  let ?net = "ae_net env" and ?on = "filter sc_Enabled (cf_Sources cfg)"
  obtain reg srcs where reg: "source_registry (wire_hooks d) = Some reg" and val: "Validate (ae_names env) (Known reg) cfg = []"
    and srcs: "build_each (build_source ?net cfg reg) ?on = Inr srcs"
    and specs: "ap_specs app = map (spec_of env cfg (guard_of ?net cfg (concat (map snd srcs))) w1) (concat (map snd srcs))"
    using app_built [OF assms(1)] by blast
  let ?ls = "concat (map snd srcs)"
  have loops: "\<exists>sc\<in>set ?on. loop_from ?net cfg (wire_hooks d) sc x" if "x \<in> set ?ls" for x
  proof -
    obtain src where "src \<in> set srcs" "x \<in> set (snd src)" using \<open>x \<in> set ?ls\<close> by auto
    then show ?thesis using build_each_mem [OF srcs] built_loop_from [OF reg] by blast
  qed
  have same: "lcd_cfg x = lcd_cfg y \<and> (loop_IndexedKeys (lcd_loop x) = None \<longleftrightarrow> loop_IndexedKeys (lcd_loop y) = None)"
    if xy: "x \<in> set ?ls" "y \<in> set ?ls" "key_String (loop_Key ?net (lcd_loop x)) = key_String (loop_Key ?net (lcd_loop y))" for x y
  proof -
    obtain s1 s2 where "s1 \<in> set ?on" "loop_from ?net cfg (wire_hooks d) s1 x" "s2 \<in> set ?on" "loop_from ?net cfg (wire_hooks d) s2 y"
      using loops xy(1,2) by blast
    then show ?thesis using same_key_same_loop [OF _ _ xy(3)] validated_instances [OF val] by blast
  qed
  obtain l where l: "l \<in> set ?ls" "sp = spec_of env cfg (guard_of ?net cfg ?ls) w1 l" using assms(2) specs by auto
  obtain sc where sc: "sc \<in> set ?on" "loop_from ?net cfg (wire_hooks d) sc l" using loops [OF l(1)] by blast
  have lk: "fmlookup (contentDenyByLoop ?net ?ls) (key_String (loop_Key ?net (lcd_loop l))) =
      (if loop_IndexedKeys (lcd_loop l) = None then None else Some (contentDenylist (optedInContentFieldsForLoop (lcd_cfg l))))"
    by (rule contentDenyByLoop_lookup [OF same l(1)])
  have "loop_deny (guard_of ?net cfg ?ls) (key_String (loop_Key ?net (lcd_loop l))) =
      set (contentDenylist (if loop_IndexedKeys (lcd_loop l) = None then [] else optedInContentFieldsForLoop (lcd_cfg l)))"
    by (simp add: loop_deny_def guard_of_fields(2,3) lk contentDenylist_def)
  then show ?thesis using sc l by (intro exI [of _ sc] exI [of _ l] exI [of _ ?ls]) simp
qed

text \<open>C16: the governance a configuration asks for is the governance the pipeline has. In a built
  application every loop is an enabled loop of an enabled source, under the name it is
  configured with. The guard of its runner allows no content-floor key as a label; its deny
  list is the floor and the gray fields, less the gray fields that this loop itself, and no
  other, opted into, and only if it is a logs loop; a logs loop stays within the number of
  stream labels. What an operator opted into is not dropped behind his back: a run record
  stripped by the policy of the loop is turned down only when the budget of label sets of
  the loop is used up.\<close>

theorem Build_governed:
  assumes "app_Build env cfg coord d w = (Inr app, w1)" "sp \<in> set (ap_specs app)"
    and "key = rc_key (fst (as_Runner sp))" "g = rn_guard (snd (as_Runner sp))"
  shows "\<exists>sc lc. sc \<in> set (cf_Sources cfg) \<and> sc_Enabled sc \<and> ck_SourceInstance key = sc_SourceInstance sc \<and>
    fmlookup (sc_Loops sc) (ck_Loop key) = Some lc \<and> lp_Enabled lc \<and>
    (\<forall>k\<in>g_allow g. \<not> IsContentFloorKey k) \<and> g_deny g = set AbsoluteNeverDenyKeys \<union> set grayBackstopDenyKeys \<and>
    loop_deny g (key_String key) = set AbsoluteNeverDenyKeys \<union>
      (set grayBackstopDenyKeys - (if loop_IndexedKeys (as_Loop sp) = None then {} else set (optedInContentFieldsForLoop lc))) \<and>
    (loop_IndexedKeys (as_Loop sp) \<noteq> None \<longrightarrow> label_names cfg (as_Loop sp) \<le> stream_ceiling cfg) \<and>
    (\<forall>r raw ts h h'. as_Loop sp = Langsmith (RunsLoop r) \<and> guard_later g h \<and>
       guard_okLog h (key_String key) (runs_strip (qr_policy r) raw ts) = (False, h') \<longrightarrow>
       0 < g_budget g \<and> g_budget g \<le> int (card (seen_sigs h (''logs:'' @ key_String key))))"
proof -
  let ?net = "ae_net env"
  obtain sc l ls where sc: "sc \<in> set (cf_Sources cfg)" "sc_Enabled sc" and l: "loop_from ?net cfg (wire_hooks d) sc l"
    and sp: "sp = spec_of env cfg (guard_of ?net cfg ls) w1 l"
    and deny: "loop_deny (guard_of ?net cfg ls) (key_String (loop_Key ?net (lcd_loop l))) =
      set (contentDenylist (if loop_IndexedKeys (lcd_loop l) = None then [] else optedInContentFieldsForLoop (lcd_cfg l)))"
    using spec_origin [OF assms(1,2)] by blast
  have parts: "key = loop_Key ?net (lcd_loop l)" "g = guard_of ?net cfg ls" "as_Loop sp = lcd_loop l"
    by (simp_all add: assms(3,4) sp spec_of_def NewLoopRunner_def)
  have free: "\<not> IsContentFloorKey k" if "k \<in> g_allow g" for k
    using app_built [OF assms(1)] vendor_keys_content_free that by (auto simp: parts(2) guard_of_fields)
  have runs: "0 < g_budget g \<and> g_budget g \<le> int (card (seen_sigs h (''logs:'' @ key_String key)))"
    if r: "lcd_loop l = Langsmith (RunsLoop r)" and h: "guard_later g h"
      and no: "guard_okLog h (key_String key) (runs_strip (qr_policy r) raw ts) = (False, h')" for r raw ts h h'
  proof -
    have new: "newRunsLoop sc (lcd_cfg l) (wire_hooks d) = Inr r" using l r by (simp add: loop_from_def)
    note keys = runs_record_keys [OF new]
    have conf: "g_allow h = g_allow g" "g_budget h = g_budget g" "loop_deny h (key_String key) = loop_deny g (key_String key)"
      using guard_conf_fields [of h g] h by (simp_all add: guard_later_def)
    have "lcd_cfg l \<in> (\<lambda>n. the (fmlookup (sc_Loops sc) n)) ` fset (fmdom (sc_Loops sc))" "lp_Enabled (lcd_cfg l)"
      using l fmdomI by (force simp: loop_from_def image_iff)+
    then have "lcd_cfg l \<in> set (enabled_loops sc)" by (simp add: enabled_loops_def)
    then have "set (splitCSV (map_get (lp_Settings (lcd_cfg l)) ''extra_indexed_fields'')) \<subseteq> set (operatorPromoted cfg)"
      using sc by (auto simp: operatorPromoted_def optedInIndexedFields_def set_dedupe)
    then have "k \<in> g_allow h" if "k |\<in>| fmdom (lr_IndexedAttributes (runs_strip (qr_policy r) raw ts))" for k
      using keys(1) [OF that] unfolding conf(1) parts(2) guard_of_fields by blast
    moreover have "k \<notin> loop_deny h (key_String key) \<and> \<not> IsContentFloorKey k"
      if "k |\<in>| fmdom (lr_IndexedAttributes (runs_strip (qr_policy r) raw ts)) |\<union>| fmdom (lr_RecordAttributes (runs_strip (qr_policy r) raw ts))" for k
      using keys(2) [OF that] deny r unfolding conf(3) unfolding parts by simp
    ultimately show ?thesis using okLog_only_budget [OF no] unfolding conf(2) by blast
  qed
  show ?thesis
    using sc l deny free runs unfolding parts
    by (intro exI [of _ sc] exI [of _ "lcd_cfg l"]) (auto simp: loop_from_def guard_of_fields(2) contentDenylist_def)
qed

section \<open>The epoch of a single replica\<close>

text \<open>With a checkpointer whose loads change nothing, the scan finds the largest epoch stored under a key of a loop.\<close>

lemma heal_max_spec:
  assumes "\<forall>k. snd (cp_Load cp w k) = w"
    and "heal_max cp ks m w = (n, w1)"
  shows "w1 = w \<and> m \<le> n \<and> (\<forall>k\<in>set ks. \<forall>wm. fst (cp_Load cp w k) = Inr wm \<longrightarrow> wm_Epoch wm \<le> n) \<and>
    (n = m \<or> (\<exists>k\<in>set ks. \<exists>wm. fst (cp_Load cp w k) = Inr wm \<and> wm_Epoch wm = n))"
  using assms(2)
proof (induction ks arbitrary: m)
  case (Cons k ks)
  obtain r where r: "cp_Load cp w k = (r, w)" using assms(1) by (metis prod.collapse)
  define m1 where "m1 = (case r of Inl _ \<Rightarrow> m | Inr wm \<Rightarrow> if m < wm_Epoch wm then wm_Epoch wm else m)"
  have "heal_max cp ks m1 w = (n, w1)" using Cons.prems r by (auto simp: m1_def split: sum.splits)
  note IH = Cons.IH [OF this]
  have "m \<le> m1" "\<forall>wm. r = Inr wm \<longrightarrow> wm_Epoch wm \<le> m1" "m1 = m \<or> (\<exists>wm. r = Inr wm \<and> wm_Epoch wm = m1)"
    by (auto simp: m1_def split: sum.splits)
  then show ?case using IH r by fastforce
qed simp

text \<open>C17: a single replica takes up the epoch it finds. When the application is built without a
  leader election, over a checkpointer that this process alone uses, the epoch it stamps is
  at least one and at least that of every watermark stored under a key of one of its loops
  that could be read; so the fence accepts every watermark of that epoch that moves a loop
  forward, whatever elections wrote before. The epoch is the configured one or one that was
  found, never larger, so that a later election is not fenced off.\<close>

theorem Build_unfenced:
  assumes "app_Build env cfg (Noop e) d w = (Inr app, w1)"
    and "\<forall>k. snd (cp_Load (ae_cp env) w k) = w"
  shows "\<exists>e1. ap_coord app = Noop e1 \<and>
    (let epoch = EpochFromContext (noop_epoch e1 []) in
     1 \<le> epoch \<and>
     (\<forall>sp\<in>set (ap_specs app). \<forall>wm. fst (cp_Load (ae_cp env) w (rc_key (fst (as_Runner sp)))) = Inr wm \<longrightarrow>
        wm_Epoch wm \<le> epoch \<and> (\<forall>t c. wm_Time wm < t \<or> wm_Time wm = t \<and> wm_Cursor wm \<noteq> c \<longrightarrow>
          CheckMonotonic wm \<lparr>wm_Time = t, wm_Cursor = c, wm_Epoch = epoch\<rparr> = None)) \<and>
     (epoch = max 1 e \<or> (\<exists>sp\<in>set (ap_specs app). \<exists>wm. fst (cp_Load (ae_cp env) w (rc_key (fst (as_Runner sp)))) = Inr wm \<and> wm_Epoch wm = epoch)))"
proof -
  obtain ls g where heal: "heal (ae_cp env) (map (\<lambda>l. loop_Key (ae_net env) (lcd_loop l)) ls) (Noop e) w = (ap_coord app, w1)"
    and specs: "ap_specs app = map (spec_of env cfg g w1) ls"
    using app_built [OF assms(1)] by blast
  let ?ks = "map (\<lambda>l. loop_Key (ae_net env) (lcd_loop l)) ls"
  have keys: "set ?ks = (\<lambda>sp. rc_key (fst (as_Runner sp))) ` set (ap_specs app)"
    by (simp add: specs image_image spec_of_def NewLoopRunner_def)
  obtain n where n: "heal_max (ae_cp env) ?ks (max 1 e) w = (n, w1)" "ap_coord app = (if max 1 e < n then Noop n else Noop e)"
    using heal by (auto split: prod.splits)
  note spec = heal_max_spec [OF assms(2) n(1), unfolded keys]
  define e1 where "e1 = (if max 1 e < n then n else e)"
  have epoch: "EpochFromContext (noop_epoch e1 []) = n" using spec by (auto simp: EpochFromContext_def noop_epoch_def WithEpoch_def e1_def)
  have fence: "CheckMonotonic wm \<lparr>wm_Time = t, wm_Cursor = c, wm_Epoch = n\<rparr> = None"
    if "wm_Epoch wm \<le> n" "wm_Time wm < t \<or> wm_Time wm = t \<and> wm_Cursor wm \<noteq> c" for wm t c
    using that by (auto simp: CheckMonotonic_def)
  show ?thesis unfolding Let_def
  proof (rule exI [of _ e1], unfold epoch, intro conjI)
    show "ap_coord app = Noop e1" using n(2) by (simp add: e1_def)
  qed (use spec fence in auto)
qed

section \<open>A built application\<close>

text \<open>One LangSmith runs loop that opted into a gray field, over a store an election left at epoch seven.\<close>

definition governed_loop :: loop_config where
  "governed_loop = \<lparr>lp_Enabled = True, lp_Cadence = Minute, lp_Window = 0, lp_BucketSettle = Minute, lp_BootstrapLookback = 0, lp_MaxBackfill = 0,
     lp_MetricPrefix = '''', lp_Graphs = [], lp_Settings = fmupd ''extra_record_fields'' ''error'' (fmupd ''session_ids'' ''p'' fmempty)\<rparr>"

definition governed_source :: source_config where
  "governed_source = snap_cfg\<lparr>sc_BaseURL := ''https://u'', sc_Loops := fmupd ''runs'' governed_loop fmempty\<rparr>"

definition governed_config :: config where
  "governed_config = (apply_defaults plain_config)\<lparr>cf_Sources := [governed_source]\<rparr>"

definition left_over :: watermark where
  "left_over = \<lparr>wm_Time = 5, wm_Cursor = '''', wm_Epoch = 7\<rparr>"

definition governed_env :: "unit app_env" where
  "governed_env = \<lparr>ae_names = no_names, ae_net = snap_net, ae_Emit = (\<lambda>s b. (EmitOk, s)),
     ae_cp = \<lparr>cp_Load = (\<lambda>s k. (Inr left_over, s)), cp_Save = (\<lambda>s k w. (None, s))\<rparr>, ae_ctxErr = (\<lambda>_. False)\<rparr>"

definition governed_runs :: runs_loop where
  "governed_runs = projr (newRunsLoop governed_source governed_loop (wire_hooks no_hooks))"

lemma governed_runs_built: "newRunsLoop governed_source governed_loop (wire_hooks no_hooks) = Inr governed_runs"
proof -
  have keys: "sorted_keys (lp_Settings governed_loop) = [''extra_record_fields'', ''session_ids'']"
    by (simp add: governed_loop_def sorted_keys_def sorted_list_of_fset.rep_eq less_char_def)
  have csv: "langsmith_splitCSV ''p'' = [''p'']" "langsmith_splitCSV ''error'' = [''error'']" by code_simp+
  have "applyRunsSettings defaultRunsSettings (lp_Settings governed_loop) =
      Inr (defaultRunsSettings\<lparr>rs_sessionIDs := [''p''], rs_extraRecordFields := [''error'']\<rparr>)"
    unfolding applyRunsSettings_def keys
    by (simp add: runs_setting_def governed_loop_def map_get_def csv validateRunsSettings_def defaultRunsSettings_def runsPageSizeMax_def
          Hour_def Minute_def hardDeniedRunsFields_def AbsoluteNeverDenyKeys_def validLangsmithSelectEnum_def)
  moreover have "lp_Window governed_loop = 0" by (simp add: governed_loop_def)
  ultimately show ?thesis by (simp add: governed_runs_def newRunsLoop_def)
qed

lemma governed_loops: "fmlookup (sc_Loops governed_source) n = (if n = ''runs'' then Some governed_loop else None)"
  "sc_Type governed_source = ''langsmith''" "sc_Enabled governed_source" "lp_Enabled governed_loop" "sorted_keys (sc_Loops governed_source) = [''runs'']"
  by (simp_all add: governed_source_def snap_cfg_def governed_loop_def sorted_keys_def sorted_list_of_fset.rep_eq)

lemma governed_new: "langsmith_New governed_source (wire_hooks no_hooks) = Inr [RunsLoop governed_runs]"
  by (simp add: langsmith_New_def loop_enabled_def governed_loops opt_loop_def set_with_def governed_runs_built)

lemma governed_valid: "Validate no_names {''portkey'', ''langsmith''} governed_config = []"
  by (simp add: governed_config_def governed_source_def governed_loop_def snap_cfg_def validate_source_def validate_loop_def
      Validate_def validate_governance_def validate_ha_def validate_self_def validateEmitEndpoint_def
      validate_profiling_def apply_defaults_def plain_config_def default_governance_def default_queue_def default_profiling_def
      default_ha_def or_default_def insecureURL_def HasPrefix_def Let_def defaultPerMetricCardinalityBudget_def defaultMaxDPM_def
      defaultMaxCatchupPerTick_def DefaultMaxStreamLabelKeys_def defaultDynamoDBLeaseDuration_def
      defaultDynamoDBRenewDeadline_def defaultDynamoDBRetryPeriod_def Second_def Minute_def f_le_def f_eq_def minCadence_def)

lemma governed_labels: "label_names governed_config (Langsmith (RunsLoop governed_runs)) \<le> stream_ceiling governed_config"
proof -
  have csv: "splitCSV '''' = []" by code_simp
  obtain rs where rs: "applyRunsSettings defaultRunsSettings (lp_Settings governed_loop) = Inr rs" "qr_policy governed_runs = runs_policy rs"
    using newRunsLoop_policy [OF governed_runs_built] by blast
  have "rs_extraIndexedFields rs = []"
    using runs_settings_fields(2) [OF rs(1)] by (simp add: governed_loop_def map_get_def csv)
  then have "fset (rp_indexed (qr_policy governed_runs)) = {''run_type'', ''status''}" by (simp add: rs(2) runs_policy_fields)
  then have two: "length (qr_IndexedKeys governed_runs) = 2" by (simp add: qr_IndexedKeys_def sorted_list_of_fset.rep_eq)
  have "fcard (fmdom (ProductIdentity ic)) \<le> 3" for ic
    using card_length [of "[''service.name'', ''service.namespace'', ''deployment.environment.name'']"]
    by (simp add: ProductIdentity_def fcard.rep_eq fset_of_list.rep_eq)
  from this [of "cf_Identity governed_config"] two show ?thesis
    by (simp add: label_names_def stream_ceiling_def DefaultMaxStreamLabelKeys_def governed_config_def apply_defaults_def plain_config_def
        default_governance_def or_default_def)
qed

lemma governed_built:
  "\<exists>app. app_Build governed_env governed_config (Noop 0) no_hooks () = (Inr app, ()) \<and>
     map as_Loop (ap_specs app) = [Langsmith (RunsLoop governed_runs)]"
proof -
  let ?d = "wire_hooks no_hooks"
  define reg where "reg = [''portkey'' \<mapsto> (\<lambda>sc. constructor Portkey (portkey_New sc ?d)), ''langsmith'' \<mapsto> (\<lambda>sc. constructor Langsmith (langsmith_New sc ?d))]"
  have reg: "source_registry ?d = Some reg" by (simp add: source_registry_def Register_def NewRegistry_def reg_def)
  have known: "Known reg = {''portkey'', ''langsmith''}" by (auto simp: Known_def reg_def)
  have build: "Build reg ''langsmith'' governed_source = Inr [Langsmith (RunsLoop governed_runs)]"
    by (simp add: Build_def reg_def governed_loops constructor_def governed_new)
  have none: "splitCSV '''' = []" by code_simp
  have promoted: "operatorPromoted governed_config = []"
    by (simp add: operatorPromoted_def optedInIndexedFields_def governed_config_def enabled_loops_def governed_loops map_get_def none
        apply_defaults_def plain_config_def default_governance_def) (simp add: governed_loop_def none)
  have srcs: "filter sc_Enabled (cf_Sources governed_config) = [governed_source]" by (simp add: governed_config_def governed_loops)
  have name: "ck_Loop (loop_Key snap_net (Langsmith (RunsLoop governed_runs))) = ''runs''" by (simp add: qr_Key_def)
  have labels: "label_names governed_config (Langsmith (RunsLoop governed_runs)) \<le> stream_ceiling governed_config"
    by (rule governed_labels)
  have src: "build_source snap_net governed_config reg governed_source =
      Inr (''langsmith'', [\<lparr>lcd_loop = Langsmith (RunsLoop governed_runs), lcd_cfg = governed_loop\<rparr>])"
    using labels by (simp add: build_source_def build governed_loops loop_cfg_of_def name Let_def del: loop_Key.simps)
  have own: "ValidateOwnership [source_decl_of snap_net (''langsmith'', [\<lparr>lcd_loop = Langsmith (RunsLoop governed_runs), lcd_cfg = governed_loop\<rparr>])] = None"
    by (simp add: ValidateOwnership_def source_decl_of_def qr_SeriesNames_def)
  have env: "ae_net governed_env = snap_net" "ae_names governed_env = no_names" by (simp_all add: governed_env_def)
  show ?thesis
    by (simp add: app_Build_def reg env known governed_valid promoted srcs src own spec_of_def split: prod.splits) 
qed

lemma governed_denials:
  "set (optedInContentFieldsForLoop governed_loop) = {''error''}"
proof -
  have csv: "splitCSV ''error'' = [''error'']" "splitCSV '''' = []" by code_simp+
  show ?thesis by (simp add: optedInContentFieldsForLoop_def governed_loop_def map_get_def csv)
qed

theorem Build_governed_witness:
  "\<exists>app sp. app_Build governed_env governed_config (Noop 0) no_hooks () = (Inr app, ()) \<and> ap_specs app = [sp] \<and>
     as_Loop sp = Langsmith (RunsLoop governed_runs) \<and>
     ''error'' \<notin> loop_deny (rn_guard (snd (as_Runner sp))) (key_String (rc_key (fst (as_Runner sp)))) \<and>
     ''events'' \<in> loop_deny (rn_guard (snd (as_Runner sp))) (key_String (rc_key (fst (as_Runner sp)))) \<and>
     label_names governed_config (Langsmith (RunsLoop governed_runs)) \<le> stream_ceiling governed_config"
proof -
  obtain app where app: "app_Build governed_env governed_config (Noop 0) no_hooks () = (Inr app, ())"
    "map as_Loop (ap_specs app) = [Langsmith (RunsLoop governed_runs)]"
    using governed_built by (elim exE conjE) (rule that)
  then obtain sp where sp: "ap_specs app = [sp]" "as_Loop sp = Langsmith (RunsLoop governed_runs)" by auto
  then have mem: "sp \<in> set (ap_specs app)" by simp
  obtain sc lc where sc: "sc \<in> set (cf_Sources governed_config)" "fmlookup (sc_Loops sc) (ck_Loop (rc_key (fst (as_Runner sp)))) = Some lc"
    and deny: "loop_deny (rn_guard (snd (as_Runner sp))) (key_String (rc_key (fst (as_Runner sp)))) = set AbsoluteNeverDenyKeys \<union>
      (set grayBackstopDenyKeys - (if loop_IndexedKeys (as_Loop sp) = None then {} else set (optedInContentFieldsForLoop lc)))"
    and labels: "loop_IndexedKeys (as_Loop sp) \<noteq> None \<longrightarrow> label_names governed_config (as_Loop sp) \<le> stream_ceiling governed_config"
    using Build_governed [OF app(1) mem refl refl] by (elim exE conjE) (rule that)
  have "lc = governed_loop" using sc by (auto simp: governed_config_def governed_loops split: if_splits)
  then have "loop_deny (rn_guard (snd (as_Runner sp))) (key_String (rc_key (fst (as_Runner sp)))) =
      set AbsoluteNeverDenyKeys \<union> (set grayBackstopDenyKeys - {''error''})"
    using deny by (simp add: sp(2) governed_denials)
  then have "''error'' \<notin> loop_deny (rn_guard (snd (as_Runner sp))) (key_String (rc_key (fst (as_Runner sp))))"
    "''events'' \<in> loop_deny (rn_guard (snd (as_Runner sp))) (key_String (rc_key (fst (as_Runner sp))))"
    by (simp_all add: AbsoluteNeverDenyKeys_def grayBackstopDenyKeys_def)
  with app(1) sp labels show ?thesis by auto
qed

theorem Build_unfenced_witness:
  "\<exists>app e1. app_Build governed_env governed_config (Noop 0) no_hooks () = (Inr app, ()) \<and> ap_coord app = Noop e1 \<and>
     EpochFromContext (noop_epoch e1 []) = 7 \<and> CheckMonotonic left_over \<lparr>wm_Time = 6, wm_Cursor = '''', wm_Epoch = 7\<rparr> = None"
proof -
  obtain app where app: "app_Build governed_env governed_config (Noop 0) no_hooks () = (Inr app, ())"
    "map as_Loop (ap_specs app) = [Langsmith (RunsLoop governed_runs)]"
    using governed_built by (elim exE conjE) (rule that)
  then obtain sp where sp: "ap_specs app = [sp]" by auto
  have load: "cp_Load (ae_cp governed_env) () k = (Inr left_over, ())" for k by (simp add: governed_env_def)
  have "\<forall>k. snd (cp_Load (ae_cp governed_env) () k) = ()" by simp
  note all = Build_unfenced [OF app(1) this, unfolded Let_def]
  let ?E = "\<lambda>e. EpochFromContext (noop_epoch e [])" and ?load = "\<lambda>sp. fst (cp_Load (ae_cp governed_env) () (rc_key (fst (as_Runner sp))))"
  obtain e1 where e1: "ap_coord app = Noop e1"
    and each: "\<forall>sp\<in>set (ap_specs app). \<forall>wm. ?load sp = Inr wm \<longrightarrow> wm_Epoch wm \<le> ?E e1 \<and>
      (\<forall>t c. wm_Time wm < t \<or> wm_Time wm = t \<and> wm_Cursor wm \<noteq> c \<longrightarrow> CheckMonotonic wm \<lparr>wm_Time = t, wm_Cursor = c, wm_Epoch = ?E e1\<rparr> = None)"
    and some: "?E e1 = max 1 0 \<or> (\<exists>sp\<in>set (ap_specs app). \<exists>wm. ?load sp = Inr wm \<and> wm_Epoch wm = ?E e1)"
    using all by (elim exE conjE) (rule that)
  have "sp \<in> set (ap_specs app)" "?load sp = Inr left_over" by (simp_all add: sp load)
  from each [rule_format, OF this] have ge: "wm_Epoch left_over \<le> ?E e1"
    and fence: "CheckMonotonic left_over \<lparr>wm_Time = 6, wm_Cursor = '''', wm_Epoch = ?E e1\<rparr> = None" by (auto simp: left_over_def)
  have found: "?E e1 = max 1 0 \<or> wm_Epoch left_over = ?E e1" using some by (auto simp: load)
  have seven: "EpochFromContext (noop_epoch e1 []) = 7" using ge found by (auto simp: left_over_def)
  moreover have "CheckMonotonic left_over \<lparr>wm_Time = 6, wm_Cursor = '''', wm_Epoch = 7\<rparr> = None"
    using fence unfolding seven .
  ultimately show ?thesis using app(1) e1 by blast
qed

section \<open>Opt-ins at the edge\<close>

text \<open>
  The field a trace id is taken from becomes an attribute of the record, but is no opt-in of
  the guard: a gray field is accepted by the constructor of the log export and then makes the
  guard drop every record that bears it.
\<close>

lemma gray_trace_field_dropped:
  assumes "ls_traceIDField ls = ''name''" "lp_Settings lp = fmupd ''trace_id_field'' ''name'' export_settings"
    and "fmlookup raw ''name'' = Some (JStr v)" "ls_extraIndexedFields ls = []"
    and "loop_deny g loop = set (contentDenylist (optedInContentFieldsForLoop lp))"
  shows "''name'' \<notin> set hardDeniedLogFields \<and> fst (guard_okLog g loop (strip (logs_policy ls slug) raw ts)) = False"
proof -
  have csv: "splitCSV '''' = []" by code_simp
  have "optedInContentFieldsForLoop lp = []"
    by (simp add: optedInContentFieldsForLoop_def assms(2) export_settings_def map_get_def csv)
  then have deny: "''name'' \<in> loop_deny g loop" by (simp add: assms(5) contentDenylist_def grayBackstopDenyKeys_def)
  have "''name'' |\<in>| fp_record (logs_policy ls slug)" "''name'' |\<notin>| fp_indexed (logs_policy ls slug)" "''name'' \<noteq> useCaseLabelKey"
    by (simp_all add: policy_fields assms(1,4) defaultLogFieldPolicy_def policy_of_def useCaseLabelKey_def)
  then have "fmlookup (lr_RecordAttributes (strip (logs_policy ls slug) raw ts)) ''name'' = Some v"
    using assms(3) by (simp add: strip_exact record_value_def field_value_def scalarToString_def over_def)
  then have "''name'' \<in> set (sorted_keys (lr_RecordAttributes (strip (logs_policy ls slug) raw ts)))"
    by (auto simp: sorted_keys_def sorted_list_of_fset.rep_eq fmlookup_dom_iff)
  then show ?thesis
    using deny by (auto simp: guard_okLog_def hardDeniedLogFields_def AbsoluteNeverDenyKeys_def contentRequestKeys_def)
qed

text \<open>Signed pointers to the bodies of a run are on no list that denies them.\<close>

lemma signed_url_let_through:
  assumes "k \<in> {''inputs_or_signed_url'', ''outputs_or_signed_url''}"
  shows "k \<in> set validLangsmithSelectEnum \<and> k \<notin> set hardDeniedRunsFields \<and> k \<notin> set (contentDenylist opted) \<and> \<not> IsContentFloorKey k"
proof -
  have "\<forall>k\<in>set [''inputs_or_signed_url'', ''outputs_or_signed_url'']. k \<in> set validLangsmithSelectEnum \<and> k \<notin> set hardDeniedRunsFields \<and>
      k \<notin> set AbsoluteNeverDenyKeys \<and> k \<notin> set grayBackstopDenyKeys \<and> (\<forall>p\<in>set genAIContentPrefixes. \<not> HasPrefix k p)"
    by code_simp
  then show ?thesis using assms by (auto simp: contentDenylist_def IsContentFloorKey_def)
qed

end
