(* ===== verification/Spec2Isabelle.thy ===== *)
theory Spec2Isabelle
  imports Frontier Scheduler Dynamo_Store Limiter Otlp_Emit Coordinator Portkey_Analytics Portkey_Groups Portkey_Logs_Live
    Langsmith_Runs_Live App
begin

text \<open>
  Verification of genai-otel-bridge, a service that reads usage analytics and request logs
  from GenAI vendors (Portkey, LangSmith), strips them of content and sends them as OTLP
  metrics and logs.

  \<^bold>\<open>The program.\<close> A source (\<^verbatim>\<open>internal/source\<close>) offers loops. A scheduler
  (\<^verbatim>\<open>internal/schedule\<close>) ticks every loop while this replica leads (\<^verbatim>\<open>internal/coordinate\<close>): a tick asks
  the loop to collect from the frontier, the batch goes to the loop's worker, the worker
  passes it through the guard (\<^verbatim>\<open>internal/source/guard.go\<close>), caps its points per minute and
  emits it bucket by bucket (\<^verbatim>\<open>internal/emit\<close>), and after each accepted bucket saves the
  watermark (\<^verbatim>\<open>internal/checkpoint\<close>). The fence of the checkpoint refuses a watermark that goes
  back in time or comes from a leader that was replaced. The configuration
  (\<^verbatim>\<open>internal/config\<close>) is checked before anything starts.

  \<^bold>\<open>Ground.\<close> \<open>Prelude\<close>: int64 wrap-around, instants and durations in nanoseconds, byte
  strings, stable sorting, finite maps and their lemmas. \<open>Go_Strconv\<close>, \<open>Go_Float\<close>, \<open>Go_Text\<close>,
  \<open>Go_Time\<close>, \<open>Go_Net\<close>, \<open>Go_Json\<close>: what the source uses of Go's standard library, as functions
  that compute (decimal integers, binary64 with rounding, durations, RFC 3339, address
  classes, JSON text), with the round trips the components rest on. \<open>Source_Io\<close> and
  \<open>Source_Scalar\<close>: HTTP requests and answers, JSON decoding into fields, the rendering of a
  JSON scalar.

  \<^bold>\<open>Data and stores.\<close> \<open>Model\<close> is \<^verbatim>\<open>internal/model/model.go\<close>. \<open>Checkpoint\<close> is the fence and the
  interface \<^verbatim>\<open>Checkpointer\<close>, a record of operations with three contracts stated as locales:
  \<open>shared_checkpointer\<close> (others write too; what is stored only grows), \<open>checkpointer\<close> (this
  process is the only writer) and \<open>logged_checkpointer\<close> (a store with a history, from which the
  first follows). \<open>File_Store\<close>, \<open>Configmap_Store\<close> and \<open>Dynamo_Store\<close> are the three
  implementations; each proves its contract, the last two for every API server or table that
  obeys the laws in \<open>configmap_server\<close> and \<open>dynamo_table\<close>, with the read-modify-write loops,
  their conflicts, lost answers and other writers in between.

  \<^bold>\<open>Pipeline.\<close> \<open>Guard\<close> is the content floor and the guard, \<open>Coalesce\<close> the emission errors and the
  cap, \<open>Otlp_Encode\<close>, \<open>Otlp_Reject\<close> and \<open>Otlp_Emit\<close> the encoders, the reading of an answer and
  the retry loop. \<open>Runner\<close> is \<^verbatim>\<open>internal/schedule/runner.go\<close>, written against the record of
  checkpoint operations; \<open>Frontier\<close> proves its theorems in the locale \<open>runner_world\<close>, once for
  every store, and reads them off for the file and the ConfigMap store. \<open>Scheduler\<close> is the
  tick as a function and the interleaving of tick goroutine, worker, loss of leadership and
  election as a step relation. \<open>Registry\<close> is \<^verbatim>\<open>internal/source/source.go\<close>. \<open>Coordinator\<close> is
  leader election: the DynamoDB lock with any number of replicas as a step relation over the
  locale \<open>lock_table\<close>, and the parts of the Kubernetes lease that are the program's own.
  \<open>Limiter\<close> bounds log lines. \<open>Config\<close> is \<^verbatim>\<open>internal/config/config.go\<close>.

  \<^bold>\<open>Portkey.\<close> \<open>Portkey_Derive\<close>, \<open>Portkey_Revision\<close> and \<open>Portkey_Analytics\<close> are the analytics
  loop, \<open>Portkey_Usecase\<close> and \<open>Portkey_Scope\<close> the split by use case and the check of the
  workspace, \<open>Portkey_Groups\<close> the snapshot loop. The log export is \<open>Portkey_Strip\<close> (what of a
  vendor's record is kept), \<open>Portkey_Logs_Settings\<close>, \<open>Portkey_Logs_Download\<close> (the reader of lines,
  chunk by chunk), \<open>Portkey_Logs_Export\<close> (the calls, the cursor and its JSON, the steps),
  \<open>Portkey_Logs_Machine\<close> (the invariant of its runs) and \<open>Portkey_Logs_Live\<close> (a window is
  completed).

  \<^bold>\<open>LangSmith.\<close> \<open>Langsmith_Strip\<close>, \<open>Langsmith_Runs_Settings\<close> and \<open>Langsmith_Runs\<close> are the runs loop
  (\<^verbatim>\<open>runs*.go\<close>): what of a run is kept, the settings, the discovery of projects with its cache, the
  query, the cursor and the window. \<open>Langsmith_Paging\<close> is the paging that three loops share, total
  for any server. \<open>Langsmith_Runs_Live\<close> has the invariant of its runs and that a window is drained
  page by page. \<open>Langsmith_Sessions\<close> and \<open>Langsmith_Usage\<close> are the two snapshot loops and the
  constructor of the source, \<open>Langsmith_Snapshot\<close> what a snapshot may hold.

  \<^bold>\<open>Egress and composition.\<close> \<open>Go_Addr\<close> reads addresses and \<open>Httpx\<close> is \<^verbatim>\<open>internal/httpx/httpx.go\<close>,
  the client of every source: its checks before a request, on every redirect and at the dial,
  over any names and network. \<open>App\<close> is \<^verbatim>\<open>internal/app/app.go\<close> with the constructor of the Portkey
  source: from a configuration to the loops, the guard they share, their runners and the
  epoch a replica without election writes with.

  \<^bold>\<open>What is shown.\<close> No watermark covers a sample that was neither accepted nor counted; the
  durable watermark only grows, on every store and with any interleaving of writers; the
  frontier in memory is never ahead of it; at most one batch is in flight and one replica
  leads. What leaves through the guard has no content key, and the log strip lets nothing
  outside its field list be observed. The retry loop ends and reports honestly, splitting
  sends everything once, the encoders do not depend on order. A configuration that passes
  has no unsafe zero and sends no credential in clear. The loops collect exactly the settled
  buckets of their window, with bounded memory and bounded pages; the log export keeps its
  frontier behind every window that is not complete, and completes a window in a known
  number of ticks when the vendor answers, and so does the runs loop. No request of a source
  reaches an address the client is to keep it from. A built application governs every loop
  as its own configuration asks, and a single replica is not fenced by what an election left.

  \<^bold>\<open>Bounds and fuel.\<close> There is no fuel that cuts a run short: the loops are structural or come
  with a termination proof, and where the source bounds a loop (retries, pages, save
  attempts) the model counts the same bound. Integers wrap where the source computes with
  int64 on data it does not bound; instants are unbounded integers, and the theorems that
  need them in range say so (year 9999 of the time text, \<open>clock_ok\<close>, \<open>CheckEncodable\<close>).

  \<^bold>\<open>Parameters.\<close> Code outside the repository is an argument: the HTTP transport, DNS and the URL
  parser, the Kubernetes and DynamoDB clients, the YAML library, gzip and protobuf, the hash,
  the environment and files, the clock and random numbers. A theorem that relies on more
  than their type has the law as a hypothesis or a locale assumption, and a witness or an
  interpretation on a concrete instance.

  \<^bold>\<open>Not modelled.\<close> The process entry (\<^verbatim>\<open>cmd/genai-otel-bridge\<close>), \<^verbatim>\<open>App.Run\<close> with its health server and the
  offline validation of a file are flags, signals and I/O around what is modelled. The self
  observability (\<^verbatim>\<open>internal/selfobs\<close>), log handlers and trace spans set up SDKs outside the repository
  and feed nothing back. The generators of the chart and of the documentation
  (\<^verbatim>\<open>internal/config/gen\<close>, \<^verbatim>\<open>internal/docs\<close>) and the rendered examples and signal lists of the sources produce
  text at build time. The election on a Kubernetes lease is client-go's. Texts of errors are
  abbreviated: which error is returned is modelled, not its whole wording.
\<close>

end
